(* ===== verification/Prelude.thy ===== *)
theory Prelude
  imports
    "HOL-Library.Word" "HOL-Library.Char_ord" "HOL-Library.List_Lexorder"
    "HOL-Library.Sublist"
begin

text \<open>
  What the components share: the byte-level reading of Go strings, the parts of the Go
  standard library the source calls (decimal parsing and formatting, UTF-8 decoding, the
  string quoting of encoding/json, the RFC 3339 layout of package time), and generic lemmas.

  A Go \<^verbatim>\<open>string\<close> or \<^verbatim>\<open>[]byte\<close> is a \<open>string\<close>, one \<open>char\<close> per byte; \<open>b2n\<close> is the
  value of a byte.  A Go error return is the left side of a sum, or \<open>Some\<close> of an error where
  the function returns nothing else.
\<close>

section \<open>Collections of facts\<close>

named_theorems byte_simps \<open>classification of single bytes\<close>
named_theorems frame_simps \<open>fields an operation leaves unchanged\<close>

section \<open>Bytes\<close>

type_synonym bytes = string

abbreviation b2n :: "char \<Rightarrow> nat" where
  "b2n c \<equiv> of_char c"

definition is_digit :: "char \<Rightarrow> bool" where
  "is_digit c \<longleftrightarrow> 48 \<le> b2n c \<and> b2n c \<le> 57"

definition is_lower :: "char \<Rightarrow> bool" where
  "is_lower c \<longleftrightarrow> 97 \<le> b2n c \<and> b2n c \<le> 122"

definition is_upper :: "char \<Rightarrow> bool" where
  "is_upper c \<longleftrightarrow> 65 \<le> b2n c \<and> b2n c \<le> 90"

definition digit_val :: "char \<Rightarrow> nat" where
  "digit_val c = b2n c - 48"

definition digit_char :: "nat \<Rightarrow> char" where
  "digit_char n = char_of (48 + n)"

lemma b2n_inj: "b2n c = b2n d \<longleftrightarrow> c = d"
  by simp

lemma b2n_less: "b2n c < 256"
  by (simp add: less_char_def)

lemma digit_val_less [simp]: "is_digit c \<Longrightarrow> digit_val c < 10"
  unfolding is_digit_def digit_val_def by linarith

lemma digit_char_b2n: "n < 10 \<Longrightarrow> b2n (digit_char n) = 48 + n"
  by (simp add: digit_char_def of_char_of)

lemma is_digit_digit_char [simp]: "n < 10 \<Longrightarrow> is_digit (digit_char n)"
  by (simp add: is_digit_def digit_char_b2n)

lemma digit_val_digit_char [simp]: "n < 10 \<Longrightarrow> digit_val (digit_char n) = n"
  by (simp add: digit_val_def digit_char_b2n)

lemma digit_char_eq_zero: "n < 10 \<Longrightarrow> digit_char n = CHR ''0'' \<longleftrightarrow> n = 0"
proof -
  assume n: "n < 10"
  have "digit_char n = CHR ''0'' \<longleftrightarrow> b2n (digit_char n) = b2n (CHR ''0'')"
    by (simp only: b2n_inj)
  also have "\<dots> \<longleftrightarrow> n = 0" using n by (simp add: digit_char_b2n)
  finally show ?thesis .
qed

section \<open>strconv: unsigned decimals\<close>

fun dec_digits :: "nat \<Rightarrow> string" where
  "dec_digits n = (if n < 10 then [digit_char n] else dec_digits (n div 10) @ [digit_char (n mod 10)])"

declare dec_digits.simps [simp del]

text \<open>\<^verbatim>\<open>strconv.FormatUint(n, 10)\<close>.\<close>

definition format_uint :: "nat \<Rightarrow> string" where
  "format_uint n = dec_digits n"

definition dec_value :: "string \<Rightarrow> nat" where
  "dec_value s = foldl (\<lambda>v c. v * 10 + digit_val c) 0 s"

text \<open>\<^verbatim>\<open>strconv.ParseUint(s, 10, 64)\<close>: no sign, no underscore, no empty string, below \<open>2 ^ 64\<close>.\<close>

definition parse_uint64 :: "string \<Rightarrow> nat option" where
  "parse_uint64 s =
     (if s \<noteq> [] \<and> list_all is_digit s \<and> dec_value s < 2 ^ 64 then Some (dec_value s) else None)"

lemma unat_of_nat_64: "m < 2 ^ 64 \<Longrightarrow> unat (of_nat m :: 64 word) = m"
  by (simp add: unat_of_nat)

lemma dec_value_from: "foldl (\<lambda>v c. v * 10 + digit_val c) n s = n * 10 ^ length s + dec_value s"
proof (induction s arbitrary: n)
  case Nil
  then show ?case by (simp add: dec_value_def)
next
  case (Cons c s)
  show ?case
    using Cons [of "n * 10 + digit_val c"] Cons [of "digit_val c"]
    by (simp add: dec_value_def algebra_simps)
qed

lemma dec_value_Cons: "dec_value (c # s) = digit_val c * 10 ^ length s + dec_value s"
  using dec_value_from [of "digit_val c" s] by (simp add: dec_value_def)

lemma dec_value_snoc: "dec_value (s @ [c]) = dec_value s * 10 + digit_val c"
  by (simp add: dec_value_def)

lemma dec_digits_digits: "list_all is_digit (dec_digits n)"
proof (induction n rule: dec_digits.induct)
  case (1 n)
  then show ?case by (subst dec_digits.simps) auto
qed

lemma dec_digits_nonempty [simp]: "dec_digits n \<noteq> []"
  by (subst dec_digits.simps) simp

lemma dec_value_dec_digits [simp]: "dec_value (dec_digits n) = n"
proof (induction n rule: dec_digits.induct)
  case (1 n)
  show ?case
  proof (cases "n < 10")
    case True
    then show ?thesis by (subst dec_digits.simps) (simp add: dec_value_def)
  next
    case False
    with "1.IH" show ?thesis
      by (subst dec_digits.simps) (simp add: dec_value_snoc)
  qed
qed

lemma parse_format_uint: "n < 2 ^ 64 \<Longrightarrow> parse_uint64 (format_uint n) = Some n"
  by (simp add: parse_uint64_def format_uint_def dec_digits_digits)

lemma format_uint_inj: "format_uint m = format_uint n \<longleftrightarrow> m = n"
  by (metis dec_value_dec_digits format_uint_def)

lemma dec_digits_hd: "0 < n \<Longrightarrow> hd (dec_digits n) \<noteq> CHR ''0''"
proof (induction n rule: dec_digits.induct)
  case (1 n)
  show ?case
  proof (cases "n < 10")
    case True
    with "1.prems" show ?thesis by (subst dec_digits.simps) (simp add: digit_char_eq_zero)
  next
    case False
    with "1.IH" show ?thesis by (subst dec_digits.simps) (auto simp: hd_append)
  qed
qed

lemma dec_value_less_pow: "list_all is_digit s \<Longrightarrow> dec_value s < 10 ^ length s"
proof (induction s rule: rev_induct)
  case Nil
  then show ?case by (simp add: dec_value_def)
next
  case (snoc c s)
  then have "dec_value s < 10 ^ length s" and "digit_val c < 10" by simp_all
  then show ?case by (simp add: dec_value_snoc)
qed

section \<open>unicode/utf8\<close>

text \<open>
  \<^verbatim>\<open>utf8.DecodeRune\<close>: the rune and the number of bytes it takes.  An invalid encoding is
  reported as \<^verbatim>\<open>RuneError\<close> with width 1 (\<open>None\<close> here), after which decoding goes on with the
  next byte.  The accepted ranges are those of the Unicode standard: no overlong form, no
  surrogate, nothing above U+10FFFF.
\<close>

definition cont_byte :: "char \<Rightarrow> bool" where
  "cont_byte c \<longleftrightarrow> 128 \<le> b2n c \<and> b2n c \<le> 191"

definition rune2 :: "char \<Rightarrow> char \<Rightarrow> nat" where
  "rune2 a b = (b2n a - 192) * 64 + (b2n b - 128)"

definition rune3 :: "char \<Rightarrow> char \<Rightarrow> char \<Rightarrow> nat" where
  "rune3 a b c = (b2n a - 224) * 4096 + (b2n b - 128) * 64 + (b2n c - 128)"

definition rune4 :: "char \<Rightarrow> char \<Rightarrow> char \<Rightarrow> char \<Rightarrow> nat" where
  "rune4 a b c d = (b2n a - 240) * 262144 + (b2n b - 128) * 4096 + (b2n c - 128) * 64 + (b2n d - 128)"

definition second_ok3 :: "char \<Rightarrow> char \<Rightarrow> bool" where
  "second_ok3 a b \<longleftrightarrow> cont_byte b \<and> (b2n a = 224 \<longrightarrow> 160 \<le> b2n b) \<and> (b2n a = 237 \<longrightarrow> b2n b \<le> 159)"

definition second_ok4 :: "char \<Rightarrow> char \<Rightarrow> bool" where
  "second_ok4 a b \<longleftrightarrow> cont_byte b \<and> (b2n a = 240 \<longrightarrow> 144 \<le> b2n b) \<and> (b2n a = 244 \<longrightarrow> b2n b \<le> 143)"

definition decode_rune :: "string \<Rightarrow> (nat \<times> nat) option" where
  "decode_rune s =
     (case s of
        [] \<Rightarrow> None
      | a # r1 \<Rightarrow>
          if b2n a < 128 then Some (b2n a, 1)
          else (case r1 of [] \<Rightarrow> None | b # r2 \<Rightarrow>
            if 194 \<le> b2n a \<and> b2n a \<le> 223 then
              (if cont_byte b then Some (rune2 a b, 2) else None)
            else (case r2 of [] \<Rightarrow> None | c # r3 \<Rightarrow>
              if 224 \<le> b2n a \<and> b2n a \<le> 239 then
                (if second_ok3 a b \<and> cont_byte c then Some (rune3 a b c, 3) else None)
              else (case r3 of [] \<Rightarrow> None | d # _ \<Rightarrow>
                if 240 \<le> b2n a \<and> b2n a \<le> 244 then
                  (if second_ok4 a b \<and> cont_byte c \<and> cont_byte d then Some (rune4 a b c d, 4) else None)
                else None))))"

lemma decode_rune_width: "decode_rune s = Some (r, w) \<Longrightarrow> 0 < w \<and> w \<le> length s \<and> w \<le> 4"
  by (auto simp: decode_rune_def split: list.splits if_splits)

text \<open>\<^verbatim>\<open>utf8.Valid\<close>.\<close>

function utf8_valid :: "string \<Rightarrow> bool" where
  "utf8_valid s =
     (if s = [] then True
      else (case decode_rune s of None \<Rightarrow> False | Some (r, w) \<Rightarrow> utf8_valid (drop w s)))"
  by pat_completeness auto
termination
  by (relation "measure length") (auto dest!: decode_rune_width)

declare utf8_valid.simps [simp del]

lemma utf8_valid_Nil [simp]: "utf8_valid []"
  by (simp add: utf8_valid.simps)

lemma utf8_valid_ascii: "list_all (\<lambda>c. b2n c < 128) s \<Longrightarrow> utf8_valid s"
proof (induction s)
  case Nil
  then show ?case by simp
next
  case (Cons c s)
  then show ?case by (subst utf8_valid.simps) (simp add: decode_rune_def)
qed

text \<open>\<^verbatim>\<open>utf8.EncodeRune\<close> for the runes of the basic plane that are not surrogates.\<close>

definition encode_rune :: "nat \<Rightarrow> string" where
  "encode_rune r =
     (if r < 128 then [char_of r]
      else if r < 2048 then [char_of (192 + r div 64), char_of (128 + r mod 64)]
      else [char_of (224 + r div 4096), char_of (128 + (r div 64) mod 64), char_of (128 + r mod 64)])"

lemma encode_rune_length: "length (encode_rune r) \<le> 3"
  by (simp add: encode_rune_def)

section \<open>encoding/json: quoting a string\<close>

definition hex_digit :: "nat \<Rightarrow> char" where
  "hex_digit n = (if n < 10 then char_of (48 + n) else char_of (87 + n))"

definition json_escape_byte :: "char \<Rightarrow> string" where
  "json_escape_byte c =
     (let n = b2n c in
      if n = 34 \<or> n = 92 then [CHR 0x5C, c]
      else if n = 8 then [CHR 0x5C, CHR ''b'']
      else if n = 12 then [CHR 0x5C, CHR ''f'']
      else if n = 10 then [CHR 0x5C, CHR ''n'']
      else if n = 13 then [CHR 0x5C, CHR ''r'']
      else if n = 9 then [CHR 0x5C, CHR ''t'']
      else if n < 32 \<or> n = 60 \<or> n = 62 \<or> n = 38
        then CHR 0x5C # ''u00'' @ [hex_digit (n div 16), hex_digit (n mod 16)]
      else [c])"

text \<open>
  The body of a quoted string as \<^verbatim>\<open>json.Marshal\<close> writes it (HTML escaping on): an invalid
  byte becomes the escape of U+FFFD, and U+2028 and U+2029 are escaped.
\<close>

function json_body :: "string \<Rightarrow> string" where
  "json_body s =
     (case s of
        [] \<Rightarrow> []
      | c # r \<Rightarrow>
          if b2n c < 128 then json_escape_byte c @ json_body r
          else (case decode_rune s of
                  None \<Rightarrow> CHR 0x5C # ''ufffd'' @ json_body r
                | Some (u, w) \<Rightarrow>
                    (if u = 8232 then CHR 0x5C # ''u2028''
                     else if u = 8233 then CHR 0x5C # ''u2029''
                     else take w s) @ json_body (drop w s)))"
  by pat_completeness auto
termination
  by (relation "measure length") (auto dest!: decode_rune_width)

declare json_body.simps [simp del]

definition json_quote :: "string \<Rightarrow> string" where
  "json_quote s = CHR 0x22 # json_body s @ [CHR 0x22]"

lemma json_escape_byte_length: "length (json_escape_byte c) \<le> 6"
  by (simp add: json_escape_byte_def Let_def)

lemma json_body_length: "length (json_body s) \<le> 6 * length s"
proof (induction s rule: json_body.induct)
  case (1 s)
  show ?case
  proof (cases s)
    case Nil
    then show ?thesis by (subst json_body.simps) simp
  next
    case s: (Cons c r)
    show ?thesis
    proof (cases "b2n c < 128")
      case True
      with "1.IH"(1) [OF s] json_escape_byte_length [of c] s show ?thesis
        by (subst json_body.simps) simp
    next
      case False
      show ?thesis
      proof (cases "decode_rune s")
        case None
        with "1.IH"(2) [OF s False] s False show ?thesis
          by (subst json_body.simps) simp
      next
        case (Some p)
        obtain u w where p: "p = (u, w)" by (cases p)
        have w: "0 < w" "w \<le> length s" using decode_rune_width Some p by blast+
        have ih: "length (json_body (drop w s)) \<le> 6 * length (drop w s)"
          using "1.IH"(3) [OF s False Some p [symmetric]] .
        have eq: "json_body s = (if u = 8232 then CHR 0x5C # ''u2028''
                     else if u = 8233 then CHR 0x5C # ''u2029'' else take w s) @ json_body (drop w s)"
          by (subst json_body.simps) (use s False Some p in simp)
        show ?thesis using ih w by (auto simp: eq)
      qed
    qed
  qed
qed

lemma json_quote_length: "length (json_quote s) \<le> 6 * length s + 2"
  using json_body_length [of s] by (simp add: json_quote_def)

section \<open>time: the RFC 3339 layout\<close>

text \<open>
  A \<^verbatim>\<open>time.Time\<close> as its reading in UTC.  The zero value of the Go type is the first instant
  of year 1.
\<close>

record go_time =
  t_year :: nat
  t_month :: nat
  t_day :: nat
  t_hour :: nat
  t_min :: nat
  t_sec :: nat
  t_nanos :: nat

definition zero_time :: go_time where
  "zero_time = \<lparr>t_year = 1, t_month = 1, t_day = 1, t_hour = 0, t_min = 0, t_sec = 0, t_nanos = 0\<rparr>"

definition leap_year :: "nat \<Rightarrow> bool" where
  "leap_year y \<longleftrightarrow> 4 dvd y \<and> (\<not> 100 dvd y \<or> 400 dvd y)"

definition days_in :: "nat \<Rightarrow> nat \<Rightarrow> nat" where
  "days_in y m =
     (if m = 2 then (if leap_year y then 29 else 28)
      else if m \<in> {4, 6, 9, 11} then 30 else 31)"

definition civil_ok :: "go_time \<Rightarrow> bool" where
  "civil_ok t \<longleftrightarrow>
     1 \<le> t_month t \<and> t_month t \<le> 12 \<and> 1 \<le> t_day t \<and> t_day t \<le> days_in (t_year t) (t_month t) \<and>
     t_hour t < 24 \<and> t_min t < 60 \<and> t_sec t < 60 \<and> t_nanos t < 1000000000"

definition pad2 :: "nat \<Rightarrow> string" where
  "pad2 n = [digit_char (n div 10), digit_char (n mod 10)]"

definition pad3 :: "nat \<Rightarrow> string" where
  "pad3 n = [digit_char (n div 100), digit_char (n div 10 mod 10), digit_char (n mod 10)]"

definition pad4 :: "nat \<Rightarrow> string" where
  "pad4 n =
     (if n < 10000
      then [digit_char (n div 1000), digit_char (n div 100 mod 10), digit_char (n div 10 mod 10), digit_char (n mod 10)]
      else dec_digits n)"

text \<open>\<^verbatim>\<open>t.UTC().Format("2006-01-02T15:04:05.000Z")\<close>: milliseconds are truncated.\<close>

definition format_millis :: "go_time \<Rightarrow> string" where
  "format_millis t =
     pad4 (t_year t) @ ''-'' @ pad2 (t_month t) @ ''-'' @ pad2 (t_day t) @ ''T'' @
     pad2 (t_hour t) @ '':'' @ pad2 (t_min t) @ '':'' @ pad2 (t_sec t) @ ''.'' @
     pad3 (t_nanos t div 1000000) @ ''Z''"

text \<open>
  \<^verbatim>\<open>time.Parse(time.RFC3339Nano, s)\<close>, as far as whether it succeeds.  The number readers are
  those of package time: two digits, except that the hour may have one; the fraction is a
  period or a comma and any number of digits, and may be absent; the zone is \<^verbatim>\<open>Z\<close> or a signed
  \<^verbatim>\<open>hh:mm\<close> with at most 24 hours and 60 minutes.
\<close>

fun num2 :: "string \<Rightarrow> (nat \<times> string) option" where
  "num2 (a # b # r) =
     (if is_digit a \<and> is_digit b then Some (digit_val a * 10 + digit_val b, r) else None)"
| "num2 _ = None"

fun num12 :: "string \<Rightarrow> (nat \<times> string) option" where
  "num12 (a # r) =
     (if \<not> is_digit a then None
      else (case r of
              b # r' \<Rightarrow> if is_digit b then Some (digit_val a * 10 + digit_val b, r') else Some (digit_val a, r)
            | [] \<Rightarrow> Some (digit_val a, r)))"
| "num12 _ = None"

fun num4 :: "string \<Rightarrow> (nat \<times> string) option" where
  "num4 (a # b # c # d # r) =
     (if is_digit a \<and> is_digit b \<and> is_digit c \<and> is_digit d
      then Some (dec_value [a, b, c, d], r) else None)"
| "num4 _ = None"

fun lit :: "char \<Rightarrow> string \<Rightarrow> string option" where
  "lit c (d # r) = (if c = d then Some r else None)"
| "lit c [] = None"

definition skip_fraction :: "string \<Rightarrow> string" where
  "skip_fraction s =
     (case s of
        p # d # r \<Rightarrow>
          if (p = CHR ''.'' \<or> p = CHR '','') \<and> is_digit d then dropWhile is_digit (d # r) else s
      | _ \<Rightarrow> s)"

definition zone_ok :: "string \<Rightarrow> bool" where
  "zone_ok s =
     (s = ''Z'' \<or>
      (case s of
         [sg, a, b, c, d, e] \<Rightarrow>
           (sg = CHR ''+'' \<or> sg = CHR ''-'') \<and> c = CHR '':'' \<and>
           is_digit a \<and> is_digit b \<and> is_digit d \<and> is_digit e \<and>
           digit_val a * 10 + digit_val b \<le> 24 \<and> digit_val d * 10 + digit_val e \<le> 60
       | _ \<Rightarrow> False))"

definition rfc3339_ok :: "string \<Rightarrow> bool" where
  "rfc3339_ok s =
     (case Option.bind (num4 s) (\<lambda>(y, s).
           Option.bind (lit (CHR ''-'') s) (\<lambda>s. Option.bind (num2 s) (\<lambda>(m, s).
           Option.bind (lit (CHR ''-'') s) (\<lambda>s. Option.bind (num2 s) (\<lambda>(d, s).
           Option.bind (lit (CHR ''T'') s) (\<lambda>s. Option.bind (num12 s) (\<lambda>(h, s).
           Option.bind (lit (CHR '':'') s) (\<lambda>s. Option.bind (num2 s) (\<lambda>(mi, s).
           Option.bind (lit (CHR '':'') s) (\<lambda>s. Option.bind (num2 s) (\<lambda>(sc, s).
             Some (1 \<le> m \<and> m \<le> 12 \<and> 1 \<le> d \<and> d \<le> days_in y m \<and> h < 24 \<and> mi < 60 \<and> sc < 60 \<and>
                   zone_ok (skip_fraction s))))))))))))) of
        None \<Rightarrow> False
      | Some ok \<Rightarrow> ok)"

lemma num2_pad2: "n < 100 \<Longrightarrow> num2 (pad2 n @ r) = Some (n, r)"
  by (simp add: pad2_def)

lemma num12_pad2: "n < 100 \<Longrightarrow> num12 (pad2 n @ r) = Some (n, r)"
  by (simp add: pad2_def)

lemma num4_pad4: "n < 10000 \<Longrightarrow> num4 (pad4 n @ r) = Some (n, r)"
proof -
  assume n: "n < 10000"
  have d: "n div 1000 < 10" "n div 100 mod 10 < 10" "n div 10 mod 10 < 10" "n mod 10 < 10"
    using n by auto
  have v: "((n div 1000 * 10 + n div 100 mod 10) * 10 + n div 10 mod 10) * 10 + n mod 10 = n"
  proof -
    have "n div 1000 = n div 100 div 10" "n div 100 = n div 10 div 10"
      by (simp_all add: div_mult2_eq [symmetric])
    then show ?thesis by presburger
  qed
  show ?thesis using n d v by (simp add: pad4_def dec_value_def)
qed

lemma days_in_le: "days_in y m \<le> 31"
  by (simp add: days_in_def)

lemma rfc3339_format_millis:
  assumes t: "civil_ok t" and y: "t_year t < 10000"
  shows "rfc3339_ok (format_millis t)"
proof -
  have b: "t_month t < 100" "t_day t < 100" "t_hour t < 100" "t_min t < 100" "t_sec t < 100"
    using t days_in_le [of "t_year t" "t_month t"] by (auto simp: civil_ok_def)
  have ms: "t_nanos t div 1000000 < 1000" using t by (auto simp: civil_ok_def)
  have d: "t_nanos t div 1000000 div 100 < 10" using ms by auto
  have z: "skip_fraction (''.'' @ pad3 (t_nanos t div 1000000) @ ''Z'') = ''Z''"
    using ms d by (simp add: skip_fraction_def pad3_def is_digit_def [of "CHR ''Z''"])
  show ?thesis
    using t y b z
    by (simp add: rfc3339_ok_def format_millis_def num4_pad4 num2_pad2 num12_pad2 civil_ok_def zone_ok_def)
qed

section \<open>Lists\<close>

lemma list_all_take: "list_all P xs \<Longrightarrow> list_all P (take n xs)"
  by (auto simp: list_all_iff dest: in_set_takeD)

lemma foldl_snoc_append: "foldl f a (xs @ ys) = foldl f (foldl f a xs) ys"
  by simp

end
