(* ===== verification/Wire.thy ===== *)
theory Wire
  imports Prelude
begin

text \<open>
  The wire data models of \<^verbatim>\<open>pkg/wire\<close>: the provider observation envelope with its validation
  (\<^verbatim>\<open>wire.go\<close>), and the submission acknowledgement and service discovery document
  (\<^verbatim>\<open>protocol.go\<close>).  A Go map is an association list in the order an iteration visits it (Go
  leaves that order open).  A \<^verbatim>\<open>float64\<close> in a source-data map is represented by the text
  encoding/json gives it, \<open>None\<close> for the values it refuses.
\<close>

section \<open>Constants and closed sets\<close>

definition ObservationVersion :: string where
  "ObservationVersion = ''provider-observation-v1''"

definition SourceProfileOpenRouterV1 :: string where
  "SourceProfileOpenRouterV1 = ''OPENROUTER_V1''"

definition SourceProfileSearchRouterV1 :: string where
  "SourceProfileSearchRouterV1 = ''SEARCH_ROUTER_V1''"

record source_profile =
  sp_name :: string
  sp_source_data :: "string list"
  sp_event_id_field :: string

definition sourceDataAllowlistOpenRouterV1 :: "string list" where
  "sourceDataAllowlistOpenRouterV1 = [''provider_name'', ''native_finish_reason'']"

definition sourceDataAllowlistSearchRouterV1 :: "string list" where
  "sourceDataAllowlistSearchRouterV1 = []"

definition sourceProfiles :: "(string \<times> source_profile) list" where
  "sourceProfiles =
     [(SourceProfileOpenRouterV1,
       \<lparr>sp_name = SourceProfileOpenRouterV1, sp_source_data = sourceDataAllowlistOpenRouterV1,
        sp_event_id_field = ''generation_id''\<rparr>),
      (SourceProfileSearchRouterV1,
       \<lparr>sp_name = SourceProfileSearchRouterV1, sp_source_data = sourceDataAllowlistSearchRouterV1,
        sp_event_id_field = ''request_id''\<rparr>)]"

definition OutcomeComplete :: string where
  "OutcomeComplete = ''COMPLETE''"

definition OutcomeAbandoned :: string where
  "OutcomeAbandoned = ''ABANDONED''"

definition MaxSourceDataKeys :: nat where "MaxSourceDataKeys = 8"
definition MaxSourceDataValueBytes :: nat where "MaxSourceDataValueBytes = 128"
definition MaxSourceDataBytes :: nat where "MaxSourceDataBytes = 1024"

definition terminations :: "string list" where
  "terminations = [''done'', ''eof_without_done'', ''client_disconnect'', ''upstream_error_event'']"

definition abandonReasons :: "string list" where
  "abandonReasons =
     [''observer_overrun'', ''body_too_large'', ''encoded_body'', ''max_depth_exceeded'', ''malformed_body'']"

section \<open>The envelope\<close>

record usage_v1 =
  u_prompt_tokens :: string
  u_completion_tokens :: string
  u_total_tokens :: string
  u_cached_tokens :: string
  u_reasoning_tokens :: string
  u_cost :: string

record outcome_v1 =
  oc_type :: string
  oc_termination :: string
  oc_reason :: string

datatype source_value =
    SStr string
  | SFloat "string option"
  | SBool bool
  | SNil
  | SOther

record provider_observation =
  po_version :: string
  po_client_record_id :: string
  po_source_profile :: string
  po_provider_event_id :: string
  po_requested_model :: string
  po_resolved_model :: string
  po_request_parameters :: "(string \<times> source_value) list"
  po_started_at :: string
  po_finished_at :: string
  po_streaming :: bool
  po_status_code :: int
  po_usage :: "usage_v1 option"
  po_finish_reason :: string
  po_outcome :: outcome_v1
  po_saw_done :: bool
  po_saw_usage :: bool
  po_saw_finish_reason :: bool
  po_parse_degraded :: bool
  po_metadata_conflict :: bool
  po_source_data :: "(string \<times> source_value) list option"

datatype wire_error =
    BadVersion string
  | BadClientRecordID
  | UnknownSourceProfile string
  | BadProviderEventID string string
  | BadTermination string
  | CompleteWithReason
  | BadReason string
  | AbandonedWithTermination
  | BadOutcomeType string
  | BadTimestamp string
  | BadStatusCode int
  | BadCounter string string
  | BadCost string
  | RequestParametersPresent string
  | TooManySourceKeys nat
  | SourceKeyNotAllowed string string
  | SourceValueTooLong string
  | SourceValueNotScalar string
  | SourceDataUnserializable
  | SourceDataTooLong nat
  | BadDiscoveryVersion string
  | EmptyChainID
  | BadSlotID string
  | EmptyDiscoveryField string
  | NoSourceProfiles
  | BadDiscoveryLimits
  | ChainMismatch string string
  | SlotMismatch nat nat

section \<open>Canonical decimals\<close>

text \<open>\<^verbatim>\<open>isCanonicalUnsignedDecimal\<close>, \<^verbatim>\<open>allDigits\<close>, \<^verbatim>\<open>isCanonicalDecimal\<close>.\<close>

definition isCanonicalUnsignedDecimal :: "string \<Rightarrow> bool" where
  "isCanonicalUnsignedDecimal s =
     (if s = [] \<or> (1 < length s \<and> hd s = CHR ''0'') then False else list_all is_digit s)"

definition allDigits :: "string \<Rightarrow> bool" where
  "allDigits s = (if s = [] then False else list_all is_digit s)"

text \<open>The loop over the first period: \<open>pre\<close> is \<^verbatim>\<open>s[:i]\<close>.\<close>

fun canonical_decimal_from :: "string \<Rightarrow> string \<Rightarrow> bool" where
  "canonical_decimal_from pre [] = isCanonicalUnsignedDecimal pre"
| "canonical_decimal_from pre (c # r) =
     (if c = CHR ''.'' then isCanonicalUnsignedDecimal pre \<and> allDigits r
      else canonical_decimal_from (pre @ [c]) r)"

definition isCanonicalDecimal :: "string \<Rightarrow> bool" where
  "isCanonicalDecimal s = canonical_decimal_from [] s"

section \<open>Validation\<close>

definition validate_outcome :: "outcome_v1 \<Rightarrow> wire_error option" where
  "validate_outcome out =
     (if oc_type out = OutcomeComplete then
        (if oc_termination out \<notin> set terminations then Some (BadTermination (oc_termination out))
         else if oc_reason out \<noteq> [] then Some CompleteWithReason
         else None)
      else if oc_type out = OutcomeAbandoned then
        (if oc_reason out \<notin> set abandonReasons then Some (BadReason (oc_reason out))
         else if oc_termination out \<noteq> [] then Some AbandonedWithTermination
         else None)
      else Some (BadOutcomeType (oc_type out)))"

fun first_error :: "('a \<Rightarrow> 'e option) \<Rightarrow> 'a list \<Rightarrow> 'e option" where
  "first_error f [] = None"
| "first_error f (x # xs) = (case f x of Some e \<Rightarrow> Some e | None \<Rightarrow> first_error f xs)"

definition usage_counters :: "usage_v1 \<Rightarrow> (string \<times> string) list" where
  "usage_counters u =
     [(''prompt_tokens'', u_prompt_tokens u), (''completion_tokens'', u_completion_tokens u),
      (''total_tokens'', u_total_tokens u), (''cached_tokens'', u_cached_tokens u),
      (''reasoning_tokens'', u_reasoning_tokens u)]"

definition validate_usage :: "usage_v1 \<Rightarrow> wire_error option" where
  "validate_usage u =
     (case first_error (\<lambda>(name, v).
             if v \<noteq> [] \<and> \<not> isCanonicalUnsignedDecimal v then Some (BadCounter name v) else None)
           (usage_counters u) of
        Some e \<Rightarrow> Some e
      | None \<Rightarrow> if u_cost u \<noteq> [] \<and> \<not> isCanonicalDecimal (u_cost u) then Some (BadCost (u_cost u)) else None)"

definition validate_source_entry :: "source_profile \<Rightarrow> string \<times> source_value \<Rightarrow> wire_error option" where
  "validate_source_entry prof kv =
     (case kv of (k, v) \<Rightarrow>
        if k \<notin> set (sp_source_data prof) then Some (SourceKeyNotAllowed k (sp_name prof))
        else (case v of
                SStr val \<Rightarrow> if MaxSourceDataValueBytes < length val then Some (SourceValueTooLong k) else None
              | SFloat _ \<Rightarrow> None
              | SBool _ \<Rightarrow> None
              | SNil \<Rightarrow> None
              | SOther \<Rightarrow> Some (SourceValueNotScalar k)))"

text \<open>\<^verbatim>\<open>json.Marshal\<close> of a map of scalars: keys in sorted order, HTML escaping on.\<close>

fun marshal_value :: "source_value \<Rightarrow> string option" where
  "marshal_value (SStr s) = Some (json_quote s)"
| "marshal_value (SFloat t) = t"
| "marshal_value (SBool b) = Some (if b then ''true'' else ''false'')"
| "marshal_value SNil = Some ''null''"
| "marshal_value SOther = None"

fun marshal_members :: "(string \<times> source_value) list \<Rightarrow> string option" where
  "marshal_members [] = Some []"
| "marshal_members ((k, v) # kvs) =
     (case (marshal_value v, marshal_members kvs) of
        (Some t, Some r) \<Rightarrow> Some (json_quote k @ '':'' @ t @ (if kvs = [] then [] else '','') @ r)
      | _ \<Rightarrow> None)"

definition marshal_map :: "(string \<times> source_value) list \<Rightarrow> string option" where
  "marshal_map kvs = map_option (\<lambda>b. CHR 0x7B # b @ [CHR 0x7D]) (marshal_members (sort_key fst kvs))"

definition validateSourceData :: "provider_observation \<Rightarrow> source_profile \<Rightarrow> wire_error option" where
  "validateSourceData o' prof =
     (case po_source_data o' of
        None \<Rightarrow> None
      | Some kvs \<Rightarrow>
          if MaxSourceDataKeys < length kvs then Some (TooManySourceKeys (length kvs))
          else (case first_error (validate_source_entry prof) kvs of
                  Some e \<Rightarrow> Some e
                | None \<Rightarrow>
                    (case marshal_map kvs of
                       None \<Rightarrow> Some SourceDataUnserializable
                     | Some raw \<Rightarrow>
                         if MaxSourceDataBytes < length raw then Some (SourceDataTooLong (length raw)) else None)))"

definition validate_observation :: "provider_observation \<Rightarrow> wire_error option" where
  "validate_observation o' =
     (if po_version o' \<noteq> ObservationVersion then Some (BadVersion (po_version o'))
      else if po_client_record_id o' = [] \<or> 128 < length (po_client_record_id o') then Some BadClientRecordID
      else (case map_of sourceProfiles (po_source_profile o') of
              None \<Rightarrow> Some (UnknownSourceProfile (po_source_profile o'))
            | Some prof \<Rightarrow>
                if po_provider_event_id o' = [] \<or> 256 < length (po_provider_event_id o')
                then Some (BadProviderEventID (sp_name prof) (sp_event_id_field prof))
                else (case validate_outcome (po_outcome o') of
                  Some e \<Rightarrow> Some e
                | None \<Rightarrow>
                  (case first_error (\<lambda>(name, ts). if ts = [] \<or> rfc3339_ok ts then None else Some (BadTimestamp name))
                          [(''started_at'', po_started_at o'), (''finished_at'', po_finished_at o')] of
                     Some e \<Rightarrow> Some e
                   | None \<Rightarrow>
                     if po_status_code o' \<noteq> 0 \<and> (po_status_code o' < 100 \<or> 599 < po_status_code o')
                     then Some (BadStatusCode (po_status_code o'))
                     else (case (case po_usage o' of None \<Rightarrow> None | Some u \<Rightarrow> validate_usage u) of
                       Some e \<Rightarrow> Some e
                     | None \<Rightarrow>
                       if po_request_parameters o' \<noteq> [] then Some (RequestParametersPresent (sp_name prof))
                       else validateSourceData o' prof)))))"

section \<open>protocol.go\<close>

record submission_ack =
  sa_submission_status :: string
  sa_observation_id :: string
  sa_client_record_id :: string
  sa_reconciliation_status :: string

definition SubmissionAccepted :: string where
  "SubmissionAccepted = ''ACCEPTED''"

definition SubmissionAlreadyAccepted :: string where
  "SubmissionAlreadyAccepted = ''ALREADY_ACCEPTED''"

definition ack_satisfied :: "submission_ack \<Rightarrow> bool" where
  "ack_satisfied a \<longleftrightarrow>
     sa_submission_status a = SubmissionAccepted \<or> sa_submission_status a = SubmissionAlreadyAccepted"

definition DiscoveryVersion :: string where
  "DiscoveryVersion = ''twilight-mining-as-v1''"

record discovery_document =
  dd_version :: string
  dd_chain_id :: string
  dd_slot_id :: string
  dd_authorization_server :: string
  dd_join_epoch_template :: string
  dd_epoch_status_template :: string
  dd_candidate_list_template :: string
  dd_current_target_template :: string
  dd_participation_resource :: string
  dd_observations_endpoint :: string
  dd_observations_batch_endpoint :: string
  dd_observation_status_template :: string
  dd_activity_status_template :: string
  dd_provider_verification_template :: string
  dd_enrollment_authorization_template :: string
  dd_source_profiles :: "string list"
  dd_max_observation_bytes :: int
  dd_max_observation_batch_size :: int
  dd_max_observation_batch_bytes :: int

definition required_fields :: "discovery_document \<Rightarrow> (string \<times> string) list" where
  "required_fields d =
     [(''authorization_server'', dd_authorization_server d),
      (''join_epoch_endpoint_template'', dd_join_epoch_template d),
      (''epoch_status_endpoint_template'', dd_epoch_status_template d),
      (''candidate_list_endpoint_template'', dd_candidate_list_template d),
      (''participation_resource'', dd_participation_resource d),
      (''observations_endpoint'', dd_observations_endpoint d),
      (''observations_batch_endpoint'', dd_observations_batch_endpoint d),
      (''observation_status_endpoint_template'', dd_observation_status_template d),
      (''activity_status_endpoint_template'', dd_activity_status_template d),
      (''provider_verification_endpoint_template'', dd_provider_verification_template d)]"

definition validate_discovery :: "discovery_document \<Rightarrow> wire_error option" where
  "validate_discovery d =
     (if dd_version d \<noteq> DiscoveryVersion then Some (BadDiscoveryVersion (dd_version d))
      else if dd_chain_id d = [] then Some EmptyChainID
      else if parse_uint64 (dd_slot_id d) = None then Some (BadSlotID (dd_slot_id d))
      else (case first_error (\<lambda>(name, v). if v = [] then Some (EmptyDiscoveryField name) else None)
                   (required_fields d) of
              Some e \<Rightarrow> Some e
            | None \<Rightarrow>
                if dd_source_profiles d = [] then Some NoSourceProfiles
                else if dd_max_observation_bytes d \<le> 0 \<or> dd_max_observation_batch_size d \<le> 0 \<or>
                        dd_max_observation_batch_bytes d \<le> 0 then Some BadDiscoveryLimits
                else None))"

definition CheckIdentity :: "discovery_document \<Rightarrow> string \<Rightarrow> nat \<Rightarrow> wire_error option" where
  "CheckIdentity d chainID slotID =
     (if dd_chain_id d \<noteq> chainID then Some (ChainMismatch (dd_chain_id d) chainID)
      else (case parse_uint64 (dd_slot_id d) of
              None \<Rightarrow> Some (BadSlotID (dd_slot_id d))
            | Some got \<Rightarrow> if got \<noteq> slotID then Some (SlotMismatch got slotID) else None))"

section \<open>Lemmas\<close>

lemma first_error_None_iff: "first_error f xs = None \<longleftrightarrow> (\<forall>x \<in> set xs. f x = None)"
  by (induction xs) (auto split: option.splits)

lemma canonical_format_uint: "isCanonicalUnsignedDecimal (format_uint n)"
proof (cases "n = 0")
  case True
  then show ?thesis
    by (simp add: isCanonicalUnsignedDecimal_def format_uint_def dec_digits.simps [of 0])
next
  case False
  then show ?thesis
    using dec_digits_hd [of n] dec_digits_digits [of n]
    by (simp add: isCanonicalUnsignedDecimal_def format_uint_def)
qed

lemma canonical_decimal_from_iff:
  "CHR ''.'' \<notin> set pre \<Longrightarrow>
   canonical_decimal_from pre s \<longleftrightarrow>
     (if CHR ''.'' \<in> set s
      then isCanonicalUnsignedDecimal (pre @ takeWhile (\<lambda>c. c \<noteq> CHR ''.'') s) \<and>
           allDigits (tl (dropWhile (\<lambda>c. c \<noteq> CHR ''.'') s))
      else isCanonicalUnsignedDecimal (pre @ s))"
  by (induction pre s rule: canonical_decimal_from.induct) auto

text \<open>A canonical decimal denotes one number in one way: the counters compare as texts.\<close>

lemma canonical_unique_aux:
  assumes "isCanonicalUnsignedDecimal s"
  shows "s = dec_digits (dec_value s)"
  using assms
proof (induction s rule: rev_induct)
  case Nil
  then show ?case by (simp add: isCanonicalUnsignedDecimal_def)
next
  case (snoc c s)
  have c: "is_digit c" using snoc.prems by (auto simp: isCanonicalUnsignedDecimal_def split: if_splits)
  have dc: "digit_char (digit_val c) = c"
    using c by (intro b2n_inj [THEN iffD1]) (simp add: digit_char_b2n, simp add: is_digit_def digit_val_def)
  show ?case
  proof (cases "s = []")
    case True
    then show ?thesis using c dc by (simp add: dec_value_def dec_digits.simps)
  next
    case False
    then have s: "isCanonicalUnsignedDecimal s" and h: "hd s \<noteq> CHR ''0''"
      using snoc.prems by (auto simp: isCanonicalUnsignedDecimal_def split: if_splits)
    have ih: "s = dec_digits (dec_value s)" using snoc.IH s by blast
    have pos: "0 < dec_value s"
    proof (rule ccontr)
      assume "\<not> 0 < dec_value s"
      with ih have "s = dec_digits 0" by simp
      with h show False by (simp add: dec_digits.simps [of 0] digit_char_eq_zero)
    qed
    have v: "dec_value (s @ [c]) = dec_value s * 10 + digit_val c" by (simp add: dec_value_snoc)
    then have "\<not> dec_value (s @ [c]) < 10" using pos by simp
    moreover have "dec_value (s @ [c]) div 10 = dec_value s" "dec_value (s @ [c]) mod 10 = digit_val c"
      using v digit_val_less [OF c] by simp_all
    ultimately show ?thesis using ih dc by (subst dec_digits.simps) simp
  qed
qed

end
