(* ===== verification/Observation.thy ===== *)
theory Observation
  imports Prelude
begin

text \<open>
  The observation data model of \<^verbatim>\<open>pkg/observe/observation.go\<close> and the counters of
  \<^verbatim>\<open>pkg/observe/metrics.go\<close>.  The closed string types of the source are datatypes; their wire
  texts are \<open>termination_text\<close> and \<open>reason_text\<close>.
\<close>

section \<open>Terminations, reasons, outcomes\<close>

datatype termination_kind =
    TerminationDone
  | TerminationEOFWithoutDone
  | TerminationClientDisconnect
  | TerminationUpstreamErrorEvent

fun termination_text :: "termination_kind \<Rightarrow> string" where
  "termination_text TerminationDone = ''done''"
| "termination_text TerminationEOFWithoutDone = ''eof_without_done''"
| "termination_text TerminationClientDisconnect = ''client_disconnect''"
| "termination_text TerminationUpstreamErrorEvent = ''upstream_error_event''"

datatype abandon_reason =
    AbandonObserverOverrun
  | AbandonBodyTooLarge
  | AbandonEncodedBody
  | AbandonMaxDepthExceeded
  | AbandonMalformedBody

fun reason_text :: "abandon_reason \<Rightarrow> string" where
  "reason_text AbandonObserverOverrun = ''observer_overrun''"
| "reason_text AbandonBodyTooLarge = ''body_too_large''"
| "reason_text AbandonEncodedBody = ''encoded_body''"
| "reason_text AbandonMaxDepthExceeded = ''max_depth_exceeded''"
| "reason_text AbandonMalformedBody = ''malformed_body''"

text \<open>
  The struct \<^verbatim>\<open>Outcome\<close> has unexported fields and two constructors; \<open>NoOutcome\<close> is its zero
  value, which an observation holds until it is finalized.
\<close>

datatype outcome =
    Complete termination_kind
  | Abandoned abandon_reason
  | NoOutcome

fun IsComplete :: "outcome \<Rightarrow> bool" where
  "IsComplete (Complete t) = True"
| "IsComplete (Abandoned r) = False"
| "IsComplete NoOutcome = False"

fun outcome_termination :: "outcome \<Rightarrow> termination_kind option" where
  "outcome_termination (Complete t) = Some t"
| "outcome_termination (Abandoned r) = None"
| "outcome_termination NoOutcome = None"

fun outcome_reason :: "outcome \<Rightarrow> abandon_reason option" where
  "outcome_reason (Complete t) = None"
| "outcome_reason (Abandoned r) = Some r"
| "outcome_reason NoOutcome = None"

fun outcome_string :: "outcome \<Rightarrow> string" where
  "outcome_string (Complete t) = ''complete:'' @ termination_text t"
| "outcome_string (Abandoned r) = ''abandoned:'' @ reason_text r"
| "outcome_string NoOutcome = ''abandoned:''"

section \<open>The observation\<close>

record usage =
  us_prompt :: "64 word"
  us_completion :: "64 word"
  us_total :: "64 word"

definition zero_usage :: usage where
  "zero_usage = \<lparr>us_prompt = 0, us_completion = 0, us_total = 0\<rparr>"

datatype profile = ProfileChatCompletion | ProfileSearchRouter

record observation =
  ob_provider :: string
  ob_profile :: profile
  ob_generation_id :: string
  ob_resolved_model :: string
  ob_usage :: "usage option"
  ob_status_code :: int
  ob_finish_reason :: string
  ob_error_type :: string
  ob_error_code :: string
  ob_started_at :: go_time
  ob_finished_at :: go_time
  ob_streaming :: bool
  ob_outcome :: outcome
  ob_saw_done :: bool
  ob_saw_usage :: bool
  ob_saw_finish_reason :: bool
  ob_parse_degraded :: bool
  ob_metadata_conflict :: bool

text \<open>The composite literal of \<^verbatim>\<open>Install\<close>: every field not given is the zero value.\<close>

definition new_observation :: "string \<Rightarrow> profile \<Rightarrow> int \<Rightarrow> go_time \<Rightarrow> bool \<Rightarrow> observation" where
  "new_observation provider prof status started streaming =
     \<lparr>ob_provider = provider, ob_profile = prof, ob_generation_id = [], ob_resolved_model = [],
      ob_usage = None, ob_status_code = status, ob_finish_reason = [], ob_error_type = [],
      ob_error_code = [], ob_started_at = started, ob_finished_at = zero_time,
      ob_streaming = streaming, ob_outcome = NoOutcome, ob_saw_done = False, ob_saw_usage = False,
      ob_saw_finish_reason = False, ob_parse_degraded = False, ob_metadata_conflict = False\<rparr>"

section \<open>Counters\<close>

datatype skip_reason = SkipNoRing | SkipUpstreamStatus | SkipNonMeterableRoute

record metrics =
  m_started :: nat
  m_completed :: "termination_kind \<Rightarrow> nat"
  m_skipped :: "skip_reason \<Rightarrow> nat"
  m_abandoned :: "abandon_reason \<Rightarrow> nat"
  m_degraded :: nat
  m_panics :: nat

definition zero_metrics :: metrics where
  "zero_metrics =
     \<lparr>m_started = 0, m_completed = (\<lambda>_. 0), m_skipped = (\<lambda>_. 0), m_abandoned = (\<lambda>_. 0),
      m_degraded = 0, m_panics = 0\<rparr>"

definition CountSkip :: "skip_reason \<Rightarrow> metrics \<Rightarrow> metrics" where
  "CountSkip r m = m\<lparr>m_skipped := (m_skipped m)(r := Suc (m_skipped m r))\<rparr>"

definition CountOutcome :: "outcome \<Rightarrow> metrics \<Rightarrow> metrics" where
  "CountOutcome oc m =
     (case outcome_termination oc of
        Some t \<Rightarrow> m\<lparr>m_completed := (m_completed m)(t := Suc (m_completed m t))\<rparr>
      | None \<Rightarrow>
          (case outcome_reason oc of
             Some r \<Rightarrow> m\<lparr>m_abandoned := (m_abandoned m)(r := Suc (m_abandoned m r))\<rparr>
           | None \<Rightarrow> m))"

definition all_terminations :: "termination_kind list" where
  "all_terminations =
     [TerminationDone, TerminationEOFWithoutDone, TerminationClientDisconnect,
      TerminationUpstreamErrorEvent]"

definition all_reasons :: "abandon_reason list" where
  "all_reasons =
     [AbandonObserverOverrun, AbandonBodyTooLarge, AbandonEncodedBody, AbandonMaxDepthExceeded,
      AbandonMalformedBody]"

lemma all_terminations_complete [simp]: "t \<in> set all_terminations"
  by (cases t) (simp_all add: all_terminations_def)

lemma all_reasons_complete [simp]: "r \<in> set all_reasons"
  by (cases r) (simp_all add: all_reasons_def)

lemma termination_text_inj: "termination_text s = termination_text t \<longleftrightarrow> s = t"
  by (cases s; cases t) simp_all

lemma reason_text_inj: "reason_text s = reason_text t \<longleftrightarrow> s = t"
  by (cases s; cases t) simp_all

text \<open>How many observations have been finalized, by the outcome counters.\<close>

definition outcomes_counted :: "metrics \<Rightarrow> nat" where
  "outcomes_counted m =
     sum_list (map (m_completed m) all_terminations) + sum_list (map (m_abandoned m) all_reasons)"

lemma CountOutcome_counts: "oc \<noteq> NoOutcome \<Longrightarrow> outcomes_counted (CountOutcome oc m) = Suc (outcomes_counted m)"
proof (cases oc)
  case (Complete t)
  then show ?thesis
    by (cases t) (simp_all add: CountOutcome_def outcomes_counted_def all_terminations_def)
next
  case (Abandoned r)
  then show ?thesis
    by (cases r) (simp_all add: CountOutcome_def outcomes_counted_def all_reasons_def)
qed simp

lemma CountOutcome_started [frame_simps]: "m_started (CountOutcome oc m) = m_started m"
  by (simp add: CountOutcome_def split: option.splits)

end
