(* ===== verification/Scanner.thy ===== *)
theory Scanner
  imports Observation
begin

text \<open>
  The structural JSON scanner of \<^verbatim>\<open>pkg/observe/scanner.go\<close>, byte by byte, with every field of
  its state.  The stack of frames is the list of the frames below \<^verbatim>\<open>depth\<close>, innermost first;
  the key and value buffers are their filled prefixes.  \<open>sc_panic\<close> records the one indexing the
  code does without a check of its own: popping a frame when there is none.
\<close>

section \<open>Constants and the whitelist trees\<close>

definition capIDBytes :: nat where "capIDBytes = 512"
definition capModelBytes :: nat where "capModelBytes = 512"
definition capFinishReasonBytes :: nat where "capFinishReasonBytes = 128"
definition capErrTypeBytes :: nat where "capErrTypeBytes = 128"
definition capErrCodeBytes :: nat where "capErrCodeBytes = 64"
definition capProviderBytes :: nat where "capProviderBytes = 64"
definition capIntDigits :: nat where "capIntDigits = 20"
definition maxCaptureBytes :: nat where "maxCaptureBytes = 512"
definition maxCandidateSlots :: nat where "maxCandidateSlots = 8"
definition noChosenIndex :: int where "noChosenIndex = - 1"
definition maxChosenIndex :: int where "maxChosenIndex = 2147483647"

lemmas scanner_consts = capIDBytes_def capModelBytes_def capFinishReasonBytes_def capErrTypeBytes_def
  capErrCodeBytes_def capProviderBytes_def capIntDigits_def maxCaptureBytes_def maxCandidateSlots_def
  noChosenIndex_def maxChosenIndex_def

datatype capture_kind =
    CapNone | CapID | CapModel | CapFinishReason | CapErrType | CapErrCode
  | CapPromptTokens | CapCompletionTokens | CapTotalTokens | CapChosen | CapCandidateProvider

fun stringCap :: "capture_kind \<Rightarrow> nat" where
  "stringCap CapID = capIDBytes"
| "stringCap CapModel = capModelBytes"
| "stringCap CapFinishReason = capFinishReasonBytes"
| "stringCap CapErrType = capErrTypeBytes"
| "stringCap CapErrCode = capErrCodeBytes"
| "stringCap CapCandidateProvider = capProviderBytes"
| "stringCap _ = 0"

fun isInt :: "capture_kind \<Rightarrow> bool" where
  "isInt CapPromptTokens = True"
| "isInt CapCompletionTokens = True"
| "isInt CapTotalTokens = True"
| "isInt CapChosen = True"
| "isInt _ = False"

datatype path_node =
  PathNode (pn_children: "(string \<times> path_node) list") (pn_any_index: "path_node option")
    (pn_capture: capture_kind) (pn_is_error: bool)

definition leaf :: "capture_kind \<Rightarrow> path_node" where
  "leaf k = PathNode [] None k False"

definition whitelist :: path_node where
  "whitelist =
     PathNode
       [(''id'', leaf CapID),
        (''model'', leaf CapModel),
        (''usage'', PathNode [(''prompt_tokens'', leaf CapPromptTokens),
                              (''completion_tokens'', leaf CapCompletionTokens),
                              (''total_tokens'', leaf CapTotalTokens)] None CapNone False),
        (''choices'', PathNode [] (Some (PathNode [(''finish_reason'', leaf CapFinishReason)] None CapNone False))
                        CapNone False),
        (''error'', PathNode [(''type'', leaf CapErrType), (''code'', leaf CapErrCode)] None CapNone True)]
       None CapNone False"

definition searchWhitelist :: path_node where
  "searchWhitelist =
     PathNode
       [(''request_id'', leaf CapID),
        (''chosen'', leaf CapChosen),
        (''candidates'', PathNode [] (Some (PathNode [(''provider'', leaf CapCandidateProvider)] None CapNone False))
                           CapNone False)]
       None CapNone False"

section \<open>The state\<close>

datatype scan_state =
    StStart | StValue | StObjectKeyOrEnd | StObjectKey | StColon | StObjectNext
  | StArrayFirst | StArrayNext | StKeyString | StValueString | StNumber | StLiteral
  | StTopDone | StDead

record frame =
  fr_is_array :: bool
  fr_node :: "path_node option"
  fr_index :: int

record scan_result =
  r_id :: string
  r_model :: string
  r_finish_reason :: string
  r_err_type :: string
  r_err_code :: string
  r_usage :: usage
  r_saw_usage :: bool
  r_saw_finish_reason :: bool
  r_saw_error :: bool
  r_degraded :: bool
  r_credential_rejected :: bool
  r_abandoned :: "abandon_reason option"
  r_complete :: bool
  r_chosen :: int
  r_chosen_provider :: string

definition empty_result :: scan_result where
  "empty_result =
     \<lparr>r_id = [], r_model = [], r_finish_reason = [], r_err_type = [], r_err_code = [],
      r_usage = zero_usage, r_saw_usage = False, r_saw_finish_reason = False, r_saw_error = False,
      r_degraded = False, r_credential_rejected = False, r_abandoned = None, r_complete = False,
      r_chosen = noChosenIndex, r_chosen_provider = []\<rparr>"

record scanner =
  sc_root :: path_node
  sc_max_depth :: nat
  sc_max_key_bytes :: nat
  sc_state :: scan_state
  sc_stack :: "frame list"
  sc_escape :: bool
  sc_unicode_left :: nat
  sc_unicode_val :: nat
  sc_in_key :: bool
  sc_lit_remaining :: string
  sc_key_buf :: string
  sc_key_overflow :: bool
  sc_key_invalid :: bool
  sc_pending :: "path_node option"
  sc_val_kind :: capture_kind
  sc_val_buf :: string
  sc_val_overflow :: bool
  sc_val_invalid :: bool
  sc_int_val :: "64 word"
  sc_int_digits :: nat
  sc_int_invalid :: bool
  sc_int_neg :: bool
  sc_candidates :: "string list"
  sc_candidates_over :: bool
  sc_res :: scan_result
  sc_panic :: bool

definition reset :: "scanner \<Rightarrow> scanner" where
  "reset s =
     s\<lparr>sc_state := StStart, sc_stack := [], sc_escape := False, sc_unicode_left := 0,
       sc_unicode_val := 0, sc_in_key := False, sc_lit_remaining := [], sc_key_buf := [],
       sc_key_overflow := False, sc_key_invalid := False, sc_pending := None,
       sc_val_kind := CapNone, sc_val_buf := [], sc_val_overflow := False, sc_val_invalid := False,
       sc_int_val := 0, sc_int_digits := 0, sc_int_invalid := False, sc_int_neg := False,
       sc_candidates := replicate maxCandidateSlots [], sc_candidates_over := False,
       sc_res := empty_result\<rparr>"

definition newScannerFor :: "path_node \<Rightarrow> nat \<Rightarrow> nat \<Rightarrow> scanner" where
  "newScannerFor root maxDepth maxKeyBytes =
     reset \<lparr>sc_root = root, sc_max_depth = maxDepth, sc_max_key_bytes = maxKeyBytes,
            sc_state = StStart, sc_stack = [], sc_escape = False, sc_unicode_left = 0,
            sc_unicode_val = 0, sc_in_key = False, sc_lit_remaining = [], sc_key_buf = [],
            sc_key_overflow = False, sc_key_invalid = False, sc_pending = None,
            sc_val_kind = CapNone, sc_val_buf = [], sc_val_overflow = False, sc_val_invalid = False,
            sc_int_val = 0, sc_int_digits = 0, sc_int_invalid = False, sc_int_neg = False,
            sc_candidates = [], sc_candidates_over = False, sc_res = empty_result, sc_panic = False\<rparr>"

definition newScanner :: "nat \<Rightarrow> nat \<Rightarrow> scanner" where
  "newScanner maxDepth maxKeyBytes = newScannerFor whitelist maxDepth maxKeyBytes"

definition abandon :: "abandon_reason \<Rightarrow> scanner \<Rightarrow> scanner" where
  "abandon r s =
     s\<lparr>sc_res := (if r_abandoned (sc_res s) = None then (sc_res s)\<lparr>r_abandoned := Some r\<rparr> else sc_res s),
       sc_state := StDead\<rparr>"

definition degrade :: "scanner \<Rightarrow> scanner" where
  "degrade s = s\<lparr>sc_res := (sc_res s)\<lparr>r_degraded := True\<rparr>\<rparr>"

section \<open>Byte classes\<close>

definition isWS :: "char \<Rightarrow> bool" where
  "isWS c \<longleftrightarrow> c = CHR '' '' \<or> c = CHR 0x09 \<or> c = CHR 0x0A \<or> c = CHR 0x0D"

definition hexVal :: "char \<Rightarrow> nat option" where
  "hexVal c =
     (if 48 \<le> b2n c \<and> b2n c \<le> 57 then Some (b2n c - 48)
      else if 97 \<le> b2n c \<and> b2n c \<le> 102 then Some (b2n c - 97 + 10)
      else if 65 \<le> b2n c \<and> b2n c \<le> 70 then Some (b2n c - 65 + 10)
      else None)"

definition printable_char :: "char \<Rightarrow> bool" where
  "printable_char c \<longleftrightarrow> \<not> (b2n c < 33 \<or> 126 < b2n c)"

definition printableASCIINoWS :: "string \<Rightarrow> bool" where
  "printableASCIINoWS b = list_all printable_char b"

text \<open>
  \<^verbatim>\<open>looksLikeCredential\<close>: at some position \<^verbatim>\<open>sk-\<close>, then at least one lower-case letter, then a
  dash.  The loop condition \<^verbatim>\<open>i+3 < len(b)\<close> is the length test.
\<close>

definition credential_here :: "string \<Rightarrow> bool" where
  "credential_here b \<longleftrightarrow>
     3 < length b \<and> take 3 b = ''sk-'' \<and>
     (let r = drop 3 b; l = takeWhile is_lower r; t = dropWhile is_lower r
      in l \<noteq> [] \<and> t \<noteq> [] \<and> hd t = CHR ''-'')"

fun looksLikeCredential :: "string \<Rightarrow> bool" where
  "looksLikeCredential [] = False"
| "looksLikeCredential (c # b) = (credential_here (c # b) \<or> looksLikeCredential b)"

section \<open>The candidate table\<close>

text \<open>The position of the innermost enclosing array element; the list holds the frames innermost first.\<close>

fun enclosingArrayIndex :: "frame list \<Rightarrow> int" where
  "enclosingArrayIndex [] = - 1"
| "enclosingArrayIndex (f # fs) = (if fr_is_array f then fr_index f else enclosingArrayIndex fs)"

definition putCandidateProvider :: "string \<Rightarrow> scanner \<Rightarrow> scanner" where
  "putCandidateProvider value s =
     (let i = enclosingArrayIndex (sc_stack s) in
      if i < 0 \<or> int maxCandidateSlots \<le> i then s\<lparr>sc_candidates_over := True\<rparr>
      else if sc_candidates s ! nat i = [] then s\<lparr>sc_candidates := (sc_candidates s)[nat i := value]\<rparr>
      else s)"

definition resolveChosen :: "scanner \<Rightarrow> scanner" where
  "resolveChosen s =
     (let i = r_chosen (sc_res s) in
      if i < 0 then s
      else if int maxCandidateSlots \<le> i then (if sc_candidates_over s then degrade s else s)
      else s\<lparr>sc_res := (sc_res s)\<lparr>r_chosen_provider := sc_candidates s ! nat i\<rparr>\<rparr>)"

section \<open>Frames\<close>

definition takePending :: "scanner \<Rightarrow> path_node option \<times> scanner" where
  "takePending s =
     (case sc_stack s of
        [] \<Rightarrow> (Some (sc_root s), s)
      | f # _ \<Rightarrow>
          if fr_is_array f
          then (case fr_node f of None \<Rightarrow> None | Some n \<Rightarrow> pn_any_index n, s)
          else (sc_pending s, s\<lparr>sc_pending := None\<rparr>))"

definition push :: "bool \<Rightarrow> scanner \<Rightarrow> scanner" where
  "push isArray s =
     (if sc_max_depth s \<le> length (sc_stack s) then abandon AbandonMaxDepthExceeded s
      else
        (let (node, s1) = takePending s;
             s2 = (case node of
                     None \<Rightarrow> s1
                   | Some n \<Rightarrow> if pn_is_error n then s1\<lparr>sc_res := (sc_res s1)\<lparr>r_saw_error := True\<rparr>\<rparr> else s1)
         in s2\<lparr>sc_stack := \<lparr>fr_is_array = isArray, fr_node = node, fr_index = 0\<rparr> # sc_stack s2,
               sc_state := (if isArray then StArrayFirst else StObjectKeyOrEnd)\<rparr>))"

definition pop :: "scanner \<Rightarrow> scanner" where
  "pop s =
     (case sc_stack s of
        [] \<Rightarrow> s\<lparr>sc_panic := True\<rparr>
      | _ # fs \<Rightarrow>
          (case fs of
             [] \<Rightarrow> s\<lparr>sc_stack := fs, sc_state := StTopDone\<rparr>
           | f # _ \<Rightarrow> s\<lparr>sc_stack := fs, sc_state := (if fr_is_array f then StArrayNext else StObjectNext)\<rparr>))"

definition advanceArrayIndex :: "scanner \<Rightarrow> scanner" where
  "advanceArrayIndex s =
     (case sc_stack s of
        [] \<Rightarrow> s
      | f # fs \<Rightarrow> if fr_is_array f then s\<lparr>sc_stack := f\<lparr>fr_index := fr_index f + 1\<rparr> # fs\<rparr> else s)"

definition endScalar :: "scanner \<Rightarrow> scanner" where
  "endScalar s =
     (case sc_stack s of
        [] \<Rightarrow> s\<lparr>sc_state := StTopDone\<rparr>
      | f # _ \<Rightarrow> if fr_is_array f then s\<lparr>sc_state := StArrayNext\<rparr> else s\<lparr>sc_state := StObjectNext\<rparr>)"

section \<open>Strings\<close>

definition startKey :: "scanner \<Rightarrow> scanner" where
  "startKey s =
     s\<lparr>sc_key_buf := [], sc_key_overflow := False, sc_key_invalid := False,
       sc_escape := False, sc_unicode_left := 0, sc_in_key := True, sc_state := StKeyString\<rparr>"

definition string_kind :: "path_node option \<Rightarrow> capture_kind" where
  "string_kind node =
     (case node of
        None \<Rightarrow> CapNone
      | Some n \<Rightarrow> if pn_capture n \<noteq> CapNone \<and> \<not> isInt (pn_capture n) then pn_capture n else CapNone)"

definition startValueString :: "scanner \<Rightarrow> scanner" where
  "startValueString s =
     (let (node, s1) = takePending s in
      s1\<lparr>sc_val_kind := string_kind node, sc_val_buf := [], sc_val_overflow := False,
         sc_val_invalid := False, sc_escape := False, sc_unicode_left := 0, sc_in_key := False,
         sc_state := StValueString\<rparr>)"

definition markStringInvalid :: "scanner \<Rightarrow> scanner" where
  "markStringInvalid s =
     (if sc_in_key s then s\<lparr>sc_key_invalid := True\<rparr> else s\<lparr>sc_val_invalid := True\<rparr>)"

definition append_key_byte :: "char \<Rightarrow> scanner \<Rightarrow> scanner" where
  "append_key_byte c s =
     (if sc_max_key_bytes s \<le> length (sc_key_buf s) then s\<lparr>sc_key_overflow := True\<rparr>
      else s\<lparr>sc_key_buf := sc_key_buf s @ [c]\<rparr>)"

definition append_val_byte :: "char \<Rightarrow> scanner \<Rightarrow> scanner" where
  "append_val_byte c s =
     (if stringCap (sc_val_kind s) \<le> length (sc_val_buf s) then s\<lparr>sc_val_overflow := True\<rparr>
      else s\<lparr>sc_val_buf := sc_val_buf s @ [c]\<rparr>)"

text \<open>
  The loop returns at the first byte past the cap; since the cap stays reached, going on would
  set the same flag again, so the remaining bytes are simply not looked at.
\<close>

fun append_key :: "string \<Rightarrow> scanner \<Rightarrow> scanner" where
  "append_key [] s = s"
| "append_key (c # b) s =
     (if sc_max_key_bytes s \<le> length (sc_key_buf s) then s\<lparr>sc_key_overflow := True\<rparr>
      else append_key b (append_key_byte c s))"

fun append_val :: "string \<Rightarrow> scanner \<Rightarrow> scanner" where
  "append_val [] s = s"
| "append_val (c # b) s =
     (if stringCap (sc_val_kind s) \<le> length (sc_val_buf s) then s\<lparr>sc_val_overflow := True\<rparr>
      else append_val b (append_val_byte c s))"

definition appendString :: "string \<Rightarrow> scanner \<Rightarrow> scanner" where
  "appendString b s =
     (if sc_in_key s then append_key b s
      else if sc_val_kind s = CapNone then s
      else append_val b s)"

definition store_capture :: "capture_kind \<Rightarrow> string \<Rightarrow> scanner \<Rightarrow> scanner" where
  "store_capture kind value s =
     (let r = sc_res s in
      case kind of
        CapID \<Rightarrow> if r_id r = [] then s\<lparr>sc_res := r\<lparr>r_id := value\<rparr>\<rparr> else s
      | CapModel \<Rightarrow> if r_model r = [] then s\<lparr>sc_res := r\<lparr>r_model := value\<rparr>\<rparr> else s
      | CapFinishReason \<Rightarrow>
          s\<lparr>sc_res := (if r_finish_reason r = [] then r\<lparr>r_finish_reason := value\<rparr> else r)\<lparr>r_saw_finish_reason := True\<rparr>\<rparr>
      | CapErrType \<Rightarrow> if r_err_type r = [] then s\<lparr>sc_res := r\<lparr>r_err_type := value\<rparr>\<rparr> else s
      | CapErrCode \<Rightarrow> if r_err_code r = [] then s\<lparr>sc_res := r\<lparr>r_err_code := value\<rparr>\<rparr> else s
      | CapCandidateProvider \<Rightarrow> putCandidateProvider value s
      | _ \<Rightarrow> s)"

definition commitStringCapture :: "scanner \<Rightarrow> scanner" where
  "commitStringCapture s0 =
     (let kind = sc_val_kind s0; s = s0\<lparr>sc_val_kind := CapNone\<rparr>; b = sc_val_buf s in
      if kind = CapNone then s
      else if sc_val_overflow s \<or> sc_val_invalid s then degrade s
      else if \<not> utf8_valid b then degrade s
      else if \<not> printableASCIINoWS b then degrade s
      else if looksLikeCredential b then degrade (s\<lparr>sc_res := (sc_res s)\<lparr>r_credential_rejected := True\<rparr>\<rparr>)
      else store_capture kind b s)"

definition endString :: "scanner \<Rightarrow> scanner" where
  "endString s =
     (if sc_in_key s then
        (let p = (case sc_stack s of
                    [] \<Rightarrow> None
                  | f # _ \<Rightarrow>
                      if \<not> fr_is_array f \<and> \<not> sc_key_overflow s \<and> \<not> sc_key_invalid s
                      then (case fr_node f of None \<Rightarrow> None | Some n \<Rightarrow> map_of (pn_children n) (sc_key_buf s))
                      else None);
             s1 = s\<lparr>sc_pending := p\<rparr>;
             s2 = (if sc_key_invalid s1 then degrade s1 else s1)
         in s2\<lparr>sc_state := StColon\<rparr>)
      else endScalar (commitStringCapture s))"

definition step_unicode :: "char \<Rightarrow> scanner \<Rightarrow> scanner" where
  "step_unicode c s =
     (case hexVal c of
        None \<Rightarrow> (markStringInvalid s)\<lparr>sc_unicode_left := 0\<rparr>
      | Some v \<Rightarrow>
          (let r = sc_unicode_val s * 16 + v;
               s1 = s\<lparr>sc_unicode_val := r, sc_unicode_left := sc_unicode_left s - 1\<rparr>
           in if sc_unicode_left s1 = 0
              then (if 55296 \<le> r \<and> r \<le> 57343 then markStringInvalid s1 else appendString (encode_rune r) s1)
              else s1))"

definition step_escape :: "char \<Rightarrow> scanner \<Rightarrow> scanner" where
  "step_escape c s0 =
     (let s = s0\<lparr>sc_escape := False\<rparr> in
      if c = CHR 0x22 then appendString [CHR 0x22] s
      else if c = CHR 0x5C then appendString [CHR 0x5C] s
      else if c = CHR ''/'' then appendString [CHR ''/''] s
      else if c = CHR ''b'' then appendString [CHR 0x08] s
      else if c = CHR ''f'' then appendString [CHR 0x0C] s
      else if c = CHR ''n'' then appendString [CHR 0x0A] s
      else if c = CHR ''r'' then appendString [CHR 0x0D] s
      else if c = CHR ''t'' then appendString [CHR 0x09] s
      else if c = CHR ''u'' then s\<lparr>sc_unicode_left := 4, sc_unicode_val := 0\<rparr>
      else degrade (markStringInvalid s))"

definition stepString :: "char \<Rightarrow> scanner \<Rightarrow> scanner" where
  "stepString c s =
     (if 0 < sc_unicode_left s then step_unicode c s
      else if sc_escape s then step_escape c s
      else if c = CHR 0x5C then s\<lparr>sc_escape := True\<rparr>
      else if c = CHR 0x22 then endString s
      else appendString [c] s)"

section \<open>Numbers\<close>

text \<open>
  The digit loop of \<^verbatim>\<open>stepNumber\<close>, with the overflow test as the code has it: the new value is
  compared with the old one after the wrap-around of 64-bit arithmetic.
\<close>

definition number_char :: "char \<Rightarrow> scanner \<Rightarrow> scanner option" where
  "number_char c s =
     (if is_digit c then
        (if capIntDigits \<le> sc_int_digits s then Some (s\<lparr>sc_int_invalid := True\<rparr>)
         else
           (let v = sc_int_val s * 10 + of_nat (digit_val c) in
            if v < sc_int_val s then Some (s\<lparr>sc_int_invalid := True\<rparr>)
            else Some (s\<lparr>sc_int_val := v, sc_int_digits := Suc (sc_int_digits s)\<rparr>)))
      else if c = CHR ''-'' \<or> c = CHR ''+'' \<or> c = CHR ''.'' \<or> c = CHR ''e'' \<or> c = CHR ''E''
        then Some (s\<lparr>sc_int_invalid := True\<rparr>)
      else None)"

definition store_int :: "scanner \<Rightarrow> scanner" where
  "store_int s =
     (let r = sc_res s; v = sc_int_val s in
      case sc_val_kind s of
        CapPromptTokens \<Rightarrow> s\<lparr>sc_res := r\<lparr>r_usage := (r_usage r)\<lparr>us_prompt := v\<rparr>, r_saw_usage := True\<rparr>\<rparr>
      | CapCompletionTokens \<Rightarrow> s\<lparr>sc_res := r\<lparr>r_usage := (r_usage r)\<lparr>us_completion := v\<rparr>, r_saw_usage := True\<rparr>\<rparr>
      | CapTotalTokens \<Rightarrow> s\<lparr>sc_res := r\<lparr>r_usage := (r_usage r)\<lparr>us_total := v\<rparr>, r_saw_usage := True\<rparr>\<rparr>
      | CapChosen \<Rightarrow>
          s\<lparr>sc_res := r\<lparr>r_chosen :=
              (if sc_int_neg s then noChosenIndex
               else if maxChosenIndex < uint v then maxChosenIndex
               else uint v)\<rparr>\<rparr>
      | _ \<Rightarrow> s)"

definition endNumber :: "scanner \<Rightarrow> scanner" where
  "endNumber s =
     (let s1 = (if isInt (sc_val_kind s)
                then (if sc_int_invalid s \<or> sc_int_digits s = 0 then degrade s else store_int s)
                else if sc_int_invalid s \<and> sc_val_kind s \<noteq> CapNone then degrade s
                else s)
      in endScalar (s1\<lparr>sc_val_kind := CapNone\<rparr>))"

definition int_kind :: "path_node option \<Rightarrow> capture_kind" where
  "int_kind node =
     (case node of None \<Rightarrow> CapNone | Some n \<Rightarrow> if isInt (pn_capture n) then pn_capture n else CapNone)"

text \<open>
  \<^verbatim>\<open>startNumber\<close> hands its byte to \<^verbatim>\<open>stepNumber\<close>; the byte is a digit or a minus, so the call
  never reaches the delimiter branch and \<open>number_char\<close> answers.
\<close>

definition startNumber :: "char \<Rightarrow> scanner \<Rightarrow> scanner" where
  "startNumber c s =
     (let (node, s1) = takePending s;
          s2 = s1\<lparr>sc_val_kind := int_kind node, sc_int_val := 0, sc_int_digits := 0,
                  sc_int_invalid := False, sc_int_neg := False, sc_state := StNumber\<rparr>
      in if c = CHR ''-'' \<and> sc_val_kind s2 = CapChosen then s2\<lparr>sc_int_neg := True\<rparr>
         else (case number_char c s2 of Some s3 \<Rightarrow> s3 | None \<Rightarrow> s2))"

section \<open>The step\<close>

definition stepValue :: "char \<Rightarrow> scanner \<Rightarrow> scanner" where
  "stepValue c s =
     (if isWS c then s
      else if c = CHR ''{'' then push False s
      else if c = CHR ''['' then push True s
      else if c = CHR 0x22 then startValueString s
      else if c = CHR ''t'' then s\<lparr>sc_lit_remaining := ''rue'', sc_state := StLiteral\<rparr>
      else if c = CHR ''f'' then s\<lparr>sc_lit_remaining := ''alse'', sc_state := StLiteral\<rparr>
      else if c = CHR ''n'' then s\<lparr>sc_lit_remaining := ''ull'', sc_state := StLiteral\<rparr>
      else if c = CHR ''-'' \<or> is_digit c then startNumber c s
      else abandon AbandonMalformedBody s)"

definition is_bom_byte :: "char \<Rightarrow> bool" where
  "is_bom_byte c \<longleftrightarrow> b2n c = 239 \<or> b2n c = 187 \<or> b2n c = 191"

text \<open>
  \<^verbatim>\<open>step\<close> without its \<^verbatim>\<open>stNumber\<close> branch.  That branch reprocesses the delimiter in the state
  the number ended in, which is never \<^verbatim>\<open>stNumber\<close> again, so two layers express the recursion.
\<close>

definition step_struct :: "char \<Rightarrow> scanner \<Rightarrow> scanner" where
  "step_struct c s =
     (case sc_state s of
        StStart \<Rightarrow> if is_bom_byte c then s else stepValue c (s\<lparr>sc_state := StValue\<rparr>)
      | StValue \<Rightarrow> stepValue c s
      | StObjectKeyOrEnd \<Rightarrow>
          if isWS c then s
          else if c = CHR 0x22 then startKey s
          else if c = CHR ''}'' then pop s
          else abandon AbandonMalformedBody s
      | StObjectKey \<Rightarrow>
          if isWS c then s
          else if c = CHR 0x22 then startKey s
          else abandon AbandonMalformedBody s
      | StColon \<Rightarrow>
          if isWS c then s
          else if c = CHR '':'' then s\<lparr>sc_state := StValue\<rparr>
          else abandon AbandonMalformedBody s
      | StObjectNext \<Rightarrow>
          if isWS c then s
          else if c = CHR '','' then s\<lparr>sc_state := StObjectKey\<rparr>
          else if c = CHR ''}'' then pop s
          else abandon AbandonMalformedBody s
      | StArrayFirst \<Rightarrow>
          if isWS c then s
          else if c = CHR '']'' then pop s
          else stepValue c (s\<lparr>sc_state := StValue\<rparr>)
      | StArrayNext \<Rightarrow>
          if isWS c then s
          else if c = CHR '','' then (advanceArrayIndex s)\<lparr>sc_state := StValue\<rparr>
          else if c = CHR '']'' then pop s
          else abandon AbandonMalformedBody s
      | StKeyString \<Rightarrow> stepString c s
      | StValueString \<Rightarrow> stepString c s
      | StNumber \<Rightarrow> s
      | StLiteral \<Rightarrow>
          (case sc_lit_remaining s of
             l # ls \<Rightarrow>
               if c = l then
                 (let s1 = s\<lparr>sc_lit_remaining := ls\<rparr> in if ls = [] then endScalar s1 else s1)
               else abandon AbandonMalformedBody s
           | [] \<Rightarrow> abandon AbandonMalformedBody s)
      | StTopDone \<Rightarrow> if isWS c then s else abandon AbandonMalformedBody s
      | StDead \<Rightarrow> s)"

definition stepNumber :: "char \<Rightarrow> scanner \<Rightarrow> scanner" where
  "stepNumber c s =
     (case number_char c s of
        Some s1 \<Rightarrow> s1
      | None \<Rightarrow> (let s1 = endNumber s in if sc_state s1 = StDead then s1 else step_struct c s1))"

definition step :: "char \<Rightarrow> scanner \<Rightarrow> scanner" where
  "step c s = (if sc_state s = StNumber then stepNumber c s else step_struct c s)"

fun feed :: "string \<Rightarrow> scanner \<Rightarrow> scanner" where
  "feed [] s = s"
| "feed (c # b) s = (if sc_state s = StDead then s else feed b (step c s))"

definition finish :: "scanner \<Rightarrow> scanner" where
  "finish s0 =
     (let s = resolveChosen s0 in
      case sc_state s of
        StTopDone \<Rightarrow> s\<lparr>sc_res := (sc_res s)\<lparr>r_complete := True\<rparr>\<rparr>
      | StNumber \<Rightarrow>
          (let s1 = endNumber s in
           if sc_state s1 = StTopDone then s1\<lparr>sc_res := (sc_res s1)\<lparr>r_complete := True\<rparr>\<rparr>
           else abandon AbandonMalformedBody s1)
      | StDead \<Rightarrow> s
      | _ \<Rightarrow> abandon AbandonMalformedBody s)"

end
