(* ===== verification/ScannerInv.thy ===== *)
theory ScannerInv
  imports Scanner
begin

text \<open>
  The retention posture of the scanner, as invariants of every byte step: the buffers stay
  within their caps (\<open>buf_ok\<close>), what is captured is bounded, printable and free of credential
  shapes (\<open>res_ok\<close>), and the control state agrees with the frame stack, so that popping a
  frame never meets an empty stack (\<open>struct_ok\<close>).
\<close>

section \<open>Feeding\<close>

lemma feed_dead [simp]: "sc_state s = StDead \<Longrightarrow> feed b s = s"
  by (cases b) simp_all

lemma step_dead: "sc_state s = StDead \<Longrightarrow> step c s = s"
  by (simp add: step_def step_struct_def)

lemma feed_append: "feed (a @ b) s = feed b (feed a s)"
  by (induction a s rule: feed.induct) auto

lemma feed_Cons_step: "feed (c # b) s = feed b (step c s)"
  by (simp add: step_dead)

lemmas feed_step_simps = feed.simps(1) feed_Cons_step

lemma feed_foldl: "feed b s = foldl (\<lambda>s c. step c s) s b"
  by (induction b arbitrary: s) (simp_all add: feed_Cons_step del: feed.simps(2))

declare feed.simps(2) [simp del]

section \<open>What the string operations leave unchanged\<close>

lemma append_key_frame:
  "\<exists>k ov. append_key b s = s\<lparr>sc_key_buf := k, sc_key_overflow := ov\<rparr> \<and>
     (length (sc_key_buf s) \<le> sc_max_key_bytes s \<longrightarrow> length k \<le> sc_max_key_bytes s)"
proof (induction b s rule: append_key.induct)
  case (1 s)
  have "append_key [] s = s\<lparr>sc_key_buf := sc_key_buf s, sc_key_overflow := sc_key_overflow s\<rparr>" by simp
  then show ?case by blast
next
  case (2 c b s)
  show ?case
  proof (cases "sc_max_key_bytes s \<le> length (sc_key_buf s)")
    case True
    then have "append_key (c # b) s = s\<lparr>sc_key_buf := sc_key_buf s, sc_key_overflow := True\<rparr>" by simp
    then show ?thesis by blast
  next
    case False
    with "2.IH" obtain k ov where
      k: "append_key b (append_key_byte c s) = (append_key_byte c s)\<lparr>sc_key_buf := k, sc_key_overflow := ov\<rparr>"
      and l: "length (sc_key_buf (append_key_byte c s)) \<le> sc_max_key_bytes (append_key_byte c s) \<longrightarrow>
              length k \<le> sc_max_key_bytes (append_key_byte c s)" by blast
    have "append_key (c # b) s = s\<lparr>sc_key_buf := k, sc_key_overflow := ov\<rparr>"
      using k False by (simp add: append_key_byte_def)
    moreover have "length k \<le> sc_max_key_bytes s"
      using l False by (simp add: append_key_byte_def)
    ultimately show ?thesis by blast
  qed
qed

lemma append_val_frame:
  "\<exists>v ov. append_val b s = s\<lparr>sc_val_buf := v, sc_val_overflow := ov\<rparr> \<and>
     (length (sc_val_buf s) \<le> stringCap (sc_val_kind s) \<longrightarrow> length v \<le> stringCap (sc_val_kind s))"
proof (induction b s rule: append_val.induct)
  case (1 s)
  have "append_val [] s = s\<lparr>sc_val_buf := sc_val_buf s, sc_val_overflow := sc_val_overflow s\<rparr>" by simp
  then show ?case by blast
next
  case (2 c b s)
  show ?case
  proof (cases "stringCap (sc_val_kind s) \<le> length (sc_val_buf s)")
    case True
    then have "append_val (c # b) s = s\<lparr>sc_val_buf := sc_val_buf s, sc_val_overflow := True\<rparr>" by simp
    then show ?thesis by blast
  next
    case False
    with "2.IH" obtain v ov where
      v: "append_val b (append_val_byte c s) = (append_val_byte c s)\<lparr>sc_val_buf := v, sc_val_overflow := ov\<rparr>"
      and l: "length (sc_val_buf (append_val_byte c s)) \<le> stringCap (sc_val_kind (append_val_byte c s)) \<longrightarrow>
              length v \<le> stringCap (sc_val_kind (append_val_byte c s))" by blast
    have "append_val (c # b) s = s\<lparr>sc_val_buf := v, sc_val_overflow := ov\<rparr>"
      using v False by (simp add: append_val_byte_def)
    moreover have "length v \<le> stringCap (sc_val_kind s)"
      using l False by (simp add: append_val_byte_def)
    ultimately show ?thesis by blast
  qed
qed

lemma appendString_frame:
  "\<exists>k ko v vo. appendString b s =
       s\<lparr>sc_key_buf := k, sc_key_overflow := ko, sc_val_buf := v, sc_val_overflow := vo\<rparr> \<and>
     (length (sc_key_buf s) \<le> sc_max_key_bytes s \<longrightarrow> length k \<le> sc_max_key_bytes s) \<and>
     (if sc_val_kind s = CapNone then v = sc_val_buf s
      else length (sc_val_buf s) \<le> stringCap (sc_val_kind s) \<longrightarrow> length v \<le> stringCap (sc_val_kind s))"
proof (cases "sc_in_key s")
  case True
  obtain k ov where k: "append_key b s = s\<lparr>sc_key_buf := k, sc_key_overflow := ov\<rparr>"
    "length (sc_key_buf s) \<le> sc_max_key_bytes s \<longrightarrow> length k \<le> sc_max_key_bytes s"
    using append_key_frame by blast
  have "appendString b s =
      s\<lparr>sc_key_buf := k, sc_key_overflow := ov, sc_val_buf := sc_val_buf s, sc_val_overflow := sc_val_overflow s\<rparr>"
    using True k(1) by (simp add: appendString_def)
  with k(2) show ?thesis
    by (intro exI [of _ k] exI [of _ ov] exI [of _ "sc_val_buf s"] exI [of _ "sc_val_overflow s"]) simp
next
  case nk: False
  show ?thesis
  proof (cases "sc_val_kind s = CapNone")
    case True
    then have "appendString b s = s\<lparr>sc_key_buf := sc_key_buf s, sc_key_overflow := sc_key_overflow s,
        sc_val_buf := sc_val_buf s, sc_val_overflow := sc_val_overflow s\<rparr>"
      using nk by (simp add: appendString_def)
    with True show ?thesis
      by (intro exI [of _ "sc_key_buf s"] exI [of _ "sc_key_overflow s"] exI [of _ "sc_val_buf s"]
            exI [of _ "sc_val_overflow s"]) simp
  next
    case False
    obtain v ov where v: "append_val b s = s\<lparr>sc_val_buf := v, sc_val_overflow := ov\<rparr>"
      "length (sc_val_buf s) \<le> stringCap (sc_val_kind s) \<longrightarrow> length v \<le> stringCap (sc_val_kind s)"
      using append_val_frame by blast
    have "appendString b s =
        s\<lparr>sc_key_buf := sc_key_buf s, sc_key_overflow := sc_key_overflow s, sc_val_buf := v, sc_val_overflow := ov\<rparr>"
      using nk False v(1) by (simp add: appendString_def)
    with False v(2) show ?thesis
      by (intro exI [of _ "sc_key_buf s"] exI [of _ "sc_key_overflow s"] exI [of _ v] exI [of _ ov]) simp
  qed
qed

lemma appendString_fields [simp, frame_simps]:
  "sc_state (appendString b s) = sc_state s" "sc_stack (appendString b s) = sc_stack s"
  "sc_in_key (appendString b s) = sc_in_key s" "sc_res (appendString b s) = sc_res s"
  "sc_panic (appendString b s) = sc_panic s" "sc_candidates (appendString b s) = sc_candidates s"
  "sc_val_kind (appendString b s) = sc_val_kind s" "sc_pending (appendString b s) = sc_pending s"
  "sc_max_depth (appendString b s) = sc_max_depth s" "sc_root (appendString b s) = sc_root s"
  "sc_max_key_bytes (appendString b s) = sc_max_key_bytes s"
  "sc_unicode_left (appendString b s) = sc_unicode_left s"
  "sc_unicode_val (appendString b s) = sc_unicode_val s"
  "sc_escape (appendString b s) = sc_escape s"
  "sc_lit_remaining (appendString b s) = sc_lit_remaining s"
  "sc_candidates_over (appendString b s) = sc_candidates_over s"
  using appendString_frame [of b s] by auto

lemma appendString_bounds:
  "length (sc_key_buf s) \<le> sc_max_key_bytes s \<Longrightarrow> length (sc_key_buf (appendString b s)) \<le> sc_max_key_bytes s"
  "sc_val_kind s \<noteq> CapNone \<Longrightarrow> length (sc_val_buf s) \<le> stringCap (sc_val_kind s) \<Longrightarrow>
   length (sc_val_buf (appendString b s)) \<le> stringCap (sc_val_kind s)"
  "sc_val_kind s = CapNone \<Longrightarrow> sc_val_buf (appendString b s) = sc_val_buf s"
  using appendString_frame [of b s] by auto

lemma markStringInvalid_fields [simp, frame_simps]:
  "sc_state (markStringInvalid s) = sc_state s" "sc_stack (markStringInvalid s) = sc_stack s"
  "sc_in_key (markStringInvalid s) = sc_in_key s" "sc_res (markStringInvalid s) = sc_res s"
  "sc_panic (markStringInvalid s) = sc_panic s" "sc_candidates (markStringInvalid s) = sc_candidates s"
  "sc_val_kind (markStringInvalid s) = sc_val_kind s" "sc_key_buf (markStringInvalid s) = sc_key_buf s"
  "sc_val_buf (markStringInvalid s) = sc_val_buf s"
  "sc_max_depth (markStringInvalid s) = sc_max_depth s"
  "sc_max_key_bytes (markStringInvalid s) = sc_max_key_bytes s"
  "sc_unicode_left (markStringInvalid s) = sc_unicode_left s"
  "sc_unicode_val (markStringInvalid s) = sc_unicode_val s"
  "sc_lit_remaining (markStringInvalid s) = sc_lit_remaining s"
  "sc_root (markStringInvalid s) = sc_root s"
  by (simp_all add: markStringInvalid_def)

lemma stringCap_le: "stringCap k \<le> maxCaptureBytes"
  by (cases k) (simp_all add: scanner_consts)

section \<open>Control state and frame stack\<close>

definition struct_ok :: "scanner \<Rightarrow> bool" where
  "struct_ok s \<longleftrightarrow> \<not> sc_panic s \<and>
     (case sc_state s of
        StStart \<Rightarrow> sc_stack s = []
      | StObjectKeyOrEnd \<Rightarrow> sc_stack s \<noteq> [] \<and> \<not> fr_is_array (hd (sc_stack s))
      | StObjectKey \<Rightarrow> sc_stack s \<noteq> [] \<and> \<not> fr_is_array (hd (sc_stack s))
      | StColon \<Rightarrow> sc_stack s \<noteq> [] \<and> \<not> fr_is_array (hd (sc_stack s))
      | StObjectNext \<Rightarrow> sc_stack s \<noteq> [] \<and> \<not> fr_is_array (hd (sc_stack s))
      | StKeyString \<Rightarrow> sc_stack s \<noteq> [] \<and> \<not> fr_is_array (hd (sc_stack s)) \<and> sc_in_key s
      | StValueString \<Rightarrow> \<not> sc_in_key s
      | StArrayFirst \<Rightarrow> sc_stack s \<noteq> [] \<and> fr_is_array (hd (sc_stack s))
      | StArrayNext \<Rightarrow> sc_stack s \<noteq> [] \<and> fr_is_array (hd (sc_stack s))
      | StLiteral \<Rightarrow> sc_lit_remaining s \<noteq> []
      | StTopDone \<Rightarrow> sc_stack s = []
      | _ \<Rightarrow> True)"

lemma struct_ok_endScalar: "\<not> sc_panic s \<Longrightarrow> struct_ok (endScalar s)"
  by (auto simp: struct_ok_def endScalar_def split: list.splits)

lemma struct_ok_abandon: "\<not> sc_panic s \<Longrightarrow> struct_ok (abandon r s)"
  by (simp add: struct_ok_def abandon_def)

lemma struct_ok_pop: "\<not> sc_panic s \<Longrightarrow> sc_stack s \<noteq> [] \<Longrightarrow> struct_ok (pop s)"
  by (auto simp: struct_ok_def pop_def split: list.splits)

lemma takePending_fields:
  assumes "takePending s = (n, t)"
  shows "t = s\<lparr>sc_pending := sc_pending t\<rparr>"
  using assms by (auto simp: takePending_def split: list.splits if_splits option.splits)

lemma struct_ok_push: "\<not> sc_panic s \<Longrightarrow> struct_ok (push a s)"
proof -
  assume np: "\<not> sc_panic s"
  obtain n t where t: "takePending s = (n, t)" by (cases "takePending s")
  have eq: "t = s\<lparr>sc_pending := sc_pending t\<rparr>" using takePending_fields [OF t] .
  have "\<not> sc_panic t" by (subst eq) (simp add: np)
  then show ?thesis using np t struct_ok_abandon [OF np]
    by (auto simp: push_def struct_ok_def Let_def split: option.splits)
qed

lemma number_char_frame:
  "number_char c s = Some t \<Longrightarrow>
   \<exists>v d i. t = s\<lparr>sc_int_val := v, sc_int_digits := d, sc_int_invalid := i\<rparr>"
proof -
  assume n: "number_char c s = Some t"
  have "t = s\<lparr>sc_int_val := sc_int_val t, sc_int_digits := sc_int_digits t, sc_int_invalid := sc_int_invalid t\<rparr>"
    using n by (auto simp: number_char_def Let_def split: if_splits)
  then show ?thesis by blast
qed

lemma startNumber_frame:
  "\<exists>p k v d i n. startNumber c s =
      s\<lparr>sc_pending := p, sc_val_kind := k, sc_int_val := v, sc_int_digits := d, sc_int_invalid := i,
        sc_int_neg := n, sc_state := StNumber\<rparr> \<and> (k = CapNone \<or> isInt k)"
proof -
  obtain n t where t: "takePending s = (n, t)" by (cases "takePending s")
  have eq: "t = s\<lparr>sc_pending := sc_pending t\<rparr>" using takePending_fields [OF t] .
  have k: "int_kind n = CapNone \<or> isInt (int_kind n)" by (simp add: int_kind_def split: option.splits)
  define u where "u = t\<lparr>sc_val_kind := int_kind n, sc_int_val := 0, sc_int_digits := 0,
                  sc_int_invalid := False, sc_int_neg := False, sc_state := StNumber\<rparr>"
  have r: "startNumber c s = (if c = CHR ''-'' \<and> int_kind n = CapChosen then u\<lparr>sc_int_neg := True\<rparr>
         else (case number_char c u of Some w \<Rightarrow> w | None \<Rightarrow> u))"
    unfolding startNumber_def t u_def Let_def by simp
  have "\<exists>v d i m. startNumber c s = u\<lparr>sc_int_val := v, sc_int_digits := d, sc_int_invalid := i, sc_int_neg := m\<rparr>"
  proof (cases "c = CHR ''-'' \<and> int_kind n = CapChosen")
    case True
    then have "startNumber c s = u\<lparr>sc_int_val := sc_int_val u, sc_int_digits := sc_int_digits u,
        sc_int_invalid := sc_int_invalid u, sc_int_neg := True\<rparr>" unfolding r by simp
    then show ?thesis by blast
  next
    case False
    obtain v d i where "(case number_char c u of Some w \<Rightarrow> w | None \<Rightarrow> u) =
        u\<lparr>sc_int_val := v, sc_int_digits := d, sc_int_invalid := i, sc_int_neg := sc_int_neg u\<rparr>"
    proof (cases "number_char c u")
      case None
      then show ?thesis
        by (intro that [where v = "sc_int_val u" and d = "sc_int_digits u" and i = "sc_int_invalid u"]) simp
    next
      case (Some w)
      with number_char_frame obtain v d i where
        "w = u\<lparr>sc_int_val := v, sc_int_digits := d, sc_int_invalid := i\<rparr>" by blast
      with Some show ?thesis by (intro that [where v = v and d = d and i = i]) simp
    qed
    moreover have "startNumber c s = (case number_char c u of Some w \<Rightarrow> w | None \<Rightarrow> u)"
      unfolding r using False by (rule if_not_P)
    ultimately show ?thesis by metis
  qed
  then obtain v d i m where "startNumber c s =
      u\<lparr>sc_int_val := v, sc_int_digits := d, sc_int_invalid := i, sc_int_neg := m\<rparr>" by blast
  then have "startNumber c s = s\<lparr>sc_pending := sc_pending t, sc_val_kind := int_kind n, sc_int_val := v,
      sc_int_digits := d, sc_int_invalid := i, sc_int_neg := m, sc_state := StNumber\<rparr>"
    unfolding u_def by (subst (asm) eq) simp
  with k show ?thesis by blast
qed

lemma startValueString_frame:
  "\<exists>p k. startValueString s =
      s\<lparr>sc_pending := p, sc_val_kind := k, sc_val_buf := [], sc_val_overflow := False,
        sc_val_invalid := False, sc_escape := False, sc_unicode_left := 0, sc_in_key := False,
        sc_state := StValueString\<rparr>"
proof -
  obtain n t where t: "takePending s = (n, t)" by (cases "takePending s")
  have eq: "t = s\<lparr>sc_pending := sc_pending t\<rparr>" using takePending_fields [OF t] .
  have "startValueString s = s\<lparr>sc_pending := sc_pending t, sc_val_kind := string_kind n, sc_val_buf := [],
      sc_val_overflow := False, sc_val_invalid := False, sc_escape := False, sc_unicode_left := 0,
      sc_in_key := False, sc_state := StValueString\<rparr>"
    unfolding startValueString_def t by (subst eq) simp
  then show ?thesis by blast
qed

lemma struct_ok_stepValue: "\<not> sc_panic s \<Longrightarrow> sc_state s = StValue \<Longrightarrow> struct_ok (stepValue c s)"
proof -
  assume np: "\<not> sc_panic s" and v: "sc_state s = StValue"
  have "struct_ok s" using np v by (simp add: struct_ok_def)
  moreover have "struct_ok (startValueString s)"
    using startValueString_frame [of s] np by (auto simp: struct_ok_def)
  moreover have "struct_ok (startNumber c s)"
    using startNumber_frame [of c s] np by (auto simp: struct_ok_def)
  ultimately show ?thesis
    using np struct_ok_push struct_ok_abandon by (auto simp: stepValue_def struct_ok_def)
qed

lemma degrade_fields [simp, frame_simps]:
  "sc_state (degrade s) = sc_state s" "sc_stack (degrade s) = sc_stack s"
  "sc_panic (degrade s) = sc_panic s" "sc_in_key (degrade s) = sc_in_key s"
  "sc_candidates (degrade s) = sc_candidates s" "sc_val_kind (degrade s) = sc_val_kind s"
  "sc_val_buf (degrade s) = sc_val_buf s" "sc_key_buf (degrade s) = sc_key_buf s"
  "sc_max_depth (degrade s) = sc_max_depth s" "sc_max_key_bytes (degrade s) = sc_max_key_bytes s"
  "sc_unicode_left (degrade s) = sc_unicode_left s" "sc_unicode_val (degrade s) = sc_unicode_val s"
  "sc_lit_remaining (degrade s) = sc_lit_remaining s" "sc_root (degrade s) = sc_root s"
  "sc_pending (degrade s) = sc_pending s" "sc_escape (degrade s) = sc_escape s"
  by (simp_all add: degrade_def)

lemma store_capture_frame:
  "\<exists>r cs ov. store_capture k v s = s\<lparr>sc_res := r, sc_candidates := cs, sc_candidates_over := ov\<rparr>"
proof -
  have "store_capture k v s = s\<lparr>sc_res := sc_res (store_capture k v s),
      sc_candidates := sc_candidates (store_capture k v s),
      sc_candidates_over := sc_candidates_over (store_capture k v s)\<rparr>"
    by (cases k) (simp_all add: store_capture_def putCandidateProvider_def Let_def)
  then show ?thesis by blast
qed

lemma commitStringCapture_frame:
  "\<exists>r cs ov. commitStringCapture s =
      s\<lparr>sc_val_kind := CapNone, sc_res := r, sc_candidates := cs, sc_candidates_over := ov\<rparr>"
proof -
  obtain r cs ov where k: "store_capture (sc_val_kind s) (sc_val_buf s) (s\<lparr>sc_val_kind := CapNone\<rparr>) =
      s\<lparr>sc_val_kind := CapNone, sc_res := r, sc_candidates := cs, sc_candidates_over := ov\<rparr>"
    using store_capture_frame [of "sc_val_kind s" "sc_val_buf s" "s\<lparr>sc_val_kind := CapNone\<rparr>"] by auto
  have same: "t = s\<lparr>sc_val_kind := CapNone, sc_res := sc_res t, sc_candidates := sc_candidates s,
       sc_candidates_over := sc_candidates_over s\<rparr>" if "t = s\<lparr>sc_val_kind := CapNone, sc_res := sc_res t\<rparr>" for t
    by (subst that) simp
  show ?thesis
  proof (cases "commitStringCapture s = store_capture (sc_val_kind s) (sc_val_buf s) (s\<lparr>sc_val_kind := CapNone\<rparr>)")
    case True
    with k show ?thesis by auto
  next
    case False
    then have "commitStringCapture s = s\<lparr>sc_val_kind := CapNone, sc_res := sc_res (commitStringCapture s)\<rparr>"
      by (auto simp: commitStringCapture_def degrade_def Let_def split: if_splits)
    from same [OF this] show ?thesis by blast
  qed
qed

lemma struct_ok_endString:
  assumes "struct_ok s" "sc_state s = StKeyString \<or> sc_state s = StValueString"
  shows "struct_ok (endString s)"
proof (cases "sc_in_key s")
  case True
  then have "sc_state s = StKeyString" using assms by (auto simp: struct_ok_def)
  then show ?thesis using True assms
    by (auto simp: endString_def struct_ok_def Let_def)
next
  case False
  have "\<not> sc_panic (commitStringCapture s)"
    using commitStringCapture_frame [of s] assms(1) by (auto simp: struct_ok_def)
  then show ?thesis using False by (simp add: endString_def struct_ok_endScalar)
qed

lemma struct_ok_cong:
  "struct_ok s \<Longrightarrow> sc_state t = sc_state s \<Longrightarrow> sc_stack t = sc_stack s \<Longrightarrow> sc_panic t = sc_panic s \<Longrightarrow>
   sc_in_key t = sc_in_key s \<Longrightarrow> sc_lit_remaining t = sc_lit_remaining s \<Longrightarrow> struct_ok t"
  by (cases "sc_state s") (simp_all add: struct_ok_def)

lemma step_escape_fields [simp]:
  "sc_state (step_escape c s) = sc_state s" "sc_stack (step_escape c s) = sc_stack s"
  "sc_panic (step_escape c s) = sc_panic s" "sc_in_key (step_escape c s) = sc_in_key s"
  "sc_lit_remaining (step_escape c s) = sc_lit_remaining s" "sc_max_depth (step_escape c s) = sc_max_depth s"
  "sc_max_key_bytes (step_escape c s) = sc_max_key_bytes s" "sc_val_kind (step_escape c s) = sc_val_kind s"
  "sc_candidates (step_escape c s) = sc_candidates s" "sc_root (step_escape c s) = sc_root s"
  by (simp_all add: step_escape_def Let_def)

lemma step_unicode_fields [simp]:
  "sc_state (step_unicode c s) = sc_state s" "sc_stack (step_unicode c s) = sc_stack s"
  "sc_panic (step_unicode c s) = sc_panic s" "sc_in_key (step_unicode c s) = sc_in_key s"
  "sc_lit_remaining (step_unicode c s) = sc_lit_remaining s" "sc_max_depth (step_unicode c s) = sc_max_depth s"
  "sc_max_key_bytes (step_unicode c s) = sc_max_key_bytes s" "sc_val_kind (step_unicode c s) = sc_val_kind s"
  "sc_candidates (step_unicode c s) = sc_candidates s" "sc_res (step_unicode c s) = sc_res s"
  "sc_root (step_unicode c s) = sc_root s"
  by (simp_all add: step_unicode_def Let_def split: option.splits)

lemma struct_ok_stepString:
  assumes s: "struct_ok s" "sc_state s = StKeyString \<or> sc_state s = StValueString"
  shows "struct_ok (stepString c s)"
proof (cases "sc_unicode_left s = 0 \<and> \<not> sc_escape s \<and> c = CHR 0x22")
  case True
  then show ?thesis using struct_ok_endString [OF s] by (simp add: stepString_def)
next
  case False
  show ?thesis
    by (rule struct_ok_cong [OF s(1)]) (use False in \<open>auto simp: stepString_def\<close>)
qed

lemma struct_ok_step_struct:
  assumes "struct_ok s" shows "struct_ok (step_struct c s)"
proof -
  have np: "\<not> sc_panic s" using assms by (simp add: struct_ok_def)
  have v: "struct_ok (stepValue c (s\<lparr>sc_state := StValue\<rparr>))"
    by (rule struct_ok_stepValue) (simp_all add: np)
  have a: "struct_ok (abandon r s)" for r using np by (rule struct_ok_abandon)
  have l: "struct_ok (endScalar (s\<lparr>sc_lit_remaining := ls\<rparr>))" for ls
    by (rule struct_ok_endScalar) (simp add: np)
  show ?thesis
  proof (cases "sc_state s")
    case StValue
    then show ?thesis using struct_ok_stepValue [OF np] by (simp add: step_struct_def)
  next
    case StKeyString
    then show ?thesis using struct_ok_stepString [OF assms] by (simp add: step_struct_def)
  next
    case StValueString
    then show ?thesis using struct_ok_stepString [OF assms] by (simp add: step_struct_def)
  next
    case StStart
    then show ?thesis using assms v by (simp add: step_struct_def)
  next
    case StArrayFirst
    then show ?thesis using assms v struct_ok_pop [OF np]
      by (auto simp: step_struct_def struct_ok_def)
  next
    case StArrayNext
    then show ?thesis using assms a struct_ok_pop [OF np]
      by (auto simp: step_struct_def struct_ok_def advanceArrayIndex_def split: list.splits)
  next
    case StLiteral
    then obtain h ls where ls: "sc_lit_remaining s = h # ls"
      using assms by (auto simp: struct_ok_def neq_Nil_conv)
    have m: "struct_ok (s\<lparr>sc_lit_remaining := ls\<rparr>)" if "ls \<noteq> []"
      using assms StLiteral that by (simp add: struct_ok_def)
    show ?thesis using StLiteral ls a l m by (simp add: step_struct_def Let_def)
  next
    case StObjectKeyOrEnd
    then show ?thesis using assms a struct_ok_pop [OF np]
      by (auto simp: step_struct_def struct_ok_def startKey_def)
  next
    case StObjectNext
    then show ?thesis using assms a struct_ok_pop [OF np]
      by (auto simp: step_struct_def struct_ok_def)
  qed (use assms a in \<open>auto simp: step_struct_def struct_ok_def startKey_def\<close>)
qed

lemma store_int_frame: "store_int s = s\<lparr>sc_res := sc_res (store_int s)\<rparr>"
  by (cases "sc_val_kind s") (simp_all add: store_int_def Let_def)

lemma store_int_fields [simp, frame_simps]:
  "sc_state (store_int s) = sc_state s" "sc_stack (store_int s) = sc_stack s"
  "sc_panic (store_int s) = sc_panic s" "sc_candidates (store_int s) = sc_candidates s"
  "sc_val_buf (store_int s) = sc_val_buf s" "sc_key_buf (store_int s) = sc_key_buf s"
  "sc_max_depth (store_int s) = sc_max_depth s" "sc_max_key_bytes (store_int s) = sc_max_key_bytes s"
  "sc_unicode_left (store_int s) = sc_unicode_left s" "sc_unicode_val (store_int s) = sc_unicode_val s"
  "sc_lit_remaining (store_int s) = sc_lit_remaining s" "sc_root (store_int s) = sc_root s"
  "sc_in_key (store_int s) = sc_in_key s" "sc_val_kind (store_int s) = sc_val_kind s"
  "sc_pending (store_int s) = sc_pending s"
  by (subst store_int_frame, simp)+

lemma struct_ok_endNumber: "\<not> sc_panic s \<Longrightarrow> struct_ok (endNumber s)"
  unfolding endNumber_def Let_def by (rule struct_ok_endScalar) simp

lemma struct_ok_step: "struct_ok s \<Longrightarrow> struct_ok (step c s)"
proof (cases "sc_state s = StNumber")
  case True
  assume s: "struct_ok s"
  then have np: "\<not> sc_panic s" by (simp add: struct_ok_def)
  show ?thesis
  proof (cases "number_char c s")
    case None
    then show ?thesis using True struct_ok_endNumber [OF np] struct_ok_step_struct
      by (simp add: step_def stepNumber_def Let_def)
  next
    case (Some t)
    then have "struct_ok t" using number_char_frame [OF Some] s True by (auto simp: struct_ok_def)
    then show ?thesis using True Some by (simp add: step_def stepNumber_def)
  qed
next
  case False
  assume "struct_ok s"
  then show ?thesis using False by (simp add: step_def struct_ok_step_struct)
qed

lemma struct_ok_feed: "struct_ok s \<Longrightarrow> struct_ok (feed b s)"
  by (induction b arbitrary: s) (simp_all add: feed_Cons_step struct_ok_step)

lemma struct_ok_new: "struct_ok (newScannerFor root d k)"
  by (simp add: struct_ok_def newScannerFor_def reset_def)

section \<open>Retention bounds\<close>

definition buf_ok :: "scanner \<Rightarrow> bool" where
  "buf_ok s \<longleftrightarrow>
     length (sc_stack s) \<le> sc_max_depth s \<and>
     length (sc_key_buf s) \<le> sc_max_key_bytes s \<and>
     length (sc_val_buf s) \<le> maxCaptureBytes \<and>
     (sc_val_kind s \<noteq> CapNone \<and> \<not> isInt (sc_val_kind s) \<longrightarrow>
        length (sc_val_buf s) \<le> stringCap (sc_val_kind s)) \<and>
     length (sc_candidates s) = maxCandidateSlots"

lemma stringCap_isInt: "isInt k \<Longrightarrow> stringCap k = 0"
  by (cases k) simp_all

lemma append_val_full: "stringCap (sc_val_kind s) \<le> length (sc_val_buf s) \<Longrightarrow> sc_val_buf (append_val b s) = sc_val_buf s"
  by (cases b) simp_all

lemma buf_ok_appendString: "buf_ok s \<Longrightarrow> buf_ok (appendString b s)"
proof -
  assume s: "buf_ok s"
  have v: "length (sc_val_buf (appendString b s)) \<le> maxCaptureBytes \<and>
    (sc_val_kind s \<noteq> CapNone \<and> \<not> isInt (sc_val_kind s) \<longrightarrow>
     length (sc_val_buf (appendString b s)) \<le> stringCap (sc_val_kind s))"
  proof (cases "sc_val_kind s = CapNone")
    case True
    then show ?thesis using s appendString_bounds(3) [OF True] by (simp add: buf_ok_def)
  next
    case nn: False
    show ?thesis
    proof (cases "isInt (sc_val_kind s)")
      case True
      have "sc_val_buf (appendString b s) = sc_val_buf s"
      proof (cases "sc_in_key s")
        case True
        then show ?thesis using append_key_frame [of b s] by (auto simp: appendString_def)
      next
        case False
        then show ?thesis using append_val_full [of s b] stringCap_isInt [OF True] nn
          by (simp add: appendString_def)
      qed
      then show ?thesis using s True by (simp add: buf_ok_def)
    next
      case False
      then show ?thesis using s nn appendString_bounds(2) [OF nn, of b] stringCap_le [of "sc_val_kind s"]
        by (auto simp: buf_ok_def intro: order_trans)
    qed
  qed
  show ?thesis using s v appendString_bounds(1) [of s b] by (simp add: buf_ok_def)
qed

lemma buf_ok_cong:
  "buf_ok s \<Longrightarrow> length (sc_stack t) \<le> length (sc_stack s) \<Longrightarrow> sc_max_depth t = sc_max_depth s \<Longrightarrow>
   sc_max_key_bytes t = sc_max_key_bytes s \<Longrightarrow> sc_key_buf t = sc_key_buf s \<or> sc_key_buf t = [] \<Longrightarrow>
   sc_val_buf t = sc_val_buf s \<or> sc_val_buf t = [] \<Longrightarrow>
   sc_val_buf t = [] \<or> sc_val_kind t = sc_val_kind s \<or> sc_val_kind t = CapNone \<or> isInt (sc_val_kind t) \<Longrightarrow>
   length (sc_candidates t) = length (sc_candidates s) \<Longrightarrow> buf_ok t"
  by (auto simp: buf_ok_def)

lemma endScalar_fields [simp, frame_simps]:
  "sc_stack (endScalar s) = sc_stack s" "sc_res (endScalar s) = sc_res s"
  "sc_max_depth (endScalar s) = sc_max_depth s" "sc_max_key_bytes (endScalar s) = sc_max_key_bytes s"
  "sc_key_buf (endScalar s) = sc_key_buf s" "sc_val_buf (endScalar s) = sc_val_buf s"
  "sc_val_kind (endScalar s) = sc_val_kind s" "sc_candidates (endScalar s) = sc_candidates s"
  "sc_root (endScalar s) = sc_root s" "sc_panic (endScalar s) = sc_panic s"
  "sc_pending (endScalar s) = sc_pending s" "sc_candidates_over (endScalar s) = sc_candidates_over s"
  by (simp_all add: endScalar_def split: list.splits)

lemma endScalar_not_dead: "sc_state (endScalar s) \<noteq> StDead"
  by (simp add: endScalar_def split: list.splits)

lemma store_capture_candidates_length: "length (sc_candidates (store_capture k v s)) = length (sc_candidates s)"
  by (cases k) (simp_all add: store_capture_def putCandidateProvider_def Let_def)

lemma commitStringCapture_candidates_length:
  "length (sc_candidates (commitStringCapture s)) = length (sc_candidates s)"
  by (simp add: commitStringCapture_def Let_def store_capture_candidates_length)

lemma buf_ok_commit: "buf_ok s \<Longrightarrow> buf_ok (commitStringCapture s)"
proof (rule buf_ok_cong)
  obtain r cs ov where f: "commitStringCapture s =
      s\<lparr>sc_val_kind := CapNone, sc_res := r, sc_candidates := cs, sc_candidates_over := ov\<rparr>"
    using commitStringCapture_frame by blast
  show "length (sc_candidates (commitStringCapture s)) = length (sc_candidates s)"
    by (rule commitStringCapture_candidates_length)
  show "length (sc_stack (commitStringCapture s)) \<le> length (sc_stack s)"
    "sc_max_depth (commitStringCapture s) = sc_max_depth s"
    "sc_max_key_bytes (commitStringCapture s) = sc_max_key_bytes s"
    "sc_key_buf (commitStringCapture s) = sc_key_buf s \<or> sc_key_buf (commitStringCapture s) = []"
    "sc_val_buf (commitStringCapture s) = sc_val_buf s \<or> sc_val_buf (commitStringCapture s) = []"
    "sc_val_buf (commitStringCapture s) = [] \<or> sc_val_kind (commitStringCapture s) = sc_val_kind s \<or>
     sc_val_kind (commitStringCapture s) = CapNone \<or> isInt (sc_val_kind (commitStringCapture s))"
    by (simp_all add: f)
qed

lemma buf_ok_endString: "buf_ok s \<Longrightarrow> buf_ok (endString s)"
proof (cases "sc_in_key s")
  case True
  assume "buf_ok s"
  then show ?thesis using True by (auto simp: endString_def Let_def buf_ok_def)
next
  case False
  assume "buf_ok s"
  then have "buf_ok (commitStringCapture s)" by (rule buf_ok_commit)
  then show ?thesis using False by (simp add: endString_def buf_ok_def)
qed

lemma buf_ok_degrade: "buf_ok s \<Longrightarrow> buf_ok (degrade s)"
  and buf_ok_markStringInvalid: "buf_ok s \<Longrightarrow> buf_ok (markStringInvalid s)"
  by (simp_all add: buf_ok_def)

lemma buf_ok_step_escape: "buf_ok s \<Longrightarrow> buf_ok (step_escape c s)"
proof -
  assume s: "buf_ok s"
  have e: "buf_ok (s\<lparr>sc_escape := False\<rparr>)" using s by (simp add: buf_ok_def)
  have u: "buf_ok (s\<lparr>sc_escape := False, sc_unicode_left := 4, sc_unicode_val := 0\<rparr>)"
    using s by (simp add: buf_ok_def)
  show ?thesis
    by (simp add: step_escape_def Let_def buf_ok_appendString [OF e] u
        buf_ok_degrade [OF buf_ok_markStringInvalid [OF e]])
qed

lemma buf_ok_step_unicode: "buf_ok s \<Longrightarrow> buf_ok (step_unicode c s)"
proof -
  assume s: "buf_ok s"
  have e: "buf_ok (s\<lparr>sc_unicode_val := r, sc_unicode_left := l\<rparr>)" for r l using s by (simp add: buf_ok_def)
  have "buf_ok ((markStringInvalid s)\<lparr>sc_unicode_left := 0\<rparr>)" using s by (simp add: buf_ok_def)
  then show ?thesis
    by (auto simp: step_unicode_def Let_def buf_ok_appendString [OF e] e
        buf_ok_markStringInvalid [OF e] split: option.splits)
qed

lemma buf_ok_stepString: "buf_ok s \<Longrightarrow> buf_ok (stepString c s)"
proof -
  assume s: "buf_ok s"
  have e: "buf_ok (s\<lparr>sc_escape := True\<rparr>)" using s by (simp add: buf_ok_def)
  show ?thesis
    by (simp add: stepString_def e s buf_ok_appendString buf_ok_endString buf_ok_step_escape buf_ok_step_unicode)
qed

definition mark_error :: "path_node option \<Rightarrow> scan_result \<Rightarrow> scan_result" where
  "mark_error node r =
     (case node of None \<Rightarrow> r | Some n \<Rightarrow> if pn_is_error n then r\<lparr>r_saw_error := True\<rparr> else r)"

lemma push_ok:
  assumes "length (sc_stack s) < sc_max_depth s" and "takePending s = (n, t)"
  shows "push a s = s\<lparr>sc_pending := sc_pending t, sc_res := mark_error n (sc_res s),
      sc_stack := \<lparr>fr_is_array = a, fr_node = n, fr_index = 0\<rparr> # sc_stack s,
      sc_state := (if a then StArrayFirst else StObjectKeyOrEnd)\<rparr>"
proof -
  have eq: "t = s\<lparr>sc_pending := sc_pending t\<rparr>" using takePending_fields [OF assms(2)] .
  have "push a s = t\<lparr>sc_res := mark_error n (sc_res t),
      sc_stack := \<lparr>fr_is_array = a, fr_node = n, fr_index = 0\<rparr> # sc_stack t,
      sc_state := (if a then StArrayFirst else StObjectKeyOrEnd)\<rparr>"
    using assms by (cases n) (simp_all add: push_def mark_error_def)
  also have "\<dots> = s\<lparr>sc_pending := sc_pending t, sc_res := mark_error n (sc_res s),
      sc_stack := \<lparr>fr_is_array = a, fr_node = n, fr_index = 0\<rparr> # sc_stack s,
      sc_state := (if a then StArrayFirst else StObjectKeyOrEnd)\<rparr>"
    by (subst (1 2 3) eq) simp
  finally show ?thesis .
qed

lemma push_full: "sc_max_depth s \<le> length (sc_stack s) \<Longrightarrow> push a s = abandon AbandonMaxDepthExceeded s"
  by (simp add: push_def)

lemma buf_ok_abandon: "buf_ok s \<Longrightarrow> buf_ok (abandon r s)"
  by (simp add: buf_ok_def abandon_def)

lemma buf_ok_push: "buf_ok s \<Longrightarrow> buf_ok (push a s)"
proof (cases "length (sc_stack s) < sc_max_depth s")
  case True
  assume s: "buf_ok s"
  obtain n t where "takePending s = (n, t)" by (cases "takePending s")
  from push_ok [OF True this] s True show ?thesis by (simp add: buf_ok_def)
next
  case False
  assume "buf_ok s"
  then show ?thesis using False by (simp add: push_full buf_ok_abandon)
qed

lemma buf_ok_stepValue: "buf_ok s \<Longrightarrow> buf_ok (stepValue c s)"
proof -
  assume s: "buf_ok s"
  have v: "buf_ok (startValueString s)" using startValueString_frame [of s] s by (auto simp: buf_ok_def)
  have n: "buf_ok (startNumber c s)" using startNumber_frame [of c s] s by (auto simp: buf_ok_def)
  have l: "buf_ok (s\<lparr>sc_lit_remaining := l, sc_state := StLiteral\<rparr>)" for l using s by (simp add: buf_ok_def)
  show ?thesis by (simp add: stepValue_def s v n l buf_ok_push buf_ok_abandon)
qed

lemma buf_ok_pop: "buf_ok s \<Longrightarrow> buf_ok (pop s)"
  by (auto simp: buf_ok_def pop_def split: list.splits)

lemma buf_ok_endScalar: "buf_ok s \<Longrightarrow> buf_ok (endScalar s)"
  by (simp add: buf_ok_def)

lemma buf_ok_step_struct: "buf_ok s \<Longrightarrow> buf_ok (step_struct c s)"
proof -
  assume s: "buf_ok s"
  have st: "buf_ok (s\<lparr>sc_state := q\<rparr>)" for q using s by (simp add: buf_ok_def)
  have k: "buf_ok (startKey s)" using s by (simp add: buf_ok_def startKey_def)
  have a: "buf_ok ((advanceArrayIndex s)\<lparr>sc_state := StValue\<rparr>)"
    using s by (auto simp: buf_ok_def advanceArrayIndex_def split: list.splits)
  have l: "buf_ok (s\<lparr>sc_lit_remaining := ls\<rparr>)" for ls using s by (simp add: buf_ok_def)
  show ?thesis
    by (cases "sc_state s")
      (simp_all add: step_struct_def s st k a l Let_def buf_ok_pop buf_ok_abandon buf_ok_endScalar
        buf_ok_stepValue buf_ok_stepString split: list.splits)
qed

lemma buf_ok_endNumber: "buf_ok s \<Longrightarrow> buf_ok (endNumber s)"
  unfolding endNumber_def Let_def by (rule buf_ok_endScalar) (simp add: buf_ok_def)

lemma buf_ok_step: "buf_ok s \<Longrightarrow> buf_ok (step c s)"
proof (cases "number_char c s")
  case None
  assume "buf_ok s"
  then show ?thesis using None
    by (simp add: step_def stepNumber_def Let_def buf_ok_step_struct buf_ok_endNumber)
next
  case (Some t)
  assume s: "buf_ok s"
  then have "buf_ok t" using number_char_frame [OF Some] by (auto simp: buf_ok_def)
  then show ?thesis using s Some by (simp add: step_def stepNumber_def buf_ok_step_struct)
qed

lemma buf_ok_feed: "buf_ok s \<Longrightarrow> buf_ok (feed b s)"
  by (induction b arbitrary: s) (simp_all add: feed_Cons_step buf_ok_step)

lemma buf_ok_reset: "buf_ok (reset s)"
  by (simp add: buf_ok_def reset_def scanner_consts)

lemma buf_ok_new: "buf_ok (newScannerFor root d k)"
  unfolding newScannerFor_def by (rule buf_ok_reset)

section \<open>What may be captured\<close>

definition clean :: "nat \<Rightarrow> string \<Rightarrow> bool" where
  "clean cap v \<longleftrightarrow> length v \<le> cap \<and> printableASCIINoWS v \<and> \<not> looksLikeCredential v"

text \<open>The captured strings of a result, each with its cap.\<close>

definition captured :: "scan_result \<Rightarrow> (nat \<times> string) list" where
  "captured r =
     [(capIDBytes, r_id r), (capModelBytes, r_model r), (capFinishReasonBytes, r_finish_reason r),
      (capErrTypeBytes, r_err_type r), (capErrCodeBytes, r_err_code r),
      (capProviderBytes, r_chosen_provider r)]"

definition captures_clean :: "scan_result \<Rightarrow> bool" where
  "captures_clean r \<longleftrightarrow> list_all (\<lambda>(cap, v). clean cap v) (captured r)"

definition res_ok :: "scanner \<Rightarrow> bool" where
  "res_ok s \<longleftrightarrow> captures_clean (sc_res s) \<and> list_all (clean capProviderBytes) (sc_candidates s)"

lemma clean_Nil [simp]: "clean n []"
  by (simp add: clean_def printableASCIINoWS_def)

lemma captures_clean_upd [simp]:
  "captures_clean (r\<lparr>r_abandoned := a\<rparr>) = captures_clean r"
  "captures_clean (r\<lparr>r_degraded := b\<rparr>) = captures_clean r"
  "captures_clean (r\<lparr>r_saw_error := b\<rparr>) = captures_clean r"
  "captures_clean (r\<lparr>r_credential_rejected := b\<rparr>) = captures_clean r"
  "captures_clean (r\<lparr>r_complete := b\<rparr>) = captures_clean r"
  "captures_clean (r\<lparr>r_chosen := i\<rparr>) = captures_clean r"
  "captures_clean (r\<lparr>r_saw_finish_reason := b\<rparr>) = captures_clean r"
  "captures_clean (r\<lparr>r_usage := u, r_saw_usage := b\<rparr>) = captures_clean r"
  by (simp_all add: captures_clean_def captured_def)

lemma sc_res_degrade [simp]: "sc_res (degrade s) = (sc_res s)\<lparr>r_degraded := True\<rparr>"
  by (simp add: degrade_def)

lemma res_ok_degrade [simp]: "res_ok (degrade s) = res_ok s"
  by (simp add: res_ok_def degrade_def)

lemma res_ok_abandon [simp]: "res_ok (abandon r s) = res_ok s"
  by (simp add: res_ok_def abandon_def)

lemma res_ok_cong: "res_ok s \<Longrightarrow> sc_res t = sc_res s \<Longrightarrow> sc_candidates t = sc_candidates s \<Longrightarrow> res_ok t"
  by (simp add: res_ok_def)

lemma res_ok_store_capture:
  assumes "res_ok s" and "clean (stringCap k) v"
  shows "res_ok (store_capture k v s)"
proof (cases k)
  case CapCandidateProvider
  have "list_all (clean capProviderBytes) ((sc_candidates s)[i := v])" for i
    using assms CapCandidateProvider set_update_subset_insert [of "sc_candidates s" i v]
    by (auto simp: res_ok_def list_all_iff)
  then show ?thesis using assms CapCandidateProvider
    by (simp add: store_capture_def putCandidateProvider_def res_ok_def Let_def)
qed (use assms in \<open>simp_all add: store_capture_def res_ok_def captures_clean_def captured_def Let_def\<close>)

lemma res_ok_commit:
  assumes "res_ok s" and "buf_ok s" and "\<not> isInt (sc_val_kind s)"
  shows "res_ok (commitStringCapture s)"
proof -
  let ?t = "s\<lparr>sc_val_kind := CapNone\<rparr>"
  have t: "res_ok ?t" using assms(1) by (simp add: res_ok_def)
  have c: "res_ok (degrade (?t\<lparr>sc_res := (sc_res ?t)\<lparr>r_credential_rejected := True\<rparr>\<rparr>))"
    using t by (simp only: res_ok_degrade) (simp add: res_ok_def)
  have st: "res_ok (store_capture (sc_val_kind s) (sc_val_buf s) ?t)"
    if "printableASCIINoWS (sc_val_buf s)" "\<not> looksLikeCredential (sc_val_buf s)" "sc_val_kind s \<noteq> CapNone"
    using that assms(2,3) by (intro res_ok_store_capture [OF t]) (auto simp: clean_def buf_ok_def)
  show ?thesis using t c st by (auto simp: commitStringCapture_def Let_def)
qed

text \<open>A value string is only ever scanned with a string kind: the kinds of the two sorts do not mix.\<close>

definition kind_ok :: "scanner \<Rightarrow> bool" where
  "kind_ok s \<longleftrightarrow> (sc_state s = StValueString \<longrightarrow> \<not> isInt (sc_val_kind s))"

lemma string_kind_not_int: "\<not> isInt (string_kind n)"
  by (simp add: string_kind_def split: option.splits)

lemma startValueString_kind: "\<not> isInt (sc_val_kind (startValueString s))"
  by (simp add: startValueString_def split_beta string_kind_not_int)

lemma kind_ok_not_value: "sc_state s \<noteq> StValueString \<Longrightarrow> kind_ok s"
  by (simp add: kind_ok_def)

lemma endScalar_state: "sc_state (endScalar s) \<in> {StTopDone, StArrayNext, StObjectNext}"
  by (simp add: endScalar_def split: list.splits)

lemma push_state: "sc_state (push a s) \<in> {StDead, StArrayFirst, StObjectKeyOrEnd}"
proof (cases "length (sc_stack s) < sc_max_depth s")
  case True
  obtain n t where "takePending s = (n, t)" by (cases "takePending s")
  from push_ok [OF True this] show ?thesis by simp
next
  case False
  then show ?thesis by (simp add: push_full abandon_def)
qed

lemma kind_ok_stepValue: "sc_state s = StValue \<Longrightarrow> kind_ok (stepValue c s)"
proof -
  assume s: "sc_state s = StValue"
  have "kind_ok (push a s)" for a using push_state [of a s] by (auto simp: kind_ok_def)
  moreover have "kind_ok (startValueString s)" using startValueString_kind by (simp add: kind_ok_def)
  moreover have "kind_ok (startNumber c s)" using startNumber_frame [of c s] by (auto simp: kind_ok_def)
  ultimately show ?thesis by (simp add: stepValue_def s kind_ok_def abandon_def)
qed

lemma kind_ok_stepString: "kind_ok s \<Longrightarrow> kind_ok (stepString c s)"
proof -
  assume s: "kind_ok s"
  have "kind_ok (endString s)"
    using endScalar_state [of "commitStringCapture s"] by (auto simp: kind_ok_def endString_def Let_def)
  with s show ?thesis by (simp add: stepString_def kind_ok_def)
qed

lemma pop_state: "sc_stack s \<noteq> [] \<Longrightarrow> sc_state (pop s) \<in> {StTopDone, StArrayNext, StObjectNext}"
  by (auto simp: pop_def neq_Nil_conv split: list.splits)

lemma kind_ok_step_struct: "kind_ok s \<Longrightarrow> struct_ok s \<Longrightarrow> kind_ok (step_struct c s)"
proof -
  assume s: "kind_ok s" "struct_ok s"
  have v: "kind_ok (stepValue d (s\<lparr>sc_state := StValue\<rparr>))" for d by (rule kind_ok_stepValue) simp
  have p: "kind_ok (pop s)" if "sc_stack s \<noteq> []"
    using pop_state [OF that] by (auto simp: kind_ok_def)
  have e: "kind_ok (endScalar t)" for t using endScalar_state [of t] by (auto simp: kind_ok_def)
  have a: "kind_ok (abandon r s)" for r by (simp add: kind_ok_def abandon_def)
  have k: "kind_ok (s\<lparr>sc_state := q\<rparr>)" if "q \<noteq> StValueString" for q using that by (simp add: kind_ok_def)
  have k2: "kind_ok ((advanceArrayIndex s)\<lparr>sc_state := StValue\<rparr>)" by (simp add: kind_ok_def)
  have sk: "kind_ok (startKey s)" by (simp add: kind_ok_def startKey_def)
  have l: "kind_ok (s\<lparr>sc_lit_remaining := ls\<rparr>)" for ls using s(1) by (simp add: kind_ok_def)
  show ?thesis
  proof (cases "sc_state s")
    case StValue
    then show ?thesis using kind_ok_stepValue by (simp add: step_struct_def)
  next
    case StKeyString
    then show ?thesis using kind_ok_stepString [OF s(1)] by (simp add: step_struct_def)
  next
    case StValueString
    then show ?thesis using kind_ok_stepString [OF s(1)] by (simp add: step_struct_def)
  qed (use s v p e a k k2 sk l in \<open>simp_all add: step_struct_def struct_ok_def Let_def split: list.splits\<close>)
qed

lemma kind_ok_step: "kind_ok s \<Longrightarrow> struct_ok s \<Longrightarrow> kind_ok (step c s)"
proof (cases "sc_state s = StNumber")
  case True
  assume s: "kind_ok s" "struct_ok s"
  have e: "kind_ok (endNumber s)"
    unfolding endNumber_def Let_def by (rule kind_ok_not_value) (simp add: endScalar_def split: list.splits)
  show ?thesis
  proof (cases "number_char c s")
    case None
    then show ?thesis using True e s struct_ok_endNumber [of s]
      by (simp add: step_def stepNumber_def Let_def kind_ok_step_struct struct_ok_def)
  next
    case (Some t)
    then have "kind_ok t" using number_char_frame [OF Some] True by (auto simp: kind_ok_def)
    then show ?thesis using True Some by (simp add: step_def stepNumber_def)
  qed
next
  case False
  assume "kind_ok s" "struct_ok s"
  then show ?thesis using False by (simp add: step_def kind_ok_step_struct)
qed

section \<open>The invariant of a byte step\<close>

definition scanner_ok :: "scanner \<Rightarrow> bool" where
  "scanner_ok s \<longleftrightarrow> struct_ok s \<and> buf_ok s \<and> kind_ok s \<and> res_ok s"

lemma scanner_okD:
  assumes "scanner_ok s"
  shows "struct_ok s" "buf_ok s" "kind_ok s" "res_ok s"
  using assms by (simp_all add: scanner_ok_def)

lemma res_ok_endString:
  assumes s: "scanner_ok s" "sc_state s = StKeyString \<or> sc_state s = StValueString"
  shows "res_ok (endString s)"
proof (cases "sc_in_key s")
  case True
  then show ?thesis using scanner_okD(4) [OF s(1)] by (simp add: endString_def Let_def res_ok_def)
next
  case False
  then have "\<not> isInt (sc_val_kind s)"
    using s scanner_okD(1,3) [OF s(1)] by (auto simp: struct_ok_def kind_ok_def)
  then have "res_ok (commitStringCapture s)" using scanner_okD(2,4) [OF s(1)] by (intro res_ok_commit)
  then show ?thesis using False by (simp add: endString_def res_ok_def)
qed

lemma res_ok_step_escape: "res_ok s \<Longrightarrow> res_ok (step_escape c s)"
proof -
  assume s: "res_ok s"
  have e: "res_ok (appendString b (s\<lparr>sc_escape := False\<rparr>))" for b
    using s by (simp add: res_ok_def)
  have m: "res_ok (markStringInvalid (s\<lparr>sc_escape := False\<rparr>))"
    using s by (simp add: res_ok_def)
  have u: "res_ok (s\<lparr>sc_escape := False, sc_unicode_left := 4, sc_unicode_val := 0\<rparr>)"
    using s by (simp add: res_ok_def)
  show ?thesis by (simp add: step_escape_def Let_def e m u)
qed

lemma res_ok_stepString:
  assumes s: "scanner_ok s" "sc_state s = StKeyString \<or> sc_state s = StValueString"
  shows "res_ok (stepString c s)"
proof -
  have r: "res_ok s" using scanner_okD(4) [OF s(1)] .
  have "res_ok (step_unicode c s)" "res_ok (appendString b s)" "res_ok (s\<lparr>sc_escape := True\<rparr>)" for b
    using r by (simp_all add: res_ok_def)
  then show ?thesis using res_ok_endString [OF s] res_ok_step_escape [OF r]
    by (simp add: stepString_def)
qed

lemma res_ok_push: "res_ok s \<Longrightarrow> res_ok (push a s)"
proof (cases "length (sc_stack s) < sc_max_depth s")
  case True
  assume s: "res_ok s"
  obtain n t where "takePending s = (n, t)" by (cases "takePending s")
  from push_ok [OF True this] s show ?thesis
    by (simp add: res_ok_def mark_error_def split: option.splits)
next
  case False
  assume "res_ok s"
  then show ?thesis using False by (simp add: push_full)
qed

lemma res_ok_stepValue: "res_ok s \<Longrightarrow> res_ok (stepValue c s)"
proof -
  assume s: "res_ok s"
  have v: "res_ok (startValueString s)" using startValueString_frame [of s] s by (auto simp: res_ok_def)
  have n: "res_ok (startNumber d s)" for d using startNumber_frame [of d s] s by (auto simp: res_ok_def)
  have l: "res_ok (s\<lparr>sc_lit_remaining := l, sc_state := StLiteral\<rparr>)" for l using s by (simp add: res_ok_def)
  show ?thesis by (simp add: stepValue_def s v n l res_ok_push)
qed

lemma res_ok_pop: "res_ok s \<Longrightarrow> res_ok (pop s)"
  by (auto simp: res_ok_def pop_def split: list.splits)

lemma res_ok_step_struct: "scanner_ok s \<Longrightarrow> res_ok (step_struct c s)"
proof -
  assume ok: "scanner_ok s"
  then have s: "res_ok s" by (rule scanner_okD(4))
  have st: "res_ok (s\<lparr>sc_state := q\<rparr>)" for q using s by (simp add: res_ok_def)
  have k: "res_ok (startKey s)" using s by (simp add: res_ok_def startKey_def)
  have a: "res_ok ((advanceArrayIndex s)\<lparr>sc_state := StValue\<rparr>)"
    using s by (simp add: res_ok_def advanceArrayIndex_def split: list.splits)
  have l: "res_ok (s\<lparr>sc_lit_remaining := ls\<rparr>)" "res_ok (endScalar (s\<lparr>sc_lit_remaining := ls\<rparr>))" for ls
    using s by (simp_all add: res_ok_def)
  show ?thesis
    using res_ok_stepString [OF ok]
    by (cases "sc_state s")
      (simp_all add: step_struct_def s st k a l Let_def res_ok_pop res_ok_stepValue split: list.splits)
qed

lemma res_ok_endNumber: "res_ok s \<Longrightarrow> res_ok (endNumber s)"
proof -
  assume s: "res_ok s"
  have st: "res_ok (store_int s)"
    using s by (cases "sc_val_kind s") (simp_all add: store_int_def res_ok_def Let_def)
  let ?s1 = "if isInt (sc_val_kind s)
                then (if sc_int_invalid s \<or> sc_int_digits s = 0 then degrade s else store_int s)
                else if sc_int_invalid s \<and> sc_val_kind s \<noteq> CapNone then degrade s else s"
  have "res_ok ?s1" using s st by simp
  then show ?thesis unfolding endNumber_def Let_def
    by (rule res_ok_cong) simp_all
qed

lemma scanner_ok_endNumber: "scanner_ok s \<Longrightarrow> scanner_ok (endNumber s)"
proof -
  assume s: "scanner_ok s"
  have "kind_ok (endNumber s)"
    unfolding endNumber_def Let_def by (rule kind_ok_not_value) (simp add: endScalar_def split: list.splits)
  moreover have "struct_ok (endNumber s)"
    using scanner_okD(1) [OF s] by (intro struct_ok_endNumber) (simp add: struct_ok_def)
  ultimately show ?thesis using scanner_okD [OF s]
    by (simp add: scanner_ok_def buf_ok_endNumber res_ok_endNumber)
qed

lemma res_ok_step: "scanner_ok s \<Longrightarrow> res_ok (step c s)"
proof (cases "number_char c s")
  case None
  assume "scanner_ok s"
  then show ?thesis using None scanner_ok_endNumber [of s]
    by (simp add: step_def stepNumber_def Let_def res_ok_step_struct scanner_okD(4))
next
  case (Some t)
  assume s: "scanner_ok s"
  then have "res_ok t" using number_char_frame [OF Some] scanner_okD(4) [OF s] by (auto simp: res_ok_def)
  then show ?thesis using s Some by (simp add: step_def stepNumber_def res_ok_step_struct)
qed

theorem scanner_ok_step: "scanner_ok s \<Longrightarrow> scanner_ok (step c s)"
  by (simp add: scanner_ok_def struct_ok_step buf_ok_step kind_ok_step res_ok_step [unfolded scanner_ok_def])

lemma scanner_ok_feed: "scanner_ok s \<Longrightarrow> scanner_ok (feed b s)"
  by (induction b arbitrary: s) (simp_all add: feed_Cons_step scanner_ok_step)

lemma captures_clean_empty: "captures_clean empty_result"
  by (simp add: captures_clean_def captured_def empty_result_def)

lemma scanner_ok_reset: "\<not> sc_panic s \<Longrightarrow> scanner_ok (reset s)"
  using buf_ok_reset [of s]
  by (simp add: scanner_ok_def struct_ok_def kind_ok_def res_ok_def reset_def captures_clean_empty list_all_iff)

lemma scanner_ok_new: "scanner_ok (newScannerFor root d k)"
  unfolding newScannerFor_def by (rule scanner_ok_reset) simp

lemma resolveChosen_eq:
  "\<exists>v dg. resolveChosen s = s\<lparr>sc_res := (sc_res s)\<lparr>r_chosen_provider := v, r_degraded := dg\<rparr>\<rparr> \<and>
     (v = r_chosen_provider (sc_res s) \<or> (\<exists>i < maxCandidateSlots. v = sc_candidates s ! i))"
proof -
  let ?i = "r_chosen (sc_res s)"
  consider "?i < 0 \<or> (int maxCandidateSlots \<le> ?i \<and> \<not> sc_candidates_over s)"
    | "int maxCandidateSlots \<le> ?i" "sc_candidates_over s" "\<not> ?i < 0"
    | "0 \<le> ?i" "?i < int maxCandidateSlots" by linarith
  then show ?thesis
  proof cases
    case 1
    then have "resolveChosen s = s\<lparr>sc_res := (sc_res s)\<lparr>r_chosen_provider := r_chosen_provider (sc_res s),
        r_degraded := r_degraded (sc_res s)\<rparr>\<rparr>"
      by (auto simp: resolveChosen_def Let_def maxCandidateSlots_def)
    then show ?thesis by blast
  next
    case 2
    then have "resolveChosen s = s\<lparr>sc_res := (sc_res s)\<lparr>r_chosen_provider := r_chosen_provider (sc_res s),
        r_degraded := True\<rparr>\<rparr>"
      by (simp add: resolveChosen_def degrade_def Let_def)
    then show ?thesis by blast
  next
    case 3
    then have "resolveChosen s = s\<lparr>sc_res := (sc_res s)\<lparr>r_chosen_provider := sc_candidates s ! nat ?i,
        r_degraded := r_degraded (sc_res s)\<rparr>\<rparr>" and "nat ?i < maxCandidateSlots"
      by (auto simp: resolveChosen_def Let_def maxCandidateSlots_def)
    then show ?thesis by blast
  qed
qed

lemma scanner_ok_resolveChosen: "scanner_ok s \<Longrightarrow> scanner_ok (resolveChosen s)"
proof -
  assume s: "scanner_ok s"
  obtain v dg where f: "resolveChosen s = s\<lparr>sc_res := (sc_res s)\<lparr>r_chosen_provider := v, r_degraded := dg\<rparr>\<rparr>"
    and v: "v = r_chosen_provider (sc_res s) \<or> (\<exists>i < maxCandidateSlots. v = sc_candidates s ! i)"
    using resolveChosen_eq by blast
  have "clean capProviderBytes v"
    using v scanner_okD(2,4) [OF s]
    by (auto simp: res_ok_def buf_ok_def captures_clean_def captured_def list_all_length)
  moreover have "struct_ok (resolveChosen s)"
    by (rule struct_ok_cong [OF scanner_okD(1) [OF s]]) (simp_all add: f)
  ultimately show ?thesis using scanner_okD(2,3,4) [OF s]
    by (simp add: f scanner_ok_def buf_ok_def kind_ok_def res_ok_def captures_clean_def captured_def)
qed

lemma res_ok_finish: "scanner_ok s \<Longrightarrow> res_ok (finish s)"
proof -
  assume s: "scanner_ok s"
  let ?t = "resolveChosen s"
  have t: "scanner_ok ?t" using s by (rule scanner_ok_resolveChosen)
  have r: "res_ok ?t" "res_ok (endNumber ?t)"
    using scanner_okD(4) [OF t] scanner_okD(4) [OF scanner_ok_endNumber [OF t]] by simp_all
  have c: "res_ok (u\<lparr>sc_res := (sc_res u)\<lparr>r_complete := True\<rparr>\<rparr>)" if "res_ok u" for u
    using that by (simp add: res_ok_def)
  show ?thesis
    using r by (cases "sc_state ?t") (simp_all add: finish_def Let_def c)
qed

section \<open>The configuration never changes\<close>

definition limits :: "scanner \<Rightarrow> path_node \<times> nat \<times> nat" where
  "limits s = (sc_root s, sc_max_depth s, sc_max_key_bytes s)"

lemma limits_frame [simp]:
  "limits (s\<lparr>sc_state := q\<rparr>) = limits s" "limits (s\<lparr>sc_stack := st\<rparr>) = limits s"
  "limits (s\<lparr>sc_lit_remaining := l\<rparr>) = limits s" "limits (s\<lparr>sc_escape := e\<rparr>) = limits s"
  "limits (s\<lparr>sc_unicode_val := uv\<rparr>) = limits s" "limits (s\<lparr>sc_unicode_left := n\<rparr>) = limits s"
  "limits (s\<lparr>sc_val_kind := k\<rparr>) = limits s" "limits (s\<lparr>sc_res := r\<rparr>) = limits s"
  "limits (s\<lparr>sc_pending := pn\<rparr>) = limits s" "limits (s\<lparr>sc_candidates := cs\<rparr>) = limits s"
  "limits (s\<lparr>sc_candidates_over := ov\<rparr>) = limits s" "limits (s\<lparr>sc_panic := pq\<rparr>) = limits s"
  "limits (appendString b s) = limits s" "limits (markStringInvalid s) = limits s"
  "limits (degrade s) = limits s" "limits (abandon rr s) = limits s" "limits (endScalar s) = limits s"
  "limits (store_int s) = limits s" "limits (startKey s) = limits s"
  by (auto simp: limits_def abandon_def startKey_def markStringInvalid_def endScalar_def split: list.splits)

lemma limits_commit [simp]: "limits (commitStringCapture s) = limits s"
  using commitStringCapture_frame [of s] by (auto simp: limits_def)

lemma limits_endString [simp]: "limits (endString s) = limits s"
  using limits_commit [of s] by (auto simp: limits_def endString_def Let_def)

lemma limits_escape [simp]: "limits (step_escape c s) = limits s" "limits (step_unicode c s) = limits s"
  by (simp_all add: limits_def)

lemma limits_stepString [simp]: "limits (stepString c s) = limits s"
  by (simp add: stepString_def)

lemma limits_push [simp]: "limits (push a s) = limits s"
proof (cases "length (sc_stack s) < sc_max_depth s")
  case True
  obtain n t where "takePending s = (n, t)" by (cases "takePending s")
  from push_ok [OF True this] show ?thesis by (simp add: limits_def)
qed (simp add: push_full)

lemma limits_stepValue [simp]: "limits (stepValue c s) = limits s"
proof -
  have "limits (startValueString s) = limits s" using startValueString_frame [of s] by (auto simp: limits_def)
  moreover have "limits (startNumber c s) = limits s" using startNumber_frame [of c s] by (auto simp: limits_def)
  ultimately show ?thesis by (simp add: stepValue_def)
qed

lemma limits_pop [simp]: "limits (pop s) = limits s"
  by (auto simp: limits_def pop_def split: list.splits)

lemma limits_advance [simp]: "limits (advanceArrayIndex s) = limits s"
  by (auto simp: limits_def advanceArrayIndex_def split: list.splits)

lemma limits_step_struct [simp]: "limits (step_struct c s) = limits s"
  by (cases "sc_state s") (simp_all add: step_struct_def Let_def split: list.splits)

lemma limits_endNumber [simp]: "limits (endNumber s) = limits s"
  by (simp add: endNumber_def Let_def)

lemma limits_step [simp]: "limits (step c s) = limits s"
proof (cases "number_char c s")
  case None
  then show ?thesis by (simp add: step_def stepNumber_def Let_def)
next
  case (Some t)
  then have "limits t = limits s" using number_char_frame [OF Some] by (auto simp: limits_def)
  then show ?thesis using Some by (simp add: step_def stepNumber_def)
qed

lemma limits_feed [simp]: "limits (feed b s) = limits s"
  by (induction b arbitrary: s) (simp_all add: feed_Cons_step)

lemma feed_bounds_kept:
  "sc_max_depth (feed b s) = sc_max_depth s" "sc_max_key_bytes (feed b s) = sc_max_key_bytes s"
  using limits_feed [of b s] by (simp_all add: limits_def)

section \<open>An abandoned scanner is dead\<close>

definition alive_ok :: "scanner \<Rightarrow> bool" where
  "alive_ok s \<longleftrightarrow> r_abandoned (sc_res s) = None \<or> sc_state s = StDead"

abbreviation ab :: "scanner \<Rightarrow> abandon_reason option" where
  "ab s \<equiv> r_abandoned (sc_res s)"

lemma ab_degrade [simp]: "ab (degrade s) = ab s"
  by (simp add: degrade_def)

lemma ab_commit: "ab (commitStringCapture s) = ab s"
proof -
  have st: "ab (store_capture k v t) = ab t" for k v t
    by (cases k) (simp_all add: store_capture_def putCandidateProvider_def Let_def)
  show ?thesis by (simp add: commitStringCapture_def Let_def st)
qed

lemma ab_appendString [simp]: "ab (appendString b s) = ab s"
  by simp

lemma ab_markStringInvalid [simp]: "ab (markStringInvalid s) = ab s"
  by (simp add: markStringInvalid_def)

lemma ab_endScalar [simp]: "ab (endScalar s) = ab s"
  by (simp add: endScalar_def split: list.splits)

lemma ab_endString [simp]: "ab (endString s) = ab s"
  by (simp add: endString_def Let_def ab_commit)

lemma ab_step_escape [simp]: "ab (step_escape c s) = ab s"
proof -
  have "ab (appendString b (s\<lparr>sc_escape := False\<rparr>)) = ab s" for b by simp
  moreover have "ab (degrade (markStringInvalid (s\<lparr>sc_escape := False\<rparr>))) = ab s" by simp
  ultimately show ?thesis by (simp add: step_escape_def Let_def)
qed

lemma ab_stepString [simp]: "ab (stepString c s) = ab s"
  by (simp add: stepString_def)

definition keeps :: "scanner \<Rightarrow> scanner \<Rightarrow> bool" where
  "keeps s t \<longleftrightarrow> ab t = ab s \<or> sc_state t = StDead"

lemma keeps_abandon [simp]: "keeps s (abandon r t)"
  by (simp add: keeps_def abandon_def)

lemma keeps_push: "keeps s (push a s)"
proof (cases "length (sc_stack s) < sc_max_depth s")
  case True
  obtain n t where "takePending s = (n, t)" by (cases "takePending s")
  from push_ok [OF True this] show ?thesis
    by (simp add: keeps_def mark_error_def split: option.splits)
qed (simp add: push_full)

lemma keeps_stepValue: "keeps s (stepValue c s)"
proof -
  have "ab (startValueString s) = ab s" using startValueString_frame [of s] by auto
  moreover have "ab (startNumber d s) = ab s" for d using startNumber_frame [of d s] by auto
  ultimately show ?thesis by (simp add: stepValue_def keeps_push) (simp add: keeps_def)
qed

lemma keeps_step_struct: "keeps s (step_struct c s)"
proof -
  have "ab (pop s) = ab s" "ab (advanceArrayIndex s) = ab s" "ab (startKey s) = ab s"
    by (simp_all add: pop_def advanceArrayIndex_def startKey_def split: list.splits)
  moreover have "keeps s (stepValue c (s\<lparr>sc_state := StValue\<rparr>))"
    using keeps_stepValue [of "s\<lparr>sc_state := StValue\<rparr>" c] by (simp add: keeps_def)
  moreover have "keeps s t" if "ab t = ab s" for t using that by (simp add: keeps_def)
  ultimately show ?thesis
    by (cases "sc_state s") (simp_all add: step_struct_def Let_def keeps_stepValue split: list.splits)
qed

lemma ab_store_int: "ab (store_int s) = ab s"
  by (cases "sc_val_kind s") (simp_all add: store_int_def Let_def)

lemma ab_endNumber: "ab (endNumber s) = ab s"
  by (simp add: endNumber_def Let_def ab_store_int)

lemma alive_ok_step: "alive_ok s \<Longrightarrow> alive_ok (step c s)"
proof (cases "sc_state s = StDead")
  case False
  assume "alive_ok s"
  then have n: "ab s = None" using False by (simp add: alive_ok_def)
  have "keeps s (step c s)"
  proof (cases "number_char c s")
    case None
    have "keeps s (step_struct c (endNumber s))"
      using keeps_step_struct [of "endNumber s" c] by (simp add: keeps_def ab_endNumber)
    then show ?thesis using None ab_endNumber [of s] keeps_step_struct [of s c]
      by (simp add: step_def stepNumber_def Let_def) (simp add: keeps_def)
  next
    case (Some t)
    then have "ab t = ab s" using number_char_frame [OF Some] by auto
    then show ?thesis using Some keeps_step_struct [of s c]
      by (simp add: step_def stepNumber_def) (simp add: keeps_def)
  qed
  then show ?thesis using n by (auto simp: keeps_def alive_ok_def)
qed (simp add: step_dead)

lemma alive_ok_feed: "alive_ok s \<Longrightarrow> alive_ok (feed b s)"
  by (induction b arbitrary: s) (simp_all add: feed_Cons_step alive_ok_step feed.simps(1))

lemma alive_ok_new: "alive_ok (newScannerFor root d k)"
  by (simp add: alive_ok_def newScannerFor_def reset_def empty_result_def)

end
