(* ===== verification/Parsers.thy ===== *)
theory Parsers
  imports Observation ScannerInv
begin

text \<open>
  The two whole-document body parsers of \<^verbatim>\<open>pkg/observe/parser.go\<close>: the chat completion parser
  (\<^verbatim>\<open>jsonParser\<close>) and the search router's profile of it (\<^verbatim>\<open>searchParser\<close>), with the error classes the
  tap can hand over at the end of a body.
\<close>

section \<open>Read errors\<close>

text \<open>
  What \<^verbatim>\<open>errors.Is\<close> can tell about the error a body read returned: the two context errors, the end
  of the body, anything else.  \<open>None\<close> is Go's \<^verbatim>\<open>nil\<close>.
\<close>

datatype read_error = ReadEOF | ReadCanceled | ReadDeadlineExceeded | ReadOther

definition isClientDisconnect :: "read_error option \<Rightarrow> bool" where
  "isClientDisconnect err \<longleftrightarrow> err \<noteq> None \<and> (err = Some ReadCanceled \<or> err = Some ReadDeadlineExceeded)"

section \<open>The JSON parser\<close>

record json_parser =
  jp_scan :: scanner

definition newJSONParser :: "nat \<Rightarrow> nat \<Rightarrow> json_parser" where
  "newJSONParser maxDepth maxKeyBytes = \<lparr>jp_scan = newScanner maxDepth maxKeyBytes\<rparr>"

definition json_consume :: "string \<Rightarrow> json_parser \<Rightarrow> json_parser" where
  "json_consume b p = p\<lparr>jp_scan := feed b (jp_scan p)\<rparr>"

definition json_abort_reason :: "json_parser \<Rightarrow> abandon_reason option" where
  "json_abort_reason p =
     (if r_abandoned (sc_res (jp_scan p)) = Some AbandonMaxDepthExceeded
      then Some AbandonMaxDepthExceeded else None)"

definition json_terminated :: "json_parser \<Rightarrow> bool" where
  "json_terminated p = False"

text \<open>The outcome switch shared by the end of both finalize methods.\<close>

definition json_finalize ::
  "bool \<Rightarrow> read_error option \<Rightarrow> json_parser \<Rightarrow> observation \<Rightarrow> observation \<times> outcome" where
  "json_finalize atEOF finalErr p obsv =
     (let s = (if atEOF then finish (jp_scan p) else jp_scan p);
          r = sc_res s;
          o1 = obsv\<lparr>ob_generation_id := r_id r, ob_resolved_model := r_model r,
                    ob_finish_reason := r_finish_reason r, ob_error_type := r_err_type r,
                    ob_error_code := r_err_code r, ob_saw_finish_reason := r_saw_finish_reason r,
                    ob_parse_degraded := r_degraded r\<rparr>;
          o2 = (if r_saw_usage r then o1\<lparr>ob_saw_usage := True, ob_usage := Some (r_usage r)\<rparr> else o1)
      in if isClientDisconnect finalErr then (o2, Complete TerminationClientDisconnect)
         else case r_abandoned r of
           Some a \<Rightarrow> (o2, Abandoned a)
         | None \<Rightarrow>
             if \<not> r_complete r then (o2, Abandoned AbandonMalformedBody)
             else if r_saw_error r then (o2, Complete TerminationUpstreamErrorEvent)
             else (o2\<lparr>ob_saw_done := True\<rparr>, Complete TerminationDone))"

section \<open>The search parser\<close>

record search_parser = json_parser +
  sp_header_id :: string

definition newSearchParser :: "nat \<Rightarrow> nat \<Rightarrow> string \<Rightarrow> search_parser" where
  "newSearchParser maxDepth maxKeyBytes headerID =
     \<lparr>jp_scan = newScannerFor searchWhitelist maxDepth maxKeyBytes, sp_header_id = headerID\<rparr>"

text \<open>The promoted methods of the embedded \<^verbatim>\<open>jsonParser\<close>.\<close>

definition search_consume :: "string \<Rightarrow> search_parser \<Rightarrow> search_parser" where
  "search_consume b p = p\<lparr>jp_scan := feed b (jp_scan p)\<rparr>"

definition search_abort_reason :: "search_parser \<Rightarrow> abandon_reason option" where
  "search_abort_reason p = json_abort_reason (json_parser.truncate p)"

definition search_terminated :: "search_parser \<Rightarrow> bool" where
  "search_terminated p = json_terminated (json_parser.truncate p)"

definition search_finalize ::
  "bool \<Rightarrow> read_error option \<Rightarrow> search_parser \<Rightarrow> observation \<Rightarrow> observation \<times> outcome" where
  "search_finalize atEOF finalErr p obsv =
     (let s = (if atEOF then finish (jp_scan p) else jp_scan p);
          r = sc_res s;
          ident = (if sp_header_id p = [] then r_id r else sp_header_id p);
          o1 = (if sp_header_id p \<noteq> [] \<and> r_id r \<noteq> [] \<and> r_id r \<noteq> sp_header_id p
                then obsv\<lparr>ob_metadata_conflict := True\<rparr> else obsv);
          o2 = o1\<lparr>ob_generation_id := ident, ob_resolved_model := r_chosen_provider r,
                  ob_parse_degraded := r_degraded r\<rparr>
      in if isClientDisconnect finalErr then (o2, Complete TerminationClientDisconnect)
         else case r_abandoned r of
           Some a \<Rightarrow> (o2, Abandoned a)
         | None \<Rightarrow>
             if \<not> r_complete r then (o2, Abandoned AbandonMalformedBody)
             else (o2\<lparr>ob_saw_done := True\<rparr>, Complete TerminationDone))"

end
