(* ===== verification/Sse.thy ===== *)
theory Sse
  imports Parsers
begin

text \<open>
  The server-sent-events framer of \<^verbatim>\<open>pkg/observe/sse.go\<close>: a byte machine that finds lines, field
  names and event boundaries, streams the payload of \<^verbatim>\<open>data:\<close> lines into the scanner, and merges the
  results of the events.  \<^verbatim>\<open>fieldBuf[:fieldLen]\<close> and \<^verbatim>\<open>classify[:classifyLen]\<close> are the lists
  \<open>ff_field_buf\<close> and \<open>ff_classify\<close>; the work counters are naturals and the limits integers, since a
  counter of bytes cannot reach the end of an int64.
\<close>

section \<open>The merge over events\<close>

record stream_merge =
  mg_id :: string
  mg_model :: string
  mg_conflict :: bool
  mg_usage :: "usage option"
  mg_finish_reason :: string
  mg_err_type :: string
  mg_err_code :: string
  mg_saw_usage :: bool
  mg_saw_finish_reason :: bool
  mg_degraded :: bool

definition empty_merge :: stream_merge where
  "empty_merge =
     \<lparr>mg_id = [], mg_model = [], mg_conflict = False, mg_usage = None, mg_finish_reason = [],
      mg_err_type = [], mg_err_code = [], mg_saw_usage = False, mg_saw_finish_reason = False,
      mg_degraded = False\<rparr>"

definition merge_apply :: "scan_result \<Rightarrow> stream_merge \<Rightarrow> stream_merge" where
  "merge_apply r m0 =
     (let m1 = (if mg_id m0 = [] then m0\<lparr>mg_id := r_id r\<rparr>
                else if r_id r \<noteq> [] \<and> r_id r \<noteq> mg_id m0 then m0\<lparr>mg_conflict := True\<rparr> else m0);
          m2 = (if mg_model m1 = [] then m1\<lparr>mg_model := r_model r\<rparr>
                else if r_model r \<noteq> [] \<and> r_model r \<noteq> mg_model m1 then m1\<lparr>mg_conflict := True\<rparr> else m1);
          m3 = (if r_saw_usage r then m2\<lparr>mg_usage := Some (r_usage r), mg_saw_usage := True\<rparr> else m2);
          m4 = (if mg_finish_reason m3 = [] \<and> r_saw_finish_reason r
                then m3\<lparr>mg_finish_reason := r_finish_reason r\<rparr> else m3);
          m5 = (if r_saw_finish_reason r then m4\<lparr>mg_saw_finish_reason := True\<rparr> else m4);
          m6 = (if r_err_type r \<noteq> [] \<and> mg_err_type m5 = [] then m5\<lparr>mg_err_type := r_err_type r\<rparr> else m5);
          m7 = (if r_err_code r \<noteq> [] \<and> mg_err_code m6 = [] then m6\<lparr>mg_err_code := r_err_code r\<rparr> else m6)
      in if r_degraded r then m7\<lparr>mg_degraded := True\<rparr> else m7)"

section \<open>The framer\<close>

datatype sse_state = SseLineStart | SseFieldName | SseDataStart | SseDataBytes | SseSkipLine

definition classifyBytes :: nat where "classifyBytes = 16"
definition fieldBufBytes :: nat where "fieldBufBytes = 8"
definition doneMarker :: string where "doneMarker = ''[DONE]''"

record sse_framer =
  ff_scan :: scanner
  ff_max_event_bytes :: int
  ff_max_events :: int
  ff_state :: sse_state
  ff_line_len :: nat
  ff_field_buf :: string
  ff_event_has_data :: bool
  ff_event_json :: bool
  ff_event_skipped :: bool
  ff_event_bytes :: nat
  ff_classify :: string
  ff_classifying :: bool
  ff_continuation :: bool
  ff_events :: nat
  ff_prev_cr :: bool
  ff_done_seen :: bool
  ff_error_seen :: bool
  ff_abort :: "abandon_reason option"
  ff_merge :: stream_merge

definition newSSEFramer :: "nat \<Rightarrow> nat \<Rightarrow> int \<Rightarrow> int \<Rightarrow> sse_framer" where
  "newSSEFramer maxDepth maxKeyBytes maxEventBytes maxEvents =
     \<lparr>ff_scan = newScanner maxDepth maxKeyBytes, ff_max_event_bytes = maxEventBytes,
      ff_max_events = maxEvents, ff_state = SseLineStart, ff_line_len = 0, ff_field_buf = [],
      ff_event_has_data = False, ff_event_json = False, ff_event_skipped = False,
      ff_event_bytes = 0, ff_classify = [], ff_classifying = False, ff_continuation = False,
      ff_events = 0, ff_prev_cr = False, ff_done_seen = False, ff_error_seen = False,
      ff_abort = None, ff_merge = empty_merge\<rparr>"

definition merge_degrade :: "sse_framer \<Rightarrow> sse_framer" where
  "merge_degrade f = f\<lparr>ff_merge := (ff_merge f)\<lparr>mg_degraded := True\<rparr>\<rparr>"

definition feedScanner :: "char \<Rightarrow> sse_framer \<Rightarrow> sse_framer" where
  "feedScanner c f = f\<lparr>ff_scan := feed [c] (ff_scan f)\<rparr>"

definition beginDataLine :: "sse_framer \<Rightarrow> sse_framer" where
  "beginDataLine f0 =
     (let f1 = f0\<lparr>ff_event_has_data := True\<rparr>;
          f2 = (if ff_event_json f1 \<and> ff_continuation f1 then feedScanner CHR 0x0A f1 else f1);
          f3 = (if \<not> ff_event_json f2 \<and> \<not> ff_event_skipped f2 \<and> \<not> ff_continuation f2
                then f2\<lparr>ff_classifying := True, ff_classify := []\<rparr> else f2)
      in f3\<lparr>ff_continuation := True\<rparr>)"

definition dataByte :: "char \<Rightarrow> sse_framer \<Rightarrow> sse_framer" where
  "dataByte c f0 =
     (let f = f0\<lparr>ff_event_bytes := Suc (ff_event_bytes f0)\<rparr> in
      if ff_max_event_bytes f < int (ff_event_bytes f) then
        (if \<not> ff_event_skipped f
         then (merge_degrade f)\<lparr>ff_event_skipped := True, ff_classifying := False\<rparr> else f)
      else if ff_event_skipped f then f
      else if ff_classifying f then
        (if ff_classify f = [] \<and> c = CHR ''{''
         then feedScanner c (f\<lparr>ff_classifying := False, ff_event_json := True, ff_scan := reset (ff_scan f)\<rparr>)
         else if length (ff_classify f) < classifyBytes then f\<lparr>ff_classify := ff_classify f @ [c]\<rparr>
         else (merge_degrade f)\<lparr>ff_classifying := False, ff_event_skipped := True\<rparr>)
      else if ff_event_json f then feedScanner c f
      else f)"

text \<open>
  \<^verbatim>\<open>stepChar\<close> calls itself once from \<^verbatim>\<open>sseLineStart\<close> (into the field name) and once from
  \<^verbatim>\<open>sseDataStart\<close> (into the payload); the two continuations are \<open>fieldChar\<close> and \<open>dataByte\<close>.
\<close>

definition fieldChar :: "char \<Rightarrow> sse_framer \<Rightarrow> sse_framer" where
  "fieldChar c f =
     (if c = CHR '':'' then
        (if ff_field_buf f = ''data'' then f\<lparr>ff_state := SseDataStart\<rparr> else f\<lparr>ff_state := SseSkipLine\<rparr>)
      else if length (ff_field_buf f) < fieldBufBytes then f\<lparr>ff_field_buf := ff_field_buf f @ [c]\<rparr>
      else f\<lparr>ff_state := SseSkipLine\<rparr>)"

definition stepChar :: "char \<Rightarrow> sse_framer \<Rightarrow> sse_framer" where
  "stepChar c f =
     (case ff_state f of
        SseLineStart \<Rightarrow>
          if c = CHR '':'' then f\<lparr>ff_state := SseSkipLine\<rparr>
          else fieldChar c (f\<lparr>ff_field_buf := [], ff_state := SseFieldName\<rparr>)
      | SseFieldName \<Rightarrow> fieldChar c f
      | SseDataStart \<Rightarrow>
          (let g = (beginDataLine f)\<lparr>ff_state := SseDataBytes\<rparr>
           in if c = CHR '' '' then g else dataByte c g)
      | SseDataBytes \<Rightarrow> dataByte c f
      | SseSkipLine \<Rightarrow> f)"

definition clear_event :: "sse_framer \<Rightarrow> sse_framer" where
  "clear_event f =
     f\<lparr>ff_event_has_data := False, ff_event_json := False, ff_event_skipped := False,
       ff_event_bytes := 0, ff_continuation := False\<rparr>"

definition close_json :: "sse_framer \<Rightarrow> sse_framer" where
  "close_json f0 =
     (let f = f0\<lparr>ff_scan := finish (ff_scan f0)\<rparr>; r = sc_res (ff_scan f) in
      if r_abandoned r = Some AbandonMaxDepthExceeded then f\<lparr>ff_abort := Some AbandonMaxDepthExceeded\<rparr>
      else if r_abandoned r \<noteq> None \<or> \<not> r_complete r then merge_degrade f
      else
        (let g = f\<lparr>ff_merge := merge_apply r (ff_merge f)\<rparr>
         in if r_saw_error r then g\<lparr>ff_error_seen := True\<rparr> else g))"

definition finishEvent :: "sse_framer \<Rightarrow> sse_framer" where
  "finishEvent f0 =
     (if \<not> ff_event_has_data f0 then f0
      else
        (let f = f0\<lparr>ff_events := Suc (ff_events f0)\<rparr> in
         if ff_max_events f < int (ff_events f) then f\<lparr>ff_abort := Some AbandonBodyTooLarge\<rparr>
         else clear_event (if ff_event_json f then close_json f else f)))"

definition end_classify :: "sse_framer \<Rightarrow> sse_framer" where
  "end_classify f =
     (if ff_state f = SseDataBytes \<and> ff_classifying f then
        (let g = f\<lparr>ff_classifying := False\<rparr> in
         if ff_classify g = doneMarker then g\<lparr>ff_done_seen := True\<rparr>
         else (merge_degrade g)\<lparr>ff_event_skipped := True\<rparr>)
      else f)"

definition endLine :: "sse_framer \<Rightarrow> sse_framer" where
  "endLine f =
     (let blank = (ff_line_len f = 0);
          g = (end_classify f)\<lparr>ff_line_len := 0, ff_state := SseLineStart\<rparr>
      in if blank then finishEvent g else g)"

definition sse_byte :: "char \<Rightarrow> sse_framer \<Rightarrow> sse_framer" where
  "sse_byte c f =
     (if ff_prev_cr f \<and> c = CHR 0x0A then f\<lparr>ff_prev_cr := False\<rparr>
      else if c = CHR 0x0D then (endLine f)\<lparr>ff_prev_cr := True\<rparr>
      else if c = CHR 0x0A then (endLine f)\<lparr>ff_prev_cr := False\<rparr>
      else stepChar c (f\<lparr>ff_prev_cr := False, ff_line_len := Suc (ff_line_len f)\<rparr>))"

definition sse_stopped :: "sse_framer \<Rightarrow> bool" where
  "sse_stopped f \<longleftrightarrow> ff_abort f \<noteq> None \<or> ff_done_seen f \<or> ff_error_seen f"

fun sse_consume :: "string \<Rightarrow> sse_framer \<Rightarrow> sse_framer" where
  "sse_consume [] f = f"
| "sse_consume (c # b) f = (if sse_stopped f then f else sse_consume b (sse_byte c f))"

section \<open>The parser adapter\<close>

definition sse_abort_reason :: "sse_framer \<Rightarrow> abandon_reason option" where
  "sse_abort_reason f = ff_abort f"

definition sse_terminated :: "sse_framer \<Rightarrow> bool" where
  "sse_terminated f \<longleftrightarrow> ff_done_seen f \<or> ff_error_seen f"

definition sse_finalize ::
  "bool \<Rightarrow> read_error option \<Rightarrow> sse_framer \<Rightarrow> observation \<Rightarrow> observation \<times> outcome" where
  "sse_finalize atEOF finalErr f0 obsv =
     (let f = (if atEOF \<and> ff_event_has_data f0 then merge_degrade f0 else f0);
          m = ff_merge f;
          o1 = obsv\<lparr>ob_generation_id := mg_id m, ob_resolved_model := mg_model m,
                    ob_finish_reason := mg_finish_reason m, ob_error_type := mg_err_type m,
                    ob_error_code := mg_err_code m, ob_saw_done := ff_done_seen f,
                    ob_saw_usage := mg_saw_usage m, ob_saw_finish_reason := mg_saw_finish_reason m,
                    ob_parse_degraded := mg_degraded m, ob_metadata_conflict := mg_conflict m\<rparr>;
          o2 = (case mg_usage m of Some u \<Rightarrow> o1\<lparr>ob_usage := Some u\<rparr> | None \<Rightarrow> o1)
      in (o2,
          if ff_done_seen f then Complete TerminationDone
          else if ff_error_seen f then Complete TerminationUpstreamErrorEvent
          else if isClientDisconnect finalErr then Complete TerminationClientDisconnect
          else Complete TerminationEOFWithoutDone))"

end
