(* ===== verification/ScannerSpec.thy ===== *)
theory ScannerSpec
  imports ScannerInv
begin

text \<open>
  A reference reading of a JSON document: \<open>walk\<close> visits a value tree and collects what the
  whitelist names, with no control state at all.  The main result is that scanning the text of a
  document byte by byte yields exactly \<open>walk\<close> of its tree (\<open>feed_render\<close>), as long as the nesting
  fits the depth bound, and abandons with the depth reason when it does not.
\<close>

section \<open>Documents and their text\<close>

datatype json =
    JNull
  | JBool bool
  | JNum string
  | JStr string
  | JArr "json list"
  | JObj "(string \<times> json) list"

definition render_char :: "char \<Rightarrow> string" where
  "render_char c = (if c = CHR 0x22 \<or> c = CHR 0x5C then [CHR 0x5C, c] else [c])"

fun render_body :: "string \<Rightarrow> string" where
  "render_body [] = []"
| "render_body (c # s) = render_char c @ render_body s"

definition render_str :: "string \<Rightarrow> string" where
  "render_str s = CHR 0x22 # render_body s @ [CHR 0x22]"

fun render :: "json \<Rightarrow> string"
  and render_elems :: "json list \<Rightarrow> string"
  and render_members :: "(string \<times> json) list \<Rightarrow> string" where
  "render JNull = ''null''"
| "render (JBool b) = (if b then ''true'' else ''false'')"
| "render (JNum t) = t"
| "render (JStr s) = render_str s"
| "render (JArr vs) = CHR ''['' # render_elems vs"
| "render (JObj kvs) = CHR ''{'' # render_members kvs"
| "render_elems [] = '']''"
| "render_elems (v # vs) = render v @ (if vs = [] then [] else '','') @ render_elems vs"
| "render_members [] = ''}''"
| "render_members ((k, v) # kvs) =
     render_str k @ '':'' @ render v @ (if kvs = [] then [] else '','') @ render_members kvs"

definition is_number_char :: "char \<Rightarrow> bool" where
  "is_number_char c \<longleftrightarrow> is_digit c \<or> c = CHR ''-'' \<or> c = CHR ''+'' \<or> c = CHR ''.'' \<or> c = CHR ''e'' \<or> c = CHR ''E''"

definition number_text :: "string \<Rightarrow> bool" where
  "number_text t \<longleftrightarrow> t \<noteq> [] \<and> (hd t = CHR ''-'' \<or> is_digit (hd t)) \<and> list_all is_number_char t"

fun json_ok :: "json \<Rightarrow> bool"
  and elems_ok :: "json list \<Rightarrow> bool"
  and members_ok :: "(string \<times> json) list \<Rightarrow> bool" where
  "json_ok JNull = True"
| "json_ok (JBool b) = True"
| "json_ok (JNum t) = number_text t"
| "json_ok (JStr s) = True"
| "json_ok (JArr vs) = elems_ok vs"
| "json_ok (JObj kvs) = members_ok kvs"
| "elems_ok [] = True"
| "elems_ok (v # vs) = (json_ok v \<and> elems_ok vs)"
| "members_ok [] = True"
| "members_ok ((k, v) # kvs) = (json_ok v \<and> members_ok kvs)"

fun jdepth :: "json \<Rightarrow> nat"
  and elems_depth :: "json list \<Rightarrow> nat"
  and members_depth :: "(string \<times> json) list \<Rightarrow> nat" where
  "jdepth JNull = 0"
| "jdepth (JBool b) = 0"
| "jdepth (JNum t) = 0"
| "jdepth (JStr s) = 0"
| "jdepth (JArr vs) = Suc (elems_depth vs)"
| "jdepth (JObj kvs) = Suc (members_depth kvs)"
| "elems_depth [] = 0"
| "elems_depth (v # vs) = max (jdepth v) (elems_depth vs)"
| "members_depth [] = 0"
| "members_depth ((k, v) # kvs) = max (jdepth v) (members_depth kvs)"

section \<open>The reference walk\<close>

type_synonym acc = "scan_result \<times> string list \<times> bool"

definition acc_of :: "scanner \<Rightarrow> acc" where
  "acc_of s = (sc_res s, sc_candidates s, sc_candidates_over s)"

definition acc_degrade :: "acc \<Rightarrow> acc" where
  "acc_degrade = (\<lambda>(r, cs, ov). (r\<lparr>r_degraded := True\<rparr>, cs, ov))"

definition acc_mark :: "path_node option \<Rightarrow> acc \<Rightarrow> acc" where
  "acc_mark n = (\<lambda>(r, cs, ov). (mark_error n r, cs, ov))"

definition acc_store :: "capture_kind \<Rightarrow> int \<Rightarrow> string \<Rightarrow> acc \<Rightarrow> acc" where
  "acc_store kind idx v = (\<lambda>(r, cs, ov).
     case kind of
       CapID \<Rightarrow> (if r_id r = [] then r\<lparr>r_id := v\<rparr> else r, cs, ov)
     | CapModel \<Rightarrow> (if r_model r = [] then r\<lparr>r_model := v\<rparr> else r, cs, ov)
     | CapFinishReason \<Rightarrow>
         ((if r_finish_reason r = [] then r\<lparr>r_finish_reason := v\<rparr> else r)\<lparr>r_saw_finish_reason := True\<rparr>, cs, ov)
     | CapErrType \<Rightarrow> (if r_err_type r = [] then r\<lparr>r_err_type := v\<rparr> else r, cs, ov)
     | CapErrCode \<Rightarrow> (if r_err_code r = [] then r\<lparr>r_err_code := v\<rparr> else r, cs, ov)
     | CapCandidateProvider \<Rightarrow>
         if idx < 0 \<or> int maxCandidateSlots \<le> idx then (r, cs, True)
         else if cs ! nat idx = [] then (r, cs[nat idx := v], ov) else (r, cs, ov)
     | _ \<Rightarrow> (r, cs, ov))"

text \<open>A string value at a whitelisted place is kept only if it fits its cap and passes the screens.\<close>

definition acc_string :: "capture_kind \<Rightarrow> int \<Rightarrow> string \<Rightarrow> acc \<Rightarrow> acc" where
  "acc_string kind idx v a =
     (if kind = CapNone then a
      else if stringCap kind < length v \<or> \<not> printableASCIINoWS v then acc_degrade a
      else if looksLikeCredential v
        then (case acc_degrade a of (r, cs, ov) \<Rightarrow> (r\<lparr>r_credential_rejected := True\<rparr>, cs, ov))
      else acc_store kind idx v a)"

text \<open>The accumulated value, digit count and invalid flag of a number text.\<close>

fun num_scan :: "string \<Rightarrow> 64 word \<times> nat \<times> bool \<Rightarrow> 64 word \<times> nat \<times> bool" where
  "num_scan [] st = st"
| "num_scan (c # t) (v, d, bad) =
     num_scan t
       (if is_digit c then
          (if capIntDigits \<le> d then (v, d, True)
           else if v * 10 + of_nat (digit_val c) < v then (v, d, True)
           else (v * 10 + of_nat (digit_val c), Suc d, bad))
        else (v, d, True))"

definition acc_int :: "capture_kind \<Rightarrow> bool \<Rightarrow> 64 word \<Rightarrow> acc \<Rightarrow> acc" where
  "acc_int kind neg v = (\<lambda>(r, cs, ov).
     case kind of
       CapPromptTokens \<Rightarrow> (r\<lparr>r_usage := (r_usage r)\<lparr>us_prompt := v\<rparr>, r_saw_usage := True\<rparr>, cs, ov)
     | CapCompletionTokens \<Rightarrow> (r\<lparr>r_usage := (r_usage r)\<lparr>us_completion := v\<rparr>, r_saw_usage := True\<rparr>, cs, ov)
     | CapTotalTokens \<Rightarrow> (r\<lparr>r_usage := (r_usage r)\<lparr>us_total := v\<rparr>, r_saw_usage := True\<rparr>, cs, ov)
     | CapChosen \<Rightarrow>
         (r\<lparr>r_chosen := (if neg then noChosenIndex
                         else if maxChosenIndex < uint v then maxChosenIndex else uint v)\<rparr>, cs, ov)
     | _ \<Rightarrow> (r, cs, ov))"

definition acc_number :: "capture_kind \<Rightarrow> string \<Rightarrow> acc \<Rightarrow> acc" where
  "acc_number kind t a =
     (if kind = CapNone then a
      else
        (let neg = (kind = CapChosen \<and> hd t = CHR ''-'');
             (v, d, bad) = num_scan (if neg then tl t else t) (0, 0, False)
         in if bad \<or> d = 0 then acc_degrade a else acc_int kind neg v a))"

definition child_node :: "nat \<Rightarrow> path_node option \<Rightarrow> string \<Rightarrow> path_node option" where
  "child_node mk n k =
     (if mk < length k then None
      else case n of None \<Rightarrow> None | Some p \<Rightarrow> map_of (pn_children p) k)"

definition elem_node :: "path_node option \<Rightarrow> path_node option" where
  "elem_node n = (case n of None \<Rightarrow> None | Some p \<Rightarrow> pn_any_index p)"

fun walk :: "nat \<Rightarrow> path_node option \<Rightarrow> int \<Rightarrow> json \<Rightarrow> acc \<Rightarrow> acc"
  and walk_elems :: "nat \<Rightarrow> path_node option \<Rightarrow> int \<Rightarrow> json list \<Rightarrow> acc \<Rightarrow> acc"
  and walk_members :: "nat \<Rightarrow> path_node option \<Rightarrow> int \<Rightarrow> (string \<times> json) list \<Rightarrow> acc \<Rightarrow> acc" where
  "walk mk n idx JNull a = a"
| "walk mk n idx (JBool b) a = a"
| "walk mk n idx (JNum t) a = acc_number (int_kind n) t a"
| "walk mk n idx (JStr v) a = acc_string (string_kind n) idx v a"
| "walk mk n idx (JArr vs) a = walk_elems mk (elem_node n) 0 vs (acc_mark n a)"
| "walk mk n idx (JObj kvs) a = walk_members mk n idx kvs (acc_mark n a)"
| "walk_elems mk e i [] a = a"
| "walk_elems mk e i (v # vs) a = walk_elems mk e (i + 1) vs (walk mk e i v a)"
| "walk_members mk n idx [] a = a"
| "walk_members mk n idx ((k, v) # kvs) a =
     walk_members mk n idx kvs (walk mk (child_node mk n k) idx v a)"

section \<open>Strings\<close>

lemma append_val_app: "append_val (a @ b) s = append_val b (append_val a s)"
proof (induction a arbitrary: s)
  case Nil
  then show ?case by simp
next
  case (Cons c a)
  show ?case
  proof (cases "stringCap (sc_val_kind s) \<le> length (sc_val_buf s)")
    case True
    then show ?thesis by (cases b) simp_all
  next
    case False
    then show ?thesis using Cons.IH by simp
  qed
qed

lemma append_key_app: "append_key (a @ b) s = append_key b (append_key a s)"
proof (induction a arbitrary: s)
  case Nil
  then show ?case by simp
next
  case (Cons c a)
  show ?case
  proof (cases "sc_max_key_bytes s \<le> length (sc_key_buf s)")
    case True
    then show ?thesis by (cases b) simp_all
  next
    case False
    then show ?thesis using Cons.IH by simp
  qed
qed

lemma appendString_app: "appendString (a @ b) s = appendString b (appendString a s)"
proof -
  have "appendString b (appendString a s) =
      (if sc_in_key s then append_key b (appendString a s)
       else if sc_val_kind s = CapNone then appendString a s else append_val b (appendString a s))"
    by (simp add: appendString_def [of b])
  then show ?thesis by (simp add: appendString_def append_val_app append_key_app)
qed

lemma escape_upd_idem: "\<not> sc_escape s \<Longrightarrow> s\<lparr>sc_escape := False\<rparr> = s"
proof -
  assume e: "\<not> sc_escape s"
  have "s\<lparr>sc_escape := sc_escape s\<rparr> = s" by simp
  with e show ?thesis by simp
qed

text \<open>The step in each state, so that a proof never unfolds the whole case distinction.\<close>

lemma step_in_state:
  "sc_state s = StStart \<Longrightarrow> step c s = (if is_bom_byte c then s else stepValue c (s\<lparr>sc_state := StValue\<rparr>))"
  "sc_state s = StValue \<Longrightarrow> step c s = stepValue c s"
  "sc_state s = StColon \<Longrightarrow> step c s =
     (if isWS c then s else if c = CHR '':'' then s\<lparr>sc_state := StValue\<rparr> else abandon AbandonMalformedBody s)"
  "sc_state s = StObjectKey \<Longrightarrow> step c s =
     (if isWS c then s else if c = CHR 0x22 then startKey s else abandon AbandonMalformedBody s)"
  "sc_state s = StObjectKeyOrEnd \<Longrightarrow> step c s =
     (if isWS c then s else if c = CHR 0x22 then startKey s else if c = CHR ''}'' then pop s
      else abandon AbandonMalformedBody s)"
  "sc_state s = StObjectNext \<Longrightarrow> step c s =
     (if isWS c then s else if c = CHR '','' then s\<lparr>sc_state := StObjectKey\<rparr> else if c = CHR ''}'' then pop s
      else abandon AbandonMalformedBody s)"
  "sc_state s = StArrayFirst \<Longrightarrow> step c s =
     (if isWS c then s else if c = CHR '']'' then pop s else stepValue c (s\<lparr>sc_state := StValue\<rparr>))"
  "sc_state s = StArrayNext \<Longrightarrow> step c s =
     (if isWS c then s else if c = CHR '','' then (advanceArrayIndex s)\<lparr>sc_state := StValue\<rparr>
      else if c = CHR '']'' then pop s else abandon AbandonMalformedBody s)"
  "sc_state s = StKeyString \<Longrightarrow> step c s = stepString c s"
  "sc_state s = StValueString \<Longrightarrow> step c s = stepString c s"
  "sc_state s = StNumber \<Longrightarrow> step c s = stepNumber c s"
  "sc_state s = StTopDone \<Longrightarrow> step c s = (if isWS c then s else abandon AbandonMalformedBody s)"
  by (simp_all add: step_def step_struct_def)

lemma step_literal:
  "sc_state s = StLiteral \<Longrightarrow> sc_lit_remaining s = l # ls \<Longrightarrow> step l s =
     (if ls = [] then endScalar (s\<lparr>sc_lit_remaining := ls\<rparr>) else s\<lparr>sc_lit_remaining := ls\<rparr>)"
  by (simp add: step_def step_struct_def Let_def)

lemma stepValue_at:
  "stepValue CHR ''{'' s = push False s" "stepValue CHR ''['' s = push True s"
  "stepValue CHR 0x22 s = startValueString s"
  "stepValue CHR ''t'' s = s\<lparr>sc_lit_remaining := ''rue'', sc_state := StLiteral\<rparr>"
  "stepValue CHR ''f'' s = s\<lparr>sc_lit_remaining := ''alse'', sc_state := StLiteral\<rparr>"
  "stepValue CHR ''n'' s = s\<lparr>sc_lit_remaining := ''ull'', sc_state := StLiteral\<rparr>"
  by (simp_all add: stepValue_def isWS_def)

lemma step_escape_at:
  "step_escape CHR 0x22 s = appendString [CHR 0x22] (s\<lparr>sc_escape := False\<rparr>)"
  "step_escape CHR 0x5C s = appendString [CHR 0x5C] (s\<lparr>sc_escape := False\<rparr>)"
  by (simp_all add: step_escape_def Let_def)

lemma step_in_string:
  assumes "sc_state s = StKeyString \<or> sc_state s = StValueString"
  shows "step c s = stepString c s"
  using assms by (elim disjE) (simp_all add: step_in_state)

lemma feed_render_char:
  assumes "sc_state s = StKeyString \<or> sc_state s = StValueString" "\<not> sc_escape s" "sc_unicode_left s = 0"
  shows "feed (render_char c) s = appendString [c] s"
proof (cases "c = CHR 0x22 \<or> c = CHR 0x5C")
  case True
  have "step CHR 0x5C s = s\<lparr>sc_escape := True\<rparr>"
    using assms by (simp add: step_in_string stepString_def)
  moreover have "step c (s\<lparr>sc_escape := True\<rparr>) = appendString [c] s"
    using True
  proof
    assume "c = CHR 0x22"
    then show ?thesis using assms
      by (simp add: step_in_string stepString_def step_escape_at escape_upd_idem)
  next
    assume "c = CHR 0x5C"
    then show ?thesis using assms
      by (simp add: step_in_string stepString_def step_escape_at escape_upd_idem)
  qed
  ultimately show ?thesis using True by (simp add: render_char_def feed_Cons_step)
next
  case False
  then show ?thesis using assms
    by (simp add: render_char_def feed_Cons_step step_in_string stepString_def)
qed

lemma appendString_Nil [simp]: "appendString [] s = s"
  by (simp add: appendString_def)

lemma feed_render_body:
  assumes "sc_state s = StKeyString \<or> sc_state s = StValueString" "\<not> sc_escape s" "sc_unicode_left s = 0"
  shows "feed (render_body v) s = appendString v s"
  using assms
proof (induction v arbitrary: s)
  case Nil
  then show ?case by simp
next
  case (Cons c v)
  have "feed (render_body (c # v)) s = feed (render_body v) (appendString [c] s)"
    using feed_render_char [OF Cons.prems] by (simp add: feed_append)
  also have "\<dots> = appendString v (appendString [c] s)"
    using Cons.prems by (intro Cons.IH) simp_all
  also have "\<dots> = appendString ([c] @ v) s" by (rule appendString_app [symmetric])
  finally show ?case by simp
qed

lemma append_val_take:
  assumes "length (sc_val_buf s) \<le> stringCap (sc_val_kind s)"
  shows "append_val v s =
     s\<lparr>sc_val_buf := sc_val_buf s @ take (stringCap (sc_val_kind s) - length (sc_val_buf s)) v,
       sc_val_overflow := sc_val_overflow s \<or> stringCap (sc_val_kind s) < length (sc_val_buf s) + length v\<rparr>"
  using assms
proof (induction v arbitrary: s)
  case Nil
  then show ?case by simp
next
  case (Cons c v)
  show ?case
  proof (cases "stringCap (sc_val_kind s) \<le> length (sc_val_buf s)")
    case True
    with Cons.prems show ?thesis by simp
  next
    case False
    then have p: "length (sc_val_buf (append_val_byte c s)) \<le> stringCap (sc_val_kind (append_val_byte c s))"
      by (simp add: append_val_byte_def)
    obtain m where m: "stringCap (sc_val_kind s) - length (sc_val_buf s) = Suc m"
      "stringCap (sc_val_kind s) - Suc (length (sc_val_buf s)) = m"
      using False by (metis Suc_diff_Suc not_le)
    show ?thesis using False Cons.IH [OF p] m by (simp add: append_val_byte_def)
  qed
qed

lemma append_key_take:
  assumes "length (sc_key_buf s) \<le> sc_max_key_bytes s"
  shows "append_key v s =
     s\<lparr>sc_key_buf := sc_key_buf s @ take (sc_max_key_bytes s - length (sc_key_buf s)) v,
       sc_key_overflow := sc_key_overflow s \<or> sc_max_key_bytes s < length (sc_key_buf s) + length v\<rparr>"
  using assms
proof (induction v arbitrary: s)
  case Nil
  then show ?case by simp
next
  case (Cons c v)
  show ?case
  proof (cases "sc_max_key_bytes s \<le> length (sc_key_buf s)")
    case True
    with Cons.prems show ?thesis by simp
  next
    case False
    then have p: "length (sc_key_buf (append_key_byte c s)) \<le> sc_max_key_bytes (append_key_byte c s)"
      by (simp add: append_key_byte_def)
    obtain m where m: "sc_max_key_bytes s - length (sc_key_buf s) = Suc m"
      "sc_max_key_bytes s - Suc (length (sc_key_buf s)) = m"
      using False by (metis Suc_diff_Suc not_le)
    show ?thesis using False Cons.IH [OF p] m by (simp add: append_key_byte_def)
  qed
qed

section \<open>The observable context of a value\<close>

definition after_state :: "frame list \<Rightarrow> scan_state" where
  "after_state st = (case st of [] \<Rightarrow> StTopDone | f # _ \<Rightarrow> if fr_is_array f then StArrayNext else StObjectNext)"

lemma endScalar_after: "endScalar s = s\<lparr>sc_state := after_state (sc_stack s)\<rparr>"
  by (simp add: endScalar_def after_state_def split: list.splits)

lemma pop_after: "sc_stack s = f # fs \<Longrightarrow> pop s = s\<lparr>sc_stack := fs, sc_state := after_state fs\<rparr>"
  by (simp add: pop_def after_state_def split: list.splits)

lemma after_state_neq [simp]:
  "after_state st \<noteq> StNumber" "after_state st \<noteq> StDead" "after_state st \<noteq> StValue"
  by (simp_all add: after_state_def split: list.splits)

definition same_bounds :: "scanner \<Rightarrow> scanner \<Rightarrow> bool" where
  "same_bounds s t \<longleftrightarrow>
     sc_root t = sc_root s \<and> sc_max_depth t = sc_max_depth s \<and>
     sc_max_key_bytes t = sc_max_key_bytes s \<and> sc_panic t = sc_panic s"

lemma same_bounds_refl [simp]: "same_bounds s s"
  by (simp add: same_bounds_def)

lemma same_bounds_trans: "same_bounds s t \<Longrightarrow> same_bounds t u \<Longrightarrow> same_bounds s u"
  by (simp add: same_bounds_def)

text \<open>A number ends only when the byte after it arrives; \<open>settle\<close> is the state with it ended.\<close>

definition settle :: "scanner \<Rightarrow> scanner" where
  "settle s = (if sc_state s = StNumber then endNumber s else s)"

lemma endNumber_state: "sc_state (endNumber s) \<noteq> StNumber" "sc_state (endNumber s) \<noteq> StDead"
  by (simp_all add: endNumber_def Let_def endScalar_after)

lemma step_settle:
  assumes "\<not> is_number_char c"
  shows "step c s = step c (settle s)"
proof (cases "sc_state s = StNumber")
  case True
  have "number_char c s = None" using assms by (simp add: number_char_def is_number_char_def)
  then show ?thesis using True endNumber_state [of s]
    by (simp add: settle_def step_def stepNumber_def Let_def)
next
  case False
  then show ?thesis by (simp add: settle_def)
qed

definition value_done :: "scanner \<Rightarrow> acc \<Rightarrow> scanner \<Rightarrow> bool" where
  "value_done s a t \<longleftrightarrow>
     same_bounds s t \<and> sc_stack t = sc_stack s \<and> sc_state t = after_state (sc_stack s) \<and> acc_of t = a"

lemma takePending_acc:
  assumes "takePending s = (n, t)"
  shows "same_bounds s t" "sc_stack t = sc_stack s" "acc_of t = acc_of s" "sc_state t = sc_state s"
  using assms by (auto simp: takePending_def same_bounds_def acc_of_def split: list.splits if_splits)

subsection \<open>Literals\<close>

lemma feed_literal:
  assumes "sc_state s = StLiteral" "sc_lit_remaining s = l" "l \<noteq> []"
  shows "feed l s = endScalar (s\<lparr>sc_lit_remaining := []\<rparr>)"
  using assms
proof (induction l arbitrary: s)
  case Nil
  then show ?case by simp
next
  case (Cons c l)
  show ?case
  proof (cases "l = []")
    case True
    with Cons.prems show ?thesis by (simp add: feed_Cons_step step_literal)
  next
    case False
    have "feed (c # l) s = feed l (s\<lparr>sc_lit_remaining := l\<rparr>)"
      using Cons.prems False by (simp add: feed_Cons_step step_literal)
    also have "\<dots> = endScalar (s\<lparr>sc_lit_remaining := l\<rparr>\<lparr>sc_lit_remaining := []\<rparr>)"
      using Cons.prems False by (intro Cons.IH) simp_all
    finally show ?thesis by simp
  qed
qed

lemma feed_lit_value:
  assumes "step c s = s\<lparr>sc_lit_remaining := l, sc_state := StLiteral\<rparr>" "l \<noteq> []"
  shows "value_done s (acc_of s) (settle (feed (c # l) s))"
proof -
  have "feed (c # l) s = endScalar (s\<lparr>sc_lit_remaining := l, sc_state := StLiteral\<rparr>\<lparr>sc_lit_remaining := []\<rparr>)"
    using assms by (simp add: feed_Cons_step feed_literal)
  then show ?thesis
    by (simp add: value_done_def settle_def endScalar_after same_bounds_def acc_of_def)
qed

lemma value_done_lit:
  assumes "sc_state s = StValue"
  shows "value_done s (acc_of s) (settle (feed ''null'' s))"
    "value_done s (acc_of s) (settle (feed ''true'' s))"
    "value_done s (acc_of s) (settle (feed ''false'' s))"
  using assms by (intro feed_lit_value; simp add: step_in_state stepValue_at)+

subsection \<open>String values\<close>

lemma acc_of_store_capture:
  "acc_of (store_capture k v s) = acc_store k (enclosingArrayIndex (sc_stack s)) v (acc_of s)"
  by (cases k) (simp_all add: store_capture_def acc_store_def acc_of_def putCandidateProvider_def Let_def)

lemma acc_of_degrade: "acc_of (degrade s) = acc_degrade (acc_of s)"
  by (simp add: acc_of_def acc_degrade_def degrade_def)

lemma printable_utf8: "printableASCIINoWS v \<Longrightarrow> utf8_valid v"
  by (rule utf8_valid_ascii) (auto simp: printableASCIINoWS_def printable_char_def list_all_iff)

lemma commit_bounds: "same_bounds s (commitStringCapture s)" "sc_stack (commitStringCapture s) = sc_stack s"
  using commitStringCapture_frame [of s] by (auto simp: same_bounds_def)

lemma acc_of_commit:
  assumes "sc_val_buf s = take (stringCap (sc_val_kind s)) v" "\<not> sc_val_invalid s"
    "sc_val_overflow s = (stringCap (sc_val_kind s) < length v)"
  shows "acc_of (commitStringCapture s) =
     acc_string (sc_val_kind s) (enclosingArrayIndex (sc_stack s)) v (acc_of s)"
proof -
  define t where "t = s\<lparr>sc_val_kind := CapNone\<rparr>"
  have t: "acc_of t = acc_of s" "sc_stack t = sc_stack s" "sc_val_buf t = sc_val_buf s"
    "sc_val_overflow t = sc_val_overflow s" "\<not> sc_val_invalid t"
    using assms by (simp_all add: t_def acc_of_def)
  have c: "commitStringCapture s =
     (if sc_val_kind s = CapNone then t
      else if sc_val_overflow t \<or> sc_val_invalid t then degrade t
      else if \<not> utf8_valid (sc_val_buf t) then degrade t
      else if \<not> printableASCIINoWS (sc_val_buf t) then degrade t
      else if looksLikeCredential (sc_val_buf t)
        then degrade (t\<lparr>sc_res := (sc_res t)\<lparr>r_credential_rejected := True\<rparr>\<rparr>)
      else store_capture (sc_val_kind s) (sc_val_buf t) t)"
    by (simp add: commitStringCapture_def t_def Let_def)
  have b: "sc_val_buf t = v" if "\<not> stringCap (sc_val_kind s) < length v"
    using that assms(1) t(3) by simp
  have cr: "acc_of (degrade (t\<lparr>sc_res := (sc_res t)\<lparr>r_credential_rejected := True\<rparr>\<rparr>)) =
     (case acc_degrade (acc_of s) of (r, cs, ov) \<Rightarrow> (r\<lparr>r_credential_rejected := True\<rparr>, cs, ov))"
    using t(1) by (simp add: acc_of_def acc_degrade_def degrade_def)
  consider "sc_val_kind s = CapNone"
    | "sc_val_kind s \<noteq> CapNone" "stringCap (sc_val_kind s) < length v"
    | "sc_val_kind s \<noteq> CapNone" "\<not> stringCap (sc_val_kind s) < length v" by blast
  then show ?thesis
  proof cases
    case 1
    then show ?thesis using t by (simp add: c acc_string_def)
  next
    case 2
    then show ?thesis using t assms(3) by (simp add: c acc_string_def acc_of_degrade)
  next
    case 3
    with assms(3) t(4) have "\<not> sc_val_overflow t" by simp
    then show ?thesis using 3 t(1,2,5) b [OF 3(2)] cr printable_utf8 [of v]
      by (auto simp: c acc_string_def acc_of_degrade acc_of_store_capture)
  qed
qed

lemma value_done_string:
  assumes s: "sc_state s = StValue" "takePending s = (n, s0)"
  shows "value_done s (acc_string (string_kind n) (enclosingArrayIndex (sc_stack s)) v (acc_of s))
           (settle (feed (render_str v) s))"
proof -
  define t where "t = s0\<lparr>sc_val_kind := string_kind n, sc_val_buf := [], sc_val_overflow := False,
         sc_val_invalid := False, sc_escape := False, sc_unicode_left := 0, sc_in_key := False,
         sc_state := StValueString\<rparr>"
  have t0: "step CHR 0x22 s = t"
    using s by (simp add: step_in_state stepValue_at startValueString_def t_def)
  have tf: "sc_state t = StValueString" "\<not> sc_escape t" "sc_unicode_left t = 0" "\<not> sc_in_key t"
    "sc_val_kind t = string_kind n" "sc_val_buf t = []" "\<not> sc_val_overflow t" "\<not> sc_val_invalid t"
    by (simp_all add: t_def)
  have ta: "same_bounds s t" "sc_stack t = sc_stack s" "acc_of t = acc_of s"
    using takePending_acc [OF s(2)] by (simp_all add: t_def same_bounds_def acc_of_def)
  let ?u = "appendString v t"
  have u: "feed (CHR 0x22 # render_body v) s = ?u"
    using t0 feed_render_body [of t v] tf by (simp add: feed_Cons_step)
  have uf: "same_bounds s ?u" "sc_stack ?u = sc_stack s" "acc_of ?u = acc_of s"
    using ta by (simp_all add: same_bounds_def acc_of_def)
  have close: "step CHR 0x22 ?u = endScalar (commitStringCapture ?u)"
    using tf by (simp add: step_in_state stepString_def endString_def)
  have a: "acc_of (commitStringCapture ?u) =
      acc_string (string_kind n) (enclosingArrayIndex (sc_stack s)) v (acc_of s)"
  proof (cases "string_kind n = CapNone")
    case True
    then have "?u = t" using tf by (simp add: appendString_def)
    moreover have "commitStringCapture t = t\<lparr>sc_val_kind := CapNone\<rparr>"
      using True tf by (simp add: commitStringCapture_def Let_def)
    ultimately show ?thesis using True ta(3) by (simp add: acc_string_def acc_of_def)
  next
    case False
    have uv: "?u = append_val v t" using False tf by (simp add: appendString_def)
    have "append_val v t = t\<lparr>sc_val_buf := take (stringCap (string_kind n)) v,
        sc_val_overflow := (stringCap (string_kind n) < length v)\<rparr>"
      using append_val_take [of t v] tf by simp
    with uv have uu: "?u = t\<lparr>sc_val_buf := take (stringCap (string_kind n)) v,
        sc_val_overflow := (stringCap (string_kind n) < length v)\<rparr>" by simp
    have "acc_of (commitStringCapture ?u) =
       acc_string (sc_val_kind ?u) (enclosingArrayIndex (sc_stack ?u)) v (acc_of ?u)"
      by (rule acc_of_commit) (simp_all add: uu tf)
    then show ?thesis using uf tf by simp
  qed
  have "feed (render_str v) s = endScalar (commitStringCapture ?u)"
    using u close by (simp add: render_str_def feed_append feed_Cons_step)
  moreover have "same_bounds s (commitStringCapture ?u)" "sc_stack (commitStringCapture ?u) = sc_stack s"
    using uf commit_bounds [of ?u] same_bounds_trans by auto
  ultimately show ?thesis using a
    by (simp add: value_done_def settle_def endScalar_after same_bounds_def acc_of_def)
qed

subsection \<open>Numbers\<close>

definition put_num :: "64 word \<times> nat \<times> bool \<Rightarrow> scanner \<Rightarrow> scanner" where
  "put_num st s = (case st of (v, d, bad) \<Rightarrow> s\<lparr>sc_int_val := v, sc_int_digits := d, sc_int_invalid := bad\<rparr>)"

definition num_of :: "scanner \<Rightarrow> 64 word \<times> nat \<times> bool" where
  "num_of s = (sc_int_val s, sc_int_digits s, sc_int_invalid s)"

lemma put_num_fields [simp]:
  "sc_state (put_num st s) = sc_state s" "sc_stack (put_num st s) = sc_stack s"
  "sc_val_kind (put_num st s) = sc_val_kind s" "sc_int_neg (put_num st s) = sc_int_neg s"
  "num_of (put_num st s) = st" "acc_of (put_num st s) = acc_of s" "same_bounds u (put_num st s) = same_bounds u s"
  "put_num st (put_num st' s) = put_num st s"
  by (simp_all add: put_num_def num_of_def acc_of_def same_bounds_def split: prod.splits)

lemma put_num_self: "put_num (num_of s) s = s"
  by (simp add: put_num_def num_of_def)

lemma number_char_put:
  assumes "is_number_char c"
  shows "number_char c s = Some (put_num (num_scan [c] (num_of s)) s)"
proof (cases "is_digit c")
  case True
  then show ?thesis by (simp add: number_char_def put_num_def num_of_def Let_def)
next
  case False
  then show ?thesis using assms by (simp add: number_char_def put_num_def num_of_def is_number_char_def)
qed

lemma num_scan_app: "num_scan (a @ b) st = num_scan b (num_scan a st)"
proof (induction a arbitrary: st)
  case Nil
  then show ?case by simp
next
  case (Cons c a)
  then show ?case by (cases st) simp
qed

lemma feed_number:
  assumes "sc_state s = StNumber" "list_all is_number_char t"
  shows "feed t s = put_num (num_scan t (num_of s)) s"
  using assms
proof (induction t arbitrary: s)
  case Nil
  then show ?case by (simp add: put_num_self)
next
  case (Cons c t)
  have "step c s = put_num (num_scan [c] (num_of s)) s"
    using Cons.prems number_char_put [of c s] by (simp add: step_in_state stepNumber_def)
  then have "feed (c # t) s = feed t (put_num (num_scan [c] (num_of s)) s)"
    by (simp add: feed_Cons_step)
  also have "\<dots> = put_num (num_scan t (num_scan [c] (num_of s))) (put_num (num_scan [c] (num_of s)) s)"
    using Cons.prems Cons.IH [of "put_num (num_scan [c] (num_of s)) s"] by simp
  finally show ?case using num_scan_app [of "[c]" t "num_of s"] by simp
qed

lemma stepValue_number:
  assumes "c = CHR ''-'' \<or> is_digit c"
  shows "stepValue c s = startNumber c s"
  using assms
proof
  assume "c = CHR ''-''"
  then show ?thesis by (simp add: stepValue_def isWS_def)
next
  assume d: "is_digit c"
  have "\<not> isWS c" "c \<noteq> CHR ''{''" "c \<noteq> CHR ''[''" "c \<noteq> CHR 0x22" "c \<noteq> CHR ''t''" "c \<noteq> CHR ''f''" "c \<noteq> CHR ''n''"
    using d by (auto simp: isWS_def is_digit_def)
  then show ?thesis using d by (simp add: stepValue_def)
qed

lemma acc_of_endNumber:
  assumes "num_of s = (v, d, bad)" "sc_val_kind s = CapNone \<or> isInt (sc_val_kind s)"
  shows "acc_of (endNumber s) =
     (if sc_val_kind s = CapNone then acc_of s
      else if bad \<or> d = 0 then acc_degrade (acc_of s)
      else acc_int (sc_val_kind s) (sc_int_neg s) v (acc_of s))"
proof -
  have n: "sc_int_val s = v" "sc_int_digits s = d" "sc_int_invalid s = bad"
    using assms(1) by (simp_all add: num_of_def)
  have i: "acc_of (store_int s) = acc_int (sc_val_kind s) (sc_int_neg s) v (acc_of s)"
    if "isInt (sc_val_kind s)"
    using that n by (cases "sc_val_kind s") (simp_all add: store_int_def acc_int_def acc_of_def Let_def)
  have u: "acc_of (endScalar (u\<lparr>sc_val_kind := CapNone\<rparr>)) = acc_of u" for u
    by (simp add: acc_of_def endScalar_after)
  show ?thesis
  proof (cases "sc_val_kind s = CapNone")
    case True
    then show ?thesis using u [of s] by (simp add: endNumber_def Let_def)
  next
    case False
    with assms(2) have "isInt (sc_val_kind s)" by blast
    then show ?thesis using False i n u [of "degrade s"] u [of "store_int s"] acc_of_degrade [of s]
      by (simp add: endNumber_def Let_def)
  qed
qed

lemma endNumber_bounds:
  "same_bounds u (endNumber s) = same_bounds u s" "sc_stack (endNumber s) = sc_stack s"
  "sc_state (endNumber s) = after_state (sc_stack s)"
  by (simp_all add: endNumber_def Let_def endScalar_after same_bounds_def)

lemma value_done_number:
  assumes s: "sc_state s = StValue" "takePending s = (n, s0)" and t: "number_text t"
  shows "value_done s (acc_number (int_kind n) t (acc_of s)) (settle (feed t s))"
proof -
  obtain c r where c: "t = c # r" "c = CHR ''-'' \<or> is_digit c" "is_number_char c" "list_all is_number_char r"
    using t by (cases t) (auto simp: number_text_def)
  define u where "u = s0\<lparr>sc_val_kind := int_kind n, sc_int_val := 0, sc_int_digits := 0,
                  sc_int_invalid := False, sc_int_neg := False, sc_state := StNumber\<rparr>"
  define neg where "neg = (c = CHR ''-'' \<and> int_kind n = CapChosen)"
  have uf: "sc_state u = StNumber" "num_of u = (0, 0, False)" "sc_val_kind u = int_kind n" "\<not> sc_int_neg u"
    by (simp_all add: u_def num_of_def)
  have ua: "same_bounds s u" "sc_stack u = sc_stack s" "acc_of u = acc_of s"
    using takePending_acc [OF s(2)] by (simp_all add: u_def same_bounds_def acc_of_def)
  define w where "w = (if neg then u\<lparr>sc_int_neg := True\<rparr> else u)"
  have wf: "sc_state w = StNumber" "num_of w = (0, 0, False)" "sc_val_kind w = int_kind n" "sc_int_neg w = neg"
    "same_bounds s w" "sc_stack w = sc_stack s" "acc_of w = acc_of s"
    using uf ua by (auto simp: w_def num_of_def same_bounds_def acc_of_def)
  have st: "step c s = (if neg then w else put_num (num_scan [c] (0, 0, False)) w)"
    using s c number_char_put [OF c(3), of u] uf
    by (simp add: step_in_state stepValue_number startNumber_def w_def neg_def u_def Let_def)
  have fd: "feed t s = put_num (num_scan (if neg then tl t else t) (0, 0, False)) w"
  proof (cases neg)
    case True
    then show ?thesis using st c wf feed_number [of w r] by (simp add: feed_Cons_step)
  next
    case False
    then show ?thesis using st c wf feed_number [of "put_num (num_scan [c] (0, 0, False)) w" r]
        num_scan_app [of "[c]" r] by (simp add: feed_Cons_step)
  qed
  obtain v d bad where nr: "num_scan (if neg then tl t else t) (0, 0, False) = (v, d, bad)"
    by (cases "num_scan (if neg then tl t else t) (0, 0, False)")
  let ?x = "put_num (v, d, bad) w"
  have k: "sc_val_kind ?x = CapNone \<or> isInt (sc_val_kind ?x)"
    using wf by (simp add: int_kind_def split: option.splits)
  have h: "(int_kind n = CapChosen \<and> hd t = CHR ''-'') = neg" by (auto simp: neg_def c(1))
  have "acc_number (int_kind n) t (acc_of s) =
     (if int_kind n = CapNone then acc_of s
      else if bad \<or> d = 0 then acc_degrade (acc_of s) else acc_int (int_kind n) neg v (acc_of s))"
    by (simp only: acc_number_def Let_def h nr prod.case)
  then have "acc_of (endNumber ?x) = acc_number (int_kind n) t (acc_of s)"
    using acc_of_endNumber [of ?x v d bad] k wf by simp
  then show ?thesis using fd nr wf
    by (simp add: value_done_def settle_def endNumber_bounds)
qed

subsection \<open>Keys\<close>

lemma feed_key:
  assumes s: "sc_state s = StObjectKey \<or> sc_state s = StObjectKeyOrEnd" "sc_stack s = f # fs" "\<not> fr_is_array f"
  shows "\<exists>t. feed (render_str k @ '':'') s = t \<and> same_bounds s t \<and> sc_stack t = sc_stack s \<and>
     acc_of t = acc_of s \<and> sc_state t = StValue \<and>
     fst (takePending t) = child_node (sc_max_key_bytes s) (fr_node f) k"
proof -
  have st: "step CHR 0x22 s = startKey s" using s(1) by (elim disjE) (simp_all add: step_in_state isWS_def)
  let ?k = "startKey s"
  have kf: "sc_state ?k = StKeyString" "\<not> sc_escape ?k" "sc_unicode_left ?k = 0" "sc_in_key ?k"
    "sc_key_buf ?k = []" "\<not> sc_key_overflow ?k" "\<not> sc_key_invalid ?k" "sc_max_key_bytes ?k = sc_max_key_bytes s"
    "sc_stack ?k = sc_stack s" "same_bounds s ?k" "acc_of ?k = acc_of s"
    by (simp_all add: startKey_def same_bounds_def acc_of_def)
  have "append_key k ?k = ?k\<lparr>sc_key_buf := take (sc_max_key_bytes s) k,
       sc_key_overflow := (sc_max_key_bytes s < length k)\<rparr>"
    using append_key_take [of ?k k] kf by simp
  then have u: "appendString k ?k = ?k\<lparr>sc_key_buf := take (sc_max_key_bytes s) k,
       sc_key_overflow := (sc_max_key_bytes s < length k)\<rparr>" (is "_ = ?u")
    using kf by (simp add: appendString_def)
  have f1: "feed (CHR 0x22 # render_body k) s = ?u"
    using st feed_render_body [of ?k k] kf u by (simp add: feed_Cons_step)
  have uf: "sc_state ?u = StKeyString" "\<not> sc_escape ?u" "sc_unicode_left ?u = 0" "sc_in_key ?u"
    "sc_stack ?u = f # fs" "\<not> sc_key_invalid ?u"
    using kf s(2) by simp_all
  define w where "w = ?u\<lparr>sc_pending := child_node (sc_max_key_bytes s) (fr_node f) k, sc_state := StColon\<rparr>"
  have "endString ?u = w"
  proof -
    have "(if \<not> fr_is_array f \<and> \<not> sc_key_overflow ?u \<and> \<not> sc_key_invalid ?u
           then (case fr_node f of None \<Rightarrow> None | Some n \<Rightarrow> map_of (pn_children n) (sc_key_buf ?u))
           else None) = child_node (sc_max_key_bytes s) (fr_node f) k"
      using s(3) uf by (cases "fr_node f") (simp_all add: child_node_def)
    then show ?thesis using uf unfolding endString_def w_def Let_def by simp
  qed
  then have c1: "step CHR 0x22 ?u = w"
    using uf by (simp add: step_in_state stepString_def)
  have c2: "step CHR '':'' w = w\<lparr>sc_state := StValue\<rparr>"
    by (simp add: step_in_state w_def isWS_def)
  have "feed (render_str k @ '':'') s = w\<lparr>sc_state := StValue\<rparr>"
    using f1 c1 c2 by (simp add: render_str_def feed_append feed_Cons_step)
  moreover have "same_bounds s (w\<lparr>sc_state := StValue\<rparr>)" "sc_stack (w\<lparr>sc_state := StValue\<rparr>) = sc_stack s"
    "acc_of (w\<lparr>sc_state := StValue\<rparr>) = acc_of s"
    using kf by (simp_all add: w_def same_bounds_def acc_of_def)
  moreover have "fst (takePending (w\<lparr>sc_state := StValue\<rparr>)) = child_node (sc_max_key_bytes s) (fr_node f) k"
    using kf s(2,3) by (simp add: takePending_def w_def)
  ultimately show ?thesis by simp
qed

section \<open>Scanning a document\<close>

lemma after_state_simps [simp]:
  "after_state [] = StTopDone"
  "after_state (f # fs) = (if fr_is_array f then StArrayNext else StObjectNext)"
  by (simp_all add: after_state_def)

text \<open>The first byte of a value is neither white space nor a bracket that closes an array.\<close>

lemma render_first:
  "json_ok v \<Longrightarrow> \<exists>c r. render v = c # r \<and> \<not> isWS c \<and> c \<noteq> CHR '']'' \<and> \<not> is_bom_byte c"
proof (cases v)
  case (JNum t)
  assume "json_ok v"
  then obtain c r where t: "t = c # r" "c = CHR ''-'' \<or> is_digit c"
    using JNum by (cases t) (auto simp: number_text_def)
  have "\<not> isWS c \<and> c \<noteq> CHR '']'' \<and> \<not> is_bom_byte c"
    using t(2) by (auto simp: isWS_def is_digit_def is_bom_byte_def)
  then show ?thesis using JNum t by simp
qed (simp_all add: render_str_def isWS_def is_bom_byte_def)

lemma feed_first_value:
  assumes "json_ok v" "sc_state s = StArrayFirst \<or> sc_state s = StStart"
  shows "feed (render v) s = feed (render v) (s\<lparr>sc_state := StValue\<rparr>)"
proof -
  obtain c r where c: "render v = c # r" "\<not> isWS c" "c \<noteq> CHR '']''" "\<not> is_bom_byte c"
    using render_first [OF assms(1)] by blast
  have "step c s = step c (s\<lparr>sc_state := StValue\<rparr>)"
    using assms(2) c by (elim disjE) (simp_all add: step_in_state)
  then show ?thesis using c(1) by (simp add: feed_Cons_step)
qed

lemma feed_settle:
  "\<not> is_number_char c \<Longrightarrow> feed (c # r) s = feed (c # r) (settle s)"
  using step_settle [of c s] by (simp add: feed_Cons_step)

definition fits :: "scanner \<Rightarrow> nat \<Rightarrow> bool" where
  "fits s d \<longleftrightarrow> length (sc_stack s) + d \<le> sc_max_depth s"

lemma push_value:
  assumes "sc_state s = StValue" "takePending s = (n, s0)" "length (sc_stack s) < sc_max_depth s"
  shows "same_bounds s (push a s)" "sc_stack (push a s) = \<lparr>fr_is_array = a, fr_node = n, fr_index = 0\<rparr> # sc_stack s"
    "acc_of (push a s) = acc_mark n (acc_of s)" "sc_state (push a s) = (if a then StArrayFirst else StObjectKeyOrEnd)"
  using push_ok [OF assms(3,2), of a] by (simp_all add: same_bounds_def acc_of_def acc_mark_def)

abbreviation walk_from :: "scanner \<Rightarrow> json \<Rightarrow> acc" where
  "walk_from s v \<equiv> walk (sc_max_key_bytes s) (fst (takePending s)) (enclosingArrayIndex (sc_stack s)) v (acc_of s)"

lemma comma_not_number: "\<not> is_number_char CHR '',''" "\<not> is_number_char CHR '']''" "\<not> is_number_char CHR ''}''"
  by (simp_all add: is_number_char_def is_digit_def)

text \<open>Opening a container, moving on to the next element or member, and closing it.\<close>

lemma feed_open:
  assumes "sc_state s = StValue"
  shows "feed (render (JArr vs)) s = feed (render_elems vs) (push True s)"
    "feed (render (JObj kvs)) s = feed (render_members kvs) (push False s)"
  using assms by (simp_all add: feed_Cons_step step_in_state stepValue_at)

lemma feed_close:
  assumes "sc_stack s = f # fs"
  shows "sc_state s = StArrayFirst \<or> sc_state s = StArrayNext \<Longrightarrow> feed '']'' s = s\<lparr>sc_stack := fs, sc_state := after_state fs\<rparr>"
    "sc_state s = StObjectKeyOrEnd \<or> sc_state s = StObjectNext \<Longrightarrow> feed ''}'' s = s\<lparr>sc_stack := fs, sc_state := after_state fs\<rparr>"
  using assms by (auto simp: feed_Cons_step step_in_state isWS_def pop_after)

lemma element_entry:
  assumes "sc_state s = StArrayFirst \<or> sc_state s = StValue" "json_ok v"
  shows "feed (render v) s = feed (render v) (s\<lparr>sc_state := StValue\<rparr>)"
proof (cases "sc_state s = StValue")
  case True
  have "s\<lparr>sc_state := sc_state s\<rparr> = s" by simp
  then have "s\<lparr>sc_state := StValue\<rparr> = s" unfolding True .
  then show ?thesis by simp
next
  case False
  with assms show ?thesis using feed_first_value [of v s] by simp
qed

definition next_element :: "scanner \<Rightarrow> scanner" where
  "next_element w = (advanceArrayIndex w)\<lparr>sc_state := StValue\<rparr>"

lemma next_element_fields:
  assumes "sc_stack w = f # fs" "fr_is_array f"
  shows "sc_state (next_element w) = StValue" "sc_stack (next_element w) = f\<lparr>fr_index := fr_index f + 1\<rparr> # fs"
    "same_bounds w (next_element w)" "acc_of (next_element w) = acc_of w"
    "sc_max_key_bytes (next_element w) = sc_max_key_bytes w" "sc_max_depth (next_element w) = sc_max_depth w"
  using assms by (simp_all add: next_element_def advanceArrayIndex_def same_bounds_def acc_of_def)

lemma feed_next:
  shows "sc_state (settle t) = StArrayNext \<Longrightarrow> feed (CHR '','' # r) t = feed r (next_element (settle t))"
    "sc_state (settle t) = StObjectNext \<Longrightarrow> feed (CHR '','' # r) t = feed r ((settle t)\<lparr>sc_state := StObjectKey\<rparr>)"
  using feed_settle [OF comma_not_number(1), of r t]
  by (simp_all add: feed_Cons_step step_in_state isWS_def next_element_def)

lemma feed_member_entry:
  assumes "sc_state s = StObjectKey \<or> sc_state s = StObjectKeyOrEnd" "sc_stack s = f # fs" "\<not> fr_is_array f"
  shows "\<exists>u. feed (render_members ((k, v) # kvs)) s =
       feed ((if kvs = [] then [] else '','') @ render_members kvs) (feed (render v) u) \<and>
     same_bounds s u \<and> sc_stack u = f # fs \<and> acc_of u = acc_of s \<and> sc_state u = StValue \<and>
     fst (takePending u) = child_node (sc_max_key_bytes s) (fr_node f) k"
proof -
  obtain u where u: "feed (render_str k @ '':'') s = u" "same_bounds s u" "sc_stack u = f # fs"
    "acc_of u = acc_of s" "sc_state u = StValue"
    "fst (takePending u) = child_node (sc_max_key_bytes s) (fr_node f) k"
    using feed_key [of s f fs k] assms by auto
  have e: "render_members ((k, v) # kvs) =
      (render_str k @ '':'') @ render v @ (if kvs = [] then [] else '','') @ render_members kvs" by simp
  have "feed (render_members ((k, v) # kvs)) s =
      feed ((if kvs = [] then [] else '','') @ render_members kvs) (feed (render v) u)"
    unfolding e by (simp only: feed_append [of "render_str k @ '':''"] feed_append [of "render v"] u(1))
  then show ?thesis using u by blast
qed

lemma elements_of_first:
  assumes vd: "value_done u (walk_from u v) (settle (feed (render v) u))"
    and s: "u = s\<lparr>sc_state := StValue\<rparr>" "feed (render v) s = feed (render v) u"
    and f: "sc_stack s = f # fs" "fr_is_array f"
  shows "same_bounds s (settle (feed (render v) s))" "sc_stack (settle (feed (render v) s)) = f # fs"
    "sc_state (settle (feed (render v) s)) = StArrayNext"
    "acc_of (settle (feed (render v) s)) =
       walk (sc_max_key_bytes s) (elem_node (fr_node f)) (fr_index f) v (acc_of s)"
proof -
  have "fst (takePending u) = elem_node (fr_node f)" using s f by (simp add: takePending_def elem_node_def)
  moreover have "acc_of u = acc_of s" "sc_stack u = f # fs" "same_bounds s u" "sc_max_key_bytes u = sc_max_key_bytes s"
    using s f by (simp_all add: acc_of_def same_bounds_def)
  ultimately show "same_bounds s (settle (feed (render v) s))" "sc_stack (settle (feed (render v) s)) = f # fs"
    "sc_state (settle (feed (render v) s)) = StArrayNext"
    "acc_of (settle (feed (render v) s)) =
       walk (sc_max_key_bytes s) (elem_node (fr_node f)) (fr_index f) v (acc_of s)"
    using vd s(2) f by (auto simp: value_done_def same_bounds_def)
qed

definition container_done :: "scanner \<Rightarrow> frame list \<Rightarrow> acc \<Rightarrow> scanner \<Rightarrow> bool" where
  "container_done s fs a t \<longleftrightarrow>
     same_bounds s t \<and> sc_stack t = fs \<and> sc_state t = after_state fs \<and> acc_of t = a"

lemma container_done_close:
  assumes "same_bounds s w" "sc_stack w = f # fs"
    "t = w\<lparr>sc_stack := fs, sc_state := after_state fs\<rparr>" "acc_of w = a"
  shows "container_done s fs a t"
  using assms by (simp add: container_done_def same_bounds_def acc_of_def)

lemma container_done_mono: "container_done x fs a t \<Longrightarrow> same_bounds s x \<Longrightarrow> container_done s fs a t"
  by (auto simp: container_done_def intro: same_bounds_trans)

lemma value_of_container:
  assumes p: "takePending s = (n, s0)" "sc_state s = StValue" "length (sc_stack s) < sc_max_depth s"
    and c: "container_done (push b s) (sc_stack s) a t" and w: "a = walk_from s v"
  shows "value_done s (walk_from s v) (settle t)"
  using c w push_value(1) [OF p(2,1,3), of b]
  by (auto simp: container_done_def value_done_def settle_def same_bounds_def)

text \<open>
  The three claims, one per syntactic category: a value in value position; the elements of an
  array up to and with its closing bracket; the members of an object likewise.
\<close>

lemma feed_render_parts:
  "\<And>s. sc_state s = StValue \<Longrightarrow> json_ok v \<Longrightarrow> fits s (jdepth v) \<Longrightarrow>
     value_done s (walk_from s v) (settle (feed (render v) s))"
  "\<And>s f fs. sc_state s = StArrayFirst \<or> (sc_state s = StValue \<and> vs \<noteq> []) \<Longrightarrow> elems_ok vs \<Longrightarrow>
     fits s (elems_depth vs) \<Longrightarrow> sc_stack s = f # fs \<Longrightarrow> fr_is_array f \<Longrightarrow>
     container_done s fs (walk_elems (sc_max_key_bytes s) (elem_node (fr_node f)) (fr_index f) vs (acc_of s))
       (feed (render_elems vs) s)"
  "\<And>s f fs. sc_state s = StObjectKeyOrEnd \<or> (sc_state s = StObjectKey \<and> kvs \<noteq> []) \<Longrightarrow> members_ok kvs \<Longrightarrow>
     fits s (members_depth kvs) \<Longrightarrow> sc_stack s = f # fs \<Longrightarrow> \<not> fr_is_array f \<Longrightarrow>
     container_done s fs (walk_members (sc_max_key_bytes s) (fr_node f) (enclosingArrayIndex fs) kvs (acc_of s))
       (feed (render_members kvs) s)"
proof (induction v and vs and kvs rule: render_render_elems_render_members.induct)
  case (1 s)
  then show ?case using value_done_lit(1) by simp
next
  case (2 b s)
  then show ?case using value_done_lit(2,3) [of s] by simp
next
  case (3 t s)
  obtain n s0 where "takePending s = (n, s0)" by (cases "takePending s")
  with 3 value_done_number [of s n s0 t] show ?case by simp
next
  case (4 v s)
  obtain n s0 where "takePending s = (n, s0)" by (cases "takePending s")
  with 4 value_done_string [of s n s0 v] show ?case by simp
next
  case (5 vs s)
  obtain n s0 where p: "takePending s = (n, s0)" by (cases "takePending s")
  have room: "length (sc_stack s) < sc_max_depth s" using 5 by (simp add: fits_def)
  note pv = push_value [OF 5(2) p room, of True]
  have fit: "fits (push True s) (elems_depth vs)" using 5(4) pv(1,2) by (simp add: fits_def same_bounds_def)
  show ?case
    unfolding feed_open(1) [OF 5(2)]
    by (rule value_of_container [OF p 5(2) room 5(1) [OF _ _ fit pv(2)]])
      (use 5(3) pv p in \<open>simp_all add: same_bounds_def\<close>)
next
  case (6 kvs s)
  obtain n s0 where p: "takePending s = (n, s0)" by (cases "takePending s")
  have room: "length (sc_stack s) < sc_max_depth s" using 6 by (simp add: fits_def)
  note pv = push_value [OF 6(2) p room, of False]
  have fit: "fits (push False s) (members_depth kvs)" using 6(4) pv(1,2) by (simp add: fits_def same_bounds_def)
  show ?case
    unfolding feed_open(2) [OF 6(2)]
    by (rule value_of_container [OF p 6(2) room 6(1) [OF _ _ fit pv(2)]])
      (use 6(3) pv p in \<open>simp_all add: same_bounds_def\<close>)
next
  case (7 s f fs)
  then show ?case using feed_close(1) [of s f fs] by (simp add: container_done_def same_bounds_def acc_of_def)
next
  case (8 v vs s f fs)
  define u where "u = s\<lparr>sc_state := StValue\<rparr>"
  have eq: "feed (render v) s = feed (render v) u" unfolding u_def using 8(3,4) by (intro element_entry) auto
  have "value_done u (walk_from u v) (settle (feed (render v) u))"
    using 8(1) [of u] 8(4,5) by (simp add: u_def fits_def)
  note w = elements_of_first [OF this u_def eq 8(6,7)]
  show ?case
  proof (cases "vs = []")
    case True
    have "feed (render_elems (v # vs)) s = feed '']'' (settle (feed (render v) s))"
      using True feed_settle [OF comma_not_number(2), of "[]" "feed (render v) s"] by (simp add: feed_append)
    then show ?thesis
      using True w feed_close(1) [OF w(2)] by (intro container_done_close [OF w(1,2)]) simp_all
  next
    case False
    let ?x = "next_element (settle (feed (render v) s))"
    note x = next_element_fields [OF w(2) 8(7)]
    have fx: "feed (render_elems (v # vs)) s = feed (render_elems vs) ?x"
      using False feed_next(1) [OF w(3)] by (simp add: feed_append)
    have fit: "fits ?x (elems_depth vs)" using 8(5,6) x w(1) by (simp add: fits_def same_bounds_def)
    have mk: "sc_max_key_bytes ?x = sc_max_key_bytes s" using x w(1) by (simp add: same_bounds_def)
    show ?thesis
      unfolding fx
      by (rule container_done_mono [OF _ same_bounds_trans [OF w(1) x(3)]])
        (use 8(2) [OF _ _ fit x(2)] False x w mk 8(4,7) in simp)
  qed
next
  case (9 s f fs)
  then show ?case using feed_close(2) [of s f fs] by (simp add: container_done_def same_bounds_def acc_of_def)
next
  case (10 k v kvs s f fs)
  obtain u where sp: "feed (render_members ((k, v) # kvs)) s =
      feed ((if kvs = [] then [] else '','') @ render_members kvs) (feed (render v) u)"
    and u: "same_bounds s u" "sc_stack u = f # fs" "acc_of u = acc_of s" "sc_state u = StValue"
    "fst (takePending u) = child_node (sc_max_key_bytes s) (fr_node f) k"
    using feed_member_entry [of s f fs k v kvs] 10(3,6,7) by auto
  have fu: "fits u (jdepth v)" using 10(5,6) u by (simp add: fits_def same_bounds_def)
  define w where "w = settle (feed (render v) u)"
  have "value_done u (walk_from u v) w" using 10(1) [OF u(4) _ fu] 10(4) by (simp add: w_def)
  then have w: "same_bounds s w" "sc_stack w = f # fs" "sc_state w = StObjectNext"
    "acc_of w = walk (sc_max_key_bytes s) (child_node (sc_max_key_bytes s) (fr_node f) k)
                  (enclosingArrayIndex fs) v (acc_of s)"
    using u 10(7) by (auto simp: value_done_def same_bounds_def)
  show ?case
  proof (cases "kvs = []")
    case True
    have "feed (render_members ((k, v) # kvs)) s = feed ''}'' w"
      using sp True feed_settle [OF comma_not_number(3), of "[]" "feed (render v) u"] by (simp add: w_def)
    then show ?thesis
      using True w feed_close(2) [OF w(2)] by (intro container_done_close [OF w(1,2)]) simp_all
  next
    case False
    define x where "x = w\<lparr>sc_state := StObjectKey\<rparr>"
    have x: "sc_state x = StObjectKey" "sc_stack x = f # fs" "same_bounds s x" "acc_of x = acc_of w"
      "sc_max_key_bytes x = sc_max_key_bytes s"
      using w by (simp_all add: x_def same_bounds_def acc_of_def)
    have fx: "feed (render_members ((k, v) # kvs)) s = feed (render_members kvs) x"
      using sp False feed_next(2) [of "feed (render v) u"] w(3) by (simp add: x_def w_def)
    have fit: "fits x (members_depth kvs)" using 10(5,6) x by (simp add: fits_def same_bounds_def)
    show ?thesis
      unfolding fx
      by (rule container_done_mono [OF _ x(3)]) (use 10(2) [OF _ _ fit x(2)] False x w 10(4,7) in simp)
  qed
qed

section \<open>Documents that nest too deeply\<close>

definition too_deep :: "scanner \<Rightarrow> bool" where
  "too_deep t \<longleftrightarrow> sc_state t = StDead \<and> r_abandoned (sc_res t) = Some AbandonMaxDepthExceeded"

lemma too_deep_feed: "too_deep t \<Longrightarrow> too_deep (feed b t)"
  by (simp add: too_deep_def)

lemma too_deep_settle: "too_deep (settle t) \<Longrightarrow> settle t = t"
  using endNumber_state(2) [of t] by (auto simp: too_deep_def settle_def split: if_splits)

lemma acc_abandoned [simp]:
  "r_abandoned (fst (acc_degrade a)) = r_abandoned (fst a)"
  "r_abandoned (fst (acc_mark n a)) = r_abandoned (fst a)"
  "r_abandoned (fst (acc_store k i v a)) = r_abandoned (fst a)"
  "r_abandoned (fst (acc_int k b w a)) = r_abandoned (fst a)"
  by (cases a; cases k; simp add: acc_degrade_def acc_mark_def mark_error_def acc_store_def acc_int_def split: option.splits)+

lemma acc_abandoned_values [simp]:
  "r_abandoned (fst (acc_string k i v a)) = r_abandoned (fst a)"
  "r_abandoned (fst (acc_number k t a)) = r_abandoned (fst a)"
proof -
  have c: "r_abandoned (fst (case acc_degrade a of (r, cs, ov) \<Rightarrow> (r\<lparr>r_credential_rejected := True\<rparr>, cs, ov))) =
    r_abandoned (fst a)"
    using acc_abandoned(1) [of a] by (cases "acc_degrade a") simp
  show "r_abandoned (fst (acc_string k i v a)) = r_abandoned (fst a)"
    using c by (simp add: acc_string_def)
  show "r_abandoned (fst (acc_number k t a)) = r_abandoned (fst a)"
    by (simp add: acc_number_def Let_def split: prod.splits)
qed

lemma walk_abandoned:
  "r_abandoned (fst (walk mk n idx v a)) = r_abandoned (fst a)"
  "r_abandoned (fst (walk_elems mk n idx vs a)) = r_abandoned (fst a)"
  "r_abandoned (fst (walk_members mk n idx kvs a)) = r_abandoned (fst a)"
  by (induction mk n idx v a and mk n idx vs a and mk n idx kvs a rule: walk_walk_elems_walk_members.induct)
    simp_all

definition live :: "scanner \<Rightarrow> bool" where
  "live s \<longleftrightarrow> r_abandoned (sc_res s) = None \<and> length (sc_stack s) \<le> sc_max_depth s"

lemma live_acc: "live s \<longleftrightarrow> r_abandoned (fst (acc_of s)) = None \<and> length (sc_stack s) \<le> sc_max_depth s"
  by (simp add: live_def acc_of_def)

lemma push_too_deep:
  assumes "live s" "sc_max_depth s \<le> length (sc_stack s)"
  shows "too_deep (push b s)"
  using assms by (simp add: push_full too_deep_def abandon_def live_def)

lemma push_live:
  assumes "sc_state s = StValue" "takePending s = (n, s0)" "length (sc_stack s) < sc_max_depth s" "live s"
  shows "live (push b s)"
  using push_value [OF assms(1,2,3), of b] assms(3,4) by (simp add: live_acc same_bounds_def)

lemma too_deep_container:
  assumes s: "sc_state s = StValue" "live s" "\<not> fits s (Suc d)"
    and ih: "\<And>n. sc_state (push b s) = (if b then StArrayFirst else StObjectKeyOrEnd) \<Longrightarrow>
       sc_stack (push b s) = \<lparr>fr_is_array = b, fr_node = n, fr_index = 0\<rparr> # sc_stack s \<Longrightarrow>
       live (push b s) \<Longrightarrow> \<not> fits (push b s) d \<Longrightarrow> too_deep (feed r (push b s))"
  shows "too_deep (feed r (push b s))"
proof (cases "length (sc_stack s) < sc_max_depth s")
  case True
  obtain n s0 where p: "takePending s = (n, s0)" by (cases "takePending s")
  note pv = push_value [OF s(1) p True, of b]
  have "\<not> fits (push b s) d" using s(3) pv(1,2) by (simp add: fits_def same_bounds_def)
  then show ?thesis using ih pv(2,4) push_live [OF s(1) p True s(2)] by blast
next
  case False
  then show ?thesis using push_too_deep [OF s(2)] too_deep_feed by simp
qed

lemma feed_render_too_deep:
  "\<And>s. sc_state s = StValue \<Longrightarrow> json_ok v \<Longrightarrow> live s \<Longrightarrow> \<not> fits s (jdepth v) \<Longrightarrow> too_deep (feed (render v) s)"
  "\<And>s f fs. sc_state s = StArrayFirst \<or> (sc_state s = StValue \<and> vs \<noteq> []) \<Longrightarrow> elems_ok vs \<Longrightarrow> live s \<Longrightarrow>
     \<not> fits s (elems_depth vs) \<Longrightarrow> sc_stack s = f # fs \<Longrightarrow> fr_is_array f \<Longrightarrow> too_deep (feed (render_elems vs) s)"
  "\<And>s f fs. sc_state s = StObjectKeyOrEnd \<or> (sc_state s = StObjectKey \<and> kvs \<noteq> []) \<Longrightarrow> members_ok kvs \<Longrightarrow> live s \<Longrightarrow>
     \<not> fits s (members_depth kvs) \<Longrightarrow> sc_stack s = f # fs \<Longrightarrow> \<not> fr_is_array f \<Longrightarrow>
     too_deep (feed (render_members kvs) s)"
proof (induction v and vs and kvs rule: render_render_elems_render_members.induct)
  case (5 vs s)
  show ?case unfolding feed_open(1) [OF 5(2)]
    by (rule too_deep_container [where d = "elems_depth vs", OF 5(2,4)]) (use 5(1,3,5) in auto)
next
  case (6 kvs s)
  show ?case unfolding feed_open(2) [OF 6(2)]
    by (rule too_deep_container [where d = "members_depth kvs", OF 6(2,4)]) (use 6(1,3,5) in auto)
next
  case (8 v vs s f fs)
  define u where "u = s\<lparr>sc_state := StValue\<rparr>"
  have eq: "feed (render v) s = feed (render v) u" unfolding u_def using 8(3,4) by (intro element_entry) auto
  have lu: "live u" using 8(5) by (simp add: u_def live_def)
  show ?case
  proof (cases "fits u (jdepth v)")
    case False
    then have "too_deep (feed (render v) s)" using 8(1) [of u] 8(4) lu eq by (simp add: u_def)
    then show ?thesis using too_deep_feed by (simp add: feed_append)
  next
    case True
    have "value_done u (walk_from u v) (settle (feed (render v) u))"
      using feed_render_parts(1) [of u v] True 8(4) by (simp add: u_def)
    note w = elements_of_first [OF this u_def eq 8(7,8)]
    have nv: "\<not> fits s (elems_depth vs)" using True 8(6) by (auto simp: u_def fits_def)
    then have ne: "vs \<noteq> []" using 8(5) by (auto simp: fits_def live_def)
    let ?x = "next_element (settle (feed (render v) s))"
    note x = next_element_fields [OF w(2) 8(8)]
    have fx: "feed (render_elems (v # vs)) s = feed (render_elems vs) ?x"
      using ne feed_next(1) [OF w(3)] by (simp add: feed_append)
    have "live ?x" using 8(5,7) x w by (simp add: live_acc walk_abandoned same_bounds_def)
    moreover have "\<not> fits ?x (elems_depth vs)" using nv 8(7) x w(1) by (simp add: fits_def same_bounds_def)
    ultimately show ?thesis unfolding fx using 8(2) [OF _ _ _ _ x(2)] ne x(1) 8(4,8) by simp
  qed
next
  case (10 k v kvs s f fs)
  obtain u where sp: "feed (render_members ((k, v) # kvs)) s =
      feed ((if kvs = [] then [] else '','') @ render_members kvs) (feed (render v) u)"
    and u: "same_bounds s u" "sc_stack u = f # fs" "acc_of u = acc_of s" "sc_state u = StValue"
    "fst (takePending u) = child_node (sc_max_key_bytes s) (fr_node f) k"
    using feed_member_entry [of s f fs k v kvs] 10(3,7,8) by auto
  have lu: "live u" using 10(5,7) u by (simp add: live_acc same_bounds_def)
  show ?case
  proof (cases "fits u (jdepth v)")
    case False
    then have "too_deep (feed (render v) u)" using 10(1) [OF u(4) _ lu] 10(4) by simp
    then show ?thesis unfolding sp by (rule too_deep_feed)
  next
    case True
    define w where "w = settle (feed (render v) u)"
    have "value_done u (walk_from u v) w"
      using feed_render_parts(1) [OF u(4) _ True] 10(4) by (simp add: w_def)
    then have w: "same_bounds s w" "sc_stack w = f # fs" "sc_state w = StObjectNext"
      "r_abandoned (fst (acc_of w)) = r_abandoned (fst (acc_of s))"
      using u 10(8) by (auto simp: value_done_def same_bounds_def walk_abandoned)
    have nv: "\<not> fits s (members_depth kvs)" using True 10(6,7) u by (auto simp: fits_def same_bounds_def)
    then have ne: "kvs \<noteq> []" using 10(5) by (auto simp: fits_def live_def)
    let ?x = "w\<lparr>sc_state := StObjectKey\<rparr>"
    have x: "sc_state ?x = StObjectKey" "sc_stack ?x = f # fs" by (simp_all add: w)
    have fx: "feed (render_members ((k, v) # kvs)) s = feed (render_members kvs) ?x"
      using sp ne feed_next(2) [of "feed (render v) u"] w(3) by (simp add: w_def)
    have "live ?x" using 10(5,7) w by (simp add: live_def same_bounds_def acc_of_def)
    moreover have "\<not> fits ?x (members_depth kvs)" using nv 10(7) w(1,2) by (simp add: fits_def same_bounds_def)
    ultimately show ?thesis unfolding fx using 10(2) [OF _ _ _ _ x(2)] ne x(1) 10(4,8) by simp
  qed
qed (auto simp: fits_def live_def)

section \<open>Whole documents\<close>

definition acc_resolve :: "acc \<Rightarrow> scan_result" where
  "acc_resolve = (\<lambda>(r, cs, ov).
     let i = r_chosen r in
     if i < 0 then r
     else if int maxCandidateSlots \<le> i then (if ov then r\<lparr>r_degraded := True\<rparr> else r)
     else r\<lparr>r_chosen_provider := cs ! nat i\<rparr>)"

text \<open>What the reference reading makes of a document under a whitelist.\<close>

definition scan_spec :: "path_node \<Rightarrow> nat \<Rightarrow> json \<Rightarrow> scan_result" where
  "scan_spec root mk v =
     (acc_resolve (walk mk (Some root) (- 1) v (empty_result, replicate maxCandidateSlots [], False)))
       \<lparr>r_complete := True\<rparr>"

definition scan_document :: "path_node \<Rightarrow> nat \<Rightarrow> nat \<Rightarrow> string \<Rightarrow> scan_result" where
  "scan_document root maxDepth mk b = sc_res (finish (feed b (newScannerFor root maxDepth mk)))"

fun is_container :: "json \<Rightarrow> bool" where
  "is_container (JArr vs) = True"
| "is_container (JObj kvs) = True"
| "is_container _ = False"

lemma resolveChosen_acc:
  "sc_res (resolveChosen s) = acc_resolve (acc_of s)" "sc_state (resolveChosen s) = sc_state s"
  by (simp_all add: resolveChosen_def acc_resolve_def acc_of_def Let_def)

lemma newScannerFor_fields:
  "sc_state (newScannerFor root d mk) = StStart" "sc_stack (newScannerFor root d mk) = []"
  "sc_root (newScannerFor root d mk) = root" "sc_max_depth (newScannerFor root d mk) = d"
  "sc_max_key_bytes (newScannerFor root d mk) = mk"
  "acc_of (newScannerFor root d mk) = (empty_result, replicate maxCandidateSlots [], False)"
  by (simp_all add: newScannerFor_def reset_def acc_of_def)

lemma feed_container:
  assumes "is_container v" "sc_state s = StValue" "json_ok v" "fits s (jdepth v)"
  shows "value_done s (walk_from s v) (feed (render v) s)"
proof -
  have "sc_state (feed (render v) s) \<noteq> StNumber"
  proof (cases v)
    case (JArr vs)
    obtain n s0 where p: "takePending s = (n, s0)" by (cases "takePending s")
    have room: "length (sc_stack s) < sc_max_depth s" using assms JArr by (simp add: fits_def)
    note pv = push_value [OF assms(2) p room, of True]
    have fit: "fits (push True s) (elems_depth vs)"
      using assms(4) JArr pv(1,2) by (simp add: fits_def same_bounds_def)
    show ?thesis
      using feed_render_parts(2) [OF _ _ fit pv(2)] assms(3) JArr pv(4)
      by (simp add: feed_open(1) [OF assms(2)] container_done_def del: render.simps)
  next
    case (JObj kvs)
    obtain n s0 where p: "takePending s = (n, s0)" by (cases "takePending s")
    have room: "length (sc_stack s) < sc_max_depth s" using assms JObj by (simp add: fits_def)
    note pv = push_value [OF assms(2) p room, of False]
    have fit: "fits (push False s) (members_depth kvs)"
      using assms(4) JObj pv(1,2) by (simp add: fits_def same_bounds_def)
    show ?thesis
      using feed_render_parts(3) [OF _ _ fit pv(2)] assms(3) JObj pv(4)
      by (simp add: feed_open(2) [OF assms(2)] container_done_def del: render.simps)
  qed (use assms(1) in simp_all)
  then show ?thesis using feed_render_parts(1) [OF assms(2-4)] by (simp add: settle_def)
qed

lemma finish_done:
  assumes "sc_state s = StTopDone"
  shows "sc_res (finish s) = (acc_resolve (acc_of s))\<lparr>r_complete := True\<rparr>"
  using assms by (simp add: finish_def Let_def resolveChosen_acc)

lemma feed_from_start:
  assumes "json_ok v"
  shows "feed (render v) (newScannerFor root d mk) =
         feed (render v) ((newScannerFor root d mk)\<lparr>sc_state := StValue\<rparr>)"
  using feed_first_value [OF assms] newScannerFor_fields(1) by blast

lemma start_fields:
  fixes root d mk
  defines "s \<equiv> (newScannerFor root d mk)\<lparr>sc_state := StValue\<rparr>"
  shows "sc_state s = StValue" "sc_stack s = []" "sc_max_depth s = d" "sc_max_key_bytes s = mk"
    "acc_of s = (empty_result, replicate maxCandidateSlots [], False)"
    "fst (takePending s) = Some root" "enclosingArrayIndex (sc_stack s) = - 1"
  using newScannerFor_fields [of root d mk]
  by (simp_all add: s_def takePending_def acc_of_def)

lemma scan_document_walk:
  assumes "is_container v" "json_ok v" "jdepth v \<le> maxDepth"
  shows "scan_document root maxDepth mk (render v) = scan_spec root mk v"
proof -
  let ?s = "(newScannerFor root maxDepth mk)\<lparr>sc_state := StValue\<rparr>"
  note f = start_fields [of root maxDepth mk]
  have "fits ?s (jdepth v)" using assms(3) f by (simp add: fits_def)
  from feed_container [OF assms(1) f(1) assms(2) this]
  have "sc_state (feed (render v) ?s) = StTopDone"
    "acc_of (feed (render v) ?s) = walk mk (Some root) (- 1) v (empty_result, replicate maxCandidateSlots [], False)"
    unfolding value_done_def f by (simp_all add: after_state_def)
  then show ?thesis
    unfolding scan_document_def feed_from_start [OF assms(2)] scan_spec_def by (simp add: finish_done)
qed

lemma finish_too_deep:
  "too_deep t \<Longrightarrow> r_abandoned (sc_res (finish t)) = Some AbandonMaxDepthExceeded"
  by (auto simp: too_deep_def finish_def resolveChosen_def Let_def)

lemma scan_document_deep:
  assumes "json_ok v" "maxDepth < jdepth v"
  shows "r_abandoned (scan_document root maxDepth mk (render v)) = Some AbandonMaxDepthExceeded"
proof -
  let ?s = "(newScannerFor root maxDepth mk)\<lparr>sc_state := StValue\<rparr>"
  note f = start_fields [of root maxDepth mk]
  have "live ?s" "\<not> fits ?s (jdepth v)"
    using assms(2) f by (simp_all add: live_acc fits_def empty_result_def)
  then show ?thesis
    unfolding scan_document_def feed_from_start [OF assms(1)]
    using feed_render_too_deep(1) [OF f(1) assms(1)] finish_too_deep by blast
qed

section \<open>Counters\<close>

text \<open>Digits that fit the cap and 64 bits are accumulated without loss.\<close>

lemma num_scan_digits:
  assumes "list_all is_digit t" "d + length t \<le> capIntDigits" "n * 10 ^ length t + dec_value t < 2 ^ 64"
  shows "num_scan t (of_nat n, d, bad) = (of_nat (n * 10 ^ length t + dec_value t), d + length t, bad)"
  using assms
proof (induction t arbitrary: n d)
  case Nil
  then show ?case by (simp add: dec_value_def)
next
  case (Cons c t)
  let ?m = "n * 10 + digit_val c"
  have v: "?m * 10 ^ length t + dec_value t = n * 10 ^ length (c # t) + dec_value (c # t)"
    by (simp add: dec_value_Cons algebra_simps)
  have m: "?m < 2 ^ 64"
  proof -
    have "?m \<le> ?m * 10 ^ length t + dec_value t" by (simp add: trans_le_add1)
    then show ?thesis using v Cons.prems(3) by linarith
  qed
  have w: "(of_nat n :: 64 word) * 10 + of_nat (digit_val c) = of_nat ?m" by simp
  have "\<not> (of_nat ?m :: 64 word) < of_nat n"
  proof -
    have "unat (of_nat n :: 64 word) \<le> n" by (simp add: unat_of_nat)
    moreover have "unat (of_nat ?m :: 64 word) = ?m" by (rule unat_of_nat_64 [OF m])
    ultimately show ?thesis unfolding word_less_nat_alt by linarith
  qed
  then have nw: "\<not> (of_nat n :: 64 word) * 10 + of_nat (digit_val c) < of_nat n" unfolding w .
  have "num_scan (c # t) (of_nat n, d, bad) = num_scan t (of_nat ?m, Suc d, bad)"
  proof -
    have "is_digit c" "\<not> capIntDigits \<le> d" using Cons.prems(1,2) by (simp_all add: capIntDigits_def)
    then show ?thesis
      unfolding w [symmetric] using nw by (simp only: num_scan.simps if_True if_False)
  qed
  also have "\<dots> = (of_nat (?m * 10 ^ length t + dec_value t), Suc d + length t, bad)"
  proof (rule Cons.IH)
    show "list_all is_digit t" "Suc d + length t \<le> capIntDigits" using Cons.prems(1,2) by simp_all
    show "?m * 10 ^ length t + dec_value t < 2 ^ 64" unfolding v by (rule Cons.prems(3))
  qed
  finally show ?case unfolding v by simp
qed

text \<open>A whole number text read as a counter.\<close>

lemma acc_number_exact:
  assumes "list_all is_digit t" "t \<noteq> []" "length t \<le> capIntDigits" "dec_value t < 2 ^ 64"
    "kind \<noteq> CapNone"
  shows "acc_number kind t a = acc_int kind False (of_nat (dec_value t)) a"
proof -
  have "hd t \<noteq> CHR ''-''" using assms(1,2) by (cases t) (auto simp: is_digit_def)
  moreover have "num_scan t (0, 0, False) = (of_nat (dec_value t), length t, False)"
    using num_scan_digits [of t 0 0 False] assms by simp
  ultimately show ?thesis using assms(2,5) by (simp add: acc_number_def Let_def)
qed

definition usage_doc :: "string \<Rightarrow> string \<Rightarrow> string \<Rightarrow> json" where
  "usage_doc p c t =
     JObj [(''usage'', JObj [(''prompt_tokens'', JNum p), (''completion_tokens'', JNum c),
                             (''total_tokens'', JNum t)])]"

lemma number_text_digits: "list_all is_digit t \<Longrightarrow> t \<noteq> [] \<Longrightarrow> number_text t"
  by (cases t) (auto simp: number_text_def is_number_char_def list_all_iff)

lemma whitelist_usage_nodes:
  "map_of (pn_children whitelist) ''usage'' =
     Some (PathNode [(''prompt_tokens'', leaf CapPromptTokens),
                     (''completion_tokens'', leaf CapCompletionTokens),
                     (''total_tokens'', leaf CapTotalTokens)] None CapNone False)"
  by (simp add: whitelist_def)

section \<open>Properties\<close>

text \<open>
  C1.  For every JSON document that is an object or an array and nests no deeper than the
  configured limit, feeding its text to the scanner and finishing gives exactly what a recursive
  reading of the document along the whitelist gives: every captured field, counter, the resolved
  search candidate and the degraded, error and complete flags.
\<close>

theorem scanner_reads_document:
  assumes "is_container v" "json_ok v" "jdepth v \<le> maxDepth"
  shows "scan_document root maxDepth mk (render v) = scan_spec root mk v"
  using assms by (rule scan_document_walk)

lemma scanner_reads_document_witness:
  "scan_document whitelist 64 128 (render (usage_doc ''12'' ''7'' ''19'')) =
     scan_spec whitelist 128 (usage_doc ''12'' ''7'' ''19'')"
  by (rule scanner_reads_document)
    (simp_all add: usage_doc_def number_text_def is_number_char_def is_digit_def)

text \<open>
  C2.  A document nested deeper than the limit is abandoned with max_depth_exceeded, wherever in
  the document the excess is.
\<close>

theorem scanner_depth_limit:
  assumes "json_ok v" "maxDepth < jdepth v"
  shows "r_abandoned (scan_document root maxDepth mk (render v)) = Some AbandonMaxDepthExceeded"
  using assms by (rule scan_document_deep)

lemma scanner_depth_limit_witness:
  "r_abandoned (scan_document whitelist 1 128 (render (JArr [JNull, JArr []]))) =
     Some AbandonMaxDepthExceeded"
  by (rule scanner_depth_limit) simp_all

text \<open>
  C3.  Whatever bytes are fed, every string the scanner hands out is within the cap of its field,
  printable ASCII without white space, and free of the \<^verbatim>\<open>sk-name-\<close> credential pattern.
\<close>

theorem scanner_captures_clean:
  "captures_clean (scan_document root maxDepth mk b)"
  using res_ok_finish [OF scanner_ok_feed [OF scanner_ok_new]]
  by (simp add: scan_document_def res_ok_def)

text \<open>
  C4.  Whatever bytes are fed, the scanner never indexes out of range (the state machine keeps
  its stack shape), its frame stack stays within the depth limit, and its two buffers within
  theirs: what it retains does not grow with the body.
\<close>

theorem scanner_bounded:
  "\<not> sc_panic (feed b (newScannerFor root maxDepth mk)) \<and>
   length (sc_stack (feed b (newScannerFor root maxDepth mk))) \<le> maxDepth \<and>
   length (sc_key_buf (feed b (newScannerFor root maxDepth mk))) \<le> mk \<and>
   length (sc_val_buf (feed b (newScannerFor root maxDepth mk))) \<le> maxCaptureBytes"
proof -
  let ?s = "feed b (newScannerFor root maxDepth mk)"
  have "scanner_ok ?s" by (rule scanner_ok_feed [OF scanner_ok_new])
  moreover have "sc_max_depth ?s = maxDepth" "sc_max_key_bytes ?s = mk"
    by (simp_all add: feed_bounds_kept newScannerFor_fields)
  ultimately show ?thesis by (simp add: scanner_ok_def struct_ok_def buf_ok_def)
qed

text \<open>
  C5.  Token counters of at most twenty digits below \<open>2 ^ 64\<close> are recorded exactly, each in its
  own field, and the document completes without being degraded.
\<close>

theorem usage_counters_exact:
  assumes "list_all (\<lambda>t. list_all is_digit t \<and> t \<noteq> [] \<and> length t \<le> capIntDigits \<and> dec_value t < 2 ^ 64) [p, c, t]"
  shows "scan_document whitelist 64 128 (render (usage_doc p c t)) =
     empty_result\<lparr>r_usage := \<lparr>us_prompt = of_nat (dec_value p), us_completion = of_nat (dec_value c),
                              us_total = of_nat (dec_value t)\<rparr>,
                   r_saw_usage := True, r_complete := True\<rparr>"
proof -
  have ok: "json_ok (usage_doc p c t)" "jdepth (usage_doc p c t) \<le> 64" "is_container (usage_doc p c t)"
    using assms number_text_digits by (simp_all add: usage_doc_def)
  show ?thesis
    unfolding scan_document_walk [OF ok(3,1,2)]
    using assms acc_number_exact
    by (simp add: scan_spec_def usage_doc_def child_node_def whitelist_usage_nodes leaf_def int_kind_def
        acc_int_def acc_mark_def acc_resolve_def empty_result_def noChosenIndex_def mark_error_def
        isInt.simps whitelist_def)
qed

lemma usage_counters_exact_witness:
  "us_prompt (r_usage (scan_document whitelist 64 128
     (render (usage_doc ''18446744073709551615'' ''7'' ''19'')))) = 18446744073709551615"
  using usage_counters_exact [of "''18446744073709551615''" "''7''" "''19''"]
  by (simp add: is_digit_def capIntDigits_def dec_value_def digit_val_def)


end
