(* ===== verification/SseSpec.thy ===== *)
theory SseSpec
  imports Sse ScannerSpec
begin

text \<open>
  What the framer computes, stated over the items of an event stream.  A stream is a list of
  comments, other fields, spare blank lines and events of one or more \<^verbatim>\<open>data:\<close> lines, written with
  one of the three line ends; \<open>item_sem\<close> says what an item does to the merged metadata, the event
  count and the stop condition, with the scanner applied to the whole payload of an event.
  \<open>sse_refines\<close> shows that the byte machine implements it.
\<close>

section \<open>Runs of the framer\<close>

lemma sse_stopped_consume: "sse_stopped f \<Longrightarrow> sse_consume b f = f"
  by (cases b) simp_all

lemma sse_consume_append: "sse_consume (a @ b) f = sse_consume b (sse_consume a f)"
proof (induction a arbitrary: f)
  case Nil
  then show ?case by simp
next
  case (Cons c a)
  then show ?case by (simp add: sse_stopped_consume)
qed

section \<open>The abstract stream\<close>

datatype sse_stop = StopDone | StopError | StopAbort abandon_reason

record sse_view =
  vw_merge :: stream_merge
  vw_events :: nat
  vw_stop :: "sse_stop option"

definition view :: "sse_framer \<Rightarrow> sse_view" where
  "view f =
     \<lparr>vw_merge = ff_merge f, vw_events = ff_events f,
      vw_stop = (case ff_abort f of
                   Some r \<Rightarrow> Some (StopAbort r)
                 | None \<Rightarrow> if ff_done_seen f then Some StopDone
                           else if ff_error_seen f then Some StopError else None)\<rparr>"

lemma view_stop: "vw_stop (view f) = None \<longleftrightarrow> \<not> sse_stopped f"
  by (auto simp: view_def sse_stopped_def split: option.splits)

datatype sse_item =
    SseComment string
  | SseField string string
  | SseGap
  | SseEvent "string list"

definition no_break :: "string \<Rightarrow> bool" where
  "no_break t = list_all (\<lambda>c. c \<noteq> CHR 0x0D \<and> c \<noteq> CHR 0x0A) t"

definition line_end :: "string \<Rightarrow> bool" where
  "line_end nl \<longleftrightarrow> nl = [CHR 0x0A] \<or> nl = [CHR 0x0D] \<or> nl = [CHR 0x0D, CHR 0x0A]"

definition data_line_bytes :: "string \<Rightarrow> string \<Rightarrow> string" where
  "data_line_bytes nl p = ''data: '' @ p @ nl"

fun item_bytes :: "string \<Rightarrow> sse_item \<Rightarrow> string" where
  "item_bytes nl (SseComment t) = CHR '':'' # t @ nl"
| "item_bytes nl (SseField n t) = n @ CHR '':'' # t @ nl"
| "item_bytes nl SseGap = nl"
| "item_bytes nl (SseEvent ls) = concat (map (data_line_bytes nl) ls) @ nl"

fun item_ok :: "sse_item \<Rightarrow> bool" where
  "item_ok (SseComment t) = no_break t"
| "item_ok (SseField n t) = (n \<noteq> [] \<and> n \<noteq> ''data'' \<and> no_break n \<and> CHR '':'' \<notin> set n \<and> no_break t)"
| "item_ok SseGap = True"
| "item_ok (SseEvent ls) = (ls \<noteq> [] \<and> list_all no_break ls)"

text \<open>The payload bytes an event may use, line by line, and the text the scanner sees.\<close>

fun clip :: "nat \<Rightarrow> string list \<Rightarrow> string list" where
  "clip b [] = []"
| "clip b (p # ps) = take b p # clip (b - length p) ps"

fun join_lines :: "string list \<Rightarrow> string" where
  "join_lines [] = []"
| "join_lines [p] = p"
| "join_lines (p # q # ps) = p @ CHR 0x0A # join_lines (q # ps)"

definition payload_bytes :: "string list \<Rightarrow> nat" where
  "payload_bytes ls = sum_list (map length ls)"

definition vw_degrade :: "sse_view \<Rightarrow> sse_view" where
  "vw_degrade v = v\<lparr>vw_merge := (vw_merge v)\<lparr>mg_degraded := True\<rparr>\<rparr>"

definition close_event :: "nat \<Rightarrow> nat \<Rightarrow> int \<Rightarrow> string option \<Rightarrow> sse_view \<Rightarrow> sse_view" where
  "close_event d k me text v0 =
     (let v = v0\<lparr>vw_events := Suc (vw_events v0)\<rparr> in
      if me < int (vw_events v) then v\<lparr>vw_stop := Some (StopAbort AbandonBodyTooLarge)\<rparr>
      else case text of
        None \<Rightarrow> v
      | Some t \<Rightarrow>
          (let r = scan_document whitelist d k t in
           if r_abandoned r = Some AbandonMaxDepthExceeded
             then v\<lparr>vw_stop := Some (StopAbort AbandonMaxDepthExceeded)\<rparr>
           else if r_abandoned r \<noteq> None \<or> \<not> r_complete r then vw_degrade v
           else (let w = v\<lparr>vw_merge := merge_apply r (vw_merge v)\<rparr>
                 in if r_saw_error r then w\<lparr>vw_stop := Some StopError\<rparr> else w)))"

definition event_sem :: "nat \<Rightarrow> nat \<Rightarrow> int \<Rightarrow> int \<Rightarrow> string list \<Rightarrow> sse_view \<Rightarrow> sse_view" where
  "event_sem d k mb me ls v =
     (if take 1 (take (nat mb) (hd ls)) = ''{'' then
        close_event d k me (Some (join_lines (clip (nat mb) ls)))
          (if mb < int (payload_bytes ls) then vw_degrade v else v)
      else if hd ls = doneMarker \<and> int (length doneMarker) \<le> mb then v\<lparr>vw_stop := Some StopDone\<rparr>
      else close_event d k me None (vw_degrade v))"

definition item_sem :: "nat \<Rightarrow> nat \<Rightarrow> int \<Rightarrow> int \<Rightarrow> sse_item \<Rightarrow> sse_view \<Rightarrow> sse_view" where
  "item_sem d k mb me it v =
     (if vw_stop v \<noteq> None then v
      else case it of SseEvent ls \<Rightarrow> event_sem d k mb me ls v | _ \<Rightarrow> v)"

definition empty_view :: sse_view where
  "empty_view = \<lparr>vw_merge = empty_merge, vw_events = 0, vw_stop = None\<rparr>"

section \<open>Line bookkeeping apart from the event\<close>

definition put_line :: "sse_state \<Rightarrow> nat \<Rightarrow> string \<Rightarrow> bool \<Rightarrow> sse_framer \<Rightarrow> sse_framer" where
  "put_line s n b q f = f\<lparr>ff_state := s, ff_line_len := n, ff_field_buf := b, ff_prev_cr := q\<rparr>"

lemma put_line_put_line [simp]: "put_line s n b q (put_line s' n' b' q' f) = put_line s n b q f"
  by (simp add: put_line_def)

lemma put_line_self: "put_line (ff_state f) (ff_line_len f) (ff_field_buf f) (ff_prev_cr f) f = f"
  by (simp add: put_line_def)

lemma put_line_fields [simp]:
  "ff_state (put_line s n b q f) = s" "ff_line_len (put_line s n b q f) = n"
  "ff_field_buf (put_line s n b q f) = b" "ff_prev_cr (put_line s n b q f) = q"
  "ff_classifying (put_line s n b q f) = ff_classifying f" "ff_classify (put_line s n b q f) = ff_classify f"
  "sse_stopped (put_line s n b q f) = sse_stopped f" "view (put_line s n b q f) = view f"
  "ff_event_has_data (put_line s n b q f) = ff_event_has_data f"
  by (simp_all add: put_line_def sse_stopped_def view_def)

lemma dataByte_put_line: "dataByte c (put_line s n b q f) = put_line s n b q (dataByte c f)"
  by (simp add: dataByte_def put_line_def Let_def feedScanner_def merge_degrade_def)

lemma beginDataLine_put_line: "beginDataLine (put_line s n b q f) = put_line s n b q (beginDataLine f)"
  by (simp add: beginDataLine_def put_line_def Let_def feedScanner_def)

lemma fold_dataByte_put_line:
  "fold dataByte p (put_line s n b q f) = put_line s n b q (fold dataByte p f)"
  by (induction p arbitrary: f) (simp_all add: dataByte_put_line)

lemma dataByte_stopped [simp]: "sse_stopped (dataByte c f) = sse_stopped f"
  by (simp add: dataByte_def Let_def sse_stopped_def feedScanner_def merge_degrade_def)

lemma beginDataLine_stopped [simp]: "sse_stopped (beginDataLine f) = sse_stopped f"
  by (simp add: beginDataLine_def Let_def sse_stopped_def feedScanner_def)

lemma stepChar_stopped [simp]: "sse_stopped (stepChar c f) = sse_stopped f"
proof -
  have s: "sse_stopped (f\<lparr>ff_state := st\<rparr>) = sse_stopped f" "sse_stopped (f\<lparr>ff_field_buf := b\<rparr>) = sse_stopped f"
    for f st b by (simp_all add: sse_stopped_def)
  have fc: "sse_stopped (fieldChar c f) = sse_stopped f" for f by (simp add: fieldChar_def s)
  show ?thesis by (cases "ff_state f") (simp_all add: stepChar_def Let_def s fc)
qed

lemma stepChar_prev_cr: "\<not> ff_prev_cr f \<Longrightarrow> \<not> ff_prev_cr (stepChar c f)"
proof -
  assume f: "\<not> ff_prev_cr f"
  have d: "ff_prev_cr (dataByte c f) = ff_prev_cr f" for f
    by (simp add: dataByte_def Let_def feedScanner_def merge_degrade_def)
  have b: "ff_prev_cr (beginDataLine f) = ff_prev_cr f" for f
    by (simp add: beginDataLine_def Let_def feedScanner_def)
  have "ff_prev_cr (fieldChar c f) = ff_prev_cr f" for f by (simp add: fieldChar_def)
  with f d b show ?thesis by (cases "ff_state f") (simp_all add: stepChar_def Let_def)
qed

lemma sse_stopped_line [simp]: "sse_stopped (f\<lparr>ff_prev_cr := q, ff_line_len := n\<rparr>) = sse_stopped f"
  by (simp add: sse_stopped_def)

definition line_byte :: "char \<Rightarrow> sse_framer \<Rightarrow> sse_framer" where
  "line_byte c f = stepChar c (f\<lparr>ff_prev_cr := False, ff_line_len := Suc (ff_line_len f)\<rparr>)"

lemma consume_line: "\<not> sse_stopped f \<Longrightarrow> no_break t \<Longrightarrow> sse_consume t f = fold line_byte t f"
proof (induction t arbitrary: f)
  case Nil
  then show ?case by simp
next
  case (Cons c t)
  have "sse_byte c f = line_byte c f" using Cons.prems(2) by (simp add: sse_byte_def line_byte_def no_break_def)
  moreover have "\<not> sse_stopped (line_byte c f)" using Cons.prems(1) by (simp add: line_byte_def)
  ultimately show ?case using Cons by (simp add: no_break_def)
qed

lemma consume_line_end:
  assumes "line_end nl" "\<not> sse_stopped f" "ff_prev_cr f \<longrightarrow> nl = [CHR 0x0D]"
  shows "\<exists>q. sse_consume nl f = (endLine f)\<lparr>ff_prev_cr := q\<rparr> \<and>
             (\<not> sse_stopped (endLine f) \<and> q \<longrightarrow> nl = [CHR 0x0D])"
proof -
  have st: "sse_stopped ((endLine f)\<lparr>ff_prev_cr := q\<rparr>) = sse_stopped (endLine f)" for q
    by (simp add: sse_stopped_def)
  consider "nl = [CHR 0x0A]" | "nl = [CHR 0x0D]" | "nl = [CHR 0x0D, CHR 0x0A]" "sse_stopped (endLine f)"
    | "nl = [CHR 0x0D, CHR 0x0A]" "\<not> sse_stopped (endLine f)"
    using assms(1) by (auto simp: line_end_def)
  then show ?thesis
  proof cases
    case 1
    then show ?thesis using assms(2,3) by (intro exI [of _ False]) (simp add: sse_byte_def)
  next
    case 2
    then show ?thesis using assms(2) by (intro exI [of _ True]) (simp add: sse_byte_def)
  next
    case 3
    then show ?thesis using assms(2) by (intro exI [of _ True]) (simp add: sse_byte_def st)
  next
    case 4
    then show ?thesis using assms(2) by (intro exI [of _ False]) (simp add: sse_byte_def st)
  qed
qed

section \<open>A line at a time\<close>

definition line_start :: "string \<Rightarrow> sse_framer \<Rightarrow> bool" where
  "line_start nl f \<longleftrightarrow>
     ff_state f = SseLineStart \<and> ff_line_len f = 0 \<and> \<not> sse_stopped f \<and>
     (ff_prev_cr f \<longrightarrow> nl = [CHR 0x0D])"

text \<open>What one \<^verbatim>\<open>data:\<close> line does to the event, the line bookkeeping left out.\<close>

definition close_line :: "sse_framer \<Rightarrow> sse_framer" where
  "close_line g =
     (if ff_classifying g then
        (let h = g\<lparr>ff_classifying := False\<rparr> in
         if ff_classify h = doneMarker then h\<lparr>ff_done_seen := True\<rparr>
         else (merge_degrade h)\<lparr>ff_event_skipped := True\<rparr>)
      else g)"

definition data_line :: "string \<Rightarrow> sse_framer \<Rightarrow> sse_framer" where
  "data_line p f = close_line (fold dataByte p (beginDataLine f))"

lemma line_byte_data: "ff_state f = SseDataBytes \<Longrightarrow>
    line_byte c f = put_line SseDataBytes (Suc (ff_line_len f)) (ff_field_buf f) False (dataByte c f)"
proof -
  assume s: "ff_state f = SseDataBytes"
  have "f\<lparr>ff_prev_cr := False, ff_line_len := Suc (ff_line_len f)\<rparr> =
        put_line (ff_state f) (Suc (ff_line_len f)) (ff_field_buf f) False f"
    by (simp add: put_line_def)
  then show ?thesis using s by (simp add: line_byte_def stepChar_def dataByte_put_line)
qed

lemma fold_line_byte_data: "ff_state f = SseDataBytes \<Longrightarrow> \<exists>n q. ff_line_len f \<le> n \<and>
    fold line_byte p f = put_line SseDataBytes n (ff_field_buf f) q (fold dataByte p f)"
proof (induction p arbitrary: f)
  case Nil
  then show ?case using put_line_self [of f] by (intro exI [of _ "ff_line_len f"] exI [of _ "ff_prev_cr f"]) simp
next
  case (Cons c p)
  let ?g = "put_line SseDataBytes (Suc (ff_line_len f)) (ff_field_buf f) False (dataByte c f)"
  obtain n q where n: "Suc (ff_line_len f) \<le> n"
    "fold line_byte p ?g = put_line SseDataBytes n (ff_field_buf f) q (fold dataByte p ?g)"
    using Cons.IH [of ?g] by auto
  show ?case using n by (intro exI [of _ n] exI [of _ q])
      (simp add: line_byte_data [OF Cons.prems] fold_dataByte_put_line)
qed

lemma data_prefix:
  assumes "ff_state f = SseLineStart"
  shows "fold line_byte ''data: '' f =
         put_line SseDataBytes (ff_line_len f + 6) ''data'' False (beginDataLine f)"
proof -
  have five: "fold line_byte ''data:'' f = put_line SseDataStart (ff_line_len f + 5) ''data'' False f"
    using assms by (simp add: line_byte_def stepChar_def fieldChar_def fieldBufBytes_def put_line_def)
  have "fold line_byte ''data: '' f = line_byte CHR '' '' (fold line_byte ''data:'' f)" by simp
  also have "\<dots> = put_line SseDataBytes (ff_line_len f + 6) ''data'' False (beginDataLine f)"
  proof -
    have e: "(put_line SseDataStart n ''data'' False f)\<lparr>ff_prev_cr := False, ff_line_len := Suc n\<rparr> =
          put_line SseDataStart (Suc n) ''data'' False f" for n
      by (simp add: put_line_def)
    have "line_byte CHR '' '' (put_line SseDataStart n ''data'' False f) =
        (beginDataLine (put_line SseDataStart (Suc n) ''data'' False f))\<lparr>ff_state := SseDataBytes\<rparr>" for n
      unfolding line_byte_def put_line_fields e by (simp add: stepChar_def Let_def)
    also have "(beginDataLine (put_line SseDataStart (Suc n) ''data'' False f))\<lparr>ff_state := SseDataBytes\<rparr> =
        put_line SseDataBytes (Suc n) ''data'' False (beginDataLine f)" for n
      unfolding beginDataLine_put_line by (simp add: put_line_def)
    finally show ?thesis unfolding five by (simp add: eval_nat_numeral)
  qed
  finally show ?thesis .
qed

lemma no_break_data: "no_break ''data: ''" by (simp add: no_break_def)

lemma close_line_put_line: "close_line (put_line s n b q f) = put_line s n b q (close_line f)"
  by (simp add: close_line_def Let_def put_line_def merge_degrade_def)

lemma endLine_data:
  assumes "ff_state g = SseDataBytes" "0 < ff_line_len g"
  shows "endLine g = put_line SseLineStart 0 (ff_field_buf g) (ff_prev_cr g) (close_line g)"
  using assms by (simp add: endLine_def end_classify_def close_line_def Let_def put_line_def merge_degrade_def)

lemma consume_data_line:
  assumes "line_start nl f" "line_end nl" "no_break p"
  shows "\<exists>b q. sse_consume (data_line_bytes nl p) f = put_line SseLineStart 0 b q (data_line p f) \<and>
    (\<not> sse_stopped (data_line p f) \<longrightarrow> line_start nl (put_line SseLineStart 0 b q (data_line p f)))"
proof -
  let ?h = "fold dataByte p (beginDataLine f)"
  obtain n q where n: "6 \<le> n"
    "fold line_byte (''data: '' @ p) f = put_line SseDataBytes n ''data'' q ?h"
  proof -
    let ?g = "put_line SseDataBytes (ff_line_len f + 6) ''data'' False (beginDataLine f)"
    have g: "fold line_byte (''data: '' @ p) f = fold line_byte p ?g"
      using data_prefix [of f] assms(1) unfolding fold_append by (simp add: line_start_def)
    have "\<exists>n q. ff_line_len ?g \<le> n \<and>
        fold line_byte p ?g = put_line SseDataBytes n (ff_field_buf ?g) q (fold dataByte p ?g)"
      by (rule fold_line_byte_data) simp
    then obtain n q where n: "ff_line_len ?g \<le> n"
      "fold line_byte p ?g = put_line SseDataBytes n (ff_field_buf ?g) q (fold dataByte p ?g)" by blast
    have "fold line_byte (''data: '' @ p) f = put_line SseDataBytes n ''data'' q ?h"
      unfolding g n(2) fold_dataByte_put_line by simp
    moreover have "6 \<le> n" using n(1) by simp
    ultimately show ?thesis using that [of n q] by blast
  qed
  let ?g = "put_line SseDataBytes n ''data'' q ?h"
  have ns: "\<not> sse_stopped f" using assms(1) by (simp add: line_start_def)
  have "no_break (''data: '' @ p)" using assms(3) no_break_data by (simp add: no_break_def)
  from consume_line [OF ns this]
  have c: "sse_consume (''data: '' @ p) f = ?g" unfolding n(2) .
  have "sse_stopped ?h = sse_stopped f" by (induction p rule: rev_induct) simp_all
  then have g: "\<not> sse_stopped ?g" using ns by simp
  have cr: "ff_prev_cr ?g \<longrightarrow> nl = [CHR 0x0D]"
  proof -
    have "\<not> ff_prev_cr (fold line_byte (''data: '' @ p) f)"
    proof -
      have "\<not> ff_prev_cr (fold line_byte t g)" if "\<not> ff_prev_cr g" for t g
        using that
      proof (induction t arbitrary: g)
        case (Cons c t)
        have "\<not> ff_prev_cr (line_byte c g)"
          unfolding line_byte_def by (rule stepChar_prev_cr) simp
        with Cons show ?case by simp
      qed simp
      then show ?thesis using data_prefix [of f] assms(1) unfolding fold_append by (simp add: line_start_def)
    qed
    then show ?thesis unfolding n(2) by simp
  qed
  have e: "endLine ?g = put_line SseLineStart 0 ''data'' q (data_line p f)"
    using endLine_data [of ?g] n(1) by (simp add: data_line_def close_line_put_line)
  obtain q' where q': "sse_consume nl ?g = (endLine ?g)\<lparr>ff_prev_cr := q'\<rparr>"
    "\<not> sse_stopped (endLine ?g) \<and> q' \<longrightarrow> nl = [CHR 0x0D]"
    using consume_line_end [OF assms(2) g cr] by blast
  have pq: "(put_line SseLineStart 0 ''data'' q x)\<lparr>ff_prev_cr := q'\<rparr> = put_line SseLineStart 0 ''data'' q' x" for x
    by (simp add: put_line_def)
  show ?thesis
    unfolding data_line_bytes_def append_assoc [symmetric] sse_consume_append [of "''data: '' @ p"] c q'(1) e pq
    using q'(2) unfolding e by (intro exI [of _ "''data''"] exI [of _ q']) (simp add: line_start_def)
qed

section \<open>The payload of an event\<close>

definition event_fresh :: "sse_framer \<Rightarrow> bool" where
  "event_fresh f \<longleftrightarrow>
     \<not> ff_event_has_data f \<and> \<not> ff_event_json f \<and> \<not> ff_event_skipped f \<and> ff_event_bytes f = 0 \<and>
     \<not> ff_continuation f \<and> \<not> ff_classifying f"

definition m_degrade :: "bool \<Rightarrow> stream_merge \<Rightarrow> stream_merge" where
  "m_degrade b m = (if b then m\<lparr>mg_degraded := True\<rparr> else m)"

text \<open>
  The three situations inside an event: a JSON payload of which \<open>n\<close> bytes have been seen, a first
  line still being classified, and a payload that is being discarded.
\<close>

definition in_json :: "sse_framer \<Rightarrow> scanner \<Rightarrow> nat \<Rightarrow> sse_framer" where
  "in_json f sc n =
     f\<lparr>ff_scan := sc, ff_event_has_data := True, ff_event_json := True,
       ff_event_skipped := (ff_max_event_bytes f < int n), ff_event_bytes := n, ff_classify := [],
       ff_classifying := False, ff_continuation := True,
       ff_merge := m_degrade (ff_max_event_bytes f < int n) (ff_merge f)\<rparr>"

definition in_classify :: "sse_framer \<Rightarrow> string \<Rightarrow> sse_framer" where
  "in_classify f cl =
     f\<lparr>ff_event_has_data := True, ff_event_bytes := length cl, ff_classify := cl,
       ff_classifying := True, ff_continuation := True\<rparr>"

definition in_skip :: "sse_framer \<Rightarrow> string \<Rightarrow> nat \<Rightarrow> sse_framer" where
  "in_skip f cl n =
     f\<lparr>ff_event_has_data := True, ff_event_skipped := True, ff_event_bytes := n, ff_classify := cl,
       ff_classifying := False, ff_continuation := True, ff_merge := m_degrade True (ff_merge f)\<rparr>"

lemma begin_fresh: "event_fresh f \<Longrightarrow> beginDataLine f = in_classify f []"
  by (simp add: event_fresh_def beginDataLine_def in_classify_def Let_def)

lemma begin_in_json: "beginDataLine (in_json f sc n) = in_json f (feed [CHR 0x0A] sc) n"
  by (simp add: beginDataLine_def in_json_def Let_def feedScanner_def)

lemma begin_in_skip: "event_fresh f \<Longrightarrow> beginDataLine (in_skip f cl n) = in_skip f cl n"
  by (simp add: beginDataLine_def in_skip_def Let_def feedScanner_def event_fresh_def)

lemma byte_in_json:
  "dataByte c (in_json f sc n) =
     in_json f (if ff_max_event_bytes f < int (Suc n) then sc else feed [c] sc) (Suc n)"
  by (auto simp: dataByte_def in_json_def Let_def feedScanner_def merge_degrade_def m_degrade_def)

lemma byte_in_skip: "event_fresh f \<Longrightarrow> dataByte c (in_skip f cl n) = in_skip f cl (Suc n)"
  by (simp add: dataByte_def in_skip_def Let_def)

lemma bytes_in_json:
  "fold dataByte p (in_json f sc n) =
     in_json f (feed (take (nat (ff_max_event_bytes f) - n) p) sc) (n + length p)"
proof (induction p arbitrary: sc n)
  case Nil
  then show ?case by simp
next
  case (Cons c p)
  show ?case
  proof (cases "ff_max_event_bytes f < int (Suc n)")
    case True
    then have "nat (ff_max_event_bytes f) - n = 0" "nat (ff_max_event_bytes f) - Suc n = 0" by linarith+
    then show ?thesis using True by (simp add: byte_in_json Cons)
  next
    case False
    then have m: "nat (ff_max_event_bytes f) - n = Suc (nat (ff_max_event_bytes f) - Suc n)" by linarith
    show ?thesis using False unfolding m by (simp add: byte_in_json Cons feed_Cons_step feed.simps(1))
  qed
qed

lemma bytes_in_skip:
  "event_fresh f \<Longrightarrow> fold dataByte p (in_skip f cl n) = in_skip f cl (n + length p)"
  by (induction p arbitrary: n) (simp_all add: byte_in_skip)

lemma byte_in_classify:
  assumes "event_fresh f"
  shows "dataByte c (in_classify f cl) =
    (if ff_max_event_bytes f < int (Suc (length cl)) then in_skip f cl (Suc (length cl))
     else if cl = [] \<and> c = CHR ''{'' then in_json f (feed [c] (reset (ff_scan f))) 1
     else if length cl < classifyBytes then in_classify f (cl @ [c])
     else in_skip f cl (Suc (length cl)))"
  using assms
  by (auto simp: dataByte_def in_classify_def in_skip_def in_json_def event_fresh_def Let_def
      feedScanner_def merge_degrade_def m_degrade_def)

definition json_start :: "int \<Rightarrow> string \<Rightarrow> bool" where
  "json_start mb p \<longleftrightarrow> take 1 (take (nat mb) p) = ''{''"

lemma json_start_Cons: "json_start mb (c # p) \<longleftrightarrow> 1 \<le> mb \<and> c = CHR ''{''"
  by (cases "nat mb") (auto simp: json_start_def)

lemma first_line_json:
  assumes "event_fresh f" "json_start (ff_max_event_bytes f) p"
  shows "fold dataByte p (beginDataLine f) =
     in_json f (feed (take (nat (ff_max_event_bytes f)) p) (reset (ff_scan f))) (length p)"
proof (cases p)
  case Nil
  then show ?thesis using assms(2) by (simp add: json_start_def)
next
  case (Cons c r)
  then have c: "1 \<le> ff_max_event_bytes f" "c = CHR ''{''"
    using assms(2) json_start_Cons by auto
  then have m: "nat (ff_max_event_bytes f) = Suc (nat (ff_max_event_bytes f) - 1)" by linarith
  have t: "take (nat (ff_max_event_bytes f)) (c # r) = c # take (nat (ff_max_event_bytes f) - 1) r"
    by (subst m) simp
  have "dataByte c (in_classify f []) = in_json f (feed [c] (reset (ff_scan f))) 1"
    using byte_in_classify [OF assms(1), of c "[]"] c by simp
  then show ?thesis
    unfolding Cons t using bytes_in_json [of r f "feed [c] (reset (ff_scan f))" 1]
    by (simp add: begin_fresh [OF assms(1)] feed_Cons_step feed.simps(1))
qed

lemma first_line_other:
  assumes "event_fresh f" "\<not> json_start (ff_max_event_bytes f) p"
  shows "(fold dataByte p (beginDataLine f) = in_classify f p \<and> int (length p) \<le> max 0 (ff_max_event_bytes f)) \<or>
     (classifyBytes < length p \<or> ff_max_event_bytes f < int (length p)) \<and>
       (\<exists>cl n. fold dataByte p (beginDataLine f) = in_skip f cl n)"
  using assms(2)
proof (induction p rule: rev_induct)
  case Nil
  then show ?case by (simp add: begin_fresh [OF assms(1)])
next
  case (snoc c p)
  have np: "\<not> json_start (ff_max_event_bytes f) p" using snoc.prems
    by (cases p) (simp_all add: json_start_Cons json_start_def [of _ "[]"])
  have nb: "\<not> (p = [] \<and> c = CHR ''{'' \<and> 1 \<le> ff_max_event_bytes f)"
    using snoc.prems json_start_Cons [of "ff_max_event_bytes f" c "[]"] by auto
  from snoc.IH [OF np] show ?case
  proof
    assume "fold dataByte p (beginDataLine f) = in_classify f p \<and> int (length p) \<le> max 0 (ff_max_event_bytes f)"
    then show ?thesis using nb by (auto simp: byte_in_classify [OF assms(1)])
  next
    assume "(classifyBytes < length p \<or> ff_max_event_bytes f < int (length p)) \<and>
       (\<exists>cl n. fold dataByte p (beginDataLine f) = in_skip f cl n)"
    then obtain cl n where k: "classifyBytes < length p \<or> ff_max_event_bytes f < int (length p)"
      "fold dataByte (p @ [c]) (beginDataLine f) = in_skip f cl n"
      by (auto simp: byte_in_skip [OF assms(1)])
    from k(1) have "classifyBytes < length (p @ [c]) \<or> ff_max_event_bytes f < int (length (p @ [c]))" by auto
    with k(2) show ?thesis by blast
  qed
qed

lemma close_line_in [simp]:
  "close_line (in_json f sc n) = in_json f sc n" "close_line (in_skip f cl n) = in_skip f cl n"
  by (simp_all add: close_line_def in_json_def in_skip_def)

lemma close_line_classify:
  "close_line (in_classify f cl) =
     (if cl = doneMarker then (in_classify f cl)\<lparr>ff_classifying := False, ff_done_seen := True\<rparr>
      else in_skip f cl (length cl))"
  by (simp add: close_line_def in_classify_def in_skip_def merge_degrade_def m_degrade_def Let_def)

section \<open>Events, line by line\<close>

lemma data_line_json:
  "data_line p (in_json f sc n) =
     in_json f (feed (CHR 0x0A # take (nat (ff_max_event_bytes f) - n) p) sc) (n + length p)"
proof -
  let ?t = "take (nat (ff_max_event_bytes f) - n) p"
  have "feed (CHR 0x0A # ?t) sc = feed ?t (feed [CHR 0x0A] sc)"
    using feed_append [of "[CHR 0x0A]" ?t sc] by simp
  then show ?thesis unfolding data_line_def begin_in_json bytes_in_json by simp
qed

lemma data_line_skip: "event_fresh f \<Longrightarrow> data_line p (in_skip f cl n) = in_skip f cl (n + length p)"
  by (simp add: data_line_def begin_in_skip bytes_in_skip)

lemma data_line_first_json:
  assumes "event_fresh f" "json_start (ff_max_event_bytes f) p"
  shows "data_line p f =
     in_json f (feed (take (nat (ff_max_event_bytes f)) p) (reset (ff_scan f))) (length p)"
  using first_line_json [OF assms] by (simp add: data_line_def)

lemma data_line_first_done:
  assumes "event_fresh f" "int (length doneMarker) \<le> ff_max_event_bytes f"
  shows "\<exists>g. data_line doneMarker f = g\<lparr>ff_done_seen := True\<rparr> \<and> ff_abort g = ff_abort f \<and>
     ff_merge g = ff_merge f \<and> ff_events g = ff_events f"
proof -
  have n: "\<not> json_start (ff_max_event_bytes f) doneMarker" by (simp add: doneMarker_def json_start_Cons)
  have "\<not> (classifyBytes < length doneMarker \<or> ff_max_event_bytes f < int (length doneMarker))"
    using assms(2) by (simp add: doneMarker_def classifyBytes_def)
  then have "fold dataByte doneMarker (beginDataLine f) = in_classify f doneMarker"
    using first_line_other [OF assms(1) n] by blast
  then have d: "data_line doneMarker f = ((in_classify f doneMarker)\<lparr>ff_classifying := False\<rparr>)\<lparr>ff_done_seen := True\<rparr>"
    by (simp add: data_line_def close_line_classify)
  show ?thesis unfolding d
    by (intro exI [of _ "(in_classify f doneMarker)\<lparr>ff_classifying := False\<rparr>"]) (simp add: in_classify_def)
qed

lemma data_line_first_skip:
  assumes "event_fresh f" "\<not> json_start (ff_max_event_bytes f) p"
    "\<not> (p = doneMarker \<and> int (length doneMarker) \<le> ff_max_event_bytes f)"
  shows "\<exists>cl n. data_line p f = in_skip f cl n"
  using first_line_other [OF assms(1,2)]
proof
  assume c: "fold dataByte p (beginDataLine f) = in_classify f p \<and> int (length p) \<le> max 0 (ff_max_event_bytes f)"
  then have "p \<noteq> doneMarker" using assms(3) by (auto simp: doneMarker_def)
  then have "data_line p f = in_skip f p (length p)"
    using c by (simp add: data_line_def close_line_classify)
  then show ?thesis by blast
next
  assume "(classifyBytes < length p \<or> ff_max_event_bytes f < int (length p)) \<and>
       (\<exists>cl n. fold dataByte p (beginDataLine f) = in_skip f cl n)"
  then obtain cl n where "fold dataByte p (beginDataLine f) = in_skip f cl n" by blast
  then have "data_line p f = in_skip f cl n" by (simp add: data_line_def)
  then show ?thesis by blast
qed

lemma data_lines_json:
  "fold data_line ps (in_json f sc n) =
     in_json f (feed (concat (map (\<lambda>p. CHR 0x0A # p) (clip (nat (ff_max_event_bytes f) - n) ps))) sc)
       (n + payload_bytes ps)"
  by (induction ps arbitrary: sc n)
    (simp_all add: data_line_json payload_bytes_def feed_append feed.simps(1) feed_Cons_step diff_diff_eq ac_simps)

lemma data_lines_skip:
  "event_fresh f \<Longrightarrow> fold data_line ps (in_skip f cl n) = in_skip f cl (n + payload_bytes ps)"
  by (induction ps arbitrary: n) (simp_all add: data_line_skip payload_bytes_def ac_simps)

lemma join_lines_concat: "join_lines (p # ps) = p @ concat (map (\<lambda>p. CHR 0x0A # p) ps)"
  by (induction ps arbitrary: p) simp_all

lemma event_lines_json:
  assumes "event_fresh f" "json_start (ff_max_event_bytes f) p"
  shows "fold data_line (p # ps) f =
     in_json f (feed (join_lines (clip (nat (ff_max_event_bytes f)) (p # ps))) (reset (ff_scan f)))
       (payload_bytes (p # ps))"
  using data_line_first_json [OF assms]
  by (simp add: data_lines_json join_lines_concat feed_append payload_bytes_def del: join_lines.simps)

section \<open>The blank line\<close>

definition framer_cfg :: "nat \<Rightarrow> nat \<Rightarrow> int \<Rightarrow> int \<Rightarrow> sse_framer \<Rightarrow> bool" where
  "framer_cfg d k mb me f \<longleftrightarrow>
     limits (ff_scan f) = (whitelist, d, k) \<and> \<not> sc_panic (ff_scan f) \<and>
     ff_max_event_bytes f = mb \<and> ff_max_events f = me"

lemma limits_finish [simp]: "limits (finish s) = limits s"
proof -
  have r: "limits (resolveChosen s) = limits s"
    by (simp add: resolveChosen_def Let_def degrade_def limits_def)
  show ?thesis
    by (cases "sc_state (resolveChosen s)") (simp_all add: finish_def Let_def r)
qed

lemma panic_endNumber: "sc_panic (endNumber s) = sc_panic s"
  by (simp add: endNumber_def Let_def endScalar_def store_int_def degrade_def
      split: list.splits capture_kind.splits)

lemma panic_finish [simp]: "sc_panic (finish s) = sc_panic s"
proof -
  have r: "sc_panic (resolveChosen s) = sc_panic s"
    by (simp add: resolveChosen_def Let_def degrade_def)
  show ?thesis
    by (cases "sc_state (resolveChosen s)") (simp_all add: finish_def Let_def r abandon_def panic_endNumber)
qed

lemma reset_is_new:
  assumes "limits s = (root, d, k)" "\<not> sc_panic s"
  shows "reset s = newScannerFor root d k"
  using assms by (simp add: reset_def newScannerFor_def limits_def)

lemma limits_new: "limits (newScannerFor root d k) = (root, d, k)"
  by (simp add: limits_def newScannerFor_fields)

lemma panic_feed_reset:
  assumes "limits s = (root, d, k)" "\<not> sc_panic s"
  shows "\<not> sc_panic (feed t (reset s))"
  using struct_ok_feed [OF struct_ok_new, of t root d k] reset_is_new [OF assms] by (simp add: struct_ok_def)

lemma scan_after_event:
  assumes "framer_cfg d k mb me f"
  shows "sc_res (finish (feed t (reset (ff_scan f)))) = scan_document whitelist d k t"
  using assms reset_is_new [of "ff_scan f" whitelist d k] by (simp add: framer_cfg_def scan_document_def)

lemma close_json_put_line: "close_json (put_line s n b q f) = put_line s n b q (close_json f)"
proof -
  let ?sc = "finish (ff_scan f)"
  have "(put_line s n b q f)\<lparr>ff_scan := ?sc\<rparr> = put_line s n b q (f\<lparr>ff_scan := ?sc\<rparr>)"
    by (simp add: put_line_def)
  moreover have "ff_scan (put_line s n b q f) = ff_scan f" "ff_merge (put_line s n b q f) = ff_merge f" for f
    by (simp_all add: put_line_def)
  ultimately show ?thesis
    by (simp add: close_json_def Let_def) (simp add: put_line_def merge_degrade_def)
qed

lemma finishEvent_put_line: "finishEvent (put_line s n b q f) = put_line s n b q (finishEvent f)"
proof -
  have c: "clear_event (put_line s n b q g) = put_line s n b q (clear_event g)" for g
    by (simp add: clear_event_def put_line_def)
  have e: "(put_line s n b q f)\<lparr>ff_events := m\<rparr> = put_line s n b q (f\<lparr>ff_events := m\<rparr>)" for m
    by (simp add: put_line_def)
  have a: "(put_line s n b q g)\<lparr>ff_abort := m\<rparr> = put_line s n b q (g\<lparr>ff_abort := m\<rparr>)" for m g
    by (simp add: put_line_def)
  have p: "ff_events (put_line s n b q g) = ff_events g" "ff_max_events (put_line s n b q g) = ff_max_events g"
    "ff_event_json (put_line s n b q g) = ff_event_json g" for g
    by (simp_all add: put_line_def)
  show ?thesis
    by (simp add: finishEvent_def Let_def p e a c close_json_put_line)
qed

lemma view_close_json:
  assumes "framer_cfg d k mb me f" "ff_scan g = feed t (reset (ff_scan f))" "\<not> sse_stopped g"
  shows "view (close_json g) =
     (let r = scan_document whitelist d k t; v = view g in
      if r_abandoned r = Some AbandonMaxDepthExceeded
        then v\<lparr>vw_stop := Some (StopAbort AbandonMaxDepthExceeded)\<rparr>
      else if r_abandoned r \<noteq> None \<or> \<not> r_complete r then vw_degrade v
      else (let w = v\<lparr>vw_merge := merge_apply r (vw_merge v)\<rparr>
            in if r_saw_error r then w\<lparr>vw_stop := Some StopError\<rparr> else w))"
proof -
  have r: "sc_res (finish (ff_scan g)) = scan_document whitelist d k t"
    using scan_after_event [OF assms(1)] assms(2) by simp
  show ?thesis using assms(3)
    by (simp add: close_json_def Let_def r view_def sse_stopped_def vw_degrade_def merge_degrade_def)
qed

lemma view_clear [simp]: "view (clear_event f) = view f" "sse_stopped (clear_event f) = sse_stopped f"
  by (simp_all add: view_def clear_event_def sse_stopped_def)

lemma view_finishEvent:
  assumes "framer_cfg d k mb me f" "ff_scan g = feed t (reset (ff_scan f))" "\<not> sse_stopped g"
    "ff_event_has_data g" "ff_max_events g = me"
  shows "view (finishEvent g) = close_event d k me (if ff_event_json g then Some t else None) (view g)"
proof -
  let ?h = "g\<lparr>ff_events := Suc (ff_events g)\<rparr>"
  have v: "view ?h = (view g)\<lparr>vw_events := Suc (vw_events (view g))\<rparr>" by (simp add: view_def)
  have h: "ff_scan ?h = feed t (reset (ff_scan f))" "\<not> sse_stopped ?h" using assms(2,3) by (simp_all add: sse_stopped_def)
  have e: "vw_events (view g) = ff_events g" by (simp add: view_def)
  have a: "view (?h\<lparr>ff_abort := Some AbandonBodyTooLarge\<rparr>) =
      (view ?h)\<lparr>vw_stop := Some (StopAbort AbandonBodyTooLarge)\<rparr>"
    by (simp add: view_def)
  show ?thesis
  proof (cases "me < int (Suc (ff_events g))")
    case True
    then show ?thesis using a v e assms(4,5) by (simp add: finishEvent_def close_event_def Let_def)
  next
    case False
    then show ?thesis using v e assms(4,5) view_close_json [OF assms(1) h]
      by (simp add: finishEvent_def close_event_def Let_def)
  qed
qed

section \<open>Items\<close>

definition at_item :: "string \<Rightarrow> nat \<Rightarrow> nat \<Rightarrow> int \<Rightarrow> int \<Rightarrow> sse_framer \<Rightarrow> bool" where
  "at_item nl d k mb me f \<longleftrightarrow> line_start nl f \<and> event_fresh f \<and> framer_cfg d k mb me f"

lemma fresh_put_line [simp]: "event_fresh (put_line s n b q f) = event_fresh f"
  "framer_cfg d k mb me (put_line s n b q f) = framer_cfg d k mb me f"
  by (simp_all add: event_fresh_def framer_cfg_def put_line_def)

lemma fresh_cr [simp]: "event_fresh (f\<lparr>ff_prev_cr := q\<rparr>) = event_fresh f"
  "framer_cfg d k mb me (f\<lparr>ff_prev_cr := q\<rparr>) = framer_cfg d k mb me f"
  "view (f\<lparr>ff_prev_cr := q\<rparr>) = view f" "sse_stopped (f\<lparr>ff_prev_cr := q\<rparr>) = sse_stopped f"
  by (simp_all add: event_fresh_def framer_cfg_def view_def sse_stopped_def)

text \<open>A line that is not a \<^verbatim>\<open>data:\<close> line leaves only the line bookkeeping behind.\<close>

lemma skip_bytes:
  "ff_state f = SseSkipLine \<Longrightarrow>
     \<exists>n q. ff_line_len f \<le> n \<and> (\<not> ff_prev_cr f \<longrightarrow> \<not> q) \<and>
       fold line_byte t f = put_line SseSkipLine n (ff_field_buf f) q f"
proof (induction t arbitrary: f)
  case Nil
  then show ?case using put_line_self [of f]
    by (intro exI [of _ "ff_line_len f"] exI [of _ "ff_prev_cr f"]) simp
next
  case (Cons c t)
  let ?g = "put_line SseSkipLine (Suc (ff_line_len f)) (ff_field_buf f) False f"
  have g: "line_byte c f = ?g" using Cons.prems by (simp add: line_byte_def stepChar_def put_line_def)
  obtain n q where "Suc (ff_line_len f) \<le> n" "\<not> q"
    "fold line_byte t ?g = put_line SseSkipLine n (ff_field_buf f) q ?g"
    using Cons.IH [of ?g] by auto
  then show ?case by (intro exI [of _ n] exI [of _ q]) (simp add: g)
qed

lemma name_bytes:
  assumes "CHR '':'' \<notin> set t" "ff_state f = SseFieldName" "0 < ff_line_len f" "\<not> ff_prev_cr f"
  shows "\<exists>st n b. 0 < n \<and> fold line_byte t f = put_line st n b False f \<and>
     (st = SseFieldName \<and> b = ff_field_buf f @ t \<or> st = SseSkipLine)"
  using assms
proof (induction t arbitrary: f)
  case Nil
  then show ?case using put_line_self [of f]
    by (intro exI [of _ SseFieldName] exI [of _ "ff_line_len f"] exI [of _ "ff_field_buf f"]) simp
next
  case (Cons c t)
  have nc: "c \<noteq> CHR '':''" using Cons.prems(1) by auto
  show ?case
  proof (cases "length (ff_field_buf f) < fieldBufBytes")
    case True
    let ?g = "put_line SseFieldName (Suc (ff_line_len f)) (ff_field_buf f @ [c]) False f"
    have g: "line_byte c f = ?g"
      using Cons.prems(2-4) nc True by (simp add: line_byte_def stepChar_def fieldChar_def put_line_def)
    obtain st n b where "0 < n" "fold line_byte t ?g = put_line st n b False ?g"
      "st = SseFieldName \<and> b = ff_field_buf ?g @ t \<or> st = SseSkipLine"
      using Cons.IH [of ?g] Cons.prems by auto
    then show ?thesis by (intro exI [of _ st] exI [of _ n] exI [of _ b]) (simp add: g)
  next
    case False
    let ?g = "put_line SseSkipLine (Suc (ff_line_len f)) (ff_field_buf f) False f"
    have g: "line_byte c f = ?g"
      using Cons.prems(2-4) nc False by (simp add: line_byte_def stepChar_def fieldChar_def put_line_def)
    obtain n q where "Suc (ff_line_len f) \<le> n" "\<not> q"
      "fold line_byte t ?g = put_line SseSkipLine n (ff_field_buf f) q ?g"
      using skip_bytes [of ?g t] by auto
    then show ?thesis
      by (intro exI [of _ SseSkipLine] exI [of _ n] exI [of _ "ff_field_buf f"]) (simp add: g)
  qed
qed

lemma comment_bytes:
  assumes "ff_state f = SseLineStart"
  shows "\<exists>n b. 0 < n \<and> fold line_byte (CHR '':'' # t) f = put_line SseSkipLine n b False f"
proof -
  let ?g = "put_line SseSkipLine (Suc (ff_line_len f)) (ff_field_buf f) False f"
  have g: "line_byte CHR '':'' f = ?g" using assms by (simp add: line_byte_def stepChar_def put_line_def)
  obtain n q where "Suc (ff_line_len f) \<le> n" "\<not> q"
    "fold line_byte t ?g = put_line SseSkipLine n (ff_field_buf f) q ?g"
    using skip_bytes [of ?g t] by auto
  then show ?thesis by (intro exI [of _ n] exI [of _ "ff_field_buf f"]) (simp add: g)
qed

lemma field_bytes:
  assumes "ff_state f = SseLineStart" "m \<noteq> []" "m \<noteq> ''data''" "CHR '':'' \<notin> set m"
  shows "\<exists>n b. 0 < n \<and> fold line_byte (m @ CHR '':'' # t) f = put_line SseSkipLine n b False f"
proof -
  obtain c r where m: "m = c # r" using assms(2) by (cases m) auto
  have nc: "c \<noteq> CHR '':''" using assms(4) m by auto
  let ?g = "put_line SseFieldName (Suc (ff_line_len f)) [c] False f"
  have g: "line_byte c f = ?g"
    using assms(1) nc by (simp add: line_byte_def stepChar_def fieldChar_def fieldBufBytes_def put_line_def)
  obtain st n b where r: "0 < n" "fold line_byte r ?g = put_line st n b False ?g"
    "st = SseFieldName \<and> b = [c] @ r \<or> st = SseSkipLine"
    using name_bytes [of r ?g] assms(4) m by auto
  let ?h = "put_line st n b False f"
  have h: "fold line_byte m f = ?h" using m g r(2) by simp
  have col: "line_byte CHR '':'' ?h = put_line SseSkipLine (Suc n) b False f"
    using r(3) assms(3) m by (auto simp: line_byte_def stepChar_def fieldChar_def put_line_def)
  obtain n' q where "Suc n \<le> n'" "\<not> q"
    "fold line_byte t (put_line SseSkipLine (Suc n) b False f) = put_line SseSkipLine n' b q f"
    using skip_bytes [of "put_line SseSkipLine (Suc n) b False f" t] by auto
  then show ?thesis by (intro exI [of _ n'] exI [of _ b]) (simp add: h col)
qed

lemma consume_other_line:
  assumes "at_item nl d k mb me f" "line_end nl" "no_break t"
    and "\<exists>n b. 0 < n \<and> fold line_byte t f = put_line SseSkipLine n b False f"
  shows "view (sse_consume (t @ nl) f) = view f \<and> at_item nl d k mb me (sse_consume (t @ nl) f)"
proof -
  obtain n b where n: "0 < n" "fold line_byte t f = put_line SseSkipLine n b False f" using assms(4) by blast
  let ?g = "put_line SseSkipLine n b False f"
  have ns: "\<not> sse_stopped f" using assms(1) by (simp add: at_item_def line_start_def)
  have c: "sse_consume t f = ?g" using consume_line [OF ns assms(3)] n(2) by simp
  have e: "endLine ?g = put_line SseLineStart 0 b False f"
    using n(1) by (simp add: endLine_def end_classify_def Let_def put_line_def)
  obtain q where q: "sse_consume nl ?g = (endLine ?g)\<lparr>ff_prev_cr := q\<rparr>"
    "\<not> sse_stopped (endLine ?g) \<and> q \<longrightarrow> nl = [CHR 0x0D]"
    using consume_line_end [OF assms(2), of ?g] ns by auto
  have "at_item nl d k mb me ((put_line SseLineStart 0 b False f)\<lparr>ff_prev_cr := q\<rparr>)"
    using assms(1) q(2) ns unfolding at_item_def line_start_def e by simp
  then show ?thesis by (simp add: sse_consume_append c q(1) e)
qed

lemma data_line_put_line: "data_line p (put_line s n b q f) = put_line s n b q (data_line p f)"
  by (simp add: data_line_def beginDataLine_put_line fold_dataByte_put_line close_line_put_line)

lemma fold_data_line_put_line: "fold data_line ps (put_line s n b q f) = put_line s n b q (fold data_line ps f)"
  by (induction ps arbitrary: f) (simp_all add: data_line_put_line)

lemma consume_data_lines:
  assumes "line_end nl" "list_all no_break ps" "line_start nl g" "\<And>qs. \<not> sse_stopped (fold data_line qs g)"
  shows "\<exists>b q. sse_consume (concat (map (data_line_bytes nl) ps)) g =
      put_line SseLineStart 0 b q (fold data_line ps g) \<and>
    line_start nl (put_line SseLineStart 0 b q (fold data_line ps g))"
  using assms(2-4)
proof (induction ps arbitrary: g)
  case Nil
  then show ?case using put_line_self [of g]
    by (intro exI [of _ "ff_field_buf g"] exI [of _ "ff_prev_cr g"]) (simp add: line_start_def)
next
  case (Cons p ps)
  obtain b q where c: "sse_consume (data_line_bytes nl p) g = put_line SseLineStart 0 b q (data_line p g)"
    "\<not> sse_stopped (data_line p g) \<longrightarrow> line_start nl (put_line SseLineStart 0 b q (data_line p g))"
    using consume_data_line [OF Cons.prems(2) assms(1), of p] Cons.prems(1) by auto
  let ?h = "put_line SseLineStart 0 b q (data_line p g)"
  have ns: "\<not> sse_stopped (fold data_line qs ?h)" for qs
    using Cons.prems(3) [of "p # qs"] by (simp add: fold_data_line_put_line)
  have "line_start nl ?h" using c(2) ns [of "[]"] by simp
  from Cons.IH [OF _ this ns] Cons.prems(1)
  obtain b' q' where r: "sse_consume (concat (map (data_line_bytes nl) ps)) ?h =
      put_line SseLineStart 0 b' q' (fold data_line ps ?h)"
    "line_start nl (put_line SseLineStart 0 b' q' (fold data_line ps ?h))" by auto
  show ?case
    using r by (intro exI [of _ b'] exI [of _ q']) (simp add: sse_consume_append c(1) fold_data_line_put_line)
qed

lemma close_json_frame:
  "ff_classifying (close_json g) = ff_classifying g" "ff_max_event_bytes (close_json g) = ff_max_event_bytes g"
  "ff_max_events (close_json g) = ff_max_events g" "ff_scan (close_json g) = finish (ff_scan g)"
  by (simp_all add: close_json_def Let_def merge_degrade_def)

lemma finishEvent_fresh:
  assumes "ff_event_has_data g" "\<not> ff_classifying g" "\<not> sse_stopped (finishEvent g)"
  shows "event_fresh (finishEvent g)"
proof -
  let ?h = "g\<lparr>ff_events := Suc (ff_events g)\<rparr>"
  have "\<not> ff_max_events g < int (Suc (ff_events g))"
    using assms by (auto simp: finishEvent_def Let_def sse_stopped_def)
  then have "finishEvent g = clear_event (if ff_event_json ?h then close_json ?h else ?h)"
    using assms(1) by (simp add: finishEvent_def Let_def)
  moreover have "\<not> ff_classifying (close_json ?h)" using assms(2) by (simp add: close_json_frame)
  ultimately show ?thesis using assms(2) by (simp add: event_fresh_def clear_event_def)
qed

lemma finishEvent_cfg: "framer_cfg d k mb me g \<Longrightarrow> framer_cfg d k mb me (finishEvent g)"
proof -
  assume g: "framer_cfg d k mb me g"
  let ?h = "g\<lparr>ff_events := Suc (ff_events g)\<rparr>"
  have c: "framer_cfg d k mb me (clear_event x) = framer_cfg d k mb me x" for x
    by (simp add: framer_cfg_def clear_event_def)
  have h: "framer_cfg d k mb me ?h" "framer_cfg d k mb me (?h\<lparr>ff_abort := Some AbandonBodyTooLarge\<rparr>)"
    using g by (simp_all add: framer_cfg_def)
  have "framer_cfg d k mb me (close_json ?h)" using h(1) unfolding framer_cfg_def close_json_frame by simp
  with g h show ?thesis by (simp add: finishEvent_def Let_def c)
qed

lemma consume_blank:
  assumes "line_end nl" "line_start nl (put_line SseLineStart 0 b q g)"
  shows "\<exists>q'. sse_consume nl (put_line SseLineStart 0 b q g) = put_line SseLineStart 0 b q' (finishEvent g) \<and>
     (\<not> sse_stopped (finishEvent g) \<longrightarrow> line_start nl (put_line SseLineStart 0 b q' (finishEvent g)))"
proof -
  let ?h = "put_line SseLineStart 0 b q g"
  have "(end_classify ?h)\<lparr>ff_line_len := 0, ff_state := SseLineStart\<rparr> = ?h"
    by (simp add: end_classify_def put_line_def)
  then have e: "endLine ?h = put_line SseLineStart 0 b q (finishEvent g)"
    by (simp add: endLine_def finishEvent_put_line Let_def)
  have "\<not> sse_stopped ?h" "ff_prev_cr ?h \<longrightarrow> nl = [CHR 0x0D]" using assms(2) by (simp_all add: line_start_def)
  from consume_line_end [OF assms(1) this]
  obtain q' where q': "sse_consume nl ?h = (endLine ?h)\<lparr>ff_prev_cr := q'\<rparr>"
    "\<not> sse_stopped (endLine ?h) \<and> q' \<longrightarrow> nl = [CHR 0x0D]" by blast
  have p: "(put_line SseLineStart 0 b q x)\<lparr>ff_prev_cr := q'\<rparr> = put_line SseLineStart 0 b q' x" for x
    by (simp add: put_line_def)
  show ?thesis using q' unfolding e p by (intro exI [of _ q']) (simp add: line_start_def)
qed

lemma in_json_fields:
  "sse_stopped (in_json f sc n) = sse_stopped f" "ff_event_has_data (in_json f sc n)"
  "ff_event_json (in_json f sc n)" "\<not> ff_classifying (in_json f sc n)" "ff_scan (in_json f sc n) = sc"
  "ff_max_events (in_json f sc n) = ff_max_events f" "ff_max_event_bytes (in_json f sc n) = ff_max_event_bytes f"
  "view (in_json f sc n) = (if ff_max_event_bytes f < int n then vw_degrade (view f) else view f)"
  by (simp_all add: in_json_def sse_stopped_def view_def vw_degrade_def m_degrade_def)

lemma in_skip_fields:
  "sse_stopped (in_skip f cl n) = sse_stopped f" "ff_event_has_data (in_skip f cl n)"
  "ff_event_json (in_skip f cl n) = ff_event_json f" "\<not> ff_classifying (in_skip f cl n)"
  "ff_scan (in_skip f cl n) = ff_scan f" "ff_max_events (in_skip f cl n) = ff_max_events f"
  "ff_max_event_bytes (in_skip f cl n) = ff_max_event_bytes f" "view (in_skip f cl n) = vw_degrade (view f)"
  by (simp_all add: in_skip_def sse_stopped_def view_def vw_degrade_def m_degrade_def)

lemma view_finishEvent_skip:
  assumes "ff_event_has_data g" "ff_max_events g = me" "\<not> ff_event_json g"
  shows "view (finishEvent g) = close_event d k me None (view g)"
  using assms by (simp add: finishEvent_def close_event_def Let_def view_def clear_event_def)

text \<open>
  An event whose payload lines leave the framer in a settled state \<open>F n\<close>: the lines are consumed and the
  blank line closes the event.
\<close>

lemma consume_event:
  assumes at: "at_item nl d k mb me f" "line_end nl" "list_all no_break (p # ps)"
    and ns: "\<And>qs. \<not> sse_stopped (fold data_line qs (data_line p f))"
    and G: "ff_event_has_data (fold data_line (p # ps) f)" "\<not> ff_classifying (fold data_line (p # ps) f)"
      "framer_cfg d k mb me (fold data_line (p # ps) f)"
    and r: "view (finishEvent (fold data_line (p # ps) f)) = event_sem d k mb me (p # ps) (view f)"
  shows "let g = sse_consume (item_bytes nl (SseEvent (p # ps))) f in
    view g = event_sem d k mb me (p # ps) (view f) \<and> (\<not> sse_stopped g \<longrightarrow> at_item nl d k mb me g)"
proof -
  have ls: "line_start nl f" using at(1) by (simp add: at_item_def)
  obtain b q where c: "sse_consume (data_line_bytes nl p) f = put_line SseLineStart 0 b q (data_line p f)"
    "\<not> sse_stopped (data_line p f) \<longrightarrow> line_start nl (put_line SseLineStart 0 b q (data_line p f))"
    using consume_data_line [OF ls at(2), of p] at(3) by auto
  let ?h = "put_line SseLineStart 0 b q (data_line p f)"
  have "line_start nl ?h" using c(2) ns [of "[]"] by simp
  moreover have "\<not> sse_stopped (fold data_line qs ?h)" for qs using ns by (simp add: fold_data_line_put_line)
  ultimately obtain b' q' where e: "sse_consume (concat (map (data_line_bytes nl) ps)) ?h =
      put_line SseLineStart 0 b' q' (fold data_line ps ?h)"
    "line_start nl (put_line SseLineStart 0 b' q' (fold data_line ps ?h))"
    using consume_data_lines [OF at(2), of ps ?h] at(3) by auto
  let ?G = "fold data_line (p # ps) f"
  have eG: "put_line SseLineStart 0 b' q' (fold data_line ps ?h) = put_line SseLineStart 0 b' q' ?G"
    by (simp add: fold_data_line_put_line)
  obtain q2 where f: "sse_consume nl (put_line SseLineStart 0 b' q' ?G) =
      put_line SseLineStart 0 b' q2 (finishEvent ?G)"
    "\<not> sse_stopped (finishEvent ?G) \<longrightarrow> line_start nl (put_line SseLineStart 0 b' q2 (finishEvent ?G))"
    using consume_blank [OF at(2), of b' q' ?G] e(2) unfolding eG by blast
  have g: "sse_consume (item_bytes nl (SseEvent (p # ps))) f = put_line SseLineStart 0 b' q2 (finishEvent ?G)"
    using f(1) unfolding eG [symmetric] by (simp add: sse_consume_append c(1) e(1))
  show ?thesis
    unfolding g Let_def using r f(2) finishEvent_fresh [OF G(1,2)] finishEvent_cfg [OF G(3)]
    by (simp add: at_item_def)
qed

lemma stopped_fold_json: "sse_stopped (fold data_line qs (in_json f sc n)) = sse_stopped f"
  by (simp add: data_lines_json in_json_fields)

lemma stopped_fold_skip: "event_fresh f \<Longrightarrow> sse_stopped (fold data_line qs (in_skip f cl n)) = sse_stopped f"
  by (simp add: data_lines_skip in_skip_fields)

lemma item_event:
  assumes at: "at_item nl d k mb me f" "line_end nl" "list_all no_break (p # ps)"
  shows "let g = sse_consume (item_bytes nl (SseEvent (p # ps))) f in
    view g = event_sem d k mb me (p # ps) (view f) \<and> (\<not> sse_stopped g \<longrightarrow> at_item nl d k mb me g)"
proof -
  have f: "event_fresh f" "framer_cfg d k mb me f" "\<not> sse_stopped f" "line_start nl f"
    "ff_max_event_bytes f = mb" "ff_max_events f = me"
    using at(1) by (simp_all add: at_item_def line_start_def framer_cfg_def)
  have lim: "limits (ff_scan f) = (whitelist, d, k)" "\<not> sc_panic (ff_scan f)"
    using f(2) by (simp_all add: framer_cfg_def)
  consider (json) "json_start mb p" | (fin) "\<not> json_start mb p" "p = doneMarker" "int (length doneMarker) \<le> mb"
    | (skip) "\<not> json_start mb p" "\<not> (p = doneMarker \<and> int (length doneMarker) \<le> mb)" by blast
  then show ?thesis
  proof cases
    case json
    let ?t = "join_lines (clip (nat mb) (p # ps))"
    note L = event_lines_json [OF f(1), unfolded f(5), OF json, of ps]
    note L1 = data_line_first_json [OF f(1), unfolded f(5), OF json]
    let ?sc = "feed ?t (reset (ff_scan f))" and ?n = "payload_bytes (p # ps)"
    let ?G = "in_json f ?sc ?n"
    have "limits ?sc = (whitelist, d, k)" unfolding reset_is_new [OF lim] by (simp only: limits_feed limits_new)
    moreover have "\<not> sc_panic ?sc" by (rule panic_feed_reset [OF lim])
    ultimately have cfg: "framer_cfg d k mb me ?G" using f(5,6) by (simp add: framer_cfg_def in_json_fields)
    have v: "view (finishEvent ?G) = event_sem d k mb me (p # ps) (view f)"
      using view_finishEvent [OF f(2), of ?G ?t] json f(3,5,6)
      by (simp add: in_json_fields event_sem_def json_start_def)
    show ?thesis
      by (rule consume_event [OF at]; (simp only: L L1 stopped_fold_json f(3) in_json_fields cfg v)?) simp_all
  next
    case fin
    obtain g where g: "data_line p f = g\<lparr>ff_done_seen := True\<rparr>" "ff_abort g = ff_abort f"
      "ff_merge g = ff_merge f" "ff_events g = ff_events f"
      using data_line_first_done [OF f(1)] fin f(5) by auto
    obtain b q where c: "sse_consume (data_line_bytes nl p) f = put_line SseLineStart 0 b q (data_line p f)"
      using consume_data_line [OF f(4) at(2), of p] at(3) by auto
    have s: "sse_stopped (data_line p f)" using g(1) by (simp add: sse_stopped_def)
    have "sse_consume (item_bytes nl (SseEvent (p # ps))) f = put_line SseLineStart 0 b q (data_line p f)"
      using s by (simp add: sse_consume_append c sse_stopped_consume)
    moreover have "view (data_line p f) = (view f)\<lparr>vw_stop := Some StopDone\<rparr>"
      using g f(3) by (simp add: view_def sse_stopped_def)
    ultimately show ?thesis using fin s
      by (simp add: event_sem_def json_start_def del: item_bytes.simps)
  next
    case skip
    obtain cl n where L1: "data_line p f = in_skip f cl n"
      using data_line_first_skip [OF f(1)] skip f(5) by blast
    have L: "fold data_line (p # ps) f = in_skip f cl (n + payload_bytes ps)"
      by (simp add: L1 data_lines_skip [OF f(1)])
    let ?G = "in_skip f cl (n + payload_bytes ps)"
    have cfg: "framer_cfg d k mb me ?G" using f(2) by (simp add: framer_cfg_def in_skip_fields)
    have "\<not> ff_event_json f" using f(1) by (simp add: event_fresh_def)
    then have v: "view (finishEvent ?G) = event_sem d k mb me (p # ps) (view f)"
      using view_finishEvent_skip [of ?G me d k] skip f(6)
      by (auto simp: in_skip_fields event_sem_def json_start_def)
    show ?thesis
      by (rule consume_event [OF at]; (simp only: L L1 stopped_fold_skip [OF f(1)] f(3) in_skip_fields cfg v)?) simp_all
  qed
qed

lemma item_refines:
  assumes at: "at_item nl d k mb me f" "line_end nl" "item_ok it"
  shows "let g = sse_consume (item_bytes nl it) f in
    view g = item_sem d k mb me it (view f) \<and> (\<not> sse_stopped g \<longrightarrow> at_item nl d k mb me g)"
proof -
  have f: "ff_state f = SseLineStart" "\<not> sse_stopped f" "vw_stop (view f) = None"
    using at(1) view_stop [of f] by (simp_all add: at_item_def line_start_def)
  show ?thesis
  proof (cases it)
    case (SseComment t)
    have nb: "no_break (CHR '':'' # t)" using at(3) SseComment by (simp add: no_break_def)
    show ?thesis
      using consume_other_line [OF at(1,2) nb comment_bytes [OF f(1)]] f(3) SseComment
      by (simp add: item_sem_def Let_def)
  next
    case (SseField m t)
    have nb: "no_break (m @ CHR '':'' # t)" using at(3) SseField by (simp add: no_break_def)
    have "\<exists>n b. 0 < n \<and> fold line_byte (m @ CHR '':'' # t) f = put_line SseSkipLine n b False f"
      using field_bytes [OF f(1)] at(3) SseField by simp
    from consume_other_line [OF at(1,2) nb this] show ?thesis using f(3) SseField
      by (simp add: item_sem_def Let_def)
  next
    case SseGap
    have ls: "line_start nl f" "event_fresh f" "framer_cfg d k mb me f" using at(1) by (simp_all add: at_item_def)
    have p: "put_line SseLineStart 0 (ff_field_buf f) (ff_prev_cr f) f = f"
      using put_line_self [of f] ls(1) by (simp add: line_start_def)
    have e: "finishEvent f = f" using ls(2) by (simp add: finishEvent_def event_fresh_def)
    obtain q' where "sse_consume nl f = put_line SseLineStart 0 (ff_field_buf f) q' f"
      "line_start nl (put_line SseLineStart 0 (ff_field_buf f) q' f)"
      using consume_blank [OF at(2), of "ff_field_buf f" "ff_prev_cr f" f] ls(1) f(2) unfolding p e by blast
    then show ?thesis using ls f(3) SseGap by (simp add: item_sem_def at_item_def)
  next
    case (SseEvent ls)
    then obtain p ps where l: "ls = p # ps" using at(3) by (cases ls) auto
    show ?thesis
      using item_event [OF at(1,2), of p ps] at(3) f(3) SseEvent l
      by (simp add: item_sem_def del: item_bytes.simps)
  qed
qed

section \<open>Streams\<close>

definition stream_bytes :: "string \<Rightarrow> sse_item list \<Rightarrow> string" where
  "stream_bytes nl its = concat (map (item_bytes nl) its)"

definition stream_sem :: "nat \<Rightarrow> nat \<Rightarrow> int \<Rightarrow> int \<Rightarrow> sse_item list \<Rightarrow> sse_view" where
  "stream_sem d k mb me its = fold (item_sem d k mb me) its empty_view"

lemma at_item_new: "at_item nl d k mb me (newSSEFramer d k mb me)"
  by (simp add: at_item_def line_start_def event_fresh_def framer_cfg_def newSSEFramer_def sse_stopped_def
      newScanner_def limits_new newScannerFor_fields newScannerFor_def reset_def limits_def)

lemma view_new: "view (newSSEFramer d k mb me) = empty_view"
  by (simp add: view_def newSSEFramer_def empty_view_def)

lemma item_sem_stopped: "vw_stop v \<noteq> None \<Longrightarrow> fold (item_sem d k mb me) its v = v"
  by (induction its) (simp_all add: item_sem_def)

lemma stream_refines:
  assumes "line_end nl" "list_all item_ok its" "at_item nl d k mb me f \<or> sse_stopped f"
  shows "view (sse_consume (stream_bytes nl its) f) = fold (item_sem d k mb me) its (view f)"
  using assms(2,3)
proof (induction its arbitrary: f)
  case Nil
  then show ?case by (simp add: stream_bytes_def)
next
  case (Cons it its)
  show ?case
  proof (cases "sse_stopped f")
    case True
    then show ?thesis using view_stop [of f] item_sem_stopped [of "view f" d k mb me "it # its"]
      by (simp add: sse_stopped_consume)
  next
    case False
    let ?g = "sse_consume (item_bytes nl it) f"
    have g: "view ?g = item_sem d k mb me it (view f)" "at_item nl d k mb me ?g \<or> sse_stopped ?g"
      using item_refines [OF _ assms(1), of d k mb me f it] Cons.prems False by (auto simp: Let_def)
    show ?thesis
      using Cons.IH [of ?g] Cons.prems(1) g by (simp add: stream_bytes_def sse_consume_append)
  qed
qed

section \<open>Bounds and cleanliness\<close>

definition merge_clean :: "stream_merge \<Rightarrow> bool" where
  "merge_clean m \<longleftrightarrow> clean capIDBytes (mg_id m) \<and> clean capModelBytes (mg_model m) \<and>
     clean capFinishReasonBytes (mg_finish_reason m) \<and> clean capErrTypeBytes (mg_err_type m) \<and>
     clean capErrCodeBytes (mg_err_code m)"

lemma merge_clean_apply:
  assumes "merge_clean m" "captures_clean r"
  shows "merge_clean (merge_apply r m)"
proof -
  have r: "clean capIDBytes (r_id r)" "clean capModelBytes (r_model r)" "clean capFinishReasonBytes (r_finish_reason r)"
    "clean capErrTypeBytes (r_err_type r)" "clean capErrCodeBytes (r_err_code r)"
    using assms(2) by (simp_all add: captures_clean_def captured_def)
  have u: "merge_clean m \<Longrightarrow> clean capIDBytes v \<Longrightarrow> merge_clean (m\<lparr>mg_id := v\<rparr>)"
    "merge_clean m \<Longrightarrow> clean capModelBytes v \<Longrightarrow> merge_clean (m\<lparr>mg_model := v\<rparr>)"
    "merge_clean m \<Longrightarrow> clean capFinishReasonBytes v \<Longrightarrow> merge_clean (m\<lparr>mg_finish_reason := v\<rparr>)"
    "merge_clean m \<Longrightarrow> clean capErrTypeBytes v \<Longrightarrow> merge_clean (m\<lparr>mg_err_type := v\<rparr>)"
    "merge_clean m \<Longrightarrow> clean capErrCodeBytes v \<Longrightarrow> merge_clean (m\<lparr>mg_err_code := v\<rparr>)"
    "merge_clean (m\<lparr>mg_conflict := c\<rparr>) = merge_clean m" "merge_clean (m\<lparr>mg_degraded := c\<rparr>) = merge_clean m"
    "merge_clean (m\<lparr>mg_saw_finish_reason := c\<rparr>) = merge_clean m"
    "merge_clean (m\<lparr>mg_usage := us, mg_saw_usage := c\<rparr>) = merge_clean m" for m v c us
    by (simp_all add: merge_clean_def)
  define m1 where "m1 = (if mg_id m = [] then m\<lparr>mg_id := r_id r\<rparr>
      else if r_id r \<noteq> [] \<and> r_id r \<noteq> mg_id m then m\<lparr>mg_conflict := True\<rparr> else m)"
  define m2 where "m2 = (if mg_model m1 = [] then m1\<lparr>mg_model := r_model r\<rparr>
      else if r_model r \<noteq> [] \<and> r_model r \<noteq> mg_model m1 then m1\<lparr>mg_conflict := True\<rparr> else m1)"
  define m3 where "m3 = (if r_saw_usage r then m2\<lparr>mg_usage := Some (r_usage r), mg_saw_usage := True\<rparr> else m2)"
  define m4 where "m4 = (if mg_finish_reason m3 = [] \<and> r_saw_finish_reason r
      then m3\<lparr>mg_finish_reason := r_finish_reason r\<rparr> else m3)"
  define m5 where "m5 = (if r_saw_finish_reason r then m4\<lparr>mg_saw_finish_reason := True\<rparr> else m4)"
  define m6 where "m6 = (if r_err_type r \<noteq> [] \<and> mg_err_type m5 = [] then m5\<lparr>mg_err_type := r_err_type r\<rparr> else m5)"
  define m7 where "m7 = (if r_err_code r \<noteq> [] \<and> mg_err_code m6 = [] then m6\<lparr>mg_err_code := r_err_code r\<rparr> else m6)"
  have "merge_clean m1" using assms(1) r by (simp add: m1_def u)
  then have "merge_clean m2" using r by (simp add: m2_def u)
  then have "merge_clean m3" by (simp add: m3_def u)
  then have "merge_clean m4" using r by (simp add: m4_def u)
  then have "merge_clean m5" by (simp add: m5_def u)
  then have "merge_clean m6" using r by (simp add: m6_def u)
  then have "merge_clean m7" using r by (simp add: m7_def u)
  moreover have "merge_apply r m = (if r_degraded r then m7\<lparr>mg_degraded := True\<rparr> else m7)"
    unfolding merge_apply_def Let_def m1_def m2_def m3_def m4_def m5_def m6_def m7_def by (rule refl)
  ultimately show ?thesis by (simp add: u)
qed

lemma scanner_ok_abandon: "scanner_ok s \<Longrightarrow> scanner_ok (abandon r s)"
proof -
  assume s: "scanner_ok s"
  then have "\<not> sc_panic s" by (simp add: scanner_ok_def struct_ok_def)
  then have "struct_ok (abandon r s)" by (rule struct_ok_abandon)
  moreover have "buf_ok (abandon r s)" "res_ok (abandon r s)"
    using s by (simp_all add: scanner_ok_def buf_ok_abandon)
  moreover have "kind_ok (abandon r s)" by (simp add: kind_ok_def abandon_def)
  ultimately show ?thesis by (simp add: scanner_ok_def)
qed

lemma scanner_ok_complete: "scanner_ok s \<Longrightarrow> scanner_ok (s\<lparr>sc_res := (sc_res s)\<lparr>r_complete := True\<rparr>\<rparr>)"
proof -
  let ?t = "s\<lparr>sc_res := (sc_res s)\<lparr>r_complete := True\<rparr>\<rparr>"
  assume s: "scanner_ok s"
  have "struct_ok ?t" by (rule struct_ok_cong [OF scanner_okD(1) [OF s]]) simp_all
  moreover have "buf_ok ?t" using s by (simp add: scanner_ok_def buf_ok_def)
  moreover have "kind_ok ?t" using s by (simp add: scanner_ok_def kind_ok_def)
  moreover have "res_ok ?t" using s by (simp add: scanner_ok_def res_ok_def captures_clean_def captured_def)
  ultimately show ?thesis by (simp add: scanner_ok_def)
qed

lemma scanner_ok_finish: "scanner_ok s \<Longrightarrow> scanner_ok (finish s)"
proof -
  assume "scanner_ok s"
  then have r: "scanner_ok (resolveChosen s)" by (rule scanner_ok_resolveChosen)
  then have "scanner_ok (endNumber (resolveChosen s))" by (rule scanner_ok_endNumber)
  then show ?thesis
    using r by (cases "sc_state (resolveChosen s)")
      (simp_all add: finish_def Let_def scanner_ok_abandon scanner_ok_complete)
qed

definition sse_ok :: "sse_framer \<Rightarrow> bool" where
  "sse_ok f \<longleftrightarrow>
     scanner_ok (ff_scan f) \<and> length (ff_classify f) \<le> classifyBytes \<and>
     length (ff_field_buf f) \<le> fieldBufBytes \<and> merge_clean (ff_merge f)"

lemma sse_ok_frame [simp]:
  "sse_ok (f\<lparr>ff_state := st\<rparr>) = sse_ok f" "sse_ok (f\<lparr>ff_line_len := n\<rparr>) = sse_ok f"
  "sse_ok (f\<lparr>ff_prev_cr := q\<rparr>) = sse_ok f" "sse_ok (f\<lparr>ff_event_has_data := q\<rparr>) = sse_ok f"
  "sse_ok (f\<lparr>ff_classifying := q\<rparr>) = sse_ok f" "sse_ok (f\<lparr>ff_continuation := q\<rparr>) = sse_ok f"
  "sse_ok (f\<lparr>ff_event_bytes := n\<rparr>) = sse_ok f" "sse_ok (f\<lparr>ff_event_skipped := q\<rparr>) = sse_ok f"
  "sse_ok (f\<lparr>ff_event_json := q\<rparr>) = sse_ok f" "sse_ok (f\<lparr>ff_events := n\<rparr>) = sse_ok f"
  "sse_ok (f\<lparr>ff_abort := a\<rparr>) = sse_ok f" "sse_ok (f\<lparr>ff_done_seen := q\<rparr>) = sse_ok f"
  "sse_ok (f\<lparr>ff_error_seen := q\<rparr>) = sse_ok f" "sse_ok (merge_degrade f) = sse_ok f"
  "sse_ok (clear_event f) = sse_ok f"
  by (simp_all add: sse_ok_def merge_degrade_def merge_clean_def clear_event_def)

lemma sse_ok_feedScanner: "sse_ok f \<Longrightarrow> sse_ok (feedScanner c f)"
  by (simp add: sse_ok_def feedScanner_def scanner_ok_feed)

lemma sse_ok_reset: "sse_ok f \<Longrightarrow> sse_ok (f\<lparr>ff_scan := reset (ff_scan f)\<rparr>)"
proof -
  assume f: "sse_ok f"
  then have "\<not> sc_panic (ff_scan f)" by (simp add: sse_ok_def scanner_ok_def struct_ok_def)
  then have "scanner_ok (reset (ff_scan f))" by (rule scanner_ok_reset)
  with f show ?thesis by (simp add: sse_ok_def)
qed

lemma sse_ok_beginDataLine: "sse_ok f \<Longrightarrow> sse_ok (beginDataLine f)"
proof -
  assume "sse_ok f"
  then have f: "sse_ok (f\<lparr>ff_event_has_data := True\<rparr>)" by simp
  have cl: "sse_ok g \<Longrightarrow> sse_ok (g\<lparr>ff_classify := []\<rparr>)" for g by (simp add: sse_ok_def)
  have "sse_ok g \<Longrightarrow> sse_ok (g\<lparr>ff_classifying := True, ff_classify := []\<rparr>)" for g
    using cl [of "g\<lparr>ff_classifying := True\<rparr>"] by simp
  with f show ?thesis by (simp add: beginDataLine_def Let_def sse_ok_feedScanner)
qed

lemma sse_ok_dataByte: "sse_ok f0 \<Longrightarrow> sse_ok (dataByte c f0)"
proof -
  assume f0: "sse_ok f0"
  define f where "f = f0\<lparr>ff_event_bytes := Suc (ff_event_bytes f0)\<rparr>"
  have f: "sse_ok f" using f0 by (simp add: f_def)
  have sk: "sse_ok ((merge_degrade f)\<lparr>ff_event_skipped := True, ff_classifying := False\<rparr>)"
    "sse_ok ((merge_degrade f)\<lparr>ff_classifying := False, ff_event_skipped := True\<rparr>)"
    using f by simp_all
  have j: "sse_ok (feedScanner c (f\<lparr>ff_classifying := False, ff_event_json := True, ff_scan := reset (ff_scan f)\<rparr>))" for c
    using sse_ok_feedScanner [OF sse_ok_reset [of "f\<lparr>ff_classifying := False, ff_event_json := True\<rparr>"]] f by simp
  have a: "length (ff_classify f) < classifyBytes \<Longrightarrow> sse_ok (f\<lparr>ff_classify := ff_classify f @ [c]\<rparr>)"
    using f by (simp add: sse_ok_def)
  show ?thesis
    unfolding dataByte_def f_def [symmetric] Let_def using f sk j a sse_ok_feedScanner [OF f] by simp
qed

lemma sse_ok_stepChar: "sse_ok f \<Longrightarrow> sse_ok (stepChar c f)"
proof -
  assume f: "sse_ok f"
  have fc: "sse_ok g \<Longrightarrow> sse_ok (fieldChar c g)" for g
  proof -
    assume g: "sse_ok g"
    then have "length (ff_field_buf g) < fieldBufBytes \<Longrightarrow> sse_ok (g\<lparr>ff_field_buf := ff_field_buf g @ [c]\<rparr>)"
      by (simp add: sse_ok_def)
    with g show ?thesis by (simp add: fieldChar_def)
  qed
  have "sse_ok (f\<lparr>ff_field_buf := []\<rparr>)" using f by (simp add: sse_ok_def)
  then have "sse_ok (f\<lparr>ff_field_buf := [], ff_state := SseFieldName\<rparr>)" by simp
  then show ?thesis
    using f fc sse_ok_dataByte sse_ok_beginDataLine
    by (cases "ff_state f") (simp_all add: stepChar_def Let_def)
qed

lemma sse_ok_close_json: "sse_ok f0 \<Longrightarrow> sse_ok (close_json f0)"
proof -
  assume f0: "sse_ok f0"
  define f where "f = f0\<lparr>ff_scan := finish (ff_scan f0)\<rparr>"
  have f: "sse_ok f" using f0 by (simp add: f_def sse_ok_def scanner_ok_finish)
  then have "captures_clean (sc_res (ff_scan f))" by (simp add: sse_ok_def scanner_ok_def res_ok_def)
  then have "sse_ok (f\<lparr>ff_merge := merge_apply (sc_res (ff_scan f)) (ff_merge f)\<rparr>)"
    using f by (simp add: sse_ok_def merge_clean_apply)
  with f show ?thesis unfolding close_json_def f_def [symmetric] Let_def by simp
qed

lemma sse_ok_endLine: "sse_ok f \<Longrightarrow> sse_ok (endLine f)"
proof -
  assume f: "sse_ok f"
  have e: "sse_ok (end_classify f)" using f by (simp add: end_classify_def Let_def)
  have "sse_ok g \<Longrightarrow> sse_ok (finishEvent g)" for g
    using sse_ok_close_json [of "g\<lparr>ff_events := Suc (ff_events g)\<rparr>"] by (simp add: finishEvent_def Let_def)
  with e show ?thesis by (simp add: endLine_def Let_def)
qed

lemma sse_ok_consume: "sse_ok f \<Longrightarrow> sse_ok (sse_consume b f)"
proof (induction b arbitrary: f)
  case Nil
  then show ?case by simp
next
  case (Cons c b)
  have "sse_ok (sse_byte c f)"
    using Cons.prems by (simp add: sse_byte_def sse_ok_endLine sse_ok_stepChar)
  then show ?case using Cons by simp
qed

lemma sse_ok_new: "sse_ok (newSSEFramer d k mb me)"
  by (simp add: sse_ok_def newSSEFramer_def newScanner_def scanner_ok_new merge_clean_def empty_merge_def)

section \<open>A stream of documents\<close>

lemma acc_resolve_abandoned:
  "r_abandoned (acc_resolve (r, cs, ov)) = r_abandoned r" "r_saw_error (acc_resolve (r, cs, ov)) = r_saw_error r"
  by (simp_all add: acc_resolve_def Let_def)

lemma scan_spec_whole:
  "r_abandoned (scan_spec root mk v) = None" "r_complete (scan_spec root mk v)"
proof -
  let ?a = "walk mk (Some root) (- 1) v (empty_result, replicate maxCandidateSlots [], False)"
  have "r_abandoned (fst ?a) = None" by (simp add: walk_abandoned empty_result_def)
  then show "r_abandoned (scan_spec root mk v) = None"
    by (cases ?a) (simp add: scan_spec_def acc_resolve_abandoned)
qed (simp add: scan_spec_def)

definition doc_event :: "json \<Rightarrow> sse_item" where
  "doc_event v = SseEvent [render v]"

definition chunk_ok :: "nat \<Rightarrow> nat \<Rightarrow> int \<Rightarrow> json \<Rightarrow> bool" where
  "chunk_ok d k mb v \<longleftrightarrow>
     (case v of JObj kvs \<Rightarrow> True | _ \<Rightarrow> False) \<and> json_ok v \<and> jdepth v \<le> d \<and>
     no_break (render v) \<and> int (length (render v)) \<le> mb \<and> \<not> r_saw_error (scan_spec whitelist k v)"

lemma event_sem_doc:
  assumes "chunk_ok d k mb v" "int (Suc (vw_events w)) \<le> me"
  shows "event_sem d k mb me [render v] w =
     w\<lparr>vw_events := Suc (vw_events w), vw_merge := merge_apply (scan_spec whitelist k v) (vw_merge w)\<rparr>"
proof -
  obtain kvs where v: "v = JObj kvs" using assms(1) by (auto simp: chunk_ok_def split: json.splits)
  have "int (length (render v)) \<le> mb" using assms(1) by (simp add: chunk_ok_def)
  then have len: "length (render v) \<le> nat mb" by linarith
  then have c: "take (nat mb) (render v) = render v" by simp
  have "take 1 (render v) = ''{''" by (simp add: v)
  moreover have "is_container v" by (simp add: v)
  moreover have "\<not> mb < int (payload_bytes [render v])" using assms(1) by (simp add: chunk_ok_def payload_bytes_def)
  ultimately show ?thesis
    using assms c scan_document_walk [of v d whitelist k] scan_spec_whole [of whitelist k v]
    by (simp add: event_sem_def close_event_def Let_def chunk_ok_def)
qed

lemma stream_sem_docs:
  assumes "list_all (chunk_ok d k mb) vs" "int (vw_events w + length vs) \<le> me" "vw_stop w = None"
  shows "fold (item_sem d k mb me) (map doc_event vs) w =
     w\<lparr>vw_events := vw_events w + length vs,
       vw_merge := fold (\<lambda>v. merge_apply (scan_spec whitelist k v)) vs (vw_merge w)\<rparr>"
  using assms
proof (induction vs arbitrary: w)
  case Nil
  then show ?case by simp
next
  case (Cons v vs)
  let ?w = "w\<lparr>vw_events := Suc (vw_events w), vw_merge := merge_apply (scan_spec whitelist k v) (vw_merge w)\<rparr>"
  have "event_sem d k mb me [render v] w = ?w"
    using Cons.prems by (intro event_sem_doc) simp_all
  then show ?case using Cons.prems Cons.IH [of ?w] by (simp add: item_sem_def doc_event_def)
qed

definition done_event :: sse_item where
  "done_event = SseEvent [doneMarker]"

lemma docs_stream_view:
  assumes "line_end nl" "list_all (chunk_ok d k mb) vs" "int (length vs) \<le> me" "6 \<le> mb"
  shows "view (sse_consume (stream_bytes nl (map doc_event vs @ [done_event])) (newSSEFramer d k mb me)) =
     \<lparr>vw_merge = fold (\<lambda>v. merge_apply (scan_spec whitelist k v)) vs empty_merge,
      vw_events = length vs, vw_stop = Some StopDone\<rparr>"
proof -
  have ok: "list_all item_ok (map doc_event vs @ [done_event])"
    using assms(2) by (auto simp: list_all_iff chunk_ok_def doc_event_def done_event_def no_break_def doneMarker_def)
  have "event_sem d k mb me [doneMarker] w = w\<lparr>vw_stop := Some StopDone\<rparr>" for w
    using assms(4) by (cases "nat mb") (simp_all add: event_sem_def doneMarker_def)
  then show ?thesis
    using stream_refines [OF assms(1) ok, of d k mb me "newSSEFramer d k mb me"] at_item_new [of nl d k mb me]
      stream_sem_docs [OF assms(2), of empty_view me] assms(3)
    by (simp add: view_new) (simp add: item_sem_def done_event_def empty_view_def)
qed

section \<open>Properties\<close>

text \<open>
  C7.  For any sequence of comments, fields, blank lines and multi-line events, written with any of
  the three line ends, the byte framer computes the item semantics: which payload bytes reach the
  scanner under the per-event budget, how the results merge, what degrades, and what stops the
  stream (\<^verbatim>\<open>[DONE]\<close>, an error event, too many events, too deep a payload).
\<close>

theorem sse_framer_refines:
  assumes "line_end nl" "list_all item_ok its"
  shows "view (sse_consume (stream_bytes nl its) (newSSEFramer d k mb me)) = stream_sem d k mb me its"
  using stream_refines [OF assms, of d k mb me "newSSEFramer d k mb me"] at_item_new [of nl d k mb me]
  by (simp add: stream_sem_def view_new)

lemma sse_framer_refines_witness:
  "view (sse_consume (stream_bytes [CHR 0x0D, CHR 0x0A]
      [SseComment ''ping'', SseField ''event'' ''x'', SseEvent [''{'', ''}''], SseGap, done_event])
      (newSSEFramer 4 8 100 10)) =
   stream_sem 4 8 100 10
      [SseComment ''ping'', SseField ''event'' ''x'', SseEvent [''{'', ''}''], SseGap, done_event]"
  by (rule sse_framer_refines)
    (simp_all add: line_end_def no_break_def done_event_def doneMarker_def)

text \<open>
  C8.  A stream of JSON chunk objects within the limits, none of them an error object, closed by
  \<^verbatim>\<open>[DONE]\<close>: the merged metadata is the left fold of the reference readings of the chunks, every chunk
  counts as one event, and the stream is done.
\<close>

theorem sse_reads_chunks:
  assumes "line_end nl" "list_all (chunk_ok d k mb) vs" "int (length vs) \<le> me" "6 \<le> mb"
  shows "view (sse_consume (stream_bytes nl (map doc_event vs @ [done_event])) (newSSEFramer d k mb me)) =
     \<lparr>vw_merge = fold (\<lambda>v. merge_apply (scan_spec whitelist k v)) vs empty_merge,
      vw_events = length vs, vw_stop = Some StopDone\<rparr>"
  using assms by (rule docs_stream_view)

lemma sse_reads_chunks_witness:
  "view (sse_consume (stream_bytes [CHR 0x0A]
      (map doc_event [JObj [(''id'', JStr ''a'')], JObj [(''model'', JStr ''m'')]] @ [done_event]))
      (newSSEFramer 4 8 100 10)) =
   \<lparr>vw_merge = fold (\<lambda>v. merge_apply (scan_spec whitelist 8 v))
      [JObj [(''id'', JStr ''a'')], JObj [(''model'', JStr ''m'')]] empty_merge,
    vw_events = length [JObj [(''id'', JStr ''a'')], JObj [(''model'', JStr ''m'')]], vw_stop = Some StopDone\<rparr>"
  by (rule sse_reads_chunks) (simp add: line_end_def, code_simp, simp_all)

text \<open>
  C9.  Whatever bytes arrive, the framer holds at most sixteen payload bytes and eight field name
  bytes, its scanner keeps its own bounds, and the merged identifiers are within their caps,
  printable and free of the credential pattern.
\<close>

theorem sse_framer_bounded:
  "let f = sse_consume b (newSSEFramer d k mb me) in
     length (ff_classify f) \<le> classifyBytes \<and> length (ff_field_buf f) \<le> fieldBufBytes \<and>
     scanner_ok (ff_scan f) \<and> merge_clean (ff_merge f)"
  using sse_ok_consume [OF sse_ok_new] by (simp add: sse_ok_def Let_def)

end
