(* ===== verification/Ring.thy ===== *)
theory Ring
  imports Prelude
begin

text \<open>
  The observation ring of \<^verbatim>\<open>pkg/observe/ring.go\<close>: the pool of byte slabs, the single producer and
  single consumer byte ring, and the lifetime word that decides when a slab goes back to the pool.
  The positions are 64 bit words as in the code; the lifetime word packs three flags and the reader
  count, and its operations are the code's bit operations.
\<close>

unbundle bit_operations_syntax

section \<open>The pool\<close>

type_synonym slab = "char list"

definition zero_slab :: "nat \<Rightarrow> slab" where
  "zero_slab n = replicate n CHR 0x00"

text \<open>The slabs in the channel, oldest first; the capacity is the count they were made with.\<close>

definition newRingPool :: "nat \<Rightarrow> nat \<Rightarrow> slab list" where
  "newRingPool budgetBytes ringBytes = replicate (budgetBytes div ringBytes) (zero_slab ringBytes)"

definition tryGet :: "slab list \<Rightarrow> slab option \<times> slab list" where
  "tryGet pool = (case pool of [] \<Rightarrow> (None, pool) | b # bs \<Rightarrow> (Some b, bs))"

definition pool_put :: "slab \<Rightarrow> slab list \<Rightarrow> slab list" where
  "pool_put b pool = pool @ [zero_slab (length b)]"

section \<open>The byte ring\<close>

record ring =
  rg_buf :: slab
  rg_head :: "64 word"
  rg_tail :: "64 word"

definition new_ring :: "slab \<Rightarrow> ring" where
  "new_ring b = \<lparr>rg_buf = b, rg_head = 0, rg_tail = 0\<rparr>"

text \<open>Go's \<^verbatim>\<open>copy(dst[off:], src)\<close> copies as much as fits; it returns the number of bytes copied.\<close>

definition copy_at :: "nat \<Rightarrow> char list \<Rightarrow> slab \<Rightarrow> slab" where
  "copy_at off p b = take off b @ take (length b - off) p @ drop (off + length p) b"

definition copied :: "nat \<Rightarrow> char list \<Rightarrow> slab \<Rightarrow> nat" where
  "copied off p b = min (length b - off) (length p)"

definition ring_write :: "char list \<Rightarrow> ring \<Rightarrow> ring option" where
  "ring_write p r =
     (let h = rg_head r; t = rg_tail r; size = of_nat (length (rg_buf r)) in
      if size - (h - t) < of_nat (length p) then None
      else
        (let off = unat (h mod size);
             n = copied off p (rg_buf r);
             b1 = copy_at off p (rg_buf r);
             b2 = (if n < length p then copy_at 0 (drop n p) b1 else b1)
         in Some (r\<lparr>rg_buf := b2, rg_head := h + of_nat (length p)\<rparr>)))"

text \<open>
  \<^verbatim>\<open>drainInto\<close>: the chunks handed to the scan function and the ring after it; no chunk at all is the
  result \<^verbatim>\<open>false\<close>.
\<close>

definition ring_drain :: "ring \<Rightarrow> char list list \<times> ring" where
  "ring_drain r =
     (let h = rg_head r; t = rg_tail r in
      if h = t then ([], r)
      else
        (let size = of_nat (length (rg_buf r));
             off = unat (t mod size);
             n = h - t;
             first = min n (size - t mod size);
             c1 = take (unat first) (drop off (rg_buf r));
             c2 = take (unat (n - first)) (rg_buf r)
         in (if first < n then [c1, c2] else [c1], r\<lparr>rg_tail := h\<rparr>)))"

section \<open>The lifetime word\<close>

definition stateClosed :: "64 word" where "stateClosed = push_bit 0 1"
definition stateConsumerDone :: "64 word" where "stateConsumerDone = push_bit 1 1"
definition stateReleased :: "64 word" where "stateReleased = push_bit 2 1"
definition readerCountShift :: nat where "readerCountShift = 3"
definition readerOne :: "64 word" where "readerOne = push_bit readerCountShift 1"

text \<open>
  Each operation is a load and compare-and-swap loop (or an atomic add) on the word, so it takes
  effect at one point; the functions give the word after it.
\<close>

definition pin :: "64 word \<Rightarrow> 64 word option" where
  "pin s = (if s AND stateClosed \<noteq> 0 then None else Some (s + readerOne))"

definition unpin_sub :: "64 word \<Rightarrow> 64 word" where
  "unpin_sub s = s + (NOT readerOne + 1)"

definition orBit :: "64 word \<Rightarrow> 64 word \<Rightarrow> 64 word" where
  "orBit b s = (if s AND b \<noteq> 0 then s else s OR b)"

definition release_ready :: "64 word \<Rightarrow> bool" where
  "release_ready s \<longleftrightarrow>
     s AND stateReleased = 0 \<and>
     \<not> (s AND stateClosed = 0 \<or> s AND stateConsumerDone = 0 \<or> drop_bit readerCountShift s \<noteq> 0)"

record lease =
  ls_state :: "64 word"
  ls_buf :: "slab option"
  ls_pool :: "slab list"

definition tryRelease :: "lease \<Rightarrow> lease" where
  "tryRelease l =
     (if release_ready (ls_state l)
      then l\<lparr>ls_state := ls_state l OR stateReleased, ls_buf := None,
             ls_pool := (case ls_buf l of Some b \<Rightarrow> pool_put b (ls_pool l) | None \<Rightarrow> ls_pool l)\<rparr>
      else l)"

section \<open>Reading the word\<close>

definition is_closed :: "64 word \<Rightarrow> bool" where "is_closed s = odd (unat s)"
definition is_done :: "64 word \<Rightarrow> bool" where "is_done s = odd (unat s div 2)"
definition is_released :: "64 word \<Rightarrow> bool" where "is_released s = odd (unat s div 4)"
definition readers :: "64 word \<Rightarrow> nat" where "readers s = unat s div 8"

lemma and_bit_nat: "(s :: 64 word) AND push_bit n 1 \<noteq> 0 \<longleftrightarrow> odd (unat s div 2 ^ n)" if "n < 64"
proof -
  have "s AND push_bit n 1 = 0 \<longleftrightarrow> \<not> bit s n"
  proof
    assume z: "s AND push_bit n 1 = 0"
    have "bit (s AND push_bit n 1) n = bit s n" using that by (simp add: bit_simps)
    then show "\<not> bit s n" using z by simp
  next
    assume nb: "\<not> bit s n"
    show "s AND push_bit n 1 = 0"
      by (rule bit_eqI) (use nb in \<open>auto simp: bit_simps\<close>)
  qed
  moreover have "bit s n = odd (unat s div 2 ^ n)"
  proof -
    have "bit (unat s) n = bit s n" using that by (simp add: bit_unsigned_iff)
    then show ?thesis by (simp add: bit_iff_odd)
  qed
  ultimately show ?thesis by simp
qed

lemmas state_bits_def = stateClosed_def stateConsumerDone_def stateReleased_def

lemma state_bit_tests:
  "s AND stateClosed \<noteq> 0 \<longleftrightarrow> is_closed s" "s AND stateConsumerDone \<noteq> 0 \<longleftrightarrow> is_done s"
  "s AND stateReleased \<noteq> 0 \<longleftrightarrow> is_released s"
  unfolding state_bits_def is_closed_def is_done_def is_released_def
  using and_bit_nat [of 0 s] and_bit_nat [of 1 s] and_bit_nat [of 2 s] by simp_all

lemma state_bit_tests_zero:
  "s AND stateClosed = 0 \<longleftrightarrow> \<not> is_closed s" "s AND stateConsumerDone = 0 \<longleftrightarrow> \<not> is_done s"
  "s AND stateReleased = 0 \<longleftrightarrow> \<not> is_released s"
  using state_bit_tests by blast+

lemma readers_zero: "drop_bit readerCountShift s \<noteq> 0 \<longleftrightarrow> readers s \<noteq> 0"
proof -
  have "unat (drop_bit 3 s) = unat s div 8" by (simp only: unat_drop_bit_eq) (simp add: drop_bit_eq_div)
  then show ?thesis by (metis readerCountShift_def readers_def unat_eq_zero)
qed

lemma or_bit_add:
  assumes "s AND push_bit n 1 = 0" "n < 64"
  shows "unat (s OR push_bit n (1 :: 64 word)) = unat s + 2 ^ n"
proof -
  have p: "unat (push_bit n (1 :: 64 word)) = 2 ^ n"
  proof -
    have "(2 :: nat) ^ n < 2 ^ 64" using assms(2) by (simp only: power_strict_increasing_iff)
    then have "unat (of_nat (2 ^ n) :: 64 word) = 2 ^ n" by (rule unat_of_nat_64)
    then show ?thesis by (simp add: push_bit_eq_mult)
  qed
  have "unat s AND 2 ^ n = unat (s AND push_bit n 1)" by (simp only: unsigned_and_eq p)
  also have "\<dots> = 0" unfolding assms(1) by simp
  finally have "unat s OR 2 ^ n = unat s + 2 ^ n" by (simp add: disjunctive_add_eq_or)
  then show ?thesis by (simp only: unsigned_or_eq p)
qed

text \<open>The four operations on the flags and the reader count.\<close>

lemma pin_fields:
  assumes "pin s = Some s'" "readers s < 2 ^ 61 - 1"
  shows "is_closed s' = is_closed s" "is_done s' = is_done s" "is_released s' = is_released s"
    "readers s' = Suc (readers s)" "\<not> is_closed s"
proof -
  have s': "s' = s + 8" "\<not> is_closed s"
    using assms(1) by (auto simp: pin_def readerOne_def readerCountShift_def state_bit_tests_zero
        push_bit_eq_mult split: if_splits)
  have r: "unat s + 8 < 2 ^ 64" using assms(2) by (simp add: readers_def)
  have "unat s' = unat s + 8"
    unfolding s'(1) using r by (simp add: unat_word_ariths)
  then show "is_closed s' = is_closed s" "is_done s' = is_done s" "is_released s' = is_released s"
    "readers s' = Suc (readers s)"
    by (simp_all add: is_closed_def is_done_def is_released_def readers_def) presburger+
  show "\<not> is_closed s" by (rule s'(2))
qed

lemma pin_None: "pin s = None \<longleftrightarrow> is_closed s"
  by (simp add: pin_def state_bit_tests_zero)

lemma unpin_fields:
  assumes "0 < readers s"
  shows "is_closed (unpin_sub s) = is_closed s" "is_done (unpin_sub s) = is_done s"
    "is_released (unpin_sub s) = is_released s" "readers (unpin_sub s) = readers s - 1"
proof -
  have "unpin_sub s = s - 8"
    by (simp add: unpin_sub_def readerOne_def readerCountShift_def push_bit_eq_mult not_eq_complement)
  moreover have ge: "8 \<le> unat s" using assms by (simp add: readers_def)
  ultimately have u: "unat (unpin_sub s) = unat s - 8" by (simp add: unat_sub word_le_nat_alt)
  obtain k where k: "unat s = k + 8" using ge by (metis add.commute le_Suc_ex)
  show "is_closed (unpin_sub s) = is_closed s" "is_done (unpin_sub s) = is_done s"
    "is_released (unpin_sub s) = is_released s" "readers (unpin_sub s) = readers s - 1"
  proof -
    have "(k + 8) div 2 = k div 2 + 4" "(k + 8) div 4 = k div 4 + 2" by simp_all
    then show "is_closed (unpin_sub s) = is_closed s" "is_done (unpin_sub s) = is_done s"
      "is_released (unpin_sub s) = is_released s" "readers (unpin_sub s) = readers s - 1"
      unfolding is_closed_def is_done_def is_released_def readers_def u k by simp_all
  qed
qed

text \<open>Adding a power of two whose digit is clear sets that digit and leaves the others.\<close>

lemma add_bit_nat:
  fixes x :: nat
  shows "even x \<Longrightarrow> (x + 1) div 2 = x div 2"
    "even (x div 2) \<Longrightarrow> (x + 2) div 4 = x div 4" "(x + 2) div 2 = x div 2 + 1"
    "even (x div 4) \<Longrightarrow> (x + 4) div 8 = x div 8" "(x + 4) div 4 = x div 4 + 1" "(x + 4) div 2 = x div 2 + 2"
proof -
  have q: "y div 4 = (y div 2) div 2" "y div 8 = ((y div 2) div 2) div 2" for y :: nat
    by (simp_all add: div_mult2_eq [symmetric])
  show one: "even x \<Longrightarrow> (x + 1) div 2 = x div 2" for x :: nat by simp
  show two: "(x + 2) div 2 = x div 2 + 1" for x :: nat by simp
  show "even (x div 2) \<Longrightarrow> (x + 2) div 4 = x div 4" unfolding q two by (rule one)
  show f2: "(x + 4) div 2 = x div 2 + 2" by simp
  show f4: "(x + 4) div 4 = x div 4 + 1" by simp
  show "even (x div 4) \<Longrightarrow> (x + 4) div 8 = x div 8" unfolding q f2 two by (rule one)
qed

lemma div_four_of_half: "(x :: nat) div 4 = x div 2 div 2" "(x :: nat) div 8 = x div 4 div 2"
  by (simp_all add: div_mult2_eq [symmetric])

lemma orBit_fields:
  "is_closed (orBit stateClosed s)" "is_done (orBit stateClosed s) = is_done s"
  "is_released (orBit stateClosed s) = is_released s" "readers (orBit stateClosed s) = readers s"
  "is_closed (orBit stateConsumerDone s) = is_closed s" "is_done (orBit stateConsumerDone s)"
  "is_released (orBit stateConsumerDone s) = is_released s" "readers (orBit stateConsumerDone s) = readers s"
proof -
  have c: "unat (s OR stateClosed) = unat s + 1" if "\<not> is_closed s"
    using that or_bit_add [of s 0] state_bit_tests_zero(1) [of s] by (simp add: stateClosed_def)
  have d: "unat (s OR stateConsumerDone) = unat s + 2" if "\<not> is_done s"
    using that or_bit_add [of s 1] state_bit_tests_zero(2) [of s] by (simp add: stateConsumerDone_def)
  show "is_closed (orBit stateClosed s)" "is_done (orBit stateClosed s) = is_done s"
    "is_released (orBit stateClosed s) = is_released s" "readers (orBit stateClosed s) = readers s"
  proof -
    consider "is_closed s" "orBit stateClosed s = s"
      | "\<not> is_closed s" "unat (orBit stateClosed s) = unat s + 1"
      using c by (auto simp: orBit_def state_bit_tests state_bit_tests_zero)
    then have "is_closed (orBit stateClosed s) \<and> is_done (orBit stateClosed s) = is_done s \<and>
      is_released (orBit stateClosed s) = is_released s \<and> readers (orBit stateClosed s) = readers s"
    proof cases
      case 2
      then have "(unat s + 1) div 2 = unat s div 2" by (simp add: is_closed_def)
      then show ?thesis using 2
        by (simp only: is_closed_def is_done_def is_released_def readers_def div_four_of_half) simp
    qed simp
    then show "is_closed (orBit stateClosed s)" "is_done (orBit stateClosed s) = is_done s"
      "is_released (orBit stateClosed s) = is_released s" "readers (orBit stateClosed s) = readers s"
      by simp_all
  qed
  show "is_closed (orBit stateConsumerDone s) = is_closed s" "is_done (orBit stateConsumerDone s)"
    "is_released (orBit stateConsumerDone s) = is_released s" "readers (orBit stateConsumerDone s) = readers s"
  proof -
    consider "is_done s" "orBit stateConsumerDone s = s"
      | "\<not> is_done s" "unat (orBit stateConsumerDone s) = unat s + 2"
      using d by (auto simp: orBit_def state_bit_tests state_bit_tests_zero)
    then have "is_closed (orBit stateConsumerDone s) = is_closed s \<and> is_done (orBit stateConsumerDone s) \<and>
      is_released (orBit stateConsumerDone s) = is_released s \<and>
      readers (orBit stateConsumerDone s) = readers s"
    proof cases
      case 2
      then have "(unat s + 2) div 4 = unat s div 4" by (intro add_bit_nat(2)) (simp add: is_done_def)
      then show ?thesis using 2
        by (simp only: is_closed_def is_done_def is_released_def readers_def div_four_of_half(2)) simp
    qed simp
    then show "is_closed (orBit stateConsumerDone s) = is_closed s" "is_done (orBit stateConsumerDone s)"
      "is_released (orBit stateConsumerDone s) = is_released s" "readers (orBit stateConsumerDone s) = readers s"
      by simp_all
  qed
qed

lemma release_fields:
  assumes "\<not> is_released s"
  shows "is_closed (s OR stateReleased) = is_closed s" "is_done (s OR stateReleased) = is_done s"
    "is_released (s OR stateReleased)" "readers (s OR stateReleased) = readers s"
proof -
  have u: "unat (s OR stateReleased) = unat s + 4"
    using assms or_bit_add [of s 2] state_bit_tests_zero(3) [of s] by (simp add: stateReleased_def)
  have "(unat s + 4) div 8 = unat s div 8" using assms by (intro add_bit_nat(4)) (simp add: is_released_def)
  with u assms show "is_closed (s OR stateReleased) = is_closed s" "is_done (s OR stateReleased) = is_done s"
    "is_released (s OR stateReleased)" "readers (s OR stateReleased) = readers s"
    by (simp_all add: is_closed_def is_done_def is_released_def readers_def add_bit_nat(5,6))
qed

lemma release_ready_iff:
  "release_ready s \<longleftrightarrow> \<not> is_released s \<and> is_closed s \<and> is_done s \<and> readers s = 0"
  unfolding release_ready_def state_bit_tests_zero using readers_zero [of s] by auto

section \<open>The lifetime protocol\<close>

text \<open>
  The participants, at the granularity of the atomic operations.  \<open>lw_pins\<close> counts the reads that
  hold a pin, \<open>lw_pending\<close> the calls to \<^verbatim>\<open>tryRelease\<close> that follow an operation but have not run yet:
  \<^verbatim>\<open>unpin\<close>, \<^verbatim>\<open>setClosed\<close> and the observer's deferred function each end with one.  \<open>lw_observing\<close> holds
  until the observer has set its bit, which is the last thing it does with the buffer.
\<close>

record lease_world =
  lw_lease :: lease
  lw_pins :: nat
  lw_pending :: nat
  lw_observing :: bool
  lw_puts :: nat

definition initial_world :: "slab \<Rightarrow> slab list \<Rightarrow> lease_world" where
  "initial_world b pool =
     \<lparr>lw_lease = \<lparr>ls_state = 0, ls_buf = Some b, ls_pool = pool\<rparr>, lw_pins = 0, lw_pending = 0,
      lw_observing = True, lw_puts = 0\<rparr>"

definition set_state :: "64 word \<Rightarrow> lease_world \<Rightarrow> lease_world" where
  "set_state s w = w\<lparr>lw_lease := (lw_lease w)\<lparr>ls_state := s\<rparr>\<rparr>"

abbreviation lw_state :: "lease_world \<Rightarrow> 64 word" where
  "lw_state w \<equiv> ls_state (lw_lease w)"

inductive lease_step :: "lease_world \<Rightarrow> lease_world \<Rightarrow> bool" where
  pinned: "pin (lw_state w) = Some s \<Longrightarrow> lw_pins w < 2 ^ 61 - 1 \<Longrightarrow>
    lease_step w ((set_state s w)\<lparr>lw_pins := Suc (lw_pins w)\<rparr>)"
| unpinned: "0 < lw_pins w \<Longrightarrow>
    lease_step w ((set_state (unpin_sub (lw_state w)) w)
      \<lparr>lw_pins := lw_pins w - 1, lw_pending := Suc (lw_pending w)\<rparr>)"
| closed: "lease_step w ((set_state (orBit stateClosed (lw_state w)) w)\<lparr>lw_pending := Suc (lw_pending w)\<rparr>)"
| consumer_done: "lw_observing w \<Longrightarrow>
    lease_step w ((set_state (orBit stateConsumerDone (lw_state w)) w)
      \<lparr>lw_observing := False, lw_pending := Suc (lw_pending w)\<rparr>)"
| release: "0 < lw_pending w \<Longrightarrow>
    lease_step w (w\<lparr>lw_lease := tryRelease (lw_lease w), lw_pending := lw_pending w - 1,
      lw_puts := lw_puts w + (if release_ready (lw_state w) then 1 else 0)\<rparr>)"

inductive lease_reachable :: "slab \<Rightarrow> slab list \<Rightarrow> lease_world \<Rightarrow> bool" for b pool where
  start: "lease_reachable b pool (initial_world b pool)"
| step: "lease_reachable b pool w \<Longrightarrow> lease_step w w' \<Longrightarrow> lease_reachable b pool w'"

definition lease_inv :: "slab \<Rightarrow> slab list \<Rightarrow> lease_world \<Rightarrow> bool" where
  "lease_inv b pool w \<longleftrightarrow>
     readers (lw_state w) = lw_pins w \<and> lw_pins w < 2 ^ 61 \<and>
     is_done (lw_state w) = (\<not> lw_observing w) \<and>
     (is_released (lw_state w) \<longrightarrow> is_closed (lw_state w) \<and> is_done (lw_state w) \<and> lw_pins w = 0) \<and>
     (is_closed (lw_state w) \<and> is_done (lw_state w) \<and> lw_pins w = 0 \<longrightarrow>
        is_released (lw_state w) \<or> 0 < lw_pending w) \<and>
     (if is_released (lw_state w)
      then ls_buf (lw_lease w) = None \<and> ls_pool (lw_lease w) = pool_put b pool \<and> lw_puts w = 1
      else ls_buf (lw_lease w) = Some b \<and> ls_pool (lw_lease w) = pool \<and> lw_puts w = 0)"

lemma set_state_simps [simp]:
  "lw_state (set_state s w) = s" "lw_pins (set_state s w) = lw_pins w"
  "lw_pending (set_state s w) = lw_pending w" "lw_observing (set_state s w) = lw_observing w"
  "lw_puts (set_state s w) = lw_puts w" "ls_buf (lw_lease (set_state s w)) = ls_buf (lw_lease w)"
  "ls_pool (lw_lease (set_state s w)) = ls_pool (lw_lease w)"
  by (simp_all add: set_state_def)

lemma lease_inv_initial: "lease_inv b pool (initial_world b pool)"
  by (simp add: lease_inv_def initial_world_def readers_def is_done_def is_released_def is_closed_def)

lemma lease_inv_step: "lease_step w w' \<Longrightarrow> lease_inv b pool w \<Longrightarrow> lease_inv b pool w'"
proof (induction rule: lease_step.induct)
  case (pinned w s)
  have "readers (lw_state w) < 2 ^ 61 - 1" using pinned(2,3) by (simp add: lease_inv_def)
  note f = pin_fields [OF pinned(1) this]
  show ?case using pinned(2,3) f by (simp add: lease_inv_def)
next
  case (unpinned w)
  have "0 < readers (lw_state w)" using unpinned by (simp add: lease_inv_def)
  note f = unpin_fields [OF this]
  show ?case using unpinned f by (auto simp: lease_inv_def)
next
  case (closed w)
  then show ?case using orBit_fields(1-4) [of "lw_state w"] by (auto simp: lease_inv_def)
next
  case (consumer_done w)
  then show ?case using orBit_fields(5-8) [of "lw_state w"] by (auto simp: lease_inv_def)
next
  case (release w)
  show ?case
  proof (cases "release_ready (lw_state w)")
    case True
    then have r: "\<not> is_released (lw_state w)" "is_closed (lw_state w)" "is_done (lw_state w)" "readers (lw_state w) = 0"
      by (simp_all add: release_ready_iff)
    then show ?thesis using release True release_fields [OF r(1)] by (simp add: lease_inv_def tryRelease_def)
  next
    case False
    then show ?thesis using release release_ready_iff [of "lw_state w"] by (auto simp: lease_inv_def tryRelease_def)
  qed
qed

lemma lease_inv_reachable: "lease_reachable b pool w \<Longrightarrow> lease_inv b pool w"
  by (induction rule: lease_reachable.induct) (auto intro: lease_inv_initial lease_inv_step)

section \<open>The ring as a queue of bytes\<close>

definition ring_inv :: "ring \<Rightarrow> bool" where
  "ring_inv r \<longleftrightarrow>
     0 < length (rg_buf r) \<and> length (rg_buf r) < 2 ^ 64 \<and>
     unat (rg_tail r) \<le> unat (rg_head r) \<and> unat (rg_head r) - unat (rg_tail r) \<le> length (rg_buf r)"

definition ring_contents :: "ring \<Rightarrow> char list" where
  "ring_contents r =
     map (\<lambda>i. rg_buf r ! (i mod length (rg_buf r))) [unat (rg_tail r)..<unat (rg_head r)]"

text \<open>The bytes the head position can still count before it wraps.\<close>

definition ring_budget :: "ring \<Rightarrow> nat" where
  "ring_budget r = 2 ^ 64 - 1 - unat (rg_head r)"

lemma length_copy_at: "off \<le> length b \<Longrightarrow> length (copy_at off p b) = length b"
  by (simp add: copy_at_def)

lemma nth_copy_at:
  assumes "off \<le> length b" "j < length b"
  shows "copy_at off p b ! j = (if off \<le> j \<and> j < off + length p then p ! (j - off) else b ! j)"
proof -
  consider "j < off" | "off \<le> j" "j < off + length p" | "off + length p \<le> j" by linarith
  then show ?thesis
  proof cases
    case 1
    then show ?thesis using assms by (simp add: copy_at_def nth_append)
  next
    case 2
    have "j - off < min (length b - off) (length p)" using 2 assms by auto
    then show ?thesis using 2 assms by (simp add: copy_at_def nth_append)
  next
    case 3
    then have "take (length b - off) p = p" using assms by simp
    moreover have "\<not> j < off" "\<not> j - off < length p" using 3 by auto
    ultimately show ?thesis using 3 assms by (simp add: copy_at_def nth_append)
  qed
qed

text \<open>The buffer after the one or two copies of a write, position by position.\<close>

definition wrap_copy :: "nat \<Rightarrow> char list \<Rightarrow> slab \<Rightarrow> slab" where
  "wrap_copy off p b =
     (let n = copied off p b; b1 = copy_at off p b
      in if n < length p then copy_at 0 (drop n p) b1 else b1)"

definition ring_dist :: "nat \<Rightarrow> nat \<Rightarrow> nat \<Rightarrow> nat" where
  "ring_dist sz off j = (j + (sz - off)) mod sz"

lemma nth_wrap_copy:
  assumes "off < length b" "j < length b" "length p \<le> length b"
  shows "wrap_copy off p b ! j =
    (if ring_dist (length b) off j < length p then p ! ring_dist (length b) off j else b ! j)"
proof (cases "off \<le> j")
  case True
  have d: "ring_dist (length b) off j = j - off"
  proof -
    have "j + (length b - off) = (j - off) + length b" using True assms(1) by simp
    then have "ring_dist (length b) off j = ((j - off) + length b) mod length b" by (simp only: ring_dist_def)
    then show ?thesis using assms(2) by (simp add: less_imp_diff_less)
  qed
  have second: "copy_at 0 (drop n p) b1 ! j = b1 ! j"
    if "n = copied off p b" "n < length p" "length b1 = length b" for n b1
  proof -
    have "length p - n \<le> j" using that assms True by (auto simp: copied_def)
    then show ?thesis using nth_copy_at [of 0 b1 j "drop n p"] assms(2) that(3) by simp
  qed
  have len: "length (copy_at off p b) = length b" using assms(1) by (simp add: length_copy_at)
  have "wrap_copy off p b ! j = copy_at off p b ! j"
    unfolding wrap_copy_def Let_def using second [OF refl _ len] by simp
  also have "\<dots> = (if j - off < length p then p ! (j - off) else b ! j)"
    using nth_copy_at [of off b j p] True assms(1,2) by auto
  finally show ?thesis unfolding d .
next
  case False
  have d: "ring_dist (length b) off j = j + (length b - off)" using False assms by (simp add: ring_dist_def)
  have first: "copy_at off p b ! j = b ! j" using nth_copy_at [of off b j p] False assms by simp
  show ?thesis
  proof (cases "copied off p b < length p")
    case True
    then have n: "copied off p b = length b - off" by (auto simp: copied_def)
    have w: "wrap_copy off p b = copy_at 0 (drop (length b - off) p) (copy_at off p b)"
      using True n by (simp add: wrap_copy_def)
    have len: "length (copy_at off p b) = length b" using assms(1) by (simp add: length_copy_at)
    have lt: "j < length (drop (length b - off) p) \<longleftrightarrow> j + (length b - off) < length p" by auto
    have "wrap_copy off p b ! j =
      (if j + (length b - off) < length p then drop (length b - off) p ! j else b ! j)"
      unfolding w using nth_copy_at [of 0 "copy_at off p b" j "drop (length b - off) p"] len assms(2) first lt
      by (simp del: length_drop)
    then show ?thesis unfolding d by (simp add: add.commute)
  next
    case False
    then have "length p \<le> length b - off" by (auto simp: copied_def)
    then show ?thesis using False first d by (simp add: wrap_copy_def)
  qed
qed

lemma length_wrap_copy: "off < length b \<Longrightarrow> length (wrap_copy off p b) = length b"
  by (simp add: wrap_copy_def Let_def length_copy_at)

lemma ring_dist_int: "off = h mod sz \<Longrightarrow> j = i mod sz \<Longrightarrow> 0 < sz \<Longrightarrow>
    int (ring_dist sz off j) = (int i - int h) mod int sz"
proof -
  assume a: "off = h mod sz" "j = i mod sz" "0 < sz"
  have "h mod sz \<le> sz" using a(3) by (simp add: less_imp_le)
  then have "int (sz - h mod sz) = int sz - int h mod int sz" by (simp add: of_nat_diff zmod_int)
  then have "int (ring_dist sz off j) = (int i mod int sz + (int sz - int h mod int sz)) mod int sz"
    unfolding ring_dist_def a(1,2) zmod_int of_nat_add by simp
  also have "\<dots> = (int i + (int sz - int h)) mod int sz"
    by (intro mod_add_cong mod_diff_cong) simp_all
  also have "int i + (int sz - int h) = (int i - int h) + int sz" by simp
  finally show ?thesis by simp
qed

lemma ring_dist_after: "0 < sz \<Longrightarrow> k < sz \<Longrightarrow> ring_dist sz (h mod sz) ((h + k) mod sz) = k"
  using ring_dist_int [of "h mod sz" h sz "(h + k) mod sz" "h + k"] by simp

lemma ring_dist_before:
  assumes "i < h" "h - i \<le> sz"
  shows "ring_dist sz (h mod sz) (i mod sz) = (if h - i = sz then 0 else sz - (h - i))"
proof -
  have s: "0 < sz" using assms by simp
  have "int (ring_dist sz (h mod sz) (i mod sz)) = (int i - int h) mod int sz"
    using ring_dist_int [OF refl refl s] .
  also have "int i - int h = int (sz - (h - i)) + (- 1) * int sz" using assms by (simp add: of_nat_diff)
  also have "\<dots> mod int sz = int (sz - (h - i)) mod int sz" by (rule mod_mult_self1)
  also have "\<dots> = int ((sz - (h - i)) mod sz)" by (rule zmod_int [symmetric])
  finally show ?thesis using assms s by auto
qed

lemma write_no_wrap:
  assumes "ring_inv r" "length p \<le> ring_budget r"
  shows "ring_write p r =
    (if length (rg_buf r) - (unat (rg_head r) - unat (rg_tail r)) < length p then None
     else Some (r\<lparr>rg_buf := wrap_copy (unat (rg_head r) mod length (rg_buf r)) p (rg_buf r),
                  rg_head := rg_head r + of_nat (length p)\<rparr>))"
    "unat (rg_head r + of_nat (length p)) = unat (rg_head r) + length p"
proof -
  let ?h = "rg_head r" and ?t = "rg_tail r" and ?n = "length (rg_buf r)"
  have i: "0 < ?n" "?n < 2 ^ 64" "unat ?t \<le> unat ?h" "unat ?h - unat ?t \<le> ?n"
    using assms(1) by (simp_all add: ring_inv_def)
  have p: "length p < 2 ^ 64" "unat ?h + length p < 2 ^ 64"
    using assms(2) unsigned_less [of ?h, where 'a = nat] by (simp_all add: ring_budget_def)
  have n: "unat (of_nat ?n :: 64 word) = ?n" "unat (of_nat (length p) :: 64 word) = length p"
    using i(2) p(1) by (simp_all only: unat_of_nat_64)
  have d: "unat (?h - ?t) = unat ?h - unat ?t" using i(3) by (simp add: unat_sub word_le_nat_alt)
  have fr: "unat (of_nat ?n - (?h - ?t)) = ?n - (unat ?h - unat ?t)"
    using i(4) d n(1) by (simp add: unat_sub word_le_nat_alt)
  have off: "unat (?h mod of_nat ?n) = unat ?h mod ?n" by (simp only: unat_mod n(1))
  show "unat (?h + of_nat (length p)) = unat ?h + length p"
    using p(2) by (simp only: unat_word_ariths n(2)) simp
  show "ring_write p r =
    (if length (rg_buf r) - (unat (rg_head r) - unat (rg_tail r)) < length p then None
     else Some (r\<lparr>rg_buf := wrap_copy (unat (rg_head r) mod length (rg_buf r)) p (rg_buf r),
                  rg_head := rg_head r + of_nat (length p)\<rparr>))"
    by (simp add: ring_write_def Let_def word_less_nat_alt fr n(2) off wrap_copy_def)
qed

lemma write_contents:
  assumes "ring_inv r" "length p \<le> ring_budget r"
  shows "ring_write p r = None \<longleftrightarrow> length (rg_buf r) < length (ring_contents r) + length p"
    "ring_write p r = Some r' \<Longrightarrow>
       ring_inv r' \<and> ring_contents r' = ring_contents r @ p \<and> length (rg_buf r') = length (rg_buf r) \<and>
       ring_budget r' = ring_budget r - length p"
proof -
  let ?H = "unat (rg_head r)" and ?T = "unat (rg_tail r)" and ?n = "length (rg_buf r)"
  have i: "0 < ?n" "?T \<le> ?H" "?H - ?T \<le> ?n" using assms(1) by (simp_all add: ring_inv_def)
  note w = write_no_wrap [OF assms]
  show "ring_write p r = None \<longleftrightarrow> ?n < length (ring_contents r) + length p"
    using w(1) i by (auto simp: ring_contents_def)
  assume s: "ring_write p r = Some r'"
  then have room: "length p \<le> ?n - (?H - ?T)" using w(1) by (auto split: if_splits)
  have r': "r' = r\<lparr>rg_buf := wrap_copy (?H mod ?n) p (rg_buf r), rg_head := rg_head r + of_nat (length p)\<rparr>"
    using s w(1) by (auto split: if_splits)
  have off: "?H mod ?n < ?n" using i(1) by simp
  have len: "length (rg_buf r') = ?n" unfolding r' using off by (simp add: length_wrap_copy)
  have H': "unat (rg_head r') = ?H + length p" "rg_tail r' = rg_tail r" unfolding r' using w(2) by simp_all
  have nth: "rg_buf r' ! (k mod ?n) =
      (if ring_dist ?n (?H mod ?n) (k mod ?n) < length p
       then p ! ring_dist ?n (?H mod ?n) (k mod ?n) else rg_buf r ! (k mod ?n))" for k
    unfolding r' using nth_wrap_copy [OF off, of "k mod ?n" p] i(1) room by simp
  have old: "rg_buf r' ! (k mod ?n) = rg_buf r ! (k mod ?n)" if "?T \<le> k" "k < ?H" for k
  proof -
    have "\<not> ring_dist ?n (?H mod ?n) (k mod ?n) < length p"
      using ring_dist_before [of k ?H ?n] that i room by auto
    then show ?thesis using nth by simp
  qed
  have new: "rg_buf r' ! ((?H + k) mod ?n) = p ! k" if "k < length p" for k
    using nth [of "?H + k"] ring_dist_after [of ?n k ?H] that i(1) room by simp
  have "[?T..<?H + length p] = [?T..<?H] @ [?H..<?H + length p]" using i(2) by (rule upt_add_eq_append)
  moreover have "map (\<lambda>k. rg_buf r' ! (k mod ?n)) [?T..<?H] = ring_contents r"
    unfolding ring_contents_def by (rule map_cong) (auto simp: old)
  moreover have "map (\<lambda>k. rg_buf r' ! (k mod ?n)) [?H..<?H + length p] = p"
    by (rule nth_equalityI) (simp_all add: new)
  ultimately have "ring_contents r' = ring_contents r @ p"
    unfolding ring_contents_def len H' by simp
  moreover have "ring_inv r'" using assms(1) room i unfolding ring_inv_def len H' by auto
  moreover have "ring_budget r' = ring_budget r - length p" unfolding ring_budget_def H'(1) by simp
  ultimately show "ring_inv r' \<and> ring_contents r' = ring_contents r @ p \<and> length (rg_buf r') = ?n \<and>
       ring_budget r' = ring_budget r - length p" using len by simp
qed

lemma drain_contents:
  assumes "ring_inv r" "ring_drain r = (cs, r')"
  shows "concat cs = ring_contents r" "ring_inv r'" "ring_contents r' = []"
    "length (rg_buf r') = length (rg_buf r)" "ring_budget r' = ring_budget r"
    "cs = [] \<longleftrightarrow> ring_contents r = []" "length cs \<le> 2"
proof -
  let ?h = "rg_head r" and ?t = "rg_tail r" and ?n = "length (rg_buf r)"
  let ?H = "unat ?h" and ?T = "unat ?t"
  have i: "0 < ?n" "?n < 2 ^ 64" "?T \<le> ?H" "?H - ?T \<le> ?n" using assms(1) by (simp_all add: ring_inv_def)
  have "concat cs = ring_contents r \<and> ring_inv r' \<and> ring_contents r' = [] \<and> length (rg_buf r') = ?n \<and>
      ring_budget r' = ring_budget r \<and> (cs = [] \<longleftrightarrow> ring_contents r = []) \<and> length cs \<le> 2"
  proof (cases "?h = ?t")
    case True
    then show ?thesis using assms by (auto simp: ring_drain_def ring_contents_def Let_def)
  next
    case False
    then have lt: "?T < ?H" using i(3) by (metis le_neq_implies_less word_unat_eq_iff)
    have n: "unat (of_nat ?n :: 64 word) = ?n" using i(2) by (rule unat_of_nat_64)
    have d: "unat (?h - ?t) = ?H - ?T" using i(3) by (simp add: unat_sub word_le_nat_alt)
    have off: "unat (?t mod of_nat ?n) = ?T mod ?n" by (simp only: unat_mod n)
    have "?T mod ?n \<le> ?n" using i(1) by (simp add: less_imp_le)
    then have room: "unat (of_nat ?n - ?t mod of_nat ?n) = ?n - ?T mod ?n"
      using off n by (simp add: unat_sub word_le_nat_alt)
    define f where "f = min (?H - ?T) (?n - ?T mod ?n)"
    have first: "unat (min (?h - ?t) (of_nat ?n - ?t mod of_nat ?n)) = f"
      by (simp add: f_def min_def word_le_nat_alt d room)
    let ?m = "min (?h - ?t) (of_nat ?n - ?t mod of_nat ?n)"
    have rest: "unat (?h - ?t - ?m) = ?H - ?T - f"
      using first d by (simp add: unat_sub word_le_nat_alt f_def)
    have more: "?m < ?h - ?t \<longleftrightarrow> f < ?H - ?T" by (simp add: word_less_nat_alt first d)
    let ?c1 = "take f (drop (?T mod ?n) (rg_buf r))" and ?c2 = "take (?H - ?T - f) (rg_buf r)"
    have r: "r' = r\<lparr>rg_tail := ?h\<rparr>" "cs = (if f < ?H - ?T then [?c1, ?c2] else [?c1])"
      using assms(2) False by (auto simp: ring_drain_def Let_def off first rest more)
    have cat: "concat cs = ?c1 @ ?c2" using r(2) by (auto simp: f_def)
    have l1: "length ?c1 = f" by (simp add: f_def)
    have l2: "length ?c2 = ?H - ?T - f" using i(4) by simp
    have "?c1 @ ?c2 = ring_contents r"
    proof (rule nth_equalityI)
      show "length (?c1 @ ?c2) = length (ring_contents r)"
        unfolding length_append l1 l2 by (simp add: ring_contents_def f_def)
      fix k assume "k < length (?c1 @ ?c2)"
      then have k: "k < ?H - ?T" unfolding length_append l1 l2 by (simp add: f_def)
      have rhs: "ring_contents r ! k = rg_buf r ! ((?T + k) mod ?n)" using k by (simp add: ring_contents_def)
      show "(?c1 @ ?c2) ! k = ring_contents r ! k"
      proof (cases "k < f")
        case True
        then have "k < ?n - ?T mod ?n" by (simp add: f_def)
        then have "?T mod ?n + k < ?n" by linarith
        then have "(?T + k) mod ?n = ?T mod ?n + k" by (metis mod_add_left_eq mod_less)
        then show ?thesis using True l1 i(1) by (simp add: nth_append rhs f_def)
      next
        case False
        then have f: "f = ?n - ?T mod ?n" using k by (simp add: f_def)
        have "?T mod ?n + k = (k - f) + ?n" using False f i(1) by (simp add: less_imp_le)
        moreover have "k - f < ?n" using k i(4) by linarith
        ultimately have "(?T mod ?n + k) mod ?n = k - f" by simp
        then have "(?T + k) mod ?n = k - f" by (simp add: mod_add_left_eq)
        then show ?thesis unfolding rhs nth_append l1 using False k by simp
      qed
    qed
    moreover have "ring_inv r'" "ring_contents r' = []" unfolding r(1) ring_inv_def ring_contents_def using i by simp_all
    moreover have "ring_contents r \<noteq> []" using lt by (simp add: ring_contents_def)
    ultimately show ?thesis using cat r by (simp add: ring_budget_def)
  qed
  then show "concat cs = ring_contents r" "ring_inv r'" "ring_contents r' = []"
    "length (rg_buf r') = length (rg_buf r)" "ring_budget r' = ring_budget r"
    "cs = [] \<longleftrightarrow> ring_contents r = []" "length cs \<le> 2" by simp_all
qed

section \<open>A bounded byte queue\<close>

text \<open>
  What the tap and the observer rely on: a write is refused exactly when it does not fit, an accepted
  write appends, and a drain yields everything in order.  \<open>budget\<close> bounds the bytes a queue can still
  take in its life, since the ring counts positions in 64 bits.
\<close>

locale byte_queue =
  fixes enq :: "char list \<Rightarrow> 'q \<Rightarrow> 'q option"
    and deq :: "'q \<Rightarrow> char list list \<times> 'q"
    and contents :: "'q \<Rightarrow> char list"
    and cap :: "'q \<Rightarrow> nat"
    and budget :: "'q \<Rightarrow> nat"
    and inv :: "'q \<Rightarrow> bool"
  assumes enq_refused: "inv q \<Longrightarrow> length p \<le> budget q \<Longrightarrow>
      enq p q = None \<longleftrightarrow> cap q < length (contents q) + length p"
    and enq_accepted: "inv q \<Longrightarrow> length p \<le> budget q \<Longrightarrow> enq p q = Some q' \<Longrightarrow>
      inv q' \<and> contents q' = contents q @ p \<and> cap q' = cap q \<and> budget q' = budget q - length p"
    and deq_all: "inv q \<Longrightarrow> deq q = (cs, q') \<Longrightarrow>
      concat cs = contents q \<and> inv q' \<and> contents q' = [] \<and> cap q' = cap q \<and> budget q' = budget q"

datatype queue_op = QWrite string | QDrain

fun op_bytes :: "queue_op \<Rightarrow> string" where
  "op_bytes (QWrite p) = p"
| "op_bytes QDrain = []"

fun queue_run ::
  "(char list \<Rightarrow> 'q \<Rightarrow> 'q option) \<Rightarrow> ('q \<Rightarrow> char list list \<times> 'q) \<Rightarrow>
   queue_op list \<Rightarrow> 'q \<Rightarrow> char list \<Rightarrow> ('q \<times> char list) option" where
  "queue_run enq deq [] q out = Some (q, out)"
| "queue_run enq deq (QWrite p # ops) q out =
     (case enq p q of None \<Rightarrow> None | Some q' \<Rightarrow> queue_run enq deq ops q' out)"
| "queue_run enq deq (QDrain # ops) q out =
     (case deq q of (cs, q') \<Rightarrow> queue_run enq deq ops q' (out @ concat cs))"

context byte_queue
begin

lemma run_fifo:
  assumes "inv q" "(\<Sum>x\<leftarrow>ops. length (op_bytes x)) \<le> budget q"
    "queue_run enq deq ops q out = Some (q', out')"
  shows "inv q' \<and> out' @ contents q' = out @ contents q @ concat (map op_bytes ops)"
  using assms
proof (induction ops arbitrary: q out)
  case Nil
  then show ?case by simp
next
  case (Cons x ops)
  show ?case
  proof (cases x)
    case (QWrite p)
    then obtain q1 where q1: "enq p q = Some q1" "queue_run enq deq ops q1 out = Some (q', out')"
      using Cons.prems(3) by (auto split: option.splits)
    have "length p \<le> budget q" using Cons.prems(2) QWrite by simp
    note a = enq_accepted [OF Cons.prems(1) this q1(1)]
    have "(\<Sum>x\<leftarrow>ops. length (op_bytes x)) \<le> budget q1"
      using a Cons.prems(2) QWrite by simp
    then show ?thesis using Cons.IH [of q1 out] a q1(2) QWrite by simp
  next
    case QDrain
    obtain cs q1 where q1: "deq q = (cs, q1)" by (cases "deq q")
    note d = deq_all [OF Cons.prems(1) q1]
    then show ?thesis using Cons.IH [of q1 "out @ concat cs"] Cons.prems q1 QDrain
      by simp
  qed
qed

end

interpretation ring_queue: byte_queue ring_write ring_drain ring_contents "\<lambda>r. length (rg_buf r)" ring_budget ring_inv
proof
  fix r p r' cs
  assume r: "ring_inv r"
  show "length p \<le> ring_budget r \<Longrightarrow>
      ring_write p r = None \<longleftrightarrow> length (rg_buf r) < length (ring_contents r) + length p"
    using write_contents(1) [OF r] .
  show "length p \<le> ring_budget r \<Longrightarrow> ring_write p r = Some r' \<Longrightarrow>
      ring_inv r' \<and> ring_contents r' = ring_contents r @ p \<and> length (rg_buf r') = length (rg_buf r) \<and>
      ring_budget r' = ring_budget r - length p"
    using write_contents(2) [OF r] .
  show "ring_drain r = (cs, r') \<Longrightarrow>
      concat cs = ring_contents r \<and> ring_inv r' \<and> ring_contents r' = [] \<and>
      length (rg_buf r') = length (rg_buf r) \<and> ring_budget r' = ring_budget r"
    using drain_contents [OF r] by simp
qed

lemma new_ring_props:
  assumes "0 < length b" "length b < 2 ^ 64"
  shows "ring_inv (new_ring b)" "ring_contents (new_ring b) = []" "ring_budget (new_ring b) = 2 ^ 64 - 1"
  using assms by (simp_all add: ring_inv_def new_ring_def ring_contents_def ring_budget_def)

end
