(* ===== verification/RingConc.thy ===== *)
theory RingConc
  imports Ring "HOL-Library.Sublist"
begin

text \<open>
  The ring under concurrency.  The tap's \<^verbatim>\<open>write\<close> and the observer's \<^verbatim>\<open>drainInto\<close> of
  \<^verbatim>\<open>pkg/observe/ring.go\<close> run at the same time without a lock; here each of their steps is one transition:
  the loads of the two positions, the copy of each single byte, and the store that publishes.  The
  two sides interleave in any order.
\<close>

datatype prod_pc = ProdIdle | ProdCopy string nat
datatype cons_pc = ConsIdle | ConsScan "64 word" nat

record spsc =
  sp_ring :: ring
  sp_prod :: prod_pc
  sp_cons :: cons_pc
  sp_sent :: string
  sp_seen :: string
  sp_overrun :: bool

abbreviation sp_size :: "spsc \<Rightarrow> nat" where
  "sp_size s \<equiv> length (rg_buf (sp_ring s))"

abbreviation sp_head :: "spsc \<Rightarrow> 64 word" where
  "sp_head s \<equiv> rg_head (sp_ring s)"

abbreviation sp_tail :: "spsc \<Rightarrow> 64 word" where
  "sp_tail s \<equiv> rg_tail (sp_ring s)"

definition free_space :: "spsc \<Rightarrow> 64 word" where
  "free_space s = of_nat (sp_size s) - (sp_head s - sp_tail s)"

definition put_byte :: "nat \<Rightarrow> char \<Rightarrow> spsc \<Rightarrow> spsc" where
  "put_byte i c s = s\<lparr>sp_ring := (sp_ring s)\<lparr>rg_buf := (rg_buf (sp_ring s))[i := c]\<rparr>\<rparr>"

text \<open>
  The guard \<open>unat head + length p < 2 ^ 64\<close> is the bound under which positions do not wrap: sixteen
  exbibytes through one response body.
\<close>

inductive spsc_step :: "spsc \<Rightarrow> spsc \<Rightarrow> bool" where
  write_load: "sp_prod s = ProdIdle \<Longrightarrow> unat (sp_head s) + length p < 2 ^ 64 \<Longrightarrow>
    \<not> free_space s < of_nat (length p) \<Longrightarrow> spsc_step s (s\<lparr>sp_prod := ProdCopy p 0\<rparr>)"
| write_refused: "sp_prod s = ProdIdle \<Longrightarrow> unat (sp_head s) + length (p :: string) < 2 ^ 64 \<Longrightarrow>
    free_space s < of_nat (length p) \<Longrightarrow> spsc_step s (s\<lparr>sp_overrun := True\<rparr>)"
| write_byte: "sp_prod s = ProdCopy p k \<Longrightarrow> k < length p \<Longrightarrow>
    spsc_step s ((put_byte ((unat (sp_head s) + k) mod sp_size s) (p ! k) s)\<lparr>sp_prod := ProdCopy p (Suc k)\<rparr>)"
| write_publish: "sp_prod s = ProdCopy p (length p) \<Longrightarrow>
    spsc_step s (s\<lparr>sp_ring := (sp_ring s)\<lparr>rg_head := sp_head s + of_nat (length p)\<rparr>,
      sp_prod := ProdIdle, sp_sent := sp_sent s @ p\<rparr>)"
| drain_load: "sp_cons s = ConsIdle \<Longrightarrow> sp_head s \<noteq> sp_tail s \<Longrightarrow>
    spsc_step s (s\<lparr>sp_cons := ConsScan (sp_head s) 0\<rparr>)"
| drain_byte: "sp_cons s = ConsScan h k \<Longrightarrow> k < unat (h - sp_tail s) \<Longrightarrow>
    spsc_step s (s\<lparr>sp_cons := ConsScan h (Suc k),
      sp_seen := sp_seen s @ [rg_buf (sp_ring s) ! ((unat (sp_tail s) + k) mod sp_size s)]\<rparr>)"
| drain_publish: "sp_cons s = ConsScan h (unat (h - sp_tail s)) \<Longrightarrow>
    spsc_step s (s\<lparr>sp_ring := (sp_ring s)\<lparr>rg_tail := h\<rparr>, sp_cons := ConsIdle\<rparr>)"

definition spsc_start :: "slab \<Rightarrow> spsc" where
  "spsc_start b =
     \<lparr>sp_ring = new_ring b, sp_prod = ProdIdle, sp_cons = ConsIdle, sp_sent = [], sp_seen = [],
      sp_overrun = False\<rparr>"

inductive spsc_reachable :: "slab \<Rightarrow> spsc \<Rightarrow> bool" for b where
  start: "spsc_reachable b (spsc_start b)"
| step: "spsc_reachable b s \<Longrightarrow> spsc_step s s' \<Longrightarrow> spsc_reachable b s'"

section \<open>The invariant\<close>

definition window_ok :: "spsc \<Rightarrow> bool" where
  "window_ok s \<longleftrightarrow>
     0 < sp_size s \<and> sp_size s < 2 ^ 64 \<and> unat (sp_head s) = length (sp_sent s) \<and>
     unat (sp_tail s) \<le> unat (sp_head s) \<and> unat (sp_head s) \<le> unat (sp_tail s) + sp_size s \<and>
     (\<forall>i. unat (sp_tail s) \<le> i \<and> i < unat (sp_head s) \<longrightarrow>
        rg_buf (sp_ring s) ! (i mod sp_size s) = sp_sent s ! i)"

definition prod_ok :: "spsc \<Rightarrow> bool" where
  "prod_ok s \<longleftrightarrow>
     (case sp_prod s of
        ProdIdle \<Rightarrow> True
      | ProdCopy p k \<Rightarrow>
          k \<le> length p \<and> unat (sp_head s) + length p < 2 ^ 64 \<and>
          unat (sp_head s) + length p \<le> unat (sp_tail s) + sp_size s \<and>
          (\<forall>j<k. rg_buf (sp_ring s) ! ((unat (sp_head s) + j) mod sp_size s) = p ! j))"

definition cons_ok :: "spsc \<Rightarrow> bool" where
  "cons_ok s \<longleftrightarrow>
     (case sp_cons s of
        ConsIdle \<Rightarrow> sp_seen s = take (unat (sp_tail s)) (sp_sent s)
      | ConsScan h k \<Rightarrow>
          unat (sp_tail s) \<le> unat h \<and> unat h \<le> unat (sp_head s) \<and> unat (sp_tail s) + k \<le> unat h \<and>
          sp_seen s = take (unat (sp_tail s) + k) (sp_sent s))"

definition spsc_inv :: "spsc \<Rightarrow> bool" where
  "spsc_inv s \<longleftrightarrow> window_ok s \<and> prod_ok s \<and> cons_ok s"

lemma mod_apart: "i < x \<Longrightarrow> x < i + n \<Longrightarrow> i mod n \<noteq> x mod (n :: nat)"
proof
  assume a: "i < x" "x < i + n" "i mod n = x mod n"
  then have "n dvd x - i" by (metis mod_eq_dvd_iff_nat less_imp_le)
  moreover have "0 < x - i" "x - i < n" using a by auto
  ultimately show False by (simp add: nat_dvd_not_less)
qed

lemma free_space_nat:
  assumes "window_ok s"
  shows "unat (free_space s) = sp_size s - (unat (sp_head s) - unat (sp_tail s))"
proof -
  have n: "unat (of_nat (sp_size s) :: 64 word) = sp_size s"
    using assms by (intro unat_of_nat_64) (simp add: window_ok_def)
  have d: "unat (sp_head s - sp_tail s) = unat (sp_head s) - unat (sp_tail s)"
    using assms by (simp add: window_ok_def unat_sub word_le_nat_alt)
  have "unat (sp_head s) - unat (sp_tail s) \<le> sp_size s" using assms unfolding window_ok_def by linarith
  then have "sp_head s - sp_tail s \<le> of_nat (sp_size s)" unfolding word_le_nat_alt d n .
  then show ?thesis unfolding free_space_def by (simp only: unat_sub d n)
qed

lemma spsc_inv_start: "0 < length b \<Longrightarrow> length b < 2 ^ 64 \<Longrightarrow> spsc_inv (spsc_start b)"
  by (simp add: spsc_inv_def window_ok_def prod_ok_def cons_ok_def spsc_start_def new_ring_def)

lemma spsc_inv_step: "spsc_step s s' \<Longrightarrow> spsc_inv s \<Longrightarrow> spsc_inv s'"
proof (induction rule: spsc_step.induct)
  case (write_load s p)
  then have w: "window_ok s" by (simp add: spsc_inv_def)
  have "length p \<le> sp_size s - (unat (sp_head s) - unat (sp_tail s))"
    using write_load(2,3) free_space_nat [OF w] by (simp add: word_less_nat_alt unat_of_nat_64)
  then show ?case using write_load w
    by (auto simp: spsc_inv_def window_ok_def prod_ok_def cons_ok_def split: cons_pc.splits)
next
  case (write_refused s p)
  then show ?case by (auto simp: spsc_inv_def window_ok_def prod_ok_def cons_ok_def split: cons_pc.splits)
next
  case (write_byte s p k)
  let ?n = "sp_size s" and ?H = "unat (sp_head s)" and ?T = "unat (sp_tail s)"
  have w: "window_ok s" "prod_ok s" "cons_ok s" using write_byte by (simp_all add: spsc_inv_def)
  have p: "?H + length p \<le> ?T + ?n" "0 < ?n" using w write_byte by (simp_all add: prod_ok_def window_ok_def)
  let ?s' = "(put_byte ((?H + k) mod ?n) (p ! k) s)\<lparr>sp_prod := ProdCopy p (Suc k)\<rparr>"
  let ?B = "rg_buf (sp_ring ?s')"
  have fr: "sp_head ?s' = sp_head s" "sp_tail ?s' = sp_tail s" "sp_size ?s' = ?n" "sp_sent ?s' = sp_sent s"
    "sp_seen ?s' = sp_seen s" "sp_cons ?s' = sp_cons s" "sp_prod ?s' = ProdCopy p (Suc k)"
    by (simp_all add: put_byte_def)
  have old: "?B ! (i mod ?n) = rg_buf (sp_ring s) ! (i mod ?n)" if "?T \<le> i" "i < ?H + k" for i
  proof -
    have "i mod ?n \<noteq> (?H + k) mod ?n" using that p(1) write_byte(2) by (intro mod_apart) auto
    then show ?thesis by (simp add: put_byte_def)
  qed
  have new: "?B ! ((?H + k) mod ?n) = p ! k" using p(2) by (simp add: put_byte_def)
  have T: "?T \<le> ?H" using w(1) by (simp add: window_ok_def)
  have "window_ok ?s'" using w(1) old unfolding window_ok_def fr by auto
  moreover have "?B ! ((?H + j) mod ?n) = p ! j" if "j < Suc k" for j
  proof (cases "j = k")
    case False
    then have j: "j < k" using that by simp
    then have "?B ! ((?H + j) mod ?n) = rg_buf (sp_ring s) ! ((?H + j) mod ?n)" using T by (intro old) auto
    then show ?thesis using w(2) write_byte(1) j by (simp add: prod_ok_def)
  qed (use new in simp)
  then have "prod_ok ?s'" using w(2) write_byte(1,2) unfolding prod_ok_def fr by simp
  moreover have "cons_ok ?s'" using w(3) unfolding cons_ok_def fr .
  ultimately show ?case by (simp add: spsc_inv_def)
next
  case (write_publish s p)
  let ?n = "sp_size s" and ?H = "unat (sp_head s)" and ?T = "unat (sp_tail s)"
  have w: "window_ok s" "prod_ok s" "cons_ok s" using write_publish by (simp_all add: spsc_inv_def)
  have p: "?H + length p \<le> ?T + ?n" "?H + length p < 2 ^ 64"
    "\<And>j. j < length p \<Longrightarrow> rg_buf (sp_ring s) ! ((?H + j) mod ?n) = p ! j"
    using w(2) write_publish(1) by (simp_all add: prod_ok_def)
  have u: "unat (sp_head s + of_nat (length p)) = ?H + length p"
    using p(2) unat_of_nat_64 [of "length p"] by (simp add: unat_word_ariths)
  have H: "?H = length (sp_sent s)" using w(1) by (simp add: window_ok_def)
  have new: "rg_buf (sp_ring s) ! (i mod ?n) = (sp_sent s @ p) ! i" if "?T \<le> i" "i < ?H + length p" for i
  proof (cases "i < ?H")
    case True
    then show ?thesis using w(1) that by (simp add: window_ok_def nth_append)
  next
    case False
    then show ?thesis using p(3) [of "i - ?H"] that H by (simp add: nth_append)
  qed
  show ?case
    using w(1,3) p(1,2) u new H
    by (auto simp: spsc_inv_def window_ok_def prod_ok_def cons_ok_def split: cons_pc.splits)
next
  case (drain_load s)
  then show ?case by (auto simp: spsc_inv_def window_ok_def prod_ok_def cons_ok_def split: prod_pc.splits)
next
  case (drain_byte s h k)
  let ?n = "sp_size s" and ?H = "unat (sp_head s)" and ?T = "unat (sp_tail s)"
  have w: "window_ok s" "prod_ok s" "cons_ok s" using drain_byte by (simp_all add: spsc_inv_def)
  have c: "?T \<le> unat h" "unat h \<le> ?H" "sp_seen s = take (?T + k) (sp_sent s)"
    using w(3) drain_byte(1) by (simp_all add: cons_ok_def)
  have k: "?T + k < unat h" using drain_byte(2) c(1) by (simp add: unat_sub word_le_nat_alt)
  have "rg_buf (sp_ring s) ! ((?T + k) mod ?n) = sp_sent s ! (?T + k)"
    using w(1) k c(2) by (simp add: window_ok_def)
  moreover have "?T + k < length (sp_sent s)" using w(1) k c(2) by (simp add: window_ok_def)
  ultimately have "sp_seen s @ [rg_buf (sp_ring s) ! ((?T + k) mod ?n)] = take (Suc (?T + k)) (sp_sent s)"
    by (simp add: c(3) take_Suc_conv_app_nth)
  then show ?case using w(1,2) c k
    by (simp add: spsc_inv_def window_ok_def prod_ok_def cons_ok_def split: prod_pc.splits)
next
  case (drain_publish s h)
  let ?H = "unat (sp_head s)" and ?T = "unat (sp_tail s)"
  have w: "window_ok s" "prod_ok s" "cons_ok s" using drain_publish by (simp_all add: spsc_inv_def)
  have c: "?T \<le> unat h" "unat h \<le> ?H" "sp_seen s = take (?T + unat (h - sp_tail s)) (sp_sent s)"
    using w(3) drain_publish(1) by (simp_all add: cons_ok_def)
  have "unat (h - sp_tail s) = unat h - ?T" using c(1) by (simp add: unat_sub word_le_nat_alt)
  with c have "sp_seen s = take (unat h) (sp_sent s)" by simp
  then show ?case using w(1,2) c(1,2)
    by (auto simp: spsc_inv_def window_ok_def prod_ok_def cons_ok_def split: prod_pc.splits)
qed

lemma spsc_inv_reachable:
  "spsc_reachable b s \<Longrightarrow> 0 < length b \<Longrightarrow> length b < 2 ^ 64 \<Longrightarrow> spsc_inv s"
  by (induction rule: spsc_reachable.induct) (auto intro: spsc_inv_start spsc_inv_step)

lemma spsc_seen_prefix: "spsc_inv s \<Longrightarrow> prefix (sp_seen s) (sp_sent s)"
  by (auto simp: spsc_inv_def cons_ok_def take_is_prefix split: cons_pc.splits)

section \<open>Properties\<close>

text \<open>
  C10.  Whatever the interleaving of the tap's writes and the observer's drains, byte by byte, the
  bytes handed to the parser are a prefix of the bytes accepted from the response, in order, with
  nothing torn, repeated or overwritten; and when the observer has caught up it has seen all of them.
\<close>

theorem ring_concurrent_fifo:
  assumes "spsc_reachable b s" "0 < length b" "length b < 2 ^ 64"
  shows "prefix (sp_seen s) (sp_sent s) \<and>
    (sp_cons s = ConsIdle \<and> sp_head s = sp_tail s \<longrightarrow> sp_seen s = sp_sent s)"
proof -
  have i: "spsc_inv s" using spsc_inv_reachable [OF assms] .
  then have "sp_cons s = ConsIdle \<and> sp_head s = sp_tail s \<longrightarrow> sp_seen s = sp_sent s"
    by (auto simp: spsc_inv_def window_ok_def cons_ok_def)
  with spsc_seen_prefix [OF i] show ?thesis by blast
qed

text \<open>A run of the ring: two bytes are written while the drain of the first is still to come.\<close>

definition spsc_sample :: "string \<Rightarrow> string \<Rightarrow> prod_pc \<Rightarrow> cons_pc \<Rightarrow> slab \<Rightarrow> 64 word \<Rightarrow> 64 word \<Rightarrow> spsc" where
  "spsc_sample sent seen pp cp b h t =
     \<lparr>sp_ring = \<lparr>rg_buf = b, rg_head = h, rg_tail = t\<rparr>, sp_prod = pp, sp_cons = cp,
      sp_sent = sent, sp_seen = seen, sp_overrun = False\<rparr>"

lemma spsc_sample_run: "spsc_reachable ''ab'' (spsc_sample ''xy'' ''xy'' ProdIdle ConsIdle ''xy'' 2 2)"
proof -
  let ?R = "spsc_reachable ''ab''"
  note d = spsc_sample_def spsc_start_def new_ring_def free_space_def put_byte_def
  have two: "Suc (Suc 0) = 2" by simp
  have "?R (spsc_sample [] [] ProdIdle ConsIdle ''ab'' 0 0)"
    using spsc_reachable.start [of "''ab''"] by (simp add: d)
  then have "?R (spsc_sample [] [] (ProdCopy ''xy'' 0) ConsIdle ''ab'' 0 0)"
    by (rule spsc_reachable.step)
      (use spsc_step.write_load [of "spsc_sample [] [] ProdIdle ConsIdle ''ab'' 0 0" "''xy''"] in \<open>simp add: d\<close>)
  then have "?R (spsc_sample [] [] (ProdCopy ''xy'' 1) ConsIdle ''xb'' 0 0)"
    by (rule spsc_reachable.step)
      (use spsc_step.write_byte [of "spsc_sample [] [] (ProdCopy ''xy'' 0) ConsIdle ''ab'' 0 0" "''xy''" 0] in \<open>simp add: d\<close>)
  then have "?R (spsc_sample [] [] (ProdCopy ''xy'' 2) ConsIdle ''xy'' 0 0)"
    by (rule spsc_reachable.step)
      (use spsc_step.write_byte [of "spsc_sample [] [] (ProdCopy ''xy'' 1) ConsIdle ''xb'' 0 0" "''xy''" 1]
        in \<open>simp add: d numeral_2_eq_2\<close>)
  then have "?R (spsc_sample ''xy'' [] ProdIdle ConsIdle ''xy'' 2 0)"
    by (rule spsc_reachable.step)
      (use spsc_step.write_publish [of "spsc_sample [] [] (ProdCopy ''xy'' 2) ConsIdle ''xy'' 0 0" "''xy''"]
        in \<open>simp add: d numeral_2_eq_2\<close>)
  then have "?R (spsc_sample ''xy'' [] ProdIdle (ConsScan 2 0) ''xy'' 2 0)"
    by (rule spsc_reachable.step)
      (use spsc_step.drain_load [of "spsc_sample ''xy'' [] ProdIdle ConsIdle ''xy'' 2 0"] in \<open>simp add: d\<close>)
  then have "?R (spsc_sample ''xy'' ''x'' ProdIdle (ConsScan 2 1) ''xy'' 2 0)"
    by (rule spsc_reachable.step)
      (use spsc_step.drain_byte [of "spsc_sample ''xy'' [] ProdIdle (ConsScan 2 0) ''xy'' 2 0" 2 0] in \<open>simp add: d\<close>)
  then have "?R (spsc_sample ''xy'' ''xy'' ProdIdle (ConsScan 2 2) ''xy'' 2 0)"
    by (rule spsc_reachable.step)
      (use spsc_step.drain_byte [of "spsc_sample ''xy'' ''x'' ProdIdle (ConsScan 2 1) ''xy'' 2 0" 2 1]
        in \<open>simp add: d two\<close>)
  then show ?thesis
    by (rule spsc_reachable.step)
      (use spsc_step.drain_publish [of "spsc_sample ''xy'' ''xy'' ProdIdle (ConsScan 2 2) ''xy'' 2 0" 2]
        in \<open>simp add: d\<close>)
qed

lemma ring_concurrent_fifo_witness:
  "prefix (sp_seen (spsc_sample ''xy'' ''xy'' ProdIdle ConsIdle ''xy'' 2 2))
     (sp_sent (spsc_sample ''xy'' ''xy'' ProdIdle ConsIdle ''xy'' 2 2)) \<and>
   sp_seen (spsc_sample ''xy'' ''xy'' ProdIdle ConsIdle ''xy'' 2 2) =
     sp_sent (spsc_sample ''xy'' ''xy'' ProdIdle ConsIdle ''xy'' 2 2)"
  using ring_concurrent_fifo [OF spsc_sample_run] by (simp add: spsc_sample_def)



text \<open>
  C12.  At any point of any interleaving of reads, closes, the observer's end and release attempts:
  the slab goes back to the pool at most once; it is still leased while a read holds a pin or the
  observer has not finished; and once the body is closed, the observer is done, no pin is left and no
  release attempt is outstanding, it has gone back (zeroed, so no other observation reads it).
\<close>

theorem slab_released_exactly_once:
  assumes "lease_reachable b pool w"
  shows "lw_puts w \<le> 1 \<and>
    (0 < lw_pins w \<or> lw_observing w \<longrightarrow> ls_buf (lw_lease w) = Some b \<and> ls_pool (lw_lease w) = pool) \<and>
    (is_closed (lw_state w) \<and> \<not> lw_observing w \<and> lw_pins w = 0 \<and> lw_pending w = 0 \<longrightarrow>
      lw_puts w = 1 \<and> ls_pool (lw_lease w) = pool @ [zero_slab (length b)])"
  using lease_inv_reachable [OF assms] unfolding lease_inv_def pool_put_def by (auto split: if_splits)

lemma slab_released_witness:
  "\<exists>w. lease_reachable ''ab'' [] w \<and> is_closed (lw_state w) \<and> \<not> lw_observing w \<and> lw_pins w = 0 \<and>
     lw_pending w = 0 \<and> lw_puts w = 1 \<and> ls_pool (lw_lease w) = [] @ [zero_slab (length ''ab'')]"
proof -
  let ?w0 = "initial_world ''ab'' []"
  let ?w1 = "(set_state (orBit stateClosed (lw_state ?w0)) ?w0)\<lparr>lw_pending := Suc (lw_pending ?w0)\<rparr>"
  let ?w2 = "(set_state (orBit stateConsumerDone (lw_state ?w1)) ?w1)
      \<lparr>lw_observing := False, lw_pending := Suc (lw_pending ?w1)\<rparr>"
  let ?rel = "\<lambda>w. w\<lparr>lw_lease := tryRelease (lw_lease w), lw_pending := lw_pending w - 1,
      lw_puts := lw_puts w + (if release_ready (lw_state w) then 1 else 0)\<rparr>"
  let ?w4 = "?rel (?rel ?w2)"
  have r1: "lease_reachable ''ab'' [] ?w1" by (rule lease_reachable.step [OF lease_reachable.start closed])
  have r2: "lease_reachable ''ab'' [] ?w2"
    by (rule lease_reachable.step [OF r1 consumer_done]) (simp add: initial_world_def set_state_def)
  have r3: "lease_reachable ''ab'' [] (?rel ?w2)"
    by (rule lease_reachable.step [OF r2 release]) (simp add: initial_world_def set_state_def)
  have r4: "lease_reachable ''ab'' [] ?w4"
    by (rule lease_reachable.step [OF r3 release]) (simp add: initial_world_def set_state_def)
  have c: "is_closed (lw_state ?w4)" "\<not> lw_observing ?w4" "lw_pins ?w4 = 0" "lw_pending ?w4 = 0"
    by code_simp+
  show ?thesis using r4 c slab_released_exactly_once [OF r4] by blast
qed

end
