(* ===== verification/Observer.thy ===== *)
theory Observer
  imports Sse Ring
begin

text \<open>
  The installer and the observer loop of \<^verbatim>\<open>pkg/observe/observer.go\<close> and the tap of
  \<^verbatim>\<open>pkg/observe/tap.go\<close>.  The interface \<^verbatim>\<open>bodyParser\<close> is the locale \<open>body_parser\<close>; its three
  implementations are interpretations of it, and so is the sum type the installer chooses from.
  The observer is driven by the events it can meet in one turn of its loop.
\<close>

section \<open>The parser interface\<close>

locale body_parser =
  fixes consume :: "string \<Rightarrow> 'p \<Rightarrow> 'p"
    and abort_reason :: "'p \<Rightarrow> abandon_reason option"
    and terminated :: "'p \<Rightarrow> bool"
    and good :: "'p \<Rightarrow> bool"
  assumes good_consume: "good p \<Longrightarrow> good (consume b p)"
    and consume_append: "consume (a @ b) p = consume b (consume a p)"
    and consume_Nil: "consume [] p = p"
    and stopped_absorbs: "good p \<Longrightarrow> abort_reason p \<noteq> None \<or> terminated p \<Longrightarrow> consume b p = p"

text \<open>One turn of the observer's loop sees the overrun flag, drained chunks, nothing, or the end.\<close>

datatype obs_event =
    ObsOverrun
  | ObsDrain "string list"
  | ObsIdle
  | ObsEOF "read_error option"

type_synonym 'p finalizer = "bool \<Rightarrow> read_error option \<Rightarrow> 'p \<Rightarrow> observation \<Rightarrow> observation \<times> outcome"

text \<open>The three checks after a drain: the work bound, the parser's abort, its terminal event.\<close>

definition obs_check ::
  "('p \<Rightarrow> abandon_reason option) \<Rightarrow> ('p \<Rightarrow> bool) \<Rightarrow> 'p finalizer \<Rightarrow> int \<Rightarrow> observation \<Rightarrow> 'p \<Rightarrow> nat \<Rightarrow>
   (observation \<times> outcome) option" where
  "obs_check abort term fin maxBody obsv p scanned =
     (if maxBody < int scanned then Some (obsv, Abandoned AbandonBodyTooLarge)
      else case abort p of
        Some r \<Rightarrow> Some (obsv, Abandoned r)
      | None \<Rightarrow> if term p then Some (fin False None p obsv) else None)"

fun run_observer ::
  "(string \<Rightarrow> 'p \<Rightarrow> 'p) \<Rightarrow> ('p \<Rightarrow> abandon_reason option) \<Rightarrow> ('p \<Rightarrow> bool) \<Rightarrow> 'p finalizer \<Rightarrow> int \<Rightarrow>
   observation \<Rightarrow> 'p \<Rightarrow> nat \<Rightarrow> obs_event list \<Rightarrow> (observation \<times> outcome) option" where
  "run_observer consume abort term fin maxBody obsv p scanned [] = None"
| "run_observer consume abort term fin maxBody obsv p scanned (ObsOverrun # es) =
     Some (obsv, Abandoned AbandonObserverOverrun)"
| "run_observer consume abort term fin maxBody obsv p scanned (ObsDrain cs # es) =
     (let p' = fold consume cs p; scanned' = scanned + length (concat cs) in
      case obs_check abort term fin maxBody obsv p' scanned' of
        Some r \<Rightarrow> Some r
      | None \<Rightarrow> run_observer consume abort term fin maxBody obsv p' scanned' es)"
| "run_observer consume abort term fin maxBody obsv p scanned (ObsIdle # es) =
     (case obs_check abort term fin maxBody obsv p scanned of
        Some r \<Rightarrow> Some r
      | None \<Rightarrow> run_observer consume abort term fin maxBody obsv p scanned es)"
| "run_observer consume abort term fin maxBody obsv p scanned (ObsEOF err # es) =
     (case obs_check abort term fin maxBody obsv p scanned of
        Some r \<Rightarrow> Some r
      | None \<Rightarrow> Some (fin True err p obsv))"

fun event_bytes :: "obs_event \<Rightarrow> string" where
  "event_bytes (ObsDrain cs) = concat cs"
| "event_bytes _ = []"

definition quiet_event :: "obs_event \<Rightarrow> bool" where
  "quiet_event e \<longleftrightarrow> (case e of ObsDrain cs \<Rightarrow> True | ObsIdle \<Rightarrow> True | _ \<Rightarrow> False)"

text \<open>The verdict on a whole body read at once.\<close>

definition one_shot ::
  "(string \<Rightarrow> 'p \<Rightarrow> 'p) \<Rightarrow> ('p \<Rightarrow> abandon_reason option) \<Rightarrow> ('p \<Rightarrow> bool) \<Rightarrow> 'p finalizer \<Rightarrow>
   observation \<Rightarrow> 'p \<Rightarrow> string \<Rightarrow> read_error option \<Rightarrow> observation \<times> outcome" where
  "one_shot consume abort term fin obsv p body err =
     (let q = consume body p in
      case abort q of
        Some r \<Rightarrow> (obsv, Abandoned r)
      | None \<Rightarrow> if term q then fin False None q obsv else fin True err q obsv)"

context body_parser
begin

lemma fold_consume: "fold consume cs p = consume (concat cs) p"
  by (induction cs arbitrary: p) (simp_all add: consume_Nil consume_append)

lemma run_is_one_shot:
  assumes "good p" "list_all quiet_event es" "int (scanned + length (concat (map event_bytes es))) \<le> maxBody"
  shows "run_observer consume abort_reason terminated fin maxBody obsv p scanned (es @ [ObsEOF err]) =
         Some (one_shot consume abort_reason terminated fin obsv p (concat (map event_bytes es)) err)"
  using assms
proof (induction es arbitrary: p scanned)
  case Nil
  then show ?case by (simp add: obs_check_def one_shot_def consume_Nil split: option.splits)
next
  case (Cons e es)
  have q: "quiet_event e" using Cons.prems(2) by simp
  let ?b = "event_bytes e" and ?rest = "concat (map event_bytes es)"
  let ?p = "consume ?b p"
  have le: "int (scanned + length ?b) \<le> maxBody" using Cons.prems(3) by simp
  have gp: "good ?p" by (rule good_consume [OF Cons.prems(1)])
  have step: "run_observer consume abort_reason terminated fin maxBody obsv p scanned ((e # es) @ [ObsEOF err]) =
     (case obs_check abort_reason terminated fin maxBody obsv ?p (scanned + length ?b) of
        Some r \<Rightarrow> Some r
      | None \<Rightarrow> run_observer consume abort_reason terminated fin maxBody obsv ?p (scanned + length ?b) (es @ [ObsEOF err]))"
    using q by (cases e) (simp_all add: quiet_event_def Let_def fold_consume consume_Nil split: option.splits)
  show ?case
  proof (cases "abort_reason ?p \<noteq> None \<or> terminated ?p")
    case True
    then have "consume (?b @ ?rest) p = ?p" by (simp add: consume_append stopped_absorbs [OF gp])
    then show ?thesis using True le unfolding step
      by (auto simp: obs_check_def one_shot_def split: option.splits)
  next
    case False
    then have "obs_check abort_reason terminated fin maxBody obsv ?p (scanned + length ?b) = None"
      using le by (simp add: obs_check_def)
    then show ?thesis using Cons.IH [OF gp, of "scanned + length ?b"] Cons.prems unfolding step
      by (simp add: one_shot_def consume_append add.assoc)
  qed
qed

text \<open>Whatever the schedule, a run that has its end or an overrun in it gives a verdict.\<close>

lemma run_ends:
  assumes "ObsOverrun \<in> set es \<or> (\<exists>err. ObsEOF err \<in> set es)"
  shows "run_observer consume abort_reason terminated fin maxBody obsv p scanned es \<noteq> None"
  using assms
proof (induction es arbitrary: p scanned)
  case (Cons e es)
  then show ?case by (cases e) (auto simp: Let_def split: option.splits)
qed simp

end

section \<open>The three parsers\<close>

text \<open>
  A JSON parser is good when an abandoned scanner is dead: the constructors establish it and every
  byte keeps it.
\<close>

definition json_good :: "'a json_parser_scheme \<Rightarrow> bool" where
  "json_good p \<longleftrightarrow> alive_ok (jp_scan p)"

lemma json_stopped:
  "json_good p \<Longrightarrow> r_abandoned (sc_res (jp_scan p)) \<noteq> None \<Longrightarrow> feed b (jp_scan p) = jp_scan p"
  by (auto simp: json_good_def alive_ok_def)

interpretation json_body: body_parser json_consume json_abort_reason json_terminated json_good
proof
  fix p a b
  show "json_good p \<Longrightarrow> json_good (json_consume b p)"
    by (simp add: json_good_def json_consume_def alive_ok_feed)
  show "json_consume (a @ b) p = json_consume b (json_consume a p)"
    by (simp add: json_consume_def feed_append)
  show "json_consume [] p = p" by (simp add: json_consume_def feed.simps(1))
  assume g: "json_good p" and "json_abort_reason p \<noteq> None \<or> json_terminated p"
  then have "r_abandoned (sc_res (jp_scan p)) \<noteq> None"
    by (auto simp: json_abort_reason_def json_terminated_def split: if_splits)
  with g show "json_consume b p = p" by (simp add: json_consume_def json_stopped)
qed

interpretation search_body: body_parser search_consume search_abort_reason search_terminated json_good
proof
  fix p a b
  show "json_good p \<Longrightarrow> json_good (search_consume b p)"
    by (simp add: json_good_def search_consume_def alive_ok_feed)
  show "search_consume (a @ b) p = search_consume b (search_consume a p)"
    by (simp add: search_consume_def feed_append)
  show "search_consume [] p = p" by (simp add: search_consume_def feed.simps(1))
  assume g: "json_good p" and "search_abort_reason p \<noteq> None \<or> search_terminated p"
  then have "r_abandoned (sc_res (jp_scan p)) \<noteq> None"
    by (auto simp: search_abort_reason_def search_terminated_def json_abort_reason_def json_terminated_def
        json_parser.truncate_def split: if_splits)
  with g show "search_consume b p = p" by (simp add: search_consume_def json_stopped)
qed

lemma sse_consume_append_step: "sse_consume (a @ b) f = sse_consume b (sse_consume a f)"
proof (induction a arbitrary: f)
  case (Cons c a)
  then show ?case by (cases b) simp_all
qed simp

interpretation sse_body: body_parser sse_consume sse_abort_reason sse_terminated "\<lambda>_. True"
proof
  fix p a b
  show "sse_consume (a @ b) p = sse_consume b (sse_consume a p)" by (rule sse_consume_append_step)
  assume "sse_abort_reason p \<noteq> None \<or> sse_terminated p"
  then have "sse_stopped p" by (auto simp: sse_abort_reason_def sse_terminated_def sse_stopped_def)
  then show "sse_consume b p = p" by (cases b) simp_all
qed simp_all

text \<open>The value behind the \<^verbatim>\<open>bodyParser\<close> interface.\<close>

datatype any_parser = PJson json_parser | PSearch search_parser | PSse sse_framer

fun any_consume :: "string \<Rightarrow> any_parser \<Rightarrow> any_parser" where
  "any_consume b (PJson p) = PJson (json_consume b p)"
| "any_consume b (PSearch p) = PSearch (search_consume b p)"
| "any_consume b (PSse f) = PSse (sse_consume b f)"

fun any_abort_reason :: "any_parser \<Rightarrow> abandon_reason option" where
  "any_abort_reason (PJson p) = json_abort_reason p"
| "any_abort_reason (PSearch p) = search_abort_reason p"
| "any_abort_reason (PSse f) = sse_abort_reason f"

fun any_terminated :: "any_parser \<Rightarrow> bool" where
  "any_terminated (PJson p) = json_terminated p"
| "any_terminated (PSearch p) = search_terminated p"
| "any_terminated (PSse f) = sse_terminated f"

fun any_finalize :: "bool \<Rightarrow> read_error option \<Rightarrow> any_parser \<Rightarrow> observation \<Rightarrow> observation \<times> outcome" where
  "any_finalize atEOF err (PJson p) obsv = json_finalize atEOF err p obsv"
| "any_finalize atEOF err (PSearch p) obsv = search_finalize atEOF err p obsv"
| "any_finalize atEOF err (PSse f) obsv = sse_finalize atEOF err f obsv"

fun any_good :: "any_parser \<Rightarrow> bool" where
  "any_good (PJson p) = json_good p"
| "any_good (PSearch p) = json_good p"
| "any_good (PSse f) = True"

interpretation any_body: body_parser any_consume any_abort_reason any_terminated any_good
proof
  fix p a b
  show "any_good p \<Longrightarrow> any_good (any_consume b p)"
    by (cases p) (simp_all add: json_body.good_consume search_body.good_consume)
  show "any_consume (a @ b) p = any_consume b (any_consume a p)"
    by (cases p) (simp_all add: json_body.consume_append search_body.consume_append sse_body.consume_append)
  show "any_consume [] p = p"
    by (cases p) (simp_all add: json_body.consume_Nil search_body.consume_Nil)
  show "any_good p \<Longrightarrow> any_abort_reason p \<noteq> None \<or> any_terminated p \<Longrightarrow> any_consume b p = p"
    by (cases p) (simp_all add: json_body.stopped_absorbs search_body.stopped_absorbs sse_body.stopped_absorbs)
qed

section \<open>The installer\<close>

record limits_cfg =
  lm_memory_budget :: nat
  lm_ring_bytes :: nat
  lm_max_body :: int
  lm_max_event_bytes :: int
  lm_max_events :: int
  lm_max_depth :: nat
  lm_max_key :: nat

text \<open>\<open>in_offered\<close> is what the sink has been offered, oldest first.\<close>

record installer =
  in_provider :: string
  in_limits :: limits_cfg
  in_pool :: "slab list"
  in_observe_streams :: bool
  in_metrics :: metrics
  in_offered :: "observation list"

definition NewInstaller :: "string \<Rightarrow> limits_cfg \<Rightarrow> installer" where
  "NewInstaller provider lim =
     \<lparr>in_provider = provider, in_limits = lim,
      in_pool = newRingPool (lm_memory_budget lim) (lm_ring_bytes lim), in_observe_streams = True,
      in_metrics = zero_metrics, in_offered = []\<rparr>"

text \<open>The parts of the response \<^verbatim>\<open>Install\<close> reads; an absent header is the empty string.\<close>

record response =
  rs_status :: int
  rs_content_type :: string
  rs_content_encoding :: string
  rs_request_id :: string

text \<open>
  \<open>mime\<close> stands for \<^verbatim>\<open>mime.ParseMediaType\<close>: the media type of a Content-Type value, or \<open>None\<close> on error.
\<close>

definition isEventStream :: "(string \<Rightarrow> string option) \<Rightarrow> string \<Rightarrow> bool" where
  "isEventStream mime ct \<longleftrightarrow> mime ct = Some ''text/event-stream''"

definition requestIDHeader :: "string \<Rightarrow> string" where
  "requestIDHeader v =
     (if v = [] \<or> capIDBytes < length v then []
      else if \<not> printableASCIINoWS v \<or> looksLikeCredential v then []
      else v)"

definition count_metric :: "(metrics \<Rightarrow> metrics) \<Rightarrow> installer \<Rightarrow> installer" where
  "count_metric f i = i\<lparr>in_metrics := f (in_metrics i)\<rparr>"

definition start_metric :: "metrics \<Rightarrow> metrics" where
  "start_metric m = m\<lparr>m_started := Suc (m_started m)\<rparr>"

definition inst_finalize :: "go_time \<Rightarrow> observation \<Rightarrow> outcome \<Rightarrow> installer \<Rightarrow> installer" where
  "inst_finalize now obsv oc i =
     (let o1 = obsv\<lparr>ob_outcome := oc, ob_finished_at := now\<rparr>;
          m1 = (if ob_parse_degraded o1 then (in_metrics i)\<lparr>m_degraded := Suc (m_degraded (in_metrics i))\<rparr>
                else in_metrics i)
      in i\<lparr>in_metrics := CountOutcome oc m1, in_offered := in_offered i @ [o1]\<rparr>)"

datatype installed = NotObserved | Observing any_parser slab observation

definition select_parser :: "limits_cfg \<Rightarrow> profile \<Rightarrow> bool \<Rightarrow> string \<Rightarrow> any_parser" where
  "select_parser lim prof streaming requestID =
     (if prof = ProfileSearchRouter then
        PSearch (newSearchParser (lm_max_depth lim) (lm_max_key lim) (requestIDHeader requestID))
      else if streaming then
        PSse (newSSEFramer (lm_max_depth lim) (lm_max_key lim) (lm_max_event_bytes lim) (lm_max_events lim))
      else PJson (newJSONParser (lm_max_depth lim) (lm_max_key lim)))"

definition Install ::
  "(string \<Rightarrow> string option) \<Rightarrow> response \<Rightarrow> bool \<Rightarrow> profile \<Rightarrow> go_time \<Rightarrow> go_time \<Rightarrow> installer \<Rightarrow>
   installed \<times> installer" where
  "Install mime resp meterable prof startedAt now i =
     (if \<not> meterable then (NotObserved, count_metric (CountSkip SkipNonMeterableRoute) i)
      else if rs_status resp < 200 \<or> 299 < rs_status resp
        then (NotObserved, count_metric (CountSkip SkipUpstreamStatus) i)
      else
        (let streaming = (if prof = ProfileSearchRouter then False else isEventStream mime (rs_content_type resp)) in
         if streaming \<and> \<not> in_observe_streams i then (NotObserved, i)
         else
           (let obsv = new_observation (in_provider i) prof (rs_status resp) startedAt streaming in
            if rs_content_encoding resp \<noteq> [] \<and> rs_content_encoding resp \<noteq> ''identity''
            then (NotObserved, inst_finalize now obsv (Abandoned AbandonEncodedBody) (count_metric start_metric i))
            else
              (case tryGet (in_pool i) of
                 (None, pool) \<Rightarrow> (NotObserved, count_metric (CountSkip SkipNoRing) i)
               | (Some b, pool) \<Rightarrow>
                   (Observing (select_parser (in_limits i) prof streaming (rs_request_id resp)) b obsv,
                    count_metric start_metric (i\<lparr>in_pool := pool\<rparr>))))))"

text \<open>
  The observer goroutine up to its deferred release, on the events its loop meets; \<open>None\<close> while it
  is still waiting.  The slab goes back when the body has been closed as well.
\<close>

definition runObserver ::
  "go_time \<Rightarrow> any_parser \<Rightarrow> slab \<Rightarrow> observation \<Rightarrow> obs_event list \<Rightarrow> installer \<Rightarrow> installer option" where
  "runObserver now p b obsv es i =
     (case run_observer any_consume any_abort_reason any_terminated any_finalize
             (lm_max_body (in_limits i)) obsv p 0 es of
        None \<Rightarrow> None
      | Some (o1, oc) \<Rightarrow>
          Some ((inst_finalize now o1 oc i)\<lparr>in_pool := pool_put b (in_pool i)\<rparr>))"

section \<open>The tap\<close>

record tap =
  tp_enabled :: bool
  tp_ring :: ring
  tp_life :: lease
  tp_done :: bool
  tp_overrun :: bool
  tp_final_err :: "read_error option"
  tp_wake :: bool

definition newTap :: "slab \<Rightarrow> slab list \<Rightarrow> tap" where
  "newTap b pool =
     \<lparr>tp_enabled = True, tp_ring = new_ring b,
      tp_life = \<lparr>ls_state = 0, ls_buf = Some b, ls_pool = pool\<rparr>, tp_done = False,
      tp_overrun = False, tp_final_err = None, tp_wake = False\<rparr>"

definition tap_write :: "string \<Rightarrow> tap \<Rightarrow> tap" where
  "tap_write p t =
     (case pin (ls_state (tp_life t)) of
        None \<Rightarrow> t
      | Some s \<Rightarrow>
          (let t1 = (case ring_write p (tp_ring t) of
                       Some r \<Rightarrow> t\<lparr>tp_ring := r\<rparr>
                     | None \<Rightarrow> t\<lparr>tp_overrun := True, tp_enabled := False\<rparr>)
           in t1\<lparr>tp_life := tryRelease ((tp_life t)\<lparr>ls_state := unpin_sub s\<rparr>)\<rparr>))"

text \<open>\<open>tap_read\<close> takes what the wrapped body returned and gives what the caller gets.\<close>

definition tap_read :: "string \<Rightarrow> read_error option \<Rightarrow> tap \<Rightarrow> (string \<times> read_error option) \<times> tap" where
  "tap_read p err t =
     (let t1 = (if tp_enabled t \<and> p \<noteq> [] then tap_write p t else t);
          t2 = (if err \<noteq> None then t1\<lparr>tp_final_err := err, tp_done := True\<rparr> else t1)
      in ((p, err), t2\<lparr>tp_wake := True\<rparr>))"

definition tap_close :: "tap \<Rightarrow> tap" where
  "tap_close t =
     t\<lparr>tp_enabled := False, tp_done := True, tp_wake := True,
       tp_life := tryRelease ((tp_life t)\<lparr>ls_state := orBit stateClosed (ls_state (tp_life t))\<rparr>)\<rparr>"

text \<open>One turn of the observer's loop on the shared state: the event it sees and what it leaves.\<close>

definition observe_turn :: "tap \<Rightarrow> obs_event \<times> tap" where
  "observe_turn t =
     (if tp_overrun t then (ObsOverrun, t)
      else
        (case ring_drain (tp_ring t) of
           (cs, r) \<Rightarrow>
             if cs \<noteq> [] then (ObsDrain cs, t\<lparr>tp_ring := r\<rparr>)
             else if tp_done t \<and> rg_tail r = rg_head r then (ObsEOF (tp_final_err t), t)
             else (ObsIdle, t\<lparr>tp_wake := False\<rparr>)))"

end
