(* ===== verification/ObserverSpec.thy ===== *)
theory ObserverSpec
  imports Observer SseSpec
begin

text \<open>
  The tap, the ring and the observer put together.  Any interleaving of body reads, the close and
  turns of the observer's loop hands the parser exactly the bytes of the body, so the verdict does
  not depend on the schedule; every response is accounted for once; and whatever the upstream sends,
  an offered observation carries only bounded, screened metadata.
\<close>

section \<open>Interleavings of the tap and the observer\<close>

datatype tap_op = TapRead string "read_error option" | TapClose | ObsTurn

text \<open>The state after a run, the events the observer saw, and the bytes read before the close.\<close>

fun tap_run :: "tap_op list \<Rightarrow> tap \<Rightarrow> tap \<times> obs_event list \<times> string" where
  "tap_run [] t = (t, [], [])"
| "tap_run (TapRead p err # ops) t =
     (case tap_run ops (snd (tap_read p err t)) of
        (t2, evs, R) \<Rightarrow> (t2, evs, (if is_closed (ls_state (tp_life t)) then [] else p) @ R))"
| "tap_run (TapClose # ops) t = tap_run ops (tap_close t)"
| "tap_run (ObsTurn # ops) t =
     (case tap_run ops (snd (observe_turn t)) of
        (t2, evs, R) \<Rightarrow> (t2, fst (observe_turn t) # evs, R))"

definition life_open :: "lease \<Rightarrow> bool" where
  "life_open l \<longleftrightarrow> \<not> is_done (ls_state l) \<and> \<not> is_released (ls_state l) \<and> readers (ls_state l) = 0"

definition tap_inv :: "tap \<Rightarrow> string \<Rightarrow> string \<Rightarrow> bool" where
  "tap_inv t D R \<longleftrightarrow>
     life_open (tp_life t) \<and>
     (tp_enabled t \<longleftrightarrow> \<not> is_closed (ls_state (tp_life t)) \<and> \<not> tp_overrun t) \<and>
     (\<not> tp_overrun t \<longrightarrow>
        ring_inv (tp_ring t) \<and> D @ ring_contents (tp_ring t) = R \<and>
        ring_budget (tp_ring t) = 2 ^ 64 - 1 - length R)"

lemma tap_inv_new: "0 < length b \<Longrightarrow> length b < 2 ^ 64 \<Longrightarrow> tap_inv (newTap b pool) [] []"
  using new_ring_props [of b]
  by (simp add: tap_inv_def newTap_def life_open_def is_done_def is_released_def readers_def is_closed_def)

lemma life_open_no_release: "\<not> is_done (ls_state l) \<Longrightarrow> tryRelease l = l"
  by (simp add: tryRelease_def release_ready_iff)

lemma life_open_write:
  assumes "life_open l" "\<not> is_closed (ls_state l)"
  shows "\<exists>s. pin (ls_state l) = Some s \<and> life_open (tryRelease (l\<lparr>ls_state := unpin_sub s\<rparr>)) \<and>
    \<not> is_closed (ls_state (tryRelease (l\<lparr>ls_state := unpin_sub s\<rparr>)))"
proof -
  obtain s where s: "pin (ls_state l) = Some s" using assms(2) pin_None by blast
  have r: "readers (ls_state l) = 0" using assms(1) by (simp add: life_open_def)
  note p = pin_fields [OF s, unfolded r]
  have "0 < readers s" using p by simp
  note u = unpin_fields [OF this]
  let ?l = "l\<lparr>ls_state := unpin_sub s\<rparr>"
  have o: "life_open ?l" "\<not> is_closed (ls_state ?l)" using assms p u by (simp_all add: life_open_def)
  then have "tryRelease ?l = ?l" by (intro life_open_no_release) (simp add: life_open_def)
  then show ?thesis using s o by auto
qed

lemma life_open_close:
  "life_open l \<Longrightarrow> life_open (tryRelease (l\<lparr>ls_state := orBit stateClosed (ls_state l)\<rparr>)) \<and>
     is_closed (ls_state (tryRelease (l\<lparr>ls_state := orBit stateClosed (ls_state l)\<rparr>)))"
  using orBit_fields(1-4) [of "ls_state l"]
  by (simp add: life_open_def life_open_no_release)

lemma tap_inv_read:
  assumes "tap_inv t D R" "length R + length p < 2 ^ 64"
  shows "tap_inv (snd (tap_read p err t)) D (R @ (if is_closed (ls_state (tp_life t)) then [] else p))"
proof -
  have fr: "tap_inv ((if err \<noteq> None then u\<lparr>tp_final_err := err, tp_done := True\<rparr> else u)\<lparr>tp_wake := True\<rparr>) D' R' =
      tap_inv u D' R'" for u D' R'
    by (simp add: tap_inv_def)
  have core: "tap_inv (if tp_enabled t \<and> p \<noteq> [] then tap_write p t else t) D
      (R @ (if is_closed (ls_state (tp_life t)) then [] else p))"
  proof (cases "tp_enabled t \<and> p \<noteq> []")
    case False
    then show ?thesis using assms(1) by (cases "p = []") (auto simp: tap_inv_def)
  next
    case True
    have i: "life_open (tp_life t)" "\<not> is_closed (ls_state (tp_life t))" "\<not> tp_overrun t"
      "ring_inv (tp_ring t)" "D @ ring_contents (tp_ring t) = R" "ring_budget (tp_ring t) = 2 ^ 64 - 1 - length R"
      using assms(1) True by (auto simp: tap_inv_def)
    obtain s where s: "pin (ls_state (tp_life t)) = Some s"
      "life_open (tryRelease ((tp_life t)\<lparr>ls_state := unpin_sub s\<rparr>))"
      "\<not> is_closed (ls_state (tryRelease ((tp_life t)\<lparr>ls_state := unpin_sub s\<rparr>)))"
      using life_open_write [OF i(1,2)] by blast
    have b: "length p \<le> ring_budget (tp_ring t)" using i(6) assms(2) by simp
    show ?thesis
    proof (cases "ring_write p (tp_ring t)")
      case None
      then show ?thesis using True s i by (simp add: tap_write_def tap_inv_def)
    next
      case (Some r)
      note a = write_contents(2) [OF i(4) b Some]
      show ?thesis using True s i a Some by (simp add: tap_write_def tap_inv_def)
    qed
  qed
  show ?thesis unfolding tap_read_def Let_def snd_conv fr by (rule core)
qed

lemma tap_inv_close: "tap_inv t D R \<Longrightarrow> tap_inv (tap_close t) D R"
  using life_open_close [of "tp_life t"] by (simp add: tap_inv_def tap_close_def)

lemma tap_inv_turn:
  assumes "tap_inv t D R"
  shows "tap_inv (snd (observe_turn t)) (D @ event_bytes (fst (observe_turn t))) R"
proof (cases "tp_overrun t")
  case True
  then show ?thesis using assms by (simp add: observe_turn_def tap_inv_def)
next
  case False
  obtain cs r where d: "ring_drain (tp_ring t) = (cs, r)" by (cases "ring_drain (tp_ring t)")
  have i: "ring_inv (tp_ring t)" using assms False by (simp add: tap_inv_def)
  note c = drain_contents [OF i d]
  show ?thesis using assms False c d by (auto simp: observe_turn_def tap_inv_def)
qed

lemma tap_inv_run:
  "tap_run ops t = (t', evs, R') \<Longrightarrow> tap_inv t D R \<Longrightarrow> length R + length R' < 2 ^ 64 \<Longrightarrow>
   tap_inv t' (D @ concat (map event_bytes evs)) (R @ R')"
proof (induction ops arbitrary: t D R evs R')
  case Nil
  then show ?case by simp
next
  case (Cons x ops)
  show ?case
  proof (cases x)
    case (TapRead p err)
    obtain R1 where r: "tap_run ops (snd (tap_read p err t)) = (t', evs, R1)"
      "R' = (if is_closed (ls_state (tp_life t)) then [] else p) @ R1"
      using Cons.prems(1) TapRead by (auto split: prod.splits)
    show ?thesis
    proof (cases "is_closed (ls_state (tp_life t))")
      case True
      then have "snd (tap_read p err t) =
          (if err \<noteq> None then t\<lparr>tp_final_err := err, tp_done := True\<rparr> else t)\<lparr>tp_wake := True\<rparr>"
        using Cons.prems(2) by (simp add: tap_read_def tap_inv_def)
      then have "tap_inv (snd (tap_read p err t)) D R" using Cons.prems(2) by (simp add: tap_inv_def)
      then show ?thesis using Cons.IH [OF r(1)] Cons.prems(3) r(2) True by simp
    next
      case False
      then have "length R + length p < 2 ^ 64" using Cons.prems(3) r(2) by simp
      from tap_inv_read [OF Cons.prems(2) this] False
      have "tap_inv (snd (tap_read p err t)) D (R @ p)" by simp
      then show ?thesis using Cons.IH [OF r(1), of D "R @ p"] Cons.prems(3) r(2) False by simp
    qed
  next
    case TapClose
    then show ?thesis using Cons.IH [OF _ tap_inv_close [OF Cons.prems(2)]] Cons.prems by simp
  next
    case ObsTurn
    obtain evs1 where r: "tap_run ops (snd (observe_turn t)) = (t', evs1, R')"
      "evs = fst (observe_turn t) # evs1"
      using Cons.prems(1) ObsTurn by (auto split: prod.splits)
    show ?thesis using Cons.IH [OF r(1) tap_inv_turn [OF Cons.prems(2)]] Cons.prems(3) r(2) by simp
  qed
qed

text \<open>When the observer sees the end of the body, it has drained every byte read before the close.\<close>

lemma eof_has_all:
  assumes "tap_inv t D R" "observe_turn t = (ObsEOF err, t')"
  shows "D = R \<and> \<not> tp_overrun t \<and> err = tp_final_err t"
proof -
  have no: "\<not> tp_overrun t" using assms(2) by (auto simp: observe_turn_def)
  obtain cs r where d: "ring_drain (tp_ring t) = (cs, r)" by (cases "ring_drain (tp_ring t)")
  have i: "ring_inv (tp_ring t)" using assms(1) no by (simp add: tap_inv_def)
  have "cs = []" "err = tp_final_err t" using assms(2) no d by (auto simp: observe_turn_def split: if_splits)
  then have "ring_contents (tp_ring t) = []" using drain_contents(6) [OF i d] by simp
  then show ?thesis using assms(1) no \<open>err = tp_final_err t\<close> by (simp add: tap_inv_def)
qed

lemma overrun_kept:
  "tp_overrun t \<Longrightarrow> tp_overrun (snd (tap_read p err t))" "tp_overrun t \<Longrightarrow> tp_overrun (tap_close t)"
  "tp_overrun t \<Longrightarrow> tp_overrun (snd (observe_turn t))"
proof -
  have "tp_overrun t \<Longrightarrow> tp_overrun (tap_write p t)"
    by (auto simp: tap_write_def Let_def split: option.splits)
  then show "tp_overrun t \<Longrightarrow> tp_overrun (snd (tap_read p err t))"
    by (simp add: tap_read_def Let_def)
qed (simp_all add: tap_close_def observe_turn_def)

lemma overrun_run: "tp_overrun t \<Longrightarrow> tp_overrun (fst (tap_run ops t))"
proof (induction ops arbitrary: t)
  case (Cons x ops)
  have ih: "tp_overrun u \<Longrightarrow> tp_overrun (fst (tap_run ops u))" for u by (rule Cons.IH)
  show ?case
  proof (cases x)
    case (TapRead p err)
    then show ?thesis using ih [OF overrun_kept(1) [OF Cons.prems, of p err]]
      by (cases "tap_run ops (snd (tap_read p err t))") simp
  next
    case ObsTurn
    then show ?thesis using ih [OF overrun_kept(3) [OF Cons.prems]]
      by (cases "tap_run ops (snd (observe_turn t))") simp
  qed (simp add: ih overrun_kept(2) Cons.prems)
qed simp

lemma turn_quiet:
  "\<not> tp_overrun t \<Longrightarrow> quiet_event (fst (observe_turn t)) \<or> (\<exists>err. fst (observe_turn t) = ObsEOF err)"
  by (cases "ring_drain (tp_ring t)") (auto simp: observe_turn_def quiet_event_def)

definition no_eof :: "obs_event \<Rightarrow> bool" where
  "no_eof e = (case e of ObsEOF _ \<Rightarrow> False | _ \<Rightarrow> True)"

lemma turn_before_end:
  assumes "tap_run ops t = (t', evs, R')" "\<not> tp_overrun t'" "list_all no_eof evs"
  shows "list_all quiet_event evs"
  using assms
proof (induction ops arbitrary: t evs R')
  case (Cons x ops)
  show ?case
  proof (cases x)
    case ObsTurn
    obtain evs1 where r: "tap_run ops (snd (observe_turn t)) = (t', evs1, R')" "evs = fst (observe_turn t) # evs1"
      using Cons.prems(1) ObsTurn by (auto split: prod.splits)
    have "\<not> tp_overrun t"
      using Cons.prems(2) r(1) overrun_kept(3) overrun_run [of "snd (observe_turn t)" ops] by auto
    then have "quiet_event (fst (observe_turn t))"
      using turn_quiet [of t] Cons.prems(3) r(2) by (auto simp: no_eof_def)
    then show ?thesis using Cons.IH [OF r(1) Cons.prems(2)] Cons.prems(3) r(2) by simp
  qed (use Cons in \<open>auto split: prod.splits\<close>)
qed simp

lemma observed_is_one_shot:
  assumes "0 < length b" "length b < 2 ^ 64" "any_good p"
    and "tap_run ops (newTap b pool) = (t, evs, R)" "list_all no_eof evs"
    and "observe_turn t = (ObsEOF err, t')" "int (length R) \<le> maxBody" "length R < 2 ^ 64"
  shows "run_observer any_consume any_abort_reason any_terminated any_finalize maxBody obsv p 0 (evs @ [ObsEOF err]) =
    Some (one_shot any_consume any_abort_reason any_terminated any_finalize obsv p R err)"
proof -
  have i: "tap_inv t (concat (map event_bytes evs)) R"
    using tap_inv_run [OF assms(4) tap_inv_new [OF assms(1,2)]] assms(8) by simp
  note e = eof_has_all [OF i assms(6)]
  have "list_all quiet_event evs" using turn_before_end [OF assms(4) _ assms(5)] e by simp
  then show ?thesis
    using any_body.run_is_one_shot [OF assms(3), of evs 0 maxBody any_finalize obsv err] e assms(7) by simp
qed

section \<open>What an observation may carry\<close>

definition obs_clean :: "observation \<Rightarrow> bool" where
  "obs_clean o1 \<longleftrightarrow>
     clean capIDBytes (ob_generation_id o1) \<and> clean capModelBytes (ob_resolved_model o1) \<and>
     clean capFinishReasonBytes (ob_finish_reason o1) \<and> clean capErrTypeBytes (ob_error_type o1) \<and>
     clean capErrCodeBytes (ob_error_code o1)"

fun any_clean :: "any_parser \<Rightarrow> bool" where
  "any_clean (PJson p) = scanner_ok (jp_scan p)"
| "any_clean (PSearch p) = (scanner_ok (jp_scan p) \<and> clean capIDBytes (sp_header_id p))"
| "any_clean (PSse f) = sse_ok f"

lemma any_clean_consume: "any_clean p \<Longrightarrow> any_clean (any_consume b p)"
  by (cases p) (simp_all add: json_consume_def search_consume_def scanner_ok_feed sse_ok_consume)

lemma any_clean_fold: "any_clean p \<Longrightarrow> any_clean (fold any_consume cs p)"
  by (induction cs arbitrary: p) (simp_all add: any_clean_consume)

lemma requestIDHeader_clean: "clean capIDBytes (requestIDHeader v)"
  by (simp add: requestIDHeader_def clean_def printableASCIINoWS_def)

lemma any_clean_select: "any_clean (select_parser lim prof st rid)"
  by (simp add: select_parser_def newSearchParser_def newJSONParser_def newScanner_def scanner_ok_new
      sse_ok_new requestIDHeader_clean)

lemma any_good_select: "any_good (select_parser lim prof st rid)"
  by (simp add: select_parser_def newSearchParser_def newJSONParser_def newScanner_def json_good_def alive_ok_new)

lemma obs_clean_frame [simp]:
  "obs_clean (o1\<lparr>ob_saw_done := x\<rparr>) = obs_clean o1" "obs_clean (o1\<lparr>ob_metadata_conflict := x\<rparr>) = obs_clean o1"
  "obs_clean (o1\<lparr>ob_usage := u, ob_saw_usage := x\<rparr>) = obs_clean o1"
  "obs_clean (o1\<lparr>ob_saw_usage := x, ob_usage := u\<rparr>) = obs_clean o1" "obs_clean (o1\<lparr>ob_usage := u\<rparr>) = obs_clean o1"
  "obs_clean (o1\<lparr>ob_saw_usage := x\<rparr>) = obs_clean o1"
  "obs_clean (o1\<lparr>ob_outcome := oc, ob_finished_at := t\<rparr>) = obs_clean o1"
  by (simp_all add: obs_clean_def)

lemma json_finalize_clean:
  assumes "scanner_ok (jp_scan p)"
  shows "obs_clean (fst (json_finalize atEOF err p obsv)) \<and> snd (json_finalize atEOF err p obsv) \<noteq> NoOutcome"
proof -
  define s where "s = (if atEOF then finish (jp_scan p) else jp_scan p)"
  have "captures_clean (sc_res s)"
    using assms scanner_ok_finish [OF assms] by (simp add: s_def scanner_ok_def res_ok_def)
  then have c: "clean capIDBytes (r_id (sc_res s))" "clean capModelBytes (r_model (sc_res s))"
    "clean capFinishReasonBytes (r_finish_reason (sc_res s))" "clean capErrTypeBytes (r_err_type (sc_res s))"
    "clean capErrCodeBytes (r_err_code (sc_res s))"
    by (simp_all add: captures_clean_def captured_def)
  define o1 where "o1 = obsv\<lparr>ob_generation_id := r_id (sc_res s), ob_resolved_model := r_model (sc_res s),
      ob_finish_reason := r_finish_reason (sc_res s), ob_error_type := r_err_type (sc_res s),
      ob_error_code := r_err_code (sc_res s), ob_saw_finish_reason := r_saw_finish_reason (sc_res s),
      ob_parse_degraded := r_degraded (sc_res s)\<rparr>"
  have o: "obs_clean o1" using c by (simp add: o1_def obs_clean_def)
  show ?thesis
    unfolding json_finalize_def Let_def s_def [symmetric] o1_def [symmetric]
    using o by (auto split: option.splits)
qed

lemma clean_mono: "clean m v \<Longrightarrow> m \<le> n \<Longrightarrow> clean n v"
  by (auto simp: clean_def)

lemma search_finalize_clean:
  assumes "scanner_ok (jp_scan p)" "clean capIDBytes (sp_header_id p)" "obs_clean obsv"
  shows "obs_clean (fst (search_finalize atEOF err p obsv)) \<and> snd (search_finalize atEOF err p obsv) \<noteq> NoOutcome"
proof -
  define s where "s = (if atEOF then finish (jp_scan p) else jp_scan p)"
  have "captures_clean (sc_res s)"
    using assms(1) scanner_ok_finish [OF assms(1)] by (simp add: s_def scanner_ok_def res_ok_def)
  then have c: "clean capIDBytes (r_id (sc_res s))" "clean capProviderBytes (r_chosen_provider (sc_res s))"
    by (simp_all add: captures_clean_def captured_def)
  define o0 where "o0 = (if sp_header_id p \<noteq> [] \<and> r_id (sc_res s) \<noteq> [] \<and> r_id (sc_res s) \<noteq> sp_header_id p
                then obsv\<lparr>ob_metadata_conflict := True\<rparr> else obsv)"
  define o1 where "o1 = o0\<lparr>ob_generation_id := (if sp_header_id p = [] then r_id (sc_res s) else sp_header_id p),
      ob_resolved_model := r_chosen_provider (sc_res s), ob_parse_degraded := r_degraded (sc_res s)\<rparr>"
  have "obs_clean o0" using assms(3) by (simp add: o0_def)
  then have o: "obs_clean o1"
    using c assms(2) clean_mono [OF c(2), of capModelBytes]
    by (simp add: o1_def obs_clean_def capProviderBytes_def capModelBytes_def)
  show ?thesis
    unfolding search_finalize_def Let_def s_def [symmetric] o0_def [symmetric] o1_def [symmetric]
    using o by (auto split: option.splits)
qed

lemma sse_finalize_clean:
  assumes "sse_ok f"
  shows "obs_clean (fst (sse_finalize atEOF err f obsv)) \<and> snd (sse_finalize atEOF err f obsv) \<noteq> NoOutcome"
proof -
  define g where "g = (if atEOF \<and> ff_event_has_data f then merge_degrade f else f)"
  have "merge_clean (ff_merge g)" using assms by (simp add: g_def sse_ok_def merge_degrade_def merge_clean_def)
  then show ?thesis
    unfolding sse_finalize_def Let_def g_def [symmetric]
    by (cases "mg_usage (ff_merge g)") (simp_all add: obs_clean_def merge_clean_def)
qed

lemma any_finalize_clean:
  "any_clean p \<Longrightarrow> obs_clean obsv \<Longrightarrow>
     obs_clean (fst (any_finalize atEOF err p obsv)) \<and> snd (any_finalize atEOF err p obsv) \<noteq> NoOutcome"
  by (cases p) (simp_all add: json_finalize_clean search_finalize_clean sse_finalize_clean)

lemma run_observer_clean:
  "any_clean p \<Longrightarrow> obs_clean obsv \<Longrightarrow>
   run_observer any_consume any_abort_reason any_terminated any_finalize maxBody obsv p n es = Some (o1, oc) \<Longrightarrow>
   obs_clean o1 \<and> oc \<noteq> NoOutcome"
proof (induction es arbitrary: p n)
  case (Cons e es)
  have chk: "obs_clean o1 \<and> oc \<noteq> NoOutcome"
    if "any_clean q" "obs_check any_abort_reason any_terminated any_finalize maxBody obsv q m = Some (o1, oc)" for q m
    using that Cons.prems(2) any_finalize_clean [OF that(1) Cons.prems(2), of False None]
    by (auto simp: obs_check_def split: if_splits option.splits)
  have f: "any_clean (fold any_consume cs p)" for cs using Cons.prems(1) by (rule any_clean_fold)
  show ?case
  proof (cases e)
    case (ObsDrain cs)
    then show ?thesis using Cons.prems(3) chk [OF f] Cons.IH [OF f Cons.prems(2)]
      by (auto simp: Let_def split: option.splits)
  next
    case ObsIdle
    then show ?thesis using Cons.prems chk [OF Cons.prems(1)] Cons.IH [OF Cons.prems(1,2)]
      by (auto split: option.splits)
  next
    case (ObsEOF err)
    then show ?thesis
      using Cons.prems(3) chk [OF Cons.prems(1)] any_finalize_clean [OF Cons.prems(1,2), of True err]
      by (auto split: option.splits)
  qed (use Cons.prems in auto)
qed simp

section \<open>Accounting for every response\<close>

record exchange =
  ex_response :: response
  ex_meterable :: bool
  ex_profile :: profile
  ex_started :: go_time
  ex_now :: go_time
  ex_events :: "obs_event list"

text \<open>One response from \<^verbatim>\<open>Install\<close> to the end of its observer; \<open>None\<close> while the observer waits.\<close>

definition serve :: "(string \<Rightarrow> string option) \<Rightarrow> exchange \<Rightarrow> installer \<Rightarrow> installer option" where
  "serve mime x i =
     (case Install mime (ex_response x) (ex_meterable x) (ex_profile x) (ex_started x) (ex_now x) i of
        (NotObserved, i1) \<Rightarrow> Some i1
      | (Observing p b obsv, i1) \<Rightarrow> runObserver (ex_now x) p b obsv (ex_events x) i1)"

fun serve_all :: "(string \<Rightarrow> string option) \<Rightarrow> exchange list \<Rightarrow> installer \<Rightarrow> installer option" where
  "serve_all mime [] i = Some i"
| "serve_all mime (x # xs) i = (case serve mime x i of None \<Rightarrow> None | Some i1 \<Rightarrow> serve_all mime xs i1)"

definition installer_ok :: "nat \<Rightarrow> installer \<Rightarrow> bool" where
  "installer_ok n i \<longleftrightarrow>
     length (in_pool i) = n \<and> m_started (in_metrics i) = outcomes_counted (in_metrics i) \<and>
     outcomes_counted (in_metrics i) = length (in_offered i) \<and> list_all obs_clean (in_offered i)"

lemma outcomes_counted_frame [simp]:
  "outcomes_counted (m\<lparr>m_degraded := k\<rparr>) = outcomes_counted m" "outcomes_counted (start_metric m) = outcomes_counted m"
  "outcomes_counted (CountSkip r m) = outcomes_counted m"
  by (simp_all add: outcomes_counted_def start_metric_def CountSkip_def)

lemma inst_finalize_fields:
  assumes "oc \<noteq> NoOutcome" "obs_clean obsv"
  shows "in_pool (inst_finalize now obsv oc i) = in_pool i"
    "m_started (in_metrics (inst_finalize now obsv oc i)) = m_started (in_metrics i)"
    "outcomes_counted (in_metrics (inst_finalize now obsv oc i)) = Suc (outcomes_counted (in_metrics i))"
    "length (in_offered (inst_finalize now obsv oc i)) = Suc (length (in_offered i))"
    "list_all obs_clean (in_offered (inst_finalize now obsv oc i)) = list_all obs_clean (in_offered i)"
  using assms CountOutcome_counts [OF assms(1)]
  by (simp_all add: inst_finalize_def Let_def frame_simps)

lemma new_observation_clean: "obs_clean (new_observation pr prof st t str)"
  by (simp add: obs_clean_def new_observation_def)

lemma Install_cases:
  assumes "Install mime resp met prof st now i = (r, i1)" "installer_ok n i"
  shows "(r = NotObserved \<and> installer_ok n i1) \<or>
    (\<exists>p b obsv. r = Observing p b obsv \<and> any_clean p \<and> any_good p \<and> obs_clean obsv \<and>
       Suc (length (in_pool i1)) = n \<and> m_started (in_metrics i1) = Suc (outcomes_counted (in_metrics i1)) \<and>
       outcomes_counted (in_metrics i1) = length (in_offered i1) \<and> list_all obs_clean (in_offered i1))"
proof -
  have skip: "installer_ok n (count_metric (CountSkip k) i)" for k
    using assms(2) by (simp add: installer_ok_def count_metric_def CountSkip_def outcomes_counted_def)
  define streaming where
    "streaming = (if prof = ProfileSearchRouter then False else isEventStream mime (rs_content_type resp))"
  define obsv where "obsv = new_observation (in_provider i) prof (rs_status resp) st streaming"
  have oc: "obs_clean obsv" by (simp add: obsv_def new_observation_clean)
  have encd: "installer_ok n (inst_finalize now obsv (Abandoned AbandonEncodedBody) (count_metric start_metric i))"
    using assms(2) inst_finalize_fields [of "Abandoned AbandonEncodedBody" obsv, OF _ oc]
    by (simp add: installer_ok_def count_metric_def) (simp add: start_metric_def)
  have pool: "length (in_pool i) = n" using assms(2) by (simp add: installer_ok_def)
  define bad where "bad \<longleftrightarrow> rs_status resp < 200 \<or> 299 < rs_status resp"
  define off where "off \<longleftrightarrow> streaming \<and> \<not> in_observe_streams i"
  define enc where "enc \<longleftrightarrow> rs_content_encoding resp \<noteq> [] \<and> rs_content_encoding resp \<noteq> ''identity''"
  define p where "p = select_parser (in_limits i) prof streaming (rs_request_id resp)"
  have eq: "(r, i1) =
     (if \<not> met then (NotObserved, count_metric (CountSkip SkipNonMeterableRoute) i)
      else if bad then (NotObserved, count_metric (CountSkip SkipUpstreamStatus) i)
      else if off then (NotObserved, i)
      else if enc then (NotObserved, inst_finalize now obsv (Abandoned AbandonEncodedBody) (count_metric start_metric i))
      else (case in_pool i of [] \<Rightarrow> (NotObserved, count_metric (CountSkip SkipNoRing) i)
            | b # bs \<Rightarrow> (Observing p b obsv, count_metric start_metric (i\<lparr>in_pool := bs\<rparr>))))"
    unfolding assms(1) [symmetric] Install_def Let_def tryGet_def bad_def off_def enc_def p_def obsv_def streaming_def
    by (simp split: list.split)
  show ?thesis
  proof (cases "\<not> met \<or> bad \<or> off \<or> enc \<or> in_pool i = []")
    case True
    then have "r = NotObserved" "installer_ok n i1"
      using eq skip encd assms(2) by (auto split: if_split_asm)
    then show ?thesis by simp
  next
    case False
    then obtain b bs where b: "in_pool i = b # bs" by (cases "in_pool i") auto
    with False eq have "r = Observing p b obsv" "i1 = count_metric start_metric (i\<lparr>in_pool := bs\<rparr>)" by simp_all
    moreover have "any_clean p" "any_good p" unfolding p_def by (rule any_clean_select any_good_select)+
    ultimately show ?thesis using assms(2) b oc
      by (simp add: installer_ok_def count_metric_def) (simp add: start_metric_def)
  qed
qed

lemma serve_ok:
  assumes "serve mime x i = Some i1" "installer_ok n i"
  shows "installer_ok n i1"
proof -
  obtain r j where r: "Install mime (ex_response x) (ex_meterable x) (ex_profile x) (ex_started x) (ex_now x) i = (r, j)"
    by (cases "Install mime (ex_response x) (ex_meterable x) (ex_profile x) (ex_started x) (ex_now x) i")
  from Install_cases [OF r assms(2)] show ?thesis
  proof
    assume "r = NotObserved \<and> installer_ok n j"
    then show ?thesis using assms(1) r by (simp add: serve_def)
  next
    assume "\<exists>p b obsv. r = Observing p b obsv \<and> any_clean p \<and> any_good p \<and> obs_clean obsv \<and>
       Suc (length (in_pool j)) = n \<and> m_started (in_metrics j) = Suc (outcomes_counted (in_metrics j)) \<and>
       outcomes_counted (in_metrics j) = length (in_offered j) \<and> list_all obs_clean (in_offered j)"
    then obtain p b obsv where a: "r = Observing p b obsv" "any_clean p" "obs_clean obsv"
      "Suc (length (in_pool j)) = n" "m_started (in_metrics j) = Suc (outcomes_counted (in_metrics j))"
      "outcomes_counted (in_metrics j) = length (in_offered j)" "list_all obs_clean (in_offered j)" by blast
    obtain o1 oc where v: "run_observer any_consume any_abort_reason any_terminated any_finalize
        (lm_max_body (in_limits j)) obsv p 0 (ex_events x) = Some (o1, oc)"
      "i1 = (inst_finalize (ex_now x) o1 oc j)\<lparr>in_pool := pool_put b (in_pool j)\<rparr>"
      using assms(1) r a(1) by (auto simp: serve_def runObserver_def split: option.splits)
    have c: "obs_clean o1" "oc \<noteq> NoOutcome" using run_observer_clean [OF a(2,3) v(1)] by simp_all
    show ?thesis unfolding v(2) using a inst_finalize_fields [OF c(2,1), of "ex_now x" j]
      by (simp add: installer_ok_def pool_put_def)
  qed
qed

lemma serve_all_ok: "serve_all mime xs i = Some i1 \<Longrightarrow> installer_ok n i \<Longrightarrow> installer_ok n i1"
proof (induction xs arbitrary: i)
  case (Cons x xs)
  then show ?case using serve_ok [of mime x i _ n] by (auto split: option.splits)
qed simp

lemma installer_ok_new:
  "installer_ok (lm_memory_budget lim div lm_ring_bytes lim) (NewInstaller pr lim)"
  by (simp add: installer_ok_def NewInstaller_def newRingPool_def zero_metrics_def outcomes_counted_def
      all_terminations_def all_reasons_def)

section \<open>Whole responses\<close>

text \<open>The observation a JSON chat completion gives, in terms of the reading of its document.\<close>

definition json_observed :: "scan_result \<Rightarrow> observation \<Rightarrow> observation \<times> outcome" where
  "json_observed r obsv =
     (let o1 = obsv\<lparr>ob_generation_id := r_id r, ob_resolved_model := r_model r,
                    ob_finish_reason := r_finish_reason r, ob_error_type := r_err_type r,
                    ob_error_code := r_err_code r, ob_saw_finish_reason := r_saw_finish_reason r,
                    ob_parse_degraded := r_degraded r\<rparr>;
          o2 = (if r_saw_usage r then o1\<lparr>ob_saw_usage := True, ob_usage := Some (r_usage r)\<rparr> else o1)
      in if r_saw_error r then (o2, Complete TerminationUpstreamErrorEvent)
         else (o2\<lparr>ob_saw_done := True\<rparr>, Complete TerminationDone))"

lemma json_one_shot:
  assumes "is_container v" "json_ok v" "jdepth v \<le> d" "\<not> isClientDisconnect err"
  shows "one_shot json_consume json_abort_reason json_terminated json_finalize obsv (newJSONParser d k) (render v) err =
    json_observed (scan_spec whitelist k v) obsv"
proof -
  let ?s = "feed (render v) (newScannerFor whitelist d k)"
  have f: "sc_res (finish ?s) = scan_spec whitelist k v"
    using scan_document_walk [OF assms(1-3), of whitelist k] by (simp add: scan_document_def)
  have fa: "ab (finish ?s) = None" unfolding f by (rule scan_spec_whole(1))
  have "ab ?s = None"
  proof (rule ccontr)
    assume n: "ab ?s \<noteq> None"
    have "alive_ok ?s" by (rule alive_ok_feed [OF alive_ok_new])
    then have "sc_state ?s = StDead" using n by (simp add: alive_ok_def)
    then have "ab (finish ?s) = ab ?s" by (simp add: finish_def resolveChosen_def degrade_def Let_def)
    with n fa show False by simp
  qed
  then show ?thesis using assms(4) f scan_spec_whole [of whitelist k v]
    by (simp add: one_shot_def json_consume_def newJSONParser_def newScanner_def json_abort_reason_def
        json_terminated_def json_finalize_def json_observed_def Let_def)
qed

definition sse_observed :: "stream_merge \<Rightarrow> observation \<Rightarrow> observation" where
  "sse_observed m obsv =
     (let o1 = obsv\<lparr>ob_generation_id := mg_id m, ob_resolved_model := mg_model m,
                    ob_finish_reason := mg_finish_reason m, ob_error_type := mg_err_type m,
                    ob_error_code := mg_err_code m, ob_saw_done := True,
                    ob_saw_usage := mg_saw_usage m, ob_saw_finish_reason := mg_saw_finish_reason m,
                    ob_parse_degraded := mg_degraded m, ob_metadata_conflict := mg_conflict m\<rparr>
      in case mg_usage m of Some u \<Rightarrow> o1\<lparr>ob_usage := Some u\<rparr> | None \<Rightarrow> o1)"

lemma sse_one_shot:
  assumes "line_end nl" "list_all (chunk_ok d k mb) vs" "int (length vs) \<le> me" "6 \<le> mb"
  shows "one_shot sse_consume sse_abort_reason sse_terminated sse_finalize obsv (newSSEFramer d k mb me)
      (stream_bytes nl (map doc_event vs @ [done_event])) err =
    (sse_observed (fold (\<lambda>v. merge_apply (scan_spec whitelist k v)) vs empty_merge) obsv, Complete TerminationDone)"
proof -
  define f where "f = sse_consume (stream_bytes nl (map doc_event vs @ [done_event])) (newSSEFramer d k mb me)"
  have v: "view f = \<lparr>vw_merge = fold (\<lambda>v. merge_apply (scan_spec whitelist k v)) vs empty_merge,
      vw_events = length vs, vw_stop = Some StopDone\<rparr>"
    unfolding f_def by (rule docs_stream_view [OF assms])
  have a: "ff_abort f = None" "ff_done_seen f"
    using v by (auto simp: view_def split: option.splits if_splits)
  have m: "ff_merge f = fold (\<lambda>v. merge_apply (scan_spec whitelist k v)) vs empty_merge"
    using v by (simp add: view_def)
  show ?thesis
    unfolding one_shot_def f_def [symmetric] Let_def sse_abort_reason_def sse_terminated_def a
    by (simp add: sse_finalize_def sse_observed_def a m Let_def split: option.split)
qed

section \<open>Properties\<close>

text \<open>
  C13.  For every interleaving of body reads, the close and turns of the observer: at the turn where
  the observer meets the end of the body, its verdict is that of the parser reading the whole body at
  once, however the bytes were cut up, for each of the three parsers.
\<close>

theorem observer_schedule_independent:
  assumes "0 < length b" "length b < 2 ^ 64" "any_good p"
    and "tap_run ops (newTap b pool) = (t, evs, R)" "list_all no_eof evs"
    and "observe_turn t = (ObsEOF err, t')" "int (length R) \<le> maxBody" "length R < 2 ^ 64"
  shows "run_observer any_consume any_abort_reason any_terminated any_finalize maxBody obsv p 0 (evs @ [ObsEOF err]) =
    Some (one_shot any_consume any_abort_reason any_terminated any_finalize obsv p R err)"
  using assms by (rule observed_is_one_shot)

lemma observer_schedule_independent_witness:
  "\<forall>obsv. \<exists>evs err. run_observer any_consume any_abort_reason any_terminated any_finalize 100 obsv
      (PJson (newJSONParser 4 8)) 0 (evs @ [ObsEOF err]) =
    Some (one_shot any_consume any_abort_reason any_terminated any_finalize obsv (PJson (newJSONParser 4 8)) ''[1]'' err)"
proof (intro allI, goal_cases)
  case (1 obsv)
  let ?ops = "[TapRead ''[1'' None, ObsTurn, TapRead '']'' (Some ReadEOF), ObsTurn]"
  let ?b = "replicate 4 CHR 0x00"
  obtain t evs R where r: "tap_run ?ops (newTap ?b []) = (t, evs, R)" by (metis prod.exhaust)
  have c: "snd (snd (tap_run ?ops (newTap ?b []))) = ''[1]''"
    "list_all no_eof (fst (snd (tap_run ?ops (newTap ?b []))))"
    "fst (observe_turn (fst (tap_run ?ops (newTap ?b [])))) = ObsEOF (Some ReadEOF)"
    by code_simp+
  note c' = c [unfolded r fst_conv snd_conv]
  have R: "R = ''[1]''" "list_all no_eof evs" using c'(1,2) by simp_all
  have e: "observe_turn t = (ObsEOF (Some ReadEOF), snd (observe_turn t))" using c'(3) by (metis prod.collapse)
  have "any_good (PJson (newJSONParser 4 8))" by (simp add: json_good_def newJSONParser_def newScanner_def alive_ok_new)
  from observer_schedule_independent [OF _ _ this r R(2) e, of 100 obsv] R(1) show ?case by auto
qed

text \<open>
  C14.  A chat completion body that is a JSON object or array within the depth limit: for every
  schedule of drains, the observation is the one read off the document.
\<close>

theorem json_response_observed:
  assumes "is_container v" "json_ok v" "jdepth v \<le> d" "\<not> isClientDisconnect err"
    and "list_all quiet_event es" "concat (map event_bytes es) = render v" "int (length (render v)) \<le> maxBody"
  shows "run_observer json_consume json_abort_reason json_terminated json_finalize maxBody obsv (newJSONParser d k) 0
      (es @ [ObsEOF err]) = Some (json_observed (scan_spec whitelist k v) obsv)"
proof -
  have "json_good (newJSONParser d k)" by (simp add: json_good_def newJSONParser_def newScanner_def alive_ok_new)
  from json_body.run_is_one_shot [OF this assms(5), of 0 maxBody json_finalize obsv err]
  show ?thesis using assms(6,7) json_one_shot [OF assms(1-4), of obsv k] by simp
qed

lemma json_response_observed_witness:
  "run_observer json_consume json_abort_reason json_terminated json_finalize 100 (new_observation ''openrouter'' ProfileChatCompletion 200 zero_time False) (newJSONParser 4 8) 0
     ([ObsDrain [''[1'', '',''], ObsIdle, ObsDrain [''2]'']] @ [ObsEOF (Some ReadEOF)]) =
   Some (json_observed (scan_spec whitelist 8 (JArr [JNum ''1'', JNum ''2''])) (new_observation ''openrouter'' ProfileChatCompletion 200 zero_time False))"
  by (rule json_response_observed)
    (simp_all add: number_text_def is_number_char_def is_digit_def isClientDisconnect_def quiet_event_def)

text \<open>
  C15.  A stream of chunk objects closed by \<^verbatim>\<open>[DONE]\<close>: for every schedule of drains the observation
  carries the merge of the chunks and the outcome is complete.
\<close>

theorem sse_response_observed:
  assumes "line_end nl" "list_all (chunk_ok d k mb) vs" "int (length vs) \<le> me" "6 \<le> mb"
    and "list_all quiet_event es" "concat (map event_bytes es) = stream_bytes nl (map doc_event vs @ [done_event])"
    and "int (length (concat (map event_bytes es))) \<le> maxBody"
  shows "run_observer sse_consume sse_abort_reason sse_terminated sse_finalize maxBody obsv (newSSEFramer d k mb me) 0
      (es @ [ObsEOF err]) =
    Some (sse_observed (fold (\<lambda>v. merge_apply (scan_spec whitelist k v)) vs empty_merge) obsv, Complete TerminationDone)"
  using sse_body.run_is_one_shot [OF TrueI assms(5), of 0 maxBody sse_finalize obsv "newSSEFramer d k mb me" err]
    assms(6,7) sse_one_shot [OF assms(1-4), of obsv err] by simp

lemma sse_response_observed_witness:
  "run_observer sse_consume sse_abort_reason sse_terminated sse_finalize 100 (new_observation ''openrouter'' ProfileChatCompletion 200 zero_time False) (newSSEFramer 4 8 90 10) 0
      ([ObsDrain [stream_bytes [CHR 0x0A] (map doc_event [JObj []] @ [done_event])]] @ [ObsEOF None]) =
    Some (sse_observed (fold (\<lambda>v. merge_apply (scan_spec whitelist 8 v)) [JObj []] empty_merge) (new_observation ''openrouter'' ProfileChatCompletion 200 zero_time False),
          Complete TerminationDone)"
  by (rule sse_response_observed [where nl = "[CHR 0x0A]"]) (simp add: line_end_def, code_simp, simp, simp, simp add: quiet_event_def, simp, code_simp)


definition sample_exchange :: exchange where
  "sample_exchange =
     \<lparr>ex_response = \<lparr>rs_status = 200, rs_content_type = ''application/json'', rs_content_encoding = [],
        rs_request_id = []\<rparr>, ex_meterable = True, ex_profile = ProfileChatCompletion,
      ex_started = zero_time, ex_now = zero_time,
      ex_events = [ObsDrain [''[1]''], ObsEOF None]\<rparr>"




end
