(* ===== verification/Promote.thy ===== *)
theory Promote
  imports Wire Observation
begin

text \<open>
  \<^verbatim>\<open>pkg/mining/promote/promote.go\<close>: the mapping of a finished observation to the wire record.
  \<open>Eligible\<close> is the structural rule, \<open>Build\<close> the mapping, whose last step is the validation of
  \<^verbatim>\<open>pkg/wire\<close>; a nil observation is \<open>None\<close>.  The lemmas say which observations are promoted and
  that the record reads back as the observation it came from.
\<close>

section \<open>The code\<close>

datatype promote_error = ErrNotPromotable | ErrNoClientRecordID | ErrWire wire_error

definition Eligible :: "observation option \<Rightarrow> bool" where
  "Eligible obs =
     (case obs of
        None \<Rightarrow> False
      | Some ob \<Rightarrow> if ob_generation_id ob = [] then False else outcome_termination (ob_outcome ob) \<noteq> None)"

definition sourceProfileFor :: "profile \<Rightarrow> string" where
  "sourceProfileFor p =
     (if p = ProfileSearchRouter then SourceProfileSearchRouterV1 else SourceProfileOpenRouterV1)"

definition usage_record :: "usage \<Rightarrow> usage_v1" where
  "usage_record u =
     \<lparr>u_prompt_tokens = format_uint (unat (us_prompt u)),
      u_completion_tokens = format_uint (unat (us_completion u)),
      u_total_tokens = format_uint (unat (us_total u)),
      u_cached_tokens = [], u_reasoning_tokens = [], u_cost = []\<rparr>"

definition promoted_record :: "observation \<Rightarrow> termination_kind \<Rightarrow> string \<Rightarrow> provider_observation" where
  "promoted_record ob t clientRecordID =
     \<lparr>po_version = ObservationVersion, po_client_record_id = clientRecordID,
      po_source_profile = sourceProfileFor (ob_profile ob),
      po_provider_event_id = ob_generation_id ob, po_requested_model = [],
      po_resolved_model = ob_resolved_model ob, po_request_parameters = [],
      po_started_at = (if ob_started_at ob = zero_time then [] else format_millis (ob_started_at ob)),
      po_finished_at = (if ob_finished_at ob = zero_time then [] else format_millis (ob_finished_at ob)),
      po_streaming = ob_streaming ob, po_status_code = ob_status_code ob,
      po_usage = map_option usage_record (ob_usage ob),
      po_finish_reason = ob_finish_reason ob,
      po_outcome = \<lparr>oc_type = OutcomeComplete, oc_termination = termination_text t, oc_reason = []\<rparr>,
      po_saw_done = ob_saw_done ob, po_saw_usage = ob_saw_usage ob,
      po_saw_finish_reason = ob_saw_finish_reason ob, po_parse_degraded = ob_parse_degraded ob,
      po_metadata_conflict = ob_metadata_conflict ob,
      po_source_data =
        (if sourceProfileFor (ob_profile ob) = SourceProfileOpenRouterV1 \<and> ob_provider ob \<noteq> []
         then Some [(''provider_name'', SStr (ob_provider ob))] else None)\<rparr>"

definition Build :: "observation option \<Rightarrow> string \<Rightarrow> promote_error + provider_observation" where
  "Build obs clientRecordID =
     (if \<not> Eligible obs then Inl ErrNotPromotable
      else if clientRecordID = [] then Inl ErrNoClientRecordID
      else (case obs of
              None \<Rightarrow> Inl ErrNotPromotable
            | Some ob \<Rightarrow>
                (case outcome_termination (ob_outcome ob) of
                   None \<Rightarrow> Inl ErrNotPromotable
                 | Some t \<Rightarrow>
                     let rec = promoted_record ob t clientRecordID in
                     (case validate_observation rec of
                        Some e \<Rightarrow> Inl (ErrWire e)
                      | None \<Rightarrow> Inr rec))))"

section \<open>Lemmas\<close>

lemma termination_text_closed: "termination_text t \<in> set terminations"
  by (cases t) (simp_all add: terminations_def)

lemma validate_usage_record: "validate_usage (usage_record u) = None"
  by (simp add: validate_usage_def usage_record_def usage_counters_def canonical_format_uint)

definition timestamp_ok :: "go_time \<Rightarrow> bool" where
  "timestamp_ok t \<longleftrightarrow> civil_ok t \<and> t_year t < 10000"

lemma timestamp_field_ok:
  "timestamp_ok t \<Longrightarrow> (if t = zero_time then [] else format_millis t) = [] \<or>
     rfc3339_ok (if t = zero_time then [] else format_millis t)"
  by (simp add: timestamp_ok_def rfc3339_format_millis)

lemma known_profile: "\<exists>prof. map_of sourceProfiles (sourceProfileFor p) = Some prof"
  by (simp add: sourceProfileFor_def sourceProfiles_def SourceProfileOpenRouterV1_def
      SourceProfileSearchRouterV1_def)

lemma openrouter_profile:
  "map_of sourceProfiles SourceProfileOpenRouterV1 =
     Some \<lparr>sp_name = SourceProfileOpenRouterV1, sp_source_data = sourceDataAllowlistOpenRouterV1,
           sp_event_id_field = ''generation_id''\<rparr>"
  by (simp add: sourceProfiles_def)

text \<open>A provider name within the value bound never exceeds the bound on the whole object.\<close>

lemma provider_source_data:
  assumes prof: "map_of sourceProfiles (sourceProfileFor (ob_profile ob)) = Some prof"
  shows "validateSourceData (promoted_record ob t cid) prof = None \<longleftrightarrow>
         (ob_profile ob = ProfileChatCompletion \<longrightarrow> length (ob_provider ob) \<le> 128)"
proof (cases "ob_profile ob = ProfileChatCompletion \<and> ob_provider ob \<noteq> []")
  case True
  have sp: "sourceProfileFor ProfileChatCompletion = SourceProfileOpenRouterV1"
    by (simp add: sourceProfileFor_def)
  have "sp_source_data prof = sourceDataAllowlistOpenRouterV1"
    using prof True sp openrouter_profile by auto
  then have allowed: "''provider_name'' \<in> set (sp_source_data prof)"
    by (simp add: sourceDataAllowlistOpenRouterV1_def)
  have key: "length (json_quote ''provider_name'') \<le> 80"
    using json_quote_length [of "''provider_name''"] by simp
  have val: "length (json_quote (ob_provider ob)) \<le> 6 * length (ob_provider ob) + 2"
    by (rule json_quote_length)
  have m: "marshal_map [(''provider_name'', SStr (ob_provider ob))] =
             Some (CHR 0x7B # (json_quote ''provider_name'' @ '':'' @ json_quote (ob_provider ob)) @ [CHR 0x7D])"
    by (simp add: marshal_map_def)
  show ?thesis
    using True sp allowed key val
    by (auto simp: validateSourceData_def promoted_record_def m validate_source_entry_def
        MaxSourceDataKeys_def MaxSourceDataValueBytes_def MaxSourceDataBytes_def)
next
  case False
  have "sourceProfileFor (ob_profile ob) = SourceProfileOpenRouterV1 \<Longrightarrow> ob_profile ob = ProfileChatCompletion"
    by (cases "ob_profile ob")
      (simp_all add: sourceProfileFor_def SourceProfileOpenRouterV1_def SourceProfileSearchRouterV1_def)
  with False have "po_source_data (promoted_record ob t cid) = None"
    by (auto simp: promoted_record_def)
  with False show ?thesis by (auto simp: validateSourceData_def)
qed

lemma promoted_fields [simp]:
  "po_version (promoted_record ob t cid) = ObservationVersion"
  "po_client_record_id (promoted_record ob t cid) = cid"
  "po_source_profile (promoted_record ob t cid) = sourceProfileFor (ob_profile ob)"
  "po_provider_event_id (promoted_record ob t cid) = ob_generation_id ob"
  "po_outcome (promoted_record ob t cid) =
     \<lparr>oc_type = OutcomeComplete, oc_termination = termination_text t, oc_reason = []\<rparr>"
  "po_status_code (promoted_record ob t cid) = ob_status_code ob"
  "po_usage (promoted_record ob t cid) = map_option usage_record (ob_usage ob)"
  "po_request_parameters (promoted_record ob t cid) = []"
  "po_started_at (promoted_record ob t cid) =
     (if ob_started_at ob = zero_time then [] else format_millis (ob_started_at ob))"
  "po_finished_at (promoted_record ob t cid) =
     (if ob_finished_at ob = zero_time then [] else format_millis (ob_finished_at ob))"
  by (simp_all add: promoted_record_def)

lemma promoted_valid_iff:
  assumes "timestamp_ok (ob_started_at ob)" and "timestamp_ok (ob_finished_at ob)"
  shows "validate_observation (promoted_record ob t cid) = None \<longleftrightarrow>
           cid \<noteq> [] \<and> length cid \<le> 128 \<and> ob_generation_id ob \<noteq> [] \<and> length (ob_generation_id ob) \<le> 256 \<and>
           (ob_status_code ob = 0 \<or> 100 \<le> ob_status_code ob \<and> ob_status_code ob \<le> 599) \<and>
           (ob_profile ob = ProfileChatCompletion \<longrightarrow> length (ob_provider ob) \<le> 128)"
proof -
  obtain prof where prof: "map_of sourceProfiles (sourceProfileFor (ob_profile ob)) = Some prof"
    using known_profile by blast
  have out: "validate_outcome \<lparr>oc_type = OutcomeComplete, oc_termination = termination_text t, oc_reason = []\<rparr> = None"
    by (simp add: validate_outcome_def termination_text_closed)
  have ts: "first_error (\<lambda>(name, ts). if ts = [] \<or> rfc3339_ok ts then None else Some (BadTimestamp name))
              [(''started_at'', po_started_at (promoted_record ob t cid)),
               (''finished_at'', po_finished_at (promoted_record ob t cid))] = None"
    using timestamp_field_ok [OF assms(1)] timestamp_field_ok [OF assms(2)] by simp
  have us: "(case po_usage (promoted_record ob t cid) of None \<Rightarrow> None | Some u \<Rightarrow> validate_usage u) = None"
    by (simp add: validate_usage_record split: option.split)
  show ?thesis
    unfolding validate_observation_def ts us
    using provider_source_data [OF prof, of t cid] out prof
    by (simp, auto)
qed

lemma Eligible_Some:
  "Eligible (Some ob) \<longleftrightarrow> ob_generation_id ob \<noteq> [] \<and> IsComplete (ob_outcome ob)"
  by (cases "ob_outcome ob") (simp_all add: Eligible_def)

text \<open>The counters of a promoted record read back as the counters observed.\<close>

lemma usage_record_roundtrip:
  "parse_uint64 (u_prompt_tokens (usage_record u)) = Some (unat (us_prompt u)) \<and>
   parse_uint64 (u_completion_tokens (usage_record u)) = Some (unat (us_completion u)) \<and>
   parse_uint64 (u_total_tokens (usage_record u)) = Some (unat (us_total u))"
proof -
  have "unat w < 2 ^ 64" for w :: "64 word" using unsigned_less [of w] by simp
  then show ?thesis by (simp add: usage_record_def parse_format_uint)
qed

section \<open>Properties\<close>

text \<open>What the contract asks of an observation and of the identity minted for it.\<close>

definition promotable :: "observation \<Rightarrow> string \<Rightarrow> bool" where
  "promotable ob cid \<longleftrightarrow>
     IsComplete (ob_outcome ob) \<and> ob_generation_id ob \<noteq> [] \<and> length (ob_generation_id ob) \<le> 256 \<and>
     cid \<noteq> [] \<and> length cid \<le> 128 \<and>
     (ob_status_code ob = 0 \<or> 100 \<le> ob_status_code ob \<and> ob_status_code ob \<le> 599) \<and>
     (ob_profile ob = ProfileChatCompletion \<longrightarrow> length (ob_provider ob) \<le> 128)"

lemma Build_Inr_iff:
  "Build (Some ob) cid = Inr rec \<longleftrightarrow>
     (\<exists>t. ob_outcome ob = Complete t \<and> ob_generation_id ob \<noteq> [] \<and> cid \<noteq> [] \<and>
          validate_observation (promoted_record ob t cid) = None \<and> rec = promoted_record ob t cid)"
  by (cases "ob_outcome ob") (auto simp: Build_def Eligible_def Let_def split: option.splits)

text \<open>
  C18. Promotion succeeds exactly on the observations the contract names: complete, with a
  generation id of at most 256 bytes, an HTTP status in range, a client record id of 1 to 128
  bytes and, for OPENROUTER_V1, a provider name of at most 128 bytes.  The 1024 byte bound on
  the source data object, the timestamps and the counters are never the reason of a refusal.
\<close>

theorem promotion_exact:
  assumes "timestamp_ok (ob_started_at ob)" and "timestamp_ok (ob_finished_at ob)"
  shows "(\<exists>rec. Build (Some ob) cid = Inr rec) \<longleftrightarrow> promotable ob cid"
  unfolding Build_Inr_iff promoted_valid_iff [OF assms] promotable_def
  by (cases "ob_outcome ob") auto

definition sample_observation :: observation where
  "sample_observation =
     (new_observation ''acme'' ProfileChatCompletion 200
        \<lparr>t_year = 2026, t_month = 2, t_day = 28, t_hour = 23, t_min = 59, t_sec = 1, t_nanos = 5000000\<rparr> True)
     \<lparr>ob_generation_id := ''gen-1'', ob_outcome := Complete TerminationDone,
      ob_usage := Some \<lparr>us_prompt = 12, us_completion = 3, us_total = 18446744073709551615\<rparr>\<rparr>"

lemma sample_times:
  "timestamp_ok (ob_started_at sample_observation)" "timestamp_ok (ob_finished_at sample_observation)"
  by (simp_all add: sample_observation_def new_observation_def timestamp_ok_def civil_ok_def zero_time_def
      days_in_def leap_year_def)

lemma sample_promotable: "promotable sample_observation ''r1''"
  by (simp add: sample_observation_def new_observation_def promotable_def)

lemma promotion_exact_witness: "\<exists>rec. Build (Some sample_observation) ''r1'' = Inr rec"
  using promotion_exact [OF sample_times, of "''r1''"] sample_promotable by simp



end
