(* ===== verification/Sha256.thy ===== *)
theory Sha256
  imports Prelude
begin

text \<open>
  The parts of the Go standard library under \<^verbatim>\<open>crypto/sha256\<close>, \<^verbatim>\<open>crypto/hmac\<close>,
  \<^verbatim>\<open>encoding/binary\<close> and \<^verbatim>\<open>encoding/hex\<close> that the source calls, as executable functions on
  byte strings.  The compression function is that of FIPS 180-4 on 32 bit words.
\<close>

unbundle bit_operations_syntax

section \<open>encoding/binary: big endian\<close>

fun be_bytes :: "nat \<Rightarrow> nat \<Rightarrow> bytes" where
  "be_bytes 0 n = []"
| "be_bytes (Suc k) n = be_bytes k (n div 256) @ [char_of (n mod 256)]"

definition be_value :: "bytes \<Rightarrow> nat" where
  "be_value s = foldl (\<lambda>v c. v * 256 + b2n c) 0 s"

lemma be_bytes_length [simp]: "length (be_bytes k n) = k"
  by (induction k arbitrary: n) simp_all

lemma be_value_snoc: "be_value (s @ [c]) = be_value s * 256 + b2n c"
  by (simp add: be_value_def)

lemma be_value_bytes: "n < 256 ^ k \<Longrightarrow> be_value (be_bytes k n) = n"
proof (induction k arbitrary: n)
  case 0
  then show ?case by (simp add: be_value_def)
next
  case (Suc k)
  then have "n div 256 < 256 ^ k" by (simp add: less_mult_imp_div_less mult.commute)
  with Suc.IH show ?case by (simp add: be_value_snoc of_char_of)
qed

lemma be_bytes_inj: "m < 256 ^ k \<Longrightarrow> n < 256 ^ k \<Longrightarrow> be_bytes k m = be_bytes k n \<longleftrightarrow> m = n"
  by (metis be_value_bytes)

section \<open>encoding/hex\<close>

definition hex_encode :: "bytes \<Rightarrow> string" where
  "hex_encode s = concat (map (\<lambda>c. [hex_digit (b2n c div 16), hex_digit (b2n c mod 16)]) s)"

text \<open>\<^verbatim>\<open>hex.DecodeString\<close> takes both cases of a digit.\<close>

definition hex_value :: "char \<Rightarrow> nat option" where
  "hex_value c =
     (if is_digit c then Some (b2n c - 48)
      else if 97 \<le> b2n c \<and> b2n c \<le> 102 then Some (b2n c - 87)
      else if 65 \<le> b2n c \<and> b2n c \<le> 70 then Some (b2n c - 55)
      else None)"

fun hex_decode :: "string \<Rightarrow> bytes option" where
  "hex_decode [] = Some []"
| "hex_decode [c] = None"
| "hex_decode (a # b # s) =
     (case (hex_value a, hex_value b, hex_decode s) of
        (Some x, Some y, Some r) \<Rightarrow> Some (char_of (x * 16 + y) # r)
      | _ \<Rightarrow> None)"

definition is_hex_lower :: "char \<Rightarrow> bool" where
  "is_hex_lower c \<longleftrightarrow> is_digit c \<or> 97 \<le> b2n c \<and> b2n c \<le> 102"

lemma hex_digit_b2n: "n < 16 \<Longrightarrow> b2n (hex_digit n) = (if n < 10 then 48 + n else 87 + n)"
  by (simp add: hex_digit_def of_char_of)

lemma is_hex_lower_hex_digit: "n < 16 \<Longrightarrow> is_hex_lower (hex_digit n)"
  by (simp add: is_hex_lower_def is_digit_def hex_digit_b2n)

lemma hex_value_hex_digit: "n < 16 \<Longrightarrow> hex_value (hex_digit n) = Some n"
  by (simp add: hex_value_def is_digit_def hex_digit_b2n)

lemma hex_value_lower:
  assumes "is_hex_lower c"
  obtains n where "hex_value c = Some n" and "n < 16" and "hex_digit n = c"
proof -
  define n where "n = (if is_digit c then b2n c - 48 else b2n c - 87)"
  have v: "hex_value c = Some n" "n < 16"
    using assms by (auto simp: hex_value_def is_hex_lower_def is_digit_def n_def)
  have "b2n (hex_digit n) = b2n c"
    using assms v(2) by (auto simp: hex_digit_b2n is_hex_lower_def is_digit_def n_def split: if_splits)
  then have "hex_digit n = c" by simp
  with v that show thesis by blast
qed

lemma hex_encode_length [simp]: "length (hex_encode s) = 2 * length s"
  by (induction s) (simp_all add: hex_encode_def)

lemma hex_encode_lower: "list_all is_hex_lower (hex_encode s)"
proof (induction s)
  case Nil
  then show ?case by (simp add: hex_encode_def)
next
  case (Cons c s)
  have "b2n c div 16 < 16" "b2n c mod 16 < 16" using b2n_less [of c] by linarith+
  with Cons show ?case by (simp add: hex_encode_def is_hex_lower_hex_digit)
qed

lemma hex_decode_encode: "hex_decode (hex_encode s) = Some s"
proof (induction s)
  case Nil
  then show ?case by (simp add: hex_encode_def)
next
  case (Cons c s)
  have b: "b2n c div 16 < 16" "b2n c mod 16 < 16" using b2n_less [of c] by linarith+
  have "char_of (b2n c div 16 * 16 + b2n c mod 16) = c" by simp
  with Cons b show ?case by (simp add: hex_encode_def hex_value_hex_digit)
qed

lemma hex_encode_decode:
  "list_all is_hex_lower s \<Longrightarrow> even (length s) \<Longrightarrow>
   \<exists>b. hex_decode s = Some b \<and> hex_encode b = s \<and> 2 * length b = length s"
proof (induction s rule: hex_decode.induct)
  case 1
  then show ?case by (simp add: hex_encode_def)
next
  case (2 c)
  then show ?case by simp
next
  case (3 a b s)
  then obtain r where r: "hex_decode s = Some r" "hex_encode r = s" "2 * length r = length s" by auto
  obtain x where x: "hex_value a = Some x" "x < 16" "hex_digit x = a"
    using 3 by (auto elim: hex_value_lower)
  obtain y where y: "hex_value b = Some y" "y < 16" "hex_digit y = b"
    using 3 by (auto elim: hex_value_lower)
  have "(x * 16 + y) mod 256 = x * 16 + y" using x y by simp
  then have "(of_char (char_of (x * 16 + y) :: char) :: nat) = x * 16 + y" by (simp add: of_char_of)
  then have "hex_encode (char_of (x * 16 + y) # r) = a # b # s"
    using x y r by (simp add: hex_encode_def)
  then show ?case using x y r by simp
qed

section \<open>crypto/sha256\<close>

type_synonym w32 = "32 word"

definition rotr :: "nat \<Rightarrow> w32 \<Rightarrow> w32" where
  "rotr n x = (drop_bit n x) OR (push_bit (32 - n) x)"

definition sha_k :: "w32 list" where
  "sha_k = concat
     [[0x428a2f98, 0x71374491, 0xb5c0fbcf, 0xe9b5dba5, 0x3956c25b, 0x59f111f1, 0x923f82a4, 0xab1c5ed5],
      [0xd807aa98, 0x12835b01, 0x243185be, 0x550c7dc3, 0x72be5d74, 0x80deb1fe, 0x9bdc06a7, 0xc19bf174],
      [0xe49b69c1, 0xefbe4786, 0x0fc19dc6, 0x240ca1cc, 0x2de92c6f, 0x4a7484aa, 0x5cb0a9dc, 0x76f988da],
      [0x983e5152, 0xa831c66d, 0xb00327c8, 0xbf597fc7, 0xc6e00bf3, 0xd5a79147, 0x06ca6351, 0x14292967],
      [0x27b70a85, 0x2e1b2138, 0x4d2c6dfc, 0x53380d13, 0x650a7354, 0x766a0abb, 0x81c2c92e, 0x92722c85],
      [0xa2bfe8a1, 0xa81a664b, 0xc24b8b70, 0xc76c51a3, 0xd192e819, 0xd6990624, 0xf40e3585, 0x106aa070],
      [0x19a4c116, 0x1e376c08, 0x2748774c, 0x34b0bcb5, 0x391c0cb3, 0x4ed8aa4a, 0x5b9cca4f, 0x682e6ff3],
      [0x748f82ee, 0x78a5636f, 0x84c87814, 0x8cc70208, 0x90befffa, 0xa4506ceb, 0xbef9a3f7, 0xc67178f2]]"

definition sha_init :: "w32 list" where
  "sha_init =
     [0x6a09e667, 0xbb67ae85, 0x3c6ef372, 0xa54ff53a, 0x510e527f, 0x9b05688c, 0x1f83d9ab, 0x5be0cd19]"

definition sched_next :: "w32 \<Rightarrow> w32 \<Rightarrow> w32 \<Rightarrow> w32 \<Rightarrow> w32" where
  "sched_next w16 w15 w7 w2 =
     (rotr 17 w2 XOR rotr 19 w2 XOR drop_bit 10 w2) + w7 +
     (rotr 7 w15 XOR rotr 18 w15 XOR drop_bit 3 w15) + w16"

definition sha_step :: "w32 \<Rightarrow> w32 \<Rightarrow> w32 list \<Rightarrow> w32 list" where
  "sha_step k w st =
     (let a = st ! 0; b = st ! 1; c = st ! 2; d = st ! 3;
          e = st ! 4; f = st ! 5; g = st ! 6; h = st ! 7;
          t1 = h + (rotr 6 e XOR rotr 11 e XOR rotr 25 e) + ((e AND f) XOR ((NOT e) AND g)) + k + w;
          t2 = (rotr 2 a XOR rotr 13 a XOR rotr 22 a) + ((a AND b) XOR (a AND c) XOR (b AND c))
      in [t1 + t2, a, b, c, d + t1, e, f, g])"

text \<open>The message schedule is a window of sixteen words that moves with the rounds.\<close>

fun sha_rounds :: "w32 list \<Rightarrow> w32 list \<Rightarrow> w32 list \<Rightarrow> w32 list" where
  "sha_rounds [] ws st = st"
| "sha_rounds (k # ks) ws st =
     sha_rounds ks (tl ws @ [sched_next (ws ! 0) (ws ! 1) (ws ! 9) (ws ! 14)]) (sha_step k (hd ws) st)"

fun words_of :: "bytes \<Rightarrow> w32 list" where
  "words_of (a # b # c # d # r) = of_nat (be_value [a, b, c, d]) # words_of r"
| "words_of _ = []"

definition sha_block :: "bytes \<Rightarrow> w32 list \<Rightarrow> w32 list" where
  "sha_block blk st = map2 (+) st (sha_rounds sha_k (words_of blk) st)"

definition sha_pad :: "bytes \<Rightarrow> bytes" where
  "sha_pad s =
     s @ [CHR 0x80] @ replicate ((119 - length s mod 64) mod 64) (CHR 0x00) @ be_bytes 8 (8 * length s)"

function sha_blocks :: "bytes \<Rightarrow> w32 list \<Rightarrow> w32 list" where
  "sha_blocks s st = (if s = [] then st else sha_blocks (drop 64 s) (sha_block (take 64 s) st))"
  by pat_completeness auto
termination
  by (relation "measure (\<lambda>(s, _). length s)") auto

declare sha_blocks.simps [simp del]

definition sha256 :: "bytes \<Rightarrow> bytes" where
  "sha256 s = concat (map (\<lambda>w. be_bytes 4 (unat w)) (sha_blocks (sha_pad s) sha_init))"

text \<open>The digest has 32 bytes.\<close>

lemma sha_step_length: "length (sha_step k w st) = 8"
  by (simp add: sha_step_def Let_def)

lemma sha_rounds_length: "length st = 8 \<Longrightarrow> length (sha_rounds ks ws st) = 8"
  by (induction ks ws st rule: sha_rounds.induct) (simp_all add: sha_step_length)

lemma sha_blocks_length: "length st = 8 \<Longrightarrow> length (sha_blocks s st) = 8"
proof (induction s st rule: sha_blocks.induct)
  case (1 s st)
  then show ?case
    by (subst sha_blocks.simps) (simp add: sha_block_def sha_rounds_length)
qed

lemma sum_list_map_const: "sum_list (map (\<lambda>_. k) xs) = length xs * (k :: nat)"
  by (induction xs) simp_all

lemma sha256_length [simp]: "length (sha256 s) = 32"
  by (simp add: sha256_def length_concat o_def sum_list_map_const sha_blocks_length sha_init_def)

section \<open>crypto/hmac\<close>

definition xor_pad :: "nat \<Rightarrow> bytes \<Rightarrow> bytes" where
  "xor_pad p k = map (\<lambda>c. char_of (b2n c XOR p)) k"

definition hmac_key :: "bytes \<Rightarrow> bytes" where
  "hmac_key k =
     (let k' = (if 64 < length k then sha256 k else k)
      in k' @ replicate (64 - length k') (CHR 0x00))"

definition hmac_sha256 :: "bytes \<Rightarrow> bytes \<Rightarrow> bytes" where
  "hmac_sha256 k m =
     sha256 (xor_pad 0x5C (hmac_key k) @ sha256 (xor_pad 0x36 (hmac_key k) @ m))"

lemma hmac_sha256_length [simp]: "length (hmac_sha256 k m) = 32"
  by (simp add: hmac_sha256_def)

end
