(* ===== verification/Draw.thy ===== *)
theory Draw
  imports Sha256
begin

text \<open>
  \<^verbatim>\<open>pkg/mining/draw/draw.go\<close>: the draw identifier of a participant, its hexadecimal transport
  form, and the hash of a canonical candidate list.  A 32 byte array is a byte string of that
  length.  The lemmas show the transport form is a bijection, canonicality is strict
  lexicographic order, and the two preimages determine their inputs and never collide.
\<close>

section \<open>The code\<close>

definition SecretSize :: nat where "SecretSize = 32"
definition IDSize :: nat where "IDSize = 32"

definition domainDrawID :: bytes where
  "domainDrawID = ''TWILIGHT/TOKENDROP/DRAW-ID/V1''"

definition domainCandidateSet :: bytes where
  "domainCandidateSet = ''TWILIGHT/TOKENDROP/CANDIDATE-SET/V1''"

datatype draw_error =
    ErrSecretSize
  | ErrChainIDTooLong
  | ErrNotHex
  | ErrHexDecode
  | ErrDuplicateDrawID nat
  | ErrNotIncreasing nat

definition Hex :: "bytes \<Rightarrow> string" where
  "Hex i = hex_encode i"

text \<open>
  The scan goes over runes; a byte of 128 and above is part of no rune below 128, so testing
  the bytes rejects the same texts.  The copy into the array keeps the first 32 bytes.
\<close>

definition IDFromHex :: "string \<Rightarrow> draw_error + bytes" where
  "IDFromHex s =
     (if length s \<noteq> 2 * IDSize \<or> \<not> list_all is_hex_lower s then Inl ErrNotHex
      else (case hex_decode s of None \<Rightarrow> Inl ErrHexDecode | Some b \<Rightarrow> Inr (take IDSize b)))"

definition SecretFromBytes :: "bytes \<Rightarrow> draw_error + bytes" where
  "SecretFromBytes b = (if length b \<noteq> SecretSize then Inl ErrSecretSize else Inr b)"

definition secret_format :: "bytes \<Rightarrow> char \<Rightarrow> string" where
  "secret_format s verb = ''participation_secret[redacted]''"

definition chainIDEncoding :: "bytes \<Rightarrow> draw_error + bytes" where
  "chainIDEncoding chainID =
     (let n = length chainID in
      if 0xFFFF < n then Inl ErrChainIDTooLong else Inr (be_bytes 2 n @ chainID))"

definition u64be :: "64 word \<Rightarrow> bytes" where
  "u64be v = be_bytes 8 (unat v)"

definition draw_preimage :: "bytes \<Rightarrow> 64 word \<Rightarrow> 64 word \<Rightarrow> bytes" where
  "draw_preimage enc slotID targetEpoch = domainDrawID @ enc @ u64be slotID @ u64be targetEpoch"

definition DrawID :: "bytes \<Rightarrow> bytes \<Rightarrow> 64 word \<Rightarrow> 64 word \<Rightarrow> draw_error + bytes" where
  "DrawID secret chainID slotID targetEpoch =
     (case chainIDEncoding chainID of
        Inl e \<Rightarrow> Inl e
      | Inr enc \<Rightarrow> Inr (hmac_sha256 secret (draw_preimage enc slotID targetEpoch)))"

text \<open>\<^verbatim>\<open>bytes.Compare\<close>.\<close>

fun bytes_compare :: "bytes \<Rightarrow> bytes \<Rightarrow> int" where
  "bytes_compare [] [] = 0"
| "bytes_compare [] (b # bs) = - 1"
| "bytes_compare (a # as) [] = 1"
| "bytes_compare (a # as) (b # bs) =
     (if b2n a < b2n b then - 1 else if b2n b < b2n a then 1 else bytes_compare as bs)"

fun verify_from :: "nat \<Rightarrow> bytes list \<Rightarrow> draw_error option" where
  "verify_from i (x # y # r) =
     (let c = bytes_compare x y in
      if c = 0 then Some (ErrDuplicateDrawID i)
      else if 0 < c then Some (ErrNotIncreasing i)
      else verify_from (Suc i) (y # r))"
| "verify_from i _ = None"

definition VerifyCanonical :: "bytes list \<Rightarrow> draw_error option" where
  "VerifyCanonical drawIDs = verify_from 1 drawIDs"

definition candidate_preimage :: "bytes \<Rightarrow> 64 word \<Rightarrow> 64 word \<Rightarrow> bytes list \<Rightarrow> bytes" where
  "candidate_preimage enc slotID targetEpoch drawIDs =
     domainCandidateSet @ enc @ u64be slotID @ u64be targetEpoch @
     u64be (of_nat (length drawIDs)) @ concat drawIDs"

definition CandidateSetHash :: "bytes \<Rightarrow> 64 word \<Rightarrow> 64 word \<Rightarrow> bytes list \<Rightarrow> draw_error + bytes" where
  "CandidateSetHash chainID slotID targetEpoch drawIDs =
     (case VerifyCanonical drawIDs of
        Some e \<Rightarrow> Inl e
      | None \<Rightarrow>
          (case chainIDEncoding chainID of
             Inl e \<Rightarrow> Inl e
           | Inr enc \<Rightarrow> Inr (sha256 (candidate_preimage enc slotID targetEpoch drawIDs))))"

section \<open>Transport form\<close>

text \<open>
  The hexadecimal transport form is a bijection: a 32 byte identifier is read back from its
  text, and a text is accepted exactly when it is 64 lowercase hexadecimal characters, in which
  case it is the text of the 32 byte identifier read.
\<close>

theorem draw_hex_roundtrip:
  "(length i = 32 \<longrightarrow> IDFromHex (Hex i) = Inr i) \<and>
   (case IDFromHex s of
      Inl e \<Rightarrow> e = ErrNotHex \<and> \<not> (length s = 64 \<and> list_all is_hex_lower s)
    | Inr j \<Rightarrow> length j = 32 \<and> Hex j = s)"
proof (cases "length s = 64 \<and> list_all is_hex_lower s")
  case True
  then obtain b where b: "hex_decode s = Some b" "hex_encode b = s" "2 * length b = length s"
    using hex_encode_decode [of s] by auto
  with True have "IDFromHex s = Inr b" by (simp add: IDFromHex_def IDSize_def)
  with b True show ?thesis
    by (simp add: IDFromHex_def IDSize_def Hex_def hex_encode_lower hex_decode_encode)
next
  case False
  then have "IDFromHex s = Inl ErrNotHex" by (auto simp: IDFromHex_def IDSize_def)
  moreover have "length i = 32 \<longrightarrow> IDFromHex (Hex i) = Inr i"
    by (simp add: IDFromHex_def IDSize_def Hex_def hex_encode_lower hex_decode_encode)
  ultimately show ?thesis using False by simp
qed

lemma draw_hex_roundtrip_witness:
  "length (replicate 32 CHR 0xAB) = 32 \<and> IDFromHex (Hex (replicate 32 CHR 0xAB)) = Inr (replicate 32 CHR 0xAB)"
  using draw_hex_roundtrip [of "replicate 32 CHR 0xAB" "[]"] by simp

section \<open>Canonical candidate lists\<close>

lemma bytes_compare_0: "bytes_compare x y = 0 \<longleftrightarrow> x = y"
  by (induction x y rule: bytes_compare.induct) auto

lemma bytes_compare_neg: "bytes_compare x y < 0 \<longleftrightarrow> x < y"
  by (induction x y rule: bytes_compare.induct) (auto simp: less_char_def)

lemma verify_from_step:
  "verify_from i (x # y # r) =
     (if x < y then verify_from (Suc i) (y # r)
      else Some (if x = y then ErrDuplicateDrawID i else ErrNotIncreasing i))"
  using bytes_compare_0 [of x y] bytes_compare_neg [of x y] by (auto simp: Let_def)

declare verify_from.simps(1) [simp del]

lemma sorted_bytes2:
  "sorted_wrt (<) (x # y # r) \<longleftrightarrow> x < (y :: bytes) \<and> sorted_wrt (<) (y # r)"
  by (rule sorted_wrt2) (simp add: transp_def)

lemma verify_from_None: "verify_from i ids = None \<longleftrightarrow> sorted_wrt (<) ids"
proof (induction i ids rule: verify_from.induct)
  case (1 i x y r)
  have ih: "x < y \<Longrightarrow> verify_from (Suc i) (y # r) = None \<longleftrightarrow> sorted_wrt (<) (y # r)"
    using 1 [OF refl] bytes_compare_neg [of x y] by linarith
  show ?case unfolding verify_from_step sorted_bytes2 using ih by (cases "x < y") simp_all
qed simp_all

lemma verify_from_Some:
  "verify_from i ids = Some e \<Longrightarrow>
   \<exists>k. Suc k < length ids \<and> sorted_wrt (<) (take (Suc k) ids) \<and> \<not> ids ! k < ids ! Suc k \<and>
       e = (if ids ! k = ids ! Suc k then ErrDuplicateDrawID (i + k) else ErrNotIncreasing (i + k))"
proof (induction i ids rule: verify_from.induct)
  case (1 i x y r)
  show ?case
  proof (cases "x < y")
    case True
    then have "verify_from (Suc i) (y # r) = Some e" using "1.prems" by (simp add: verify_from_step)
    then obtain k where k: "Suc k < length (y # r)" "sorted_wrt (<) (take (Suc k) (y # r))"
        "\<not> (y # r) ! k < (y # r) ! Suc k"
        "e = (if (y # r) ! k = (y # r) ! Suc k then ErrDuplicateDrawID (Suc i + k) else ErrNotIncreasing (Suc i + k))"
      using "1.IH" [OF refl] True bytes_compare_neg [of x y] by auto
    have "sorted_wrt (<) (take (Suc (Suc k)) (x # y # r))"
      using k(2) True by (simp only: take_Suc_Cons sorted_bytes2)
    with k show ?thesis by (intro exI [of _ "Suc k"]) simp
  next
    case False
    then have "e = (if x = y then ErrDuplicateDrawID i else ErrNotIncreasing i)"
      using "1.prems" by (simp add: verify_from_step)
    with False show ?thesis by (intro exI [of _ 0]) simp
  qed
qed simp_all

text \<open>
  C21. A candidate list is accepted exactly when it is strictly increasing in the
  lexicographic order of its raw bytes; otherwise the error names the first index that breaks
  the order and tells a duplicate from an inversion.
\<close>

theorem canonical_list_exact:
  "case VerifyCanonical ids of
     None \<Rightarrow> sorted_wrt (<) ids
   | Some e \<Rightarrow>
       (\<exists>k. Suc k < length ids \<and> sorted_wrt (<) (take (Suc k) ids) \<and> \<not> ids ! k < ids ! Suc k \<and>
            e = (if ids ! k = ids ! Suc k then ErrDuplicateDrawID (Suc k) else ErrNotIncreasing (Suc k)))"
proof (cases "VerifyCanonical ids")
  case None
  then have "sorted_wrt (<) ids" by (simp only: VerifyCanonical_def verify_from_None)
  with None show ?thesis by simp
next
  case (Some e)
  then have "verify_from 1 ids = Some e" by (simp add: VerifyCanonical_def)
  from verify_from_Some [OF this] show ?thesis unfolding Some option.case by (simp only: plus_1_eq_Suc)
qed

section \<open>Preimages\<close>

lemma chainIDEncoding_inj:
  assumes "chainIDEncoding c = Inr e" and "chainIDEncoding c' = Inr e'" and "e @ r = e' @ r'"
  shows "c = c' \<and> r = r'"
proof -
  have l: "length c < 256 ^ 2" "length c' < 256 ^ 2"
      and e: "e = be_bytes 2 (length c) @ c" "e' = be_bytes 2 (length c') @ c'"
    using assms(1,2) by (auto simp: chainIDEncoding_def Let_def split: if_splits)
  have "be_bytes 2 (length c) @ c @ r = be_bytes 2 (length c') @ c' @ r'"
    using assms(3) by (simp add: e)
  then have a: "be_bytes 2 (length c) = be_bytes 2 (length c')" "c @ r = c' @ r'"
    by (simp_all only: append_eq_append_conv [OF disjI1] be_bytes_length)
  then have "length c = length c'" using l be_bytes_inj by blast
  with a(2) show ?thesis by simp
qed

lemma u64be_length [simp]: "length (u64be v) = 8"
  by (simp add: u64be_def)

lemma u64be_inj: "u64be v = u64be w \<longleftrightarrow> v = w"
proof -
  have "unat v < 256 ^ 8" "unat w < 256 ^ 8"
    using unsigned_less [of v, where 'a = nat] unsigned_less [of w, where 'a = nat] by simp_all
  then show ?thesis by (simp only: u64be_def be_bytes_inj) (metis word_unat_eq_iff)
qed

lemma concat_blocks_inj:
  "list_all (\<lambda>x. length x = n) xs \<Longrightarrow> list_all (\<lambda>x. length x = n) ys \<Longrightarrow> length xs = length ys \<Longrightarrow>
   concat xs = concat ys \<Longrightarrow> xs = ys"
  by (induction xs ys rule: list_induct2') auto

text \<open>
  C20. The preimages are unambiguous: two draws share a preimage only when chain, slot and
  epoch agree, two candidate sets of fewer than 2^64 identifiers only when the lists agree as
  well, and a draw preimage is never a candidate set preimage.
\<close>

theorem preimages_unambiguous:
  assumes "chainIDEncoding c = Inr e" and "chainIDEncoding c' = Inr e'"
    and "list_all (\<lambda>i. length i = IDSize) ids" and "list_all (\<lambda>i. length i = IDSize) ids'"
    and "length ids < 2 ^ 64" and "length ids' < 2 ^ 64"
  shows "(draw_preimage e s t = draw_preimage e' s' t' \<longleftrightarrow> c = c' \<and> s = s' \<and> t = t') \<and>
         (candidate_preimage e s t ids = candidate_preimage e' s' t' ids' \<longleftrightarrow>
            c = c' \<and> s = s' \<and> t = t' \<and> ids = ids') \<and>
         draw_preimage e s t \<noteq> candidate_preimage e' s' t' ids'"
proof -
  have same: "c = c' \<Longrightarrow> e = e'" using assms(1,2) by simp
  have split: "u64be v @ r = u64be w @ r' \<longleftrightarrow> v = w \<and> r = r'" for v w r r'
    by (simp add: append_eq_append_conv u64be_inj)
  have d: "draw_preimage e s t = draw_preimage e' s' t' \<longleftrightarrow> c = c' \<and> s = s' \<and> t = t'"
    unfolding draw_preimage_def same_append_eq
    using chainIDEncoding_inj [OF assms(1,2)] same by (metis split u64be_inj)
  have n: "of_nat (length ids) = (of_nat (length ids') :: 64 word) \<longleftrightarrow> length ids = length ids'"
    using assms(5,6) by (metis unat_of_nat_64)
  have blocks: "length ids = length ids' \<Longrightarrow> concat ids = concat ids' \<longleftrightarrow> ids = ids'"
    using assms(3,4) concat_blocks_inj by blast
  have p: "candidate_preimage e s t ids = candidate_preimage e' s' t' ids' \<longleftrightarrow>
            c = c' \<and> s = s' \<and> t = t' \<and> ids = ids'"
    unfolding candidate_preimage_def same_append_eq
    using chainIDEncoding_inj [OF assms(1,2)] same n blocks by (metis split)
  have "draw_preimage e s t \<noteq> candidate_preimage e' s' t' ids'"
    by (simp add: draw_preimage_def candidate_preimage_def domainDrawID_def domainCandidateSet_def)
  with d p show ?thesis by blast
qed

lemma preimages_unambiguous_witness:
  "candidate_preimage (be_bytes 2 1 @ ''a'') 7 1 [replicate 32 CHR ''x''] \<noteq>
   candidate_preimage (be_bytes 2 1 @ ''a'') 7 2 [replicate 32 CHR ''x'']"
proof -
  have e: "chainIDEncoding ''a'' = Inr (be_bytes 2 1 @ ''a'')" by (simp add: chainIDEncoding_def)
  have i: "list_all (\<lambda>i. length i = IDSize) [replicate 32 CHR ''x'']" by (simp add: IDSize_def)
  have l: "length [replicate 32 CHR ''x''] < 2 ^ 64" by simp
  show ?thesis using preimages_unambiguous [OF e e i i l l, of 7 1 7 2] by simp
qed

text \<open>
  C22. The derivations fail exactly on a chain id of more than 65535 bytes (and the hash on a
  list that is not canonical, which is checked first); otherwise they return 32 bytes, so the
  identifier derived survives its own transport form.
\<close>

theorem derivations_total:
  "(if 65535 < length c then DrawID k c s t = Inl ErrChainIDTooLong
    else (\<exists>i. DrawID k c s t = Inr i \<and> length i = 32)) \<and>
   (case CandidateSetHash c s t ids of
      Inl e \<Rightarrow> (if sorted_wrt (<) ids then e = ErrChainIDTooLong \<and> 65535 < length c
                else VerifyCanonical ids = Some e)
    | Inr h \<Rightarrow> length h = 32 \<and> sorted_wrt (<) ids \<and> length c \<le> 65535)"
  using verify_from_None [of 1 ids]
  by (auto simp: DrawID_def CandidateSetHash_def chainIDEncoding_def Let_def VerifyCanonical_def
      split: option.splits sum.splits)

lemma derivations_total_witness:
  "(\<exists>i. DrawID (replicate 32 CHR ''k'') ''twilight-1'' 7 1042 = Inr i \<and> length i = 32) \<and>
   DrawID (replicate 32 CHR ''k'') (replicate 65536 CHR ''c'') 7 1042 = Inl ErrChainIDTooLong"
  using derivations_total [of "''twilight-1''" "replicate 32 CHR ''k''" 7 1042 "[]"]
    derivations_total [of "replicate 65536 CHR ''c''" "replicate 32 CHR ''k''" 7 1042 "[]"]
  by simp

end
