(* ===== verification/Fs.thy ===== *)
theory Fs
  imports Prelude "HOL-Library.AList"
begin

text \<open>
  The file system the durable components run on, as package os gives it to them: regular files
  named by directory and base name, their contents of a type of the caller's choice (\<open>None\<close>
  is a file that is empty or partly written).

  Durability is explicit.  Directory changes go to an ordered journal, of which a crash keeps
  any prefix; the sync of a directory forces the journal up to the last change of that
  directory; the contents of a file survive only once the file has been synced.  \<open>w_plan\<close>
  decides the outcome of every system call: it succeeds, fails with an error, writes short, or
  the machine dies there, after which no call changes anything.  A theorem for every plan is a
  theorem for every crash point and every combination of failures.
\<close>

section \<open>State\<close>

datatype os_error =
    ErrExist
  | ErrNotExist
  | ErrInvalid
  | ErrPermission
  | ErrShortWrite
  | ErrDirectorySyncUnsupported
  | ErrIO

datatype outcome_os = Go | Fail os_error | Short | Die

type_synonym path = "string \<times> string"
type_synonym dirmap = "(path \<times> nat) list"
type_synonym txn = "(path \<times> nat option) list"

record 'c inode =
  in_data :: "'c option"
  in_synced :: bool
  in_mode :: nat

record 'c world =
  w_nodes :: "nat \<Rightarrow> 'c inode"
  w_next :: nat
  w_dirs :: "string list"
  w_disk :: dirmap
  w_journal :: "txn list"
  w_plan :: "outcome_os list"
  w_dead :: bool

fun apply_entry :: "path \<times> nat option \<Rightarrow> dirmap \<Rightarrow> dirmap" where
  "apply_entry (p, Some n) d = AList.update p n d"
| "apply_entry (p, None) d = AList.delete p d"

definition apply_txn :: "txn \<Rightarrow> dirmap \<Rightarrow> dirmap" where
  "apply_txn t d = fold apply_entry t d"

definition replay :: "txn list \<Rightarrow> dirmap \<Rightarrow> dirmap" where
  "replay js d = fold apply_txn js d"

definition live :: "'c world \<Rightarrow> dirmap" where
  "live w = replay (w_journal w) (w_disk w)"

definition log_txn :: "txn \<Rightarrow> 'c world \<Rightarrow> 'c world" where
  "log_txn t w = w\<lparr>w_journal := w_journal w @ [t]\<rparr>"

definition touches :: "string \<Rightarrow> txn \<Rightarrow> bool" where
  "touches d t \<longleftrightarrow> list_ex (\<lambda>(p, _). fst p = d) t"

definition commit_dir :: "string \<Rightarrow> 'c world \<Rightarrow> 'c world" where
  "commit_dir d w =
     (let k = length (dropWhile (\<lambda>t. \<not> touches d t) (rev (w_journal w)))
      in w\<lparr>w_disk := replay (take k (w_journal w)) (w_disk w), w_journal := drop k (w_journal w)\<rparr>)"

definition set_node :: "nat \<Rightarrow> 'c inode \<Rightarrow> 'c world \<Rightarrow> 'c world" where
  "set_node n i w = w\<lparr>w_nodes := (w_nodes w)(n := i)\<rparr>"

section \<open>System calls\<close>

text \<open>
  The outcome of the next call: \<open>None\<close> when it goes through.  An injected failure never claims
  that a file does or does not exist; those errors come from the directory itself.  Nor is it
  the lack of directory syncs, which Unix does not report.
\<close>

definition injected :: "os_error \<Rightarrow> os_error" where
  "injected e = (if e = ErrExist \<or> e = ErrNotExist \<or> e = ErrDirectorySyncUnsupported then ErrIO else e)"

definition tick :: "'c world \<Rightarrow> os_error option \<times> 'c world" where
  "tick w =
     (if w_dead w then (Some ErrIO, w)
      else (case w_plan w of
              [] \<Rightarrow> (None, w)
            | Go # r \<Rightarrow> (None, w\<lparr>w_plan := r\<rparr>)
            | Short # r \<Rightarrow> (None, w\<lparr>w_plan := r\<rparr>)
            | Fail e # r \<Rightarrow> (Some (injected e), w\<lparr>w_plan := r\<rparr>)
            | Die # r \<Rightarrow> (Some ErrIO, w\<lparr>w_plan := r, w_dead := True\<rparr>)))"

text \<open>
  \<^verbatim>\<open>os.CreateTemp(dir, pre + "*" + post)\<close>: a name that is not in use, opened exclusively; then the
  pattern \<^verbatim>\<open>.tmp-*\<close>.
\<close>

definition os_create_temp_as :: "string \<Rightarrow> string \<Rightarrow> string \<Rightarrow> 'c world \<Rightarrow> (os_error + path \<times> nat) \<times> 'c world" where
  "os_create_temp_as pre post dir w =
     (case tick w of
        (Some e, w) \<Rightarrow> (Inl e, w)
      | (None, w) \<Rightarrow>
          (let n = w_next w; p = (dir, pre @ dec_digits n @ post) in
           if dir \<notin> set (w_dirs w) then (Inl ErrNotExist, w)
           else if map_of (live w) p \<noteq> None then (Inl ErrExist, w)
           else (Inr (p, n),
                 log_txn [(p, Some n)]
                   (set_node n \<lparr>in_data = None, in_synced = False, in_mode = 384\<rparr> (w\<lparr>w_next := Suc n\<rparr>)))))"

definition os_create_temp :: "string \<Rightarrow> 'c world \<Rightarrow> (os_error + path \<times> nat) \<times> 'c world" where
  "os_create_temp dir w = os_create_temp_as ''.tmp-'' [] dir w"

definition os_chmod :: "nat \<Rightarrow> nat \<Rightarrow> 'c world \<Rightarrow> os_error option \<times> 'c world" where
  "os_chmod n mode w =
     (case tick w of
        (Some e, w) \<Rightarrow> (Some e, w)
      | (None, w) \<Rightarrow> (None, set_node n ((w_nodes w n)\<lparr>in_mode := mode\<rparr>) w))"

text \<open>\<^verbatim>\<open>f.Write\<close>: whether all bytes were written, and the error.\<close>

definition os_write :: "nat \<Rightarrow> 'c \<Rightarrow> 'c world \<Rightarrow> (bool \<times> os_error option) \<times> 'c world" where
  "os_write n c w =
     (if \<not> w_dead w \<and> w_plan w \<noteq> [] \<and> hd (w_plan w) = Short then ((False, None), snd (tick w))
      else (case tick w of
              (Some e, w) \<Rightarrow> ((False, Some e), w)
            | (None, w) \<Rightarrow> ((True, None), set_node n ((w_nodes w n)\<lparr>in_data := Some c, in_synced := False\<rparr>) w)))"

definition os_sync_file :: "nat \<Rightarrow> 'c world \<Rightarrow> os_error option \<times> 'c world" where
  "os_sync_file n w =
     (case tick w of
        (Some e, w) \<Rightarrow> (Some e, w)
      | (None, w) \<Rightarrow> (None, set_node n ((w_nodes w n)\<lparr>in_synced := True\<rparr>) w))"

definition os_close :: "'c world \<Rightarrow> os_error option \<times> 'c world" where
  "os_close w = tick w"

definition os_remove :: "path \<Rightarrow> 'c world \<Rightarrow> os_error option \<times> 'c world" where
  "os_remove p w =
     (case tick w of
        (Some e, w) \<Rightarrow> (Some e, w)
      | (None, w) \<Rightarrow>
          if map_of (live w) p = None then (Some ErrNotExist, w) else (None, log_txn [(p, None)] w))"

definition os_rename :: "path \<Rightarrow> path \<Rightarrow> 'c world \<Rightarrow> os_error option \<times> 'c world" where
  "os_rename from to w =
     (case tick w of
        (Some e, w) \<Rightarrow> (Some e, w)
      | (None, w) \<Rightarrow>
          (case map_of (live w) from of
             None \<Rightarrow> (Some ErrNotExist, w)
           | Some n \<Rightarrow>
               if fst to \<notin> set (w_dirs w) then (Some ErrNotExist, w)
               else if from = to then (None, w) else (None, log_txn [(from, None), (to, Some n)] w)))"

definition os_link :: "path \<Rightarrow> path \<Rightarrow> 'c world \<Rightarrow> os_error option \<times> 'c world" where
  "os_link from to w =
     (case tick w of
        (Some e, w) \<Rightarrow> (Some e, w)
      | (None, w) \<Rightarrow>
          (case map_of (live w) from of
             None \<Rightarrow> (Some ErrNotExist, w)
           | Some n \<Rightarrow>
               if map_of (live w) to \<noteq> None then (Some ErrExist, w) else (None, log_txn [(to, Some n)] w)))"

text \<open>\<^verbatim>\<open>f.Sync\<close> on an open directory.\<close>

definition os_sync_dir :: "string \<Rightarrow> 'c world \<Rightarrow> os_error option \<times> 'c world" where
  "os_sync_dir d w =
     (case tick w of (Some e, w) \<Rightarrow> (Some e, w) | (None, w) \<Rightarrow> (None, commit_dir d w))"

definition os_open :: "'c world \<Rightarrow> os_error option \<times> 'c world" where
  "os_open w = tick w"

text \<open>\<^verbatim>\<open>os.ReadFile\<close>: \<open>None\<close> on the right is a file whose contents are not complete.\<close>

definition os_read_file :: "path \<Rightarrow> 'c world \<Rightarrow> (os_error + 'c option) \<times> 'c world" where
  "os_read_file p w =
     (case tick w of
        (Some e, w) \<Rightarrow> (Inl e, w)
      | (None, w) \<Rightarrow>
          (case map_of (live w) p of
             None \<Rightarrow> (Inl ErrNotExist, w)
           | Some n \<Rightarrow> (Inr (in_data (w_nodes w n)), w)))"

definition os_stat :: "path \<Rightarrow> 'c world \<Rightarrow> os_error option \<times> 'c world" where
  "os_stat p w =
     (case tick w of
        (Some e, w) \<Rightarrow> (Some e, w)
      | (None, w) \<Rightarrow> (if map_of (live w) p = None then Some ErrNotExist else None, w))"

text \<open>\<^verbatim>\<open>os.ReadDir\<close>: the regular files of a directory in the order of their names.\<close>

definition names_in :: "string \<Rightarrow> dirmap \<Rightarrow> string list" where
  "names_in d m = sort (remdups (map snd (filter (\<lambda>p. fst p = d) (map fst m))))"

definition os_read_dir :: "string \<Rightarrow> 'c world \<Rightarrow> (os_error + string list) \<times> 'c world" where
  "os_read_dir d w =
     (case tick w of
        (Some e, w) \<Rightarrow> (Inl e, w)
      | (None, w) \<Rightarrow>
          (if d \<notin> set (w_dirs w) then Inl ErrNotExist else Inr (names_in d (live w)), w))"

text \<open>\<^verbatim>\<open>os.MkdirAll\<close> and \<^verbatim>\<open>os.Lstat\<close> of a directory: no other kind of entry has a directory's name.\<close>

definition os_mkdir_all :: "string \<Rightarrow> 'c world \<Rightarrow> os_error option \<times> 'c world" where
  "os_mkdir_all d w =
     (case tick w of
        (Some e, w) \<Rightarrow> (Some e, w)
      | (None, w) \<Rightarrow> (None, w\<lparr>w_dirs := d # w_dirs w\<rparr>))"

definition os_lstat_dir :: "string \<Rightarrow> 'c world \<Rightarrow> os_error option \<times> 'c world" where
  "os_lstat_dir d w =
     (case tick w of
        (Some e, w) \<Rightarrow> (Some e, w)
      | (None, w) \<Rightarrow> (if d \<in> set (w_dirs w) then None else Some ErrNotExist, w))"

section \<open>What a program and what a crash sees\<close>

text \<open>
  The names of files that are being made: those of fsx, and those of an upgrade, which are no
  names of records.
\<close>

definition staging_name :: "string \<Rightarrow> bool" where
  "staging_name s \<longleftrightarrow> \<not> suffix ''.json'' s \<and>
     (prefix ''.dropin-miner.candidate-'' s \<or> prefix ''.dropin-miner.snapshot-'' s)"

definition is_temp :: "path \<Rightarrow> bool" where
  "is_temp p \<longleftrightarrow> prefix ''.tmp-'' (snd p) \<or> staging_name (snd p)"

datatype 'c seen = Absent | Torn | Whole 'c

definition node_seen :: "'c inode \<Rightarrow> 'c seen" where
  "node_seen i = (case in_data i of None \<Rightarrow> Torn | Some c \<Rightarrow> if in_synced i then Whole c else Torn)"

text \<open>Temporary names belong to writes in progress and are no part of a view.\<close>

definition view_of :: "'c world \<Rightarrow> (path \<rightharpoonup> nat) \<Rightarrow> path \<Rightarrow> 'c seen" where
  "view_of w m p =
     (if is_temp p then Absent else (case m p of None \<Rightarrow> Absent | Some n \<Rightarrow> node_seen (w_nodes w n)))"

definition prefix_maps :: "'c world \<Rightarrow> (path \<rightharpoonup> nat) set" where
  "prefix_maps w = {map_of (replay (take j (w_journal w)) (w_disk w)) | j. True}"

definition crash_views :: "'c world \<Rightarrow> (path \<Rightarrow> 'c seen) set" where
  "crash_views w = view_of w ` prefix_maps w"

definition live_view :: "'c world \<Rightarrow> path \<Rightarrow> 'c seen" where
  "live_view w = view_of w (map_of (live w))"

definition good_map :: "'c world \<Rightarrow> (path \<rightharpoonup> nat) \<Rightarrow> bool" where
  "good_map w m \<longleftrightarrow>
     (\<forall>p n. m p = Some n \<longrightarrow>
        n < w_next w \<and>
        (\<not> is_temp p \<longrightarrow> in_synced (w_nodes w n) \<and> in_data (w_nodes w n) \<noteq> None))"

text \<open>No published name refers to a file that is not complete and synced.\<close>

definition fs_ok :: "'c world \<Rightarrow> bool" where
  "fs_ok w \<longleftrightarrow> (\<forall>m \<in> prefix_maps w. good_map w m)"

section \<open>Directory maps\<close>

lemma map_of_apply_entry: "map_of (apply_entry (p, v) d) = (map_of d)(p := v)"
  by (cases v) (simp_all add: update_conv' delete_conv')

lemma apply_txn_simps [simp]:
  "apply_txn [] d = d" "apply_txn (e # t) d = apply_txn t (apply_entry e d)"
  by (simp_all add: apply_txn_def)

lemma replay_simps [simp]:
  "replay [] d = d" "replay (t # js) d = replay js (apply_txn t d)"
  "replay (js @ js') d = replay js' (replay js d)"
  by (simp_all add: replay_def)

lemma live_in_prefix_maps: "map_of (live w) \<in> prefix_maps w"
  unfolding prefix_maps_def live_def by (rule CollectI, rule exI [of _ "length (w_journal w)"]) simp

lemma prefix_maps_log:
  "prefix_maps (log_txn t w) = insert (map_of (apply_txn t (live w))) (prefix_maps w)"
proof (rule set_eqI)
  fix m
  have long: "length js < j \<Longrightarrow> replay (take j (js @ [t])) d = apply_txn t (replay js d)" for js d j
    by (simp add: take_Cons split: nat.split)
  show "m \<in> prefix_maps (log_txn t w) \<longleftrightarrow> m \<in> insert (map_of (apply_txn t (live w))) (prefix_maps w)"
  proof
    assume "m \<in> prefix_maps (log_txn t w)"
    then obtain j where j: "m = map_of (replay (take j (w_journal w @ [t])) (w_disk w))"
      by (auto simp: prefix_maps_def log_txn_def)
    show "m \<in> insert (map_of (apply_txn t (live w))) (prefix_maps w)"
    proof (cases "j \<le> length (w_journal w)")
      case True
      then show ?thesis using j by (auto simp: prefix_maps_def)
    next
      case False
      then show ?thesis using j long by (simp add: live_def)
    qed
  next
    assume "m \<in> insert (map_of (apply_txn t (live w))) (prefix_maps w)"
    then consider "m = map_of (apply_txn t (live w))"
      | j where "m = map_of (replay (take j (w_journal w)) (w_disk w))"
      by (auto simp: prefix_maps_def)
    then show "m \<in> prefix_maps (log_txn t w)"
    proof cases
      case 1
      then show ?thesis
        unfolding prefix_maps_def log_txn_def live_def
        by (intro CollectI exI [of _ "Suc (length (w_journal w))"]) (simp add: long)
    next
      case 2
      then show ?thesis
        unfolding prefix_maps_def log_txn_def
        by (intro CollectI exI [of _ "min j (length (w_journal w))"]) (simp add: min_def)
    qed
  qed
qed

lemma live_log: "live (log_txn t w) = apply_txn t (live w)"
  by (simp add: live_def log_txn_def)

lemma prefix_maps_cong:
  "w_disk w' = w_disk w \<Longrightarrow> w_journal w' = w_journal w \<Longrightarrow> prefix_maps w' = prefix_maps w"
  by (simp add: prefix_maps_def)

lemma live_cong: "w_disk w' = w_disk w \<Longrightarrow> w_journal w' = w_journal w \<Longrightarrow> live w' = live w"
  by (simp add: live_def)

lemma live_commit: "live (commit_dir d w) = live w"
  unfolding live_def commit_dir_def Let_def
  by (simp add: replay_simps(3) [symmetric] del: replay_simps(3))

lemma prefix_maps_commit: "prefix_maps (commit_dir d w) \<subseteq> prefix_maps w"
proof
  fix m assume "m \<in> prefix_maps (commit_dir d w)"
  then obtain j k where "m = map_of (replay (take j (drop k (w_journal w))) (replay (take k (w_journal w)) (w_disk w)))"
    by (auto simp: prefix_maps_def commit_dir_def Let_def)
  then have "m = map_of (replay (take (k + j) (w_journal w)) (w_disk w))"
    by (simp add: take_add)
  then show "m \<in> prefix_maps w" by (auto simp: prefix_maps_def)
qed

lemma untouched_txn: "\<not> touches d t \<Longrightarrow> fst p = d \<Longrightarrow> map_of (apply_txn t m) p = map_of m p"
proof (induction t arbitrary: m)
  case (Cons e t)
  obtain q v where e: "e = (q, v)" by (cases e)
  with Cons.prems have q: "q \<noteq> p" and t: "\<not> touches d t" by (auto simp: touches_def)
  have "map_of (apply_txn t (apply_entry e m)) p = map_of (apply_entry e m) p"
    using Cons.IH [OF t] Cons.prems by blast
  also have "\<dots> = map_of m p" using q by (simp add: e map_of_apply_entry)
  finally show ?case by simp
qed simp

lemma untouched_replay:
  "list_all (\<lambda>t. \<not> touches d t) js \<Longrightarrow> fst p = d \<Longrightarrow> map_of (replay js m) p = map_of m p"
  by (induction js arbitrary: m) (auto simp: untouched_txn)

text \<open>After the sync of a directory every crash agrees with the program about its entries.\<close>

lemma commit_settles:
  assumes m: "m \<in> prefix_maps (commit_dir d w)" and p: "fst p = d"
  shows "m p = map_of (live w) p"
proof -
  define k where "k = length (dropWhile (\<lambda>t. \<not> touches d t) (rev (w_journal w)))"
  define js where "js = drop k (w_journal w)"
  define base where "base = replay (take k (w_journal w)) (w_disk w)"
  have "js = rev (takeWhile (\<lambda>t. \<not> touches d t) (rev (w_journal w)))"
  proof -
    have "rev (w_journal w) = takeWhile (\<lambda>t. \<not> touches d t) (rev (w_journal w)) @
            dropWhile (\<lambda>t. \<not> touches d t) (rev (w_journal w))" by simp
    then have "w_journal w = rev (dropWhile (\<lambda>t. \<not> touches d t) (rev (w_journal w))) @
            rev (takeWhile (\<lambda>t. \<not> touches d t) (rev (w_journal w)))"
      by (metis rev_append rev_rev_ident)
    then show ?thesis unfolding js_def k_def
      by (metis append_eq_conv_conj length_rev)
  qed
  then have js: "list_all (\<lambda>t. \<not> touches d t) js"
    by (auto simp: list_all_iff dest: set_takeWhileD)
  obtain j where "m = map_of (replay (take j js) base)"
    using m by (auto simp: prefix_maps_def commit_dir_def Let_def js_def base_def k_def)
  moreover have "map_of (replay (take j js) base) p = map_of base p"
    by (rule untouched_replay [OF list_all_take [OF js] p])
  moreover have "map_of (live w) p = map_of (replay js base) p"
    by (simp add: live_def js_def base_def replay_simps(3) [symmetric] del: replay_simps(3))
  moreover have "map_of (replay js base) p = map_of base p"
    by (rule untouched_replay [OF js p])
  ultimately show ?thesis by simp
qed

section \<open>Effects of the calls on the views\<close>

lemma view_of_cong: "w_nodes w' = w_nodes w \<Longrightarrow> view_of w' = view_of w"
  by (intro ext) (simp add: view_of_def split: option.split)

lemma good_map_cong: "w_nodes w' = w_nodes w \<Longrightarrow> w_next w' = w_next w \<Longrightarrow> good_map w' = good_map w"
  by (intro ext) (simp only: good_map_def)

lemma log_txn_fields [simp]:
  "w_nodes (log_txn t w) = w_nodes w" "w_next (log_txn t w) = w_next w" "w_dead (log_txn t w) = w_dead w"
  by (simp_all add: log_txn_def)

lemma commit_dir_fields [simp]:
  "w_nodes (commit_dir d w) = w_nodes w" "w_next (commit_dir d w) = w_next w"
  "w_dead (commit_dir d w) = w_dead w"
  by (simp_all add: commit_dir_def Let_def)

definition same_fs :: "'c world \<Rightarrow> 'c world \<Rightarrow> bool" where
  "same_fs w w' \<longleftrightarrow> w_nodes w' = w_nodes w \<and> w_next w' = w_next w \<and>
     w_disk w' = w_disk w \<and> w_journal w' = w_journal w"

lemma same_fs_refl [simp]: "same_fs w w"
  by (simp add: same_fs_def)

lemma same_fs_trans: "same_fs u v \<Longrightarrow> same_fs v w \<Longrightarrow> same_fs u w"
  by (simp add: same_fs_def)

lemma same_fs_views:
  assumes "same_fs w w'"
  shows "live w' = live w" "prefix_maps w' = prefix_maps w" "view_of w' = view_of w"
    "crash_views w' = crash_views w" "live_view w' = live_view w" "fs_ok w' = fs_ok w"
proof -
  have f: "w_nodes w' = w_nodes w" "w_next w' = w_next w" "w_disk w' = w_disk w" "w_journal w' = w_journal w"
    using assms by (simp_all add: same_fs_def)
  show l: "live w' = live w" and p: "prefix_maps w' = prefix_maps w"
    by (simp_all only: live_def prefix_maps_def f)
  show v: "view_of w' = view_of w" by (rule view_of_cong [OF f(1)])
  show "crash_views w' = crash_views w" by (simp only: crash_views_def p v)
  show "live_view w' = live_view w" by (simp only: live_view_def l v)
  show "fs_ok w' = fs_ok w" by (simp only: fs_ok_def p good_map_cong [OF f(1,2)])
qed

text \<open>A step nobody sees: no new crash view, the same live view.\<close>

definition quiet :: "'c world \<Rightarrow> 'c world \<Rightarrow> bool" where
  "quiet w w' \<longleftrightarrow> fs_ok w' \<and> crash_views w' \<subseteq> crash_views w \<and> live_view w' = live_view w"

lemma quiet_trans: "quiet u v \<Longrightarrow> quiet v w \<Longrightarrow> quiet u w"
  by (auto simp: quiet_def)

lemma same_fs_quiet: "fs_ok w \<Longrightarrow> same_fs w w' \<Longrightarrow> quiet w w'"
  by (simp add: quiet_def same_fs_views)

lemma live_view_in_crash_views: "live_view w \<in> crash_views w"
  by (simp add: live_view_def crash_views_def live_in_prefix_maps)

lemma tick_same_fs: "tick w = (r, w') \<Longrightarrow> same_fs w w'"
  by (auto simp: tick_def same_fs_def split: if_splits list.splits outcome_os.splits)

lemma tick_not_directory:
  "tick w = (Some e, w') \<Longrightarrow> e \<noteq> ErrNotExist \<and> e \<noteq> ErrExist \<and> e \<noteq> ErrDirectorySyncUnsupported"
  by (auto simp: tick_def injected_def split: if_splits list.splits outcome_os.splits)

lemma tick_quiet: "fs_ok w \<Longrightarrow> tick w = (r, w') \<Longrightarrow> quiet w w'"
  using tick_same_fs same_fs_quiet by blast

lemma tick_dead: "w_dead w \<Longrightarrow> tick w = (Some ErrIO, w)"
  by (simp add: tick_def)

text \<open>A node only temporary names refer to.\<close>

definition private_node :: "nat \<Rightarrow> 'c world \<Rightarrow> bool" where
  "private_node n w \<longleftrightarrow> (\<forall>m \<in> prefix_maps w. \<forall>p. m p = Some n \<longrightarrow> is_temp p)"

definition staged :: "path \<Rightarrow> nat \<Rightarrow> 'c world \<Rightarrow> bool" where
  "staged tmp n w \<longleftrightarrow> is_temp tmp \<and> map_of (live w) tmp = Some n \<and> private_node n w \<and> n < w_next w"

lemma set_node_maps [simp]:
  "prefix_maps (set_node n i w) = prefix_maps w" "live (set_node n i w) = live w"
  "w_next (set_node n i w) = w_next w" "w_dead (set_node n i w) = w_dead w"
  by (simp_all add: set_node_def prefix_maps_def live_def)

lemma set_node_view:
  assumes "private_node n w" and "m \<in> prefix_maps w"
  shows "view_of (set_node n i w) m = view_of w m"
proof
  fix p
  show "view_of (set_node n i w) m p = view_of w m p"
  proof (cases "is_temp p \<or> m p = None")
    case True
    then show ?thesis by (auto simp: view_of_def)
  next
    case False
    then obtain k where k: "m p = Some k" by blast
    with assms False have "k \<noteq> n" unfolding private_node_def by blast
    with k show ?thesis by (simp add: view_of_def set_node_def)
  qed
qed

lemma set_node_quiet:
  assumes ok: "fs_ok w" and pr: "private_node n w"
  shows "quiet w (set_node n i w)"
proof -
  have "good_map (set_node n i w) m" if "m \<in> prefix_maps w" for m
  proof -
    have g: "good_map w m" using ok that by (simp add: fs_ok_def)
    have "k \<noteq> n" if "m p = Some k" "\<not> is_temp p" for p k
      using that pr \<open>m \<in> prefix_maps w\<close> unfolding private_node_def by blast
    with g show ?thesis by (auto simp: good_map_def set_node_def)
  qed
  then have "fs_ok (set_node n i w)" by (simp add: fs_ok_def)
  moreover have "crash_views (set_node n i w) = crash_views w"
    unfolding crash_views_def set_node_maps
    by (rule image_cong [OF refl]) (rule set_node_view [OF pr])
  moreover have "live_view (set_node n i w) = live_view w"
    unfolding live_view_def set_node_maps by (rule set_node_view [OF pr live_in_prefix_maps])
  ultimately show ?thesis by (simp add: quiet_def)
qed

lemma set_node_staged: "staged tmp n w \<Longrightarrow> staged tmp n (set_node k i w)"
  by (simp add: staged_def private_node_def)

lemma same_fs_staged: "same_fs w w' \<Longrightarrow> staged tmp n w' = staged tmp n w"
  by (simp add: staged_def private_node_def same_fs_views) (simp add: same_fs_def)

text \<open>A journal entry for temporary names only.\<close>

lemma view_of_log [simp]: "view_of (log_txn t w) = view_of w"
  by (rule view_of_cong) simp

lemma crash_views_log:
  "crash_views (log_txn t w) = insert (view_of w (map_of (apply_txn t (live w)))) (crash_views w)"
  by (simp add: crash_views_def prefix_maps_log)

lemma live_view_log: "live_view (log_txn t w) = view_of w (map_of (apply_txn t (live w)))"
  by (simp add: live_view_def live_log)

lemma fs_ok_log:
  "fs_ok w \<Longrightarrow> good_map w (map_of (apply_txn t (live w))) \<Longrightarrow> fs_ok (log_txn t w)"
  unfolding fs_ok_def prefix_maps_log good_map_cong [OF log_txn_fields(1,2)] by blast

lemma log_temp_view:
  assumes "is_temp p"
  shows "view_of w (map_of (apply_txn [(p, v)] m)) = view_of w (map_of m)"
  using assms by (auto simp: view_of_def map_of_apply_entry fun_eq_iff)

lemma log_temp_quiet:
  assumes ok: "fs_ok w" and p: "is_temp p" and v: "\<forall>n. v = Some n \<longrightarrow> n < w_next w"
  shows "quiet w (log_txn [(p, v)] w)"
proof -
  have "good_map w (map_of (live w))" using ok live_in_prefix_maps by (auto simp: fs_ok_def)
  then have "good_map w (map_of (apply_txn [(p, v)] (live w)))"
    using p v by (auto simp: good_map_def map_of_apply_entry)
  then have "fs_ok (log_txn [(p, v)] w)" by (rule fs_ok_log [OF ok])
  then show ?thesis
    unfolding quiet_def crash_views_log live_view_log log_temp_view [OF p]
    using live_view_in_crash_views [of w] by (auto simp: live_view_def)
qed

lemma commit_quiet: "fs_ok w \<Longrightarrow> quiet w (commit_dir d w)"
proof -
  assume ok: "fs_ok w"
  have v: "view_of (commit_dir d w) = view_of w"
    by (rule view_of_cong) simp
  have "fs_ok (commit_dir d w)"
    using ok prefix_maps_commit [of d w]
    unfolding fs_ok_def good_map_cong [OF commit_dir_fields(1,2)] by blast
  moreover have "crash_views (commit_dir d w) \<subseteq> crash_views w"
    unfolding crash_views_def v by (rule image_mono [OF prefix_maps_commit])
  moreover have "live_view (commit_dir d w) = live_view w"
    by (simp add: live_view_def v live_commit)
  ultimately show ?thesis by (simp add: quiet_def)
qed

definition settled :: "string \<Rightarrow> 'c world \<Rightarrow> bool" where
  "settled d w \<longleftrightarrow> (\<forall>v \<in> crash_views w. \<forall>p. fst p = d \<longrightarrow> v p = live_view w p)"

lemma commit_settled: "settled d (commit_dir d w)"
  unfolding settled_def crash_views_def live_view_def
  using commit_settles by (fastforce simp: view_of_def live_commit)

lemma quiet_settled: "quiet w w' \<Longrightarrow> settled d w \<Longrightarrow> settled d w'"
  by (auto simp: quiet_def settled_def)

end
