(* ===== verification/Fsx.thy ===== *)
theory Fsx
  imports Fs
begin

text \<open>
  \<^verbatim>\<open>pkg/fsx\<close>: publication of complete files (\<^verbatim>\<open>atomic.go\<close>), moves and removals
  (\<^verbatim>\<open>mutation.go\<close>) with the Unix backend (\<^verbatim>\<open>publication_unix.go\<close>), over the file system of
  theory Fs.  The contracts at the end say, for every plan of failures and crashes, what each
  operation does to the live view and to the views a crash can leave.
\<close>

section \<open>The code\<close>

record stage_error =
  se_stage :: string
  se_published :: bool
  se_err :: os_error

definition stage_failed :: "string \<Rightarrow> os_error \<Rightarrow> stage_error option" where
  "stage_failed st e = Some \<lparr>se_stage = st, se_published = False, se_err = e\<rparr>"

definition stage_uncertain :: "string \<Rightarrow> os_error \<Rightarrow> stage_error option" where
  "stage_uncertain st e = Some \<lparr>se_stage = st, se_published = True, se_err = e\<rparr>"

definition publicationSyncsDirectory :: bool where
  "publicationSyncsDirectory = False"

definition publish :: "path \<Rightarrow> path \<Rightarrow> bool \<Rightarrow> 'c world \<Rightarrow> os_error option \<times> 'c world" where
  "publish temp final exclusive w = (if exclusive then os_link temp final w else os_rename temp final w)"

definition syncDirectory :: "string \<Rightarrow> 'c world \<Rightarrow> os_error option \<times> 'c world" where
  "syncDirectory dir w =
     (case os_open w of
        (Some e, w) \<Rightarrow> (Some e, w)
      | (None, w) \<Rightarrow>
          (case os_sync_dir dir w of (err, w) \<Rightarrow>
             (case os_close w of (closeErr, w) \<Rightarrow>
                (if err \<noteq> None then err else closeErr, w))))"

text \<open>\<^verbatim>\<open>filepath.Base\<close>.\<close>

definition path_base :: "string \<Rightarrow> string" where
  "path_base s =
     (if s = [] then ''.''
      else let t = rev (dropWhile (\<lambda>c. c = CHR ''/'') (rev s));
               b = rev (takeWhile (\<lambda>c. c \<noteq> CHR ''/'') (rev t))
           in if b = [] then ''/'' else b)"

text \<open>The part of \<^verbatim>\<open>writeFile\<close> between its deferred calls: the error and whether \<open>f\<close> was closed.\<close>

definition write_staged ::
    "string \<Rightarrow> string \<Rightarrow> 'c \<Rightarrow> nat \<Rightarrow> bool \<Rightarrow> path \<Rightarrow> nat \<Rightarrow> 'c world \<Rightarrow> (stage_error option \<times> bool) \<times> 'c world" where
  "write_staged dir name data mode exclusive tmp n w =
     (case os_chmod n mode w of
        (Some e, w) \<Rightarrow> ((stage_failed ''chmod'' e, False), w)
      | (None, w) \<Rightarrow>
     (case os_write n data w of ((full, werr), w) \<Rightarrow>
        (case (if werr = None \<and> \<not> full then Some ErrShortWrite else werr) of
           Some e \<Rightarrow> ((stage_failed ''write'' e, False), w)
         | None \<Rightarrow>
     (case os_sync_file n w of
        (Some e, w) \<Rightarrow> ((stage_failed ''file sync'' e, False), w)
      | (None, w) \<Rightarrow>
     (case os_close w of
        (Some e, w) \<Rightarrow> ((stage_failed ''close'' e, True), w)
      | (None, w) \<Rightarrow>
     (case publish tmp (dir, name) exclusive w of
        (Some e, w) \<Rightarrow> ((stage_failed ''publication'' e, True), w)
      | (None, w) \<Rightarrow>
     (case syncDirectory dir w of
        (None, w) \<Rightarrow> ((None, True), w)
      | (Some e, w) \<Rightarrow>
          if publicationSyncsDirectory \<and> e = ErrDirectorySyncUnsupported then ((None, True), w)
          else ((stage_uncertain ''directory sync'' e, True), w))))))))"

definition writeFile ::
    "string \<Rightarrow> string \<Rightarrow> 'c \<Rightarrow> nat \<Rightarrow> bool \<Rightarrow> 'c world \<Rightarrow> stage_error option \<times> 'c world" where
  "writeFile dir name data mode exclusive w =
     (if name = ''.'' \<or> name = [] \<or> path_base name \<noteq> name then (stage_failed ''name'' ErrInvalid, w)
      else (case os_create_temp dir w of
              (Inl e, w) \<Rightarrow> (stage_failed ''create'' e, w)
            | (Inr (tmp, n), w) \<Rightarrow>
                (case write_staged dir name data mode exclusive tmp n w of
                   ((err, closed), w) \<Rightarrow>
                     let w = (if closed then w else snd (os_close w))
                     in (err, snd (os_remove tmp w)))))"

definition WriteFileAtomic :: "string \<Rightarrow> string \<Rightarrow> 'c \<Rightarrow> nat \<Rightarrow> 'c world \<Rightarrow> stage_error option \<times> 'c world" where
  "WriteFileAtomic dir name data mode w = writeFile dir name data mode False w"

definition WriteFileExclusive :: "string \<Rightarrow> string \<Rightarrow> 'c \<Rightarrow> nat \<Rightarrow> 'c world \<Rightarrow> stage_error option \<times> 'c world" where
  "WriteFileExclusive dir name data mode w = writeFile dir name data mode True w"

definition SyncDirectory :: "string \<Rightarrow> 'c world \<Rightarrow> os_error option \<times> 'c world" where
  "SyncDirectory dir w = syncDirectory dir w"

fun confirm_dirs :: "string list \<Rightarrow> 'c world \<Rightarrow> stage_error option \<times> 'c world" where
  "confirm_dirs [] w = (None, w)"
| "confirm_dirs (d # ds) w =
     (case syncDirectory d w of
        (None, w) \<Rightarrow> confirm_dirs ds w
      | (Some e, w) \<Rightarrow>
          if publicationSyncsDirectory \<and> e = ErrDirectorySyncUnsupported then confirm_dirs ds w
          else (stage_uncertain ''move directory sync'' e, w))"

definition confirmMove :: "path \<Rightarrow> path \<Rightarrow> 'c world \<Rightarrow> stage_error option \<times> 'c world" where
  "confirmMove from to w = confirm_dirs [fst to, fst from] w"

definition moveFile :: "path \<Rightarrow> path \<Rightarrow> 'c world \<Rightarrow> stage_error option \<times> 'c world" where
  "moveFile from to w =
     (case os_rename from to w of
        (Some e, w) \<Rightarrow> (stage_failed ''move'' e, w)
      | (None, w) \<Rightarrow> confirmMove from to w)"

definition MoveFileDurable :: "path \<Rightarrow> path \<Rightarrow> 'c world \<Rightarrow> stage_error option \<times> 'c world" where
  "MoveFileDurable from to w = moveFile from to w"

definition ConfirmMove :: "path \<Rightarrow> path \<Rightarrow> 'c world \<Rightarrow> stage_error option \<times> 'c world" where
  "ConfirmMove from to w = confirmMove from to w"

definition removeDurable :: "path \<Rightarrow> 'c world \<Rightarrow> stage_error option \<times> 'c world" where
  "removeDurable p w =
     (case os_remove p w of
        (err, w) \<Rightarrow>
          (case err of
             Some e \<Rightarrow>
               if e \<noteq> ErrNotExist then (stage_failed ''remove'' e, w)
               else (case syncDirectory (fst p) w of
                       (Some e, w) \<Rightarrow> (stage_uncertain ''remove directory sync'' e, w)
                     | (None, w) \<Rightarrow> (None, w))
           | None \<Rightarrow>
               (case syncDirectory (fst p) w of
                  (Some e, w) \<Rightarrow> (stage_uncertain ''remove directory sync'' e, w)
                | (None, w) \<Rightarrow> (None, w))))"

definition RemoveFileDurable :: "path \<Rightarrow> 'c world \<Rightarrow> stage_error option \<times> 'c world" where
  "RemoveFileDurable p w = removeDurable p w"

definition se_is_published :: "stage_error option \<Rightarrow> bool" where
  "se_is_published err = (case err of None \<Rightarrow> True | Some e \<Rightarrow> se_published e)"

lemma stage_simps [simp]:
  "se_is_published None" "se_is_published (stage_uncertain st e)" "\<not> se_is_published (stage_failed st e)"
  "stage_failed st e \<noteq> None" "stage_uncertain st e \<noteq> None"
  by (simp_all add: se_is_published_def stage_failed_def stage_uncertain_def)

section \<open>Contracts\<close>

text \<open>
  What an operation that changes the live view by \<open>f\<close> promises: with a final error that does
  not count as published nothing visible or durable changed; otherwise the change is visible, a
  crash leaves a view from before or the new one, and without an error the directories \<open>ds\<close>
  are settled.
\<close>

definition changes :: "string set \<Rightarrow> ((path \<Rightarrow> 'c seen) \<Rightarrow> path \<Rightarrow> 'c seen) \<Rightarrow> stage_error option \<Rightarrow> 'c world \<Rightarrow> 'c world \<Rightarrow> bool" where
  "changes ds f err w w' \<longleftrightarrow>
     (if se_is_published err
      then fs_ok w' \<and> live_view w' = f (live_view w) \<and>
           crash_views w' \<subseteq> insert (live_view w') (crash_views w) \<and>
           (err = None \<longrightarrow> (\<forall>d \<in> ds. settled d w'))
      else quiet w w')"

lemma changes_pre: "quiet u v \<Longrightarrow> changes ds f err v w \<Longrightarrow> changes ds f err u w"
  unfolding changes_def quiet_def by (cases "se_is_published err") (simp_all, blast, blast)

lemma changes_post: "changes ds f err u v \<Longrightarrow> quiet v w \<Longrightarrow> changes ds f err u w"
  unfolding changes_def using quiet_settled [of v w] quiet_trans [of u v w]
  by (cases "se_is_published err") (auto simp: quiet_def)

lemma unchanged: "quiet w w' \<Longrightarrow> changes ds f (stage_failed st e) w w'"
  by (simp add: changes_def)

lemma syncDirectory_contract:
  assumes "fs_ok w" and "syncDirectory d w = (r, w')"
  shows "quiet w w' \<and> (r = None \<longrightarrow> settled d w')"
proof (cases "tick w")
  case t: (Pair e1 w1)
  have q1: "quiet w w1" using assms(1) tick_same_fs [OF t] by (rule same_fs_quiet)
  show ?thesis
  proof (cases e1)
    case (Some e)
    then have "r = Some e \<and> w' = w1" using assms(2) t by (simp add: syncDirectory_def os_open_def)
    with q1 show ?thesis by simp
  next
    case None
    obtain e2 w2 where s: "os_sync_dir d w1 = (e2, w2)" by (cases "os_sync_dir d w1")
    obtain e3 w3 where c: "os_close w2 = (e3, w3)" by (cases "os_close w2")
    have w': "w' = w3" and r: "r = (if e2 \<noteq> None then e2 else e3)"
      using assms(2) t None s c by (auto simp: syncDirectory_def os_open_def)
    obtain e4 w4 where t4: "tick w1 = (e4, w4)" by (cases "tick w1")
    have ok1: "fs_ok w1" using q1 by (simp add: quiet_def)
    have q4: "quiet w1 w4" by (rule same_fs_quiet [OF ok1 tick_same_fs [OF t4]])
    have q2: "quiet w1 w2 \<and> (e2 = None \<longrightarrow> settled d w2)"
    proof (cases e4)
      case None
      then have "w2 = commit_dir d w4" using s t4 by (simp add: os_sync_dir_def)
      moreover have "quiet w4 (commit_dir d w4)" by (rule commit_quiet) (use q4 in \<open>simp add: quiet_def\<close>)
      ultimately show ?thesis using q4 quiet_trans commit_settled by blast
    next
      case (Some e)
      then have "e2 = Some e \<and> w2 = w4" using s t4 by (simp add: os_sync_dir_def)
      with q4 show ?thesis by simp
    qed
    have "fs_ok w2" using q2 by (simp add: quiet_def)
    then have q3: "quiet w2 w3" using tick_same_fs [of w2 e3 w3] c by (simp add: os_close_def same_fs_quiet)
    show ?thesis using q1 q2 q3 quiet_trans quiet_settled w' r by metis
  qed
qed

subsection \<open>Writing a file\<close>

text \<open>The temporary file holds \<open>c\<close> completely and durably.\<close>

definition ready :: "nat \<Rightarrow> 'c \<Rightarrow> 'c world \<Rightarrow> bool" where
  "ready n c w \<longleftrightarrow> in_data (w_nodes w n) = Some c \<and> in_synced (w_nodes w n)"

lemma create_contract_as:
  assumes ok: "fs_ok w" and c: "os_create_temp_as pre post dir w = (Inr (tmp, n), w')"
    and isT: "\<And>k. is_temp (dir, pre @ dec_digits k @ post)"
  shows "quiet w w' \<and> staged tmp n w'"
proof -
  obtain w1 where t: "tick w = (None, w1)"
    using c by (auto simp: os_create_temp_as_def split: prod.splits option.splits)
  define i where "i = (\<lparr>in_data = None, in_synced = False, in_mode = 384\<rparr> :: 'a inode)"
  define w2 where "w2 = w1\<lparr>w_next := Suc (w_next w1)\<rparr>"
  have s: "same_fs w w1" by (rule tick_same_fs [OF t])
  have n: "n = w_next w1" and tmp: "tmp = (dir, pre @ dec_digits n @ post)"
      and w': "w' = log_txn [(tmp, Some n)] (set_node n i w2)"
    using c t by (auto simp: os_create_temp_as_def Let_def i_def w2_def split: if_splits)
  have isT: "is_temp tmp" unfolding tmp by (rule isT)
  have ok1: "fs_ok w1" using ok s by (simp add: same_fs_views)
  have pm: "prefix_maps w2 = prefix_maps w1" by (simp add: w2_def prefix_maps_def)
  have lv: "live w2 = live w1" by (simp add: w2_def live_def)
  have vw: "view_of w2 = view_of w1" by (rule view_of_cong) (simp add: w2_def)
  have lt: "k < n" if "m \<in> prefix_maps w1" "m p = Some k" for m p k
    using ok1 that unfolding n fs_ok_def good_map_def by blast
  have f2: "w_nodes w2 = w_nodes w1" "w_next w2 = Suc n" by (simp_all add: w2_def n)
  have ok2: "fs_ok w2"
    using ok1 lt unfolding fs_ok_def pm good_map_def f2 less_Suc_eq by blast
  have q12: "quiet w1 w2"
    by (simp add: quiet_def ok2 crash_views_def live_view_def pm lv vw)
  have pr2: "private_node n w2" using lt by (auto simp: private_node_def pm)
  have q23: "quiet w2 (set_node n i w2)" by (rule set_node_quiet [OF ok2 pr2])
  have "\<forall>k. Some n = Some k \<longrightarrow> k < w_next (set_node n i w2)" by (simp add: w2_def n)
  then have q34: "quiet (set_node n i w2) w'"
    unfolding w' using q23 isT by (intro log_temp_quiet) (simp_all add: quiet_def)
  have "quiet w w1" by (rule same_fs_quiet [OF ok s])
  then have q: "quiet w w'" using q12 q23 q34 by (blast intro: quiet_trans)
  have l': "live w' = AList.update tmp n (live w1)"
    by (simp add: w' live_log lv)
  have "private_node n w'"
    unfolding private_node_def w' prefix_maps_log set_node_maps pm lv
  proof (intro ballI allI impI)
    fix m p
    assume m: "m \<in> insert (map_of (apply_txn [(tmp, Some n)] (live w1))) (prefix_maps w1)" and p: "m p = Some n"
    show "is_temp p"
    proof (cases "p = tmp")
      case False
      then have "\<exists>m' \<in> prefix_maps w1. m' p = Some n"
        using m p live_in_prefix_maps [of w1] by (auto simp: map_of_apply_entry update_conv')
      with lt show ?thesis by blast
    qed (simp add: isT)
  qed
  moreover have "map_of (live w') tmp = Some n" by (simp add: l' update_conv')
  moreover have "n < w_next w'" by (simp add: w' f2)
  ultimately have "staged tmp n w'" by (simp add: staged_def isT)
  with q show ?thesis by simp
qed

lemma create_contract:
  assumes "fs_ok w" and "os_create_temp dir w = (Inr (tmp, n), w')"
  shows "quiet w w' \<and> staged tmp n w'"
  by (rule create_contract_as [OF assms(1) assms(2) [unfolded os_create_temp_def]]) (simp add: is_temp_def)

lemma create_fails:
  assumes "fs_ok w" and "os_create_temp_as pre post dir w = (Inl e, w')"
  shows "quiet w w'"
  using assms tick_same_fs [of w]
  by (auto simp: os_create_temp_as_def Let_def same_fs_quiet split: prod.splits option.splits if_splits)

lemma chmod_contract:
  assumes "fs_ok w" and "staged tmp n w" and "os_chmod n mode w = (r, w')"
  shows "quiet w w' \<and> staged tmp n w'"
proof -
  obtain e w1 where t: "tick w = (e, w1)" by (cases "tick w")
  have s: "same_fs w w1" by (rule tick_same_fs [OF t])
  have q1: "quiet w w1" and st: "staged tmp n w1" and ok: "fs_ok w1"
    using assms s by (simp_all add: same_fs_quiet same_fs_staged same_fs_views)
  have "private_node n w1" using st by (simp add: staged_def)
  then have "quiet w1 (set_node n i w1)" for i by (rule set_node_quiet [OF ok])
  then show ?thesis
    using assms(3) t q1 st
    by (cases e) (auto simp: os_chmod_def intro: quiet_trans set_node_staged)
qed

lemma write_contract:
  assumes "fs_ok w" and "staged tmp n w" and "os_write n c w = ((full, e), w')"
  shows "quiet w w' \<and> staged tmp n w' \<and> (full \<and> e = None \<longrightarrow> in_data (w_nodes w' n) = Some c)"
proof -
  obtain e1 w1 where t: "tick w = (e1, w1)" by (cases "tick w")
  have s: "same_fs w w1" by (rule tick_same_fs [OF t])
  have q1: "quiet w w1" and st: "staged tmp n w1" and ok: "fs_ok w1"
    using assms s by (simp_all add: same_fs_quiet same_fs_staged same_fs_views)
  have "private_node n w1" using st by (simp add: staged_def)
  then have "quiet w1 (set_node n i w1)" for i by (rule set_node_quiet [OF ok])
  then show ?thesis
    using assms(3) t q1 st
    by (cases e1) (auto simp: os_write_def split: if_splits intro: quiet_trans set_node_staged,
      auto simp: set_node_def)
qed

lemma sync_file_contract:
  assumes "fs_ok w" and "staged tmp n w" and "in_data (w_nodes w n) = Some c"
    and "os_sync_file n w = (r, w')"
  shows "quiet w w' \<and> staged tmp n w' \<and> (r = None \<longrightarrow> ready n c w')"
proof -
  obtain e1 w1 where t: "tick w = (e1, w1)" by (cases "tick w")
  have s: "same_fs w w1" by (rule tick_same_fs [OF t])
  have q1: "quiet w w1" and st: "staged tmp n w1" and ok: "fs_ok w1" and d: "in_data (w_nodes w1 n) = Some c"
    using assms s by (simp_all add: same_fs_quiet same_fs_staged same_fs_views) (simp add: same_fs_def)
  have "private_node n w1" using st by (simp add: staged_def)
  then have "quiet w1 (set_node n i w1)" for i by (rule set_node_quiet [OF ok])
  then show ?thesis
    using assms(4) t q1 st d
    by (cases e1) (auto simp: os_sync_file_def intro: quiet_trans set_node_staged,
      auto simp: set_node_def ready_def)
qed

lemma close_contract:
  assumes "fs_ok w" and "os_close w = (r, w')"
  shows "quiet w w'" "staged tmp n w' = staged tmp n w" "ready n c w' = ready n c w"
  using assms tick_same_fs [of w r w'] unfolding os_close_def
  by (simp_all add: same_fs_quiet same_fs_staged) (simp add: ready_def same_fs_def)

text \<open>Publication of the staged file.\<close>

lemma publish_contract:
  assumes ok: "fs_ok w" and st: "staged tmp n w" and rd: "ready n c w" and t: "\<not> is_temp t"
    and p: "publish tmp t exclusive w = (r, w')"
  shows "(r = None \<longrightarrow>
            fs_ok w' \<and> live_view w' = (live_view w)(t := Whole c) \<and>
            crash_views w' \<subseteq> insert (live_view w') (crash_views w) \<and>
            (exclusive \<longrightarrow> live_view w t = Absent)) \<and>
         (r \<noteq> None \<longrightarrow> quiet w w')"
proof -
  obtain e w1 where tk: "tick w = (e, w1)" by (cases "tick w")
  have s: "same_fs w w1" by (rule tick_same_fs [OF tk])
  have q1: "quiet w w1" by (rule same_fs_quiet [OF ok s])
  have st1: "staged tmp n w1" and ok1: "fs_ok w1" and rd1: "ready n c w1"
    using ok st rd s by (simp_all add: same_fs_staged same_fs_views) (simp add: ready_def same_fs_def)
  have tmp: "map_of (live w1) tmp = Some n" "is_temp tmp" "n < w_next w1"
    using st1 by (simp_all add: staged_def)
  have ne: "tmp \<noteq> t" using t tmp(2) by auto
  show ?thesis
  proof (cases "r = None")
    case False
    then have "w' = w1"
      using p tk tmp ne by (auto simp: publish_def os_link_def os_rename_def split: option.splits if_splits)
    with False q1 show ?thesis by blast
  next
    case True
    then obtain tx where tx: "w' = log_txn tx w1" "tx = [(t, Some n)] \<or> tx = [(tmp, None), (t, Some n)]"
        and ex: "exclusive \<longrightarrow> map_of (live w1) t = None"
      using p tk tmp ne
      by (cases e) (auto simp: publish_def os_link_def os_rename_def split: option.splits if_splits)
    define m where "m = map_of (apply_txn tx (live w1))"
    have m: "m q = (if q = t then Some n else if is_temp q then m q else map_of (live w1) q)" for q
      using tx(2) ne tmp(2) by (auto simp: m_def update_conv' delete_conv')
    have temps: "m q = Some k \<Longrightarrow> q \<noteq> t \<Longrightarrow> map_of (live w1) q = Some k" for q k
      using tx(2) by (auto simp: m_def update_conv' delete_conv' split: if_splits)
    have g: "good_map w1 (map_of (live w1))" using ok1 live_in_prefix_maps by (auto simp: fs_ok_def)
    have "good_map w1 m"
      unfolding good_map_def
    proof (intro allI impI)
      fix q k assume qk: "m q = Some k"
      show "k < w_next w1 \<and> (\<not> is_temp q \<longrightarrow> in_synced (w_nodes w1 k) \<and> in_data (w_nodes w1 k) \<noteq> None)"
      proof (cases "q = t")
        case True
        then have "k = n" using m [of t] qk by simp
        with rd1 tmp(3) show ?thesis by (simp add: ready_def)
      next
        case False
        then show ?thesis using temps [OF qk] g unfolding good_map_def by blast
      qed
    qed
    then have ok': "fs_ok w'" unfolding tx(1) m_def by (rule fs_ok_log [OF ok1])
    have v: "view_of w1 m = (live_view w1)(t := Whole c)"
    proof
      fix q show "view_of w1 m q = ((live_view w1)(t := Whole c)) q"
        using m [of q] t rd1 by (auto simp: view_of_def live_view_def ready_def node_seen_def)
    qed
    have lv: "live_view w' = view_of w1 m" by (simp add: tx(1) live_view_log m_def)
    have cv: "crash_views w' = insert (view_of w1 m) (crash_views w1)"
      by (simp add: tx(1) crash_views_log m_def)
    have "exclusive \<longrightarrow> live_view w1 t = Absent" using ex by (simp add: live_view_def view_of_def)
    then show ?thesis using True ok' lv cv v q1 by (auto simp: quiet_def)
  qed
qed

text \<open>What \<open>write_staged\<close> needs: the target is not a temporary name.\<close>

definition replaces :: "path \<Rightarrow> 'c \<Rightarrow> (path \<Rightarrow> 'c seen) \<Rightarrow> path \<Rightarrow> 'c seen" where
  "replaces t c v = v(t := Whole c)"

lemma publish_and_sync:
  assumes ok: "fs_ok w" and st: "staged tmp n w" and rd: "ready n c w" and t: "\<not> is_temp (dir, name)"
    and p: "publish tmp (dir, name) exclusive w = (None, w1)" and s: "syncDirectory dir w1 = (r, w')"
    and err: "err = (case r of None \<Rightarrow> None | Some e \<Rightarrow> stage_uncertain st' e)"
  shows "changes {dir} (replaces (dir, name) c) err w w' \<and> (exclusive \<longrightarrow> live_view w (dir, name) = Absent)"
proof -
  have pc: "fs_ok w1 \<and> live_view w1 = (live_view w)((dir, name) := Whole c) \<and>
              crash_views w1 \<subseteq> insert (live_view w1) (crash_views w) \<and>
              (exclusive \<longrightarrow> live_view w (dir, name) = Absent)"
    using publish_contract [OF ok st rd t p] by blast
  have sc: "quiet w1 w' \<and> (r = None \<longrightarrow> settled dir w')"
    using syncDirectory_contract s pc by blast
  have e: "se_is_published err" "err = None \<longrightarrow> r = None"
    using err by (simp_all split: option.splits)
  show ?thesis using pc sc e by (auto simp: changes_def quiet_def replaces_def)
qed

lemma write_staged_contract:
  assumes ok: "fs_ok w" and st: "staged tmp n w" and t: "\<not> is_temp (dir, name)"
    and ws: "write_staged dir name c mode exclusive tmp n w = ((err, closed), w')"
  shows "changes {dir} (replaces (dir, name) c) err w w' \<and>
         (exclusive \<and> se_is_published err \<longrightarrow> live_view w (dir, name) = Absent)"
proof -
  note fails = unchanged [where ds = "{dir}" and f = "replaces (dir, name) c"]
  obtain e1 w1 where 1: "os_chmod n mode w = (e1, w1)" by (cases "os_chmod n mode w")
  have c1: "quiet w w1 \<and> staged tmp n w1" by (rule chmod_contract [OF ok st 1])
  have ok1: "fs_ok w1" using c1 by (simp add: quiet_def)
  obtain full we w2 where 2: "os_write n c w1 = ((full, we), w2)" by (metis surj_pair)
  have c2: "quiet w1 w2 \<and> staged tmp n w2 \<and> (full \<and> we = None \<longrightarrow> in_data (w_nodes w2 n) = Some c)"
    by (rule write_contract [OF ok1 _ 2]) (use c1 in simp)
  have q2: "quiet w w2" using c1 c2 quiet_trans by blast
  have ok2: "fs_ok w2" using c2 by (simp add: quiet_def)
  obtain e3 w3 where 3: "os_sync_file n w2 = (e3, w3)" by (cases "os_sync_file n w2")
  obtain e4 w4 where 4: "os_close w3 = (e4, w4)" by (cases "os_close w3")
  obtain e5 w5 where 5: "publish tmp (dir, name) exclusive w4 = (e5, w5)" by (metis surj_pair)
  obtain e6 w6 where 6: "syncDirectory dir w5 = (e6, w6)" by (cases "syncDirectory dir w5")
  define we' where "we' = (if we = None \<and> \<not> full then Some ErrShortWrite else we)"
  consider (chmod) e where "e1 = Some e" | (wr) e where "e1 = None" "we' = Some e"
    | (data) "e1 = None" "we' = None" by (cases e1; cases we') auto
  then show ?thesis
  proof cases
    case chmod
    then have "err = stage_failed ''chmod'' e \<and> w' = w1" using ws 1 by (simp add: write_staged_def)
    then show ?thesis using fails c1 by simp
  next
    case wr
    then have "err = stage_failed ''write'' e \<and> w' = w2"
      using ws 1 2 by (simp add: write_staged_def we'_def [symmetric])
    then show ?thesis using fails q2 by simp
  next
    case data
    then have fw: "full" "we = None" by (auto simp: we'_def split: if_splits)
    then have d2: "in_data (w_nodes w2 n) = Some c" and st2: "staged tmp n w2" using c2 by simp_all
    have c3: "quiet w2 w3 \<and> staged tmp n w3 \<and> (e3 = None \<longrightarrow> ready n c w3)"
      by (rule sync_file_contract [OF ok2 st2 d2 3])
    have ok3: "fs_ok w3" using c3 by (simp add: quiet_def)
    have q3: "quiet w w3" using q2 c3 quiet_trans by blast
    note c4 = close_contract [OF ok3 4]
    have ok4: "fs_ok w4" using c4(1) by (simp add: quiet_def)
    have q4: "quiet w w4" using q3 c4(1) by (rule quiet_trans)
    have ws': "((err, closed), w') =
        (case e3 of Some e \<Rightarrow> ((stage_failed ''file sync'' e, False), w3) | None \<Rightarrow>
        (case e4 of Some e \<Rightarrow> ((stage_failed ''close'' e, True), w4) | None \<Rightarrow>
        (case e5 of Some e \<Rightarrow> ((stage_failed ''publication'' e, True), w5) | None \<Rightarrow>
        (case e6 of None \<Rightarrow> ((None, True), w6) | Some e \<Rightarrow> ((stage_uncertain ''directory sync'' e, True), w6)))))"
      using ws 1 2 3 4 5 6 data
      by (simp add: write_staged_def we'_def [symmetric] publicationSyncsDirectory_def split: option.splits)
    show ?thesis
    proof (cases "e3 = None \<and> e4 = None")
      case False
      then show ?thesis using ws' fails q3 q4 by (auto split: option.splits)
    next
      case True
      then have rd4: "ready n c w4" and st4: "staged tmp n w4" using c3 c4 by simp_all
      show ?thesis
      proof (cases e5)
        case (Some e)
        then have "quiet w4 w5" using publish_contract [OF ok4 st4 rd4 t 5] by simp
        then have "quiet w w5" using q4 quiet_trans by blast
        then show ?thesis using ws' True Some fails by simp
      next
        case None
        define er where "er = (case e6 of None \<Rightarrow> None | Some e \<Rightarrow> stage_uncertain ''directory sync'' e)"
        have er: "err = er" "w' = w6" using ws' True None by (auto simp: er_def split: option.splits)
        have "changes {dir} (replaces (dir, name) c) er w4 w6 \<and> (exclusive \<longrightarrow> live_view w4 (dir, name) = Absent)"
          using publish_and_sync [OF ok4 st4 rd4 t _ 6 er_def] 5 None by blast
        then show ?thesis using changes_pre [OF q4] q4 er by (auto simp: quiet_def)
      qed
    qed
  qed
qed

lemma os_remove_temp_quiet:
  assumes "fs_ok w" and "is_temp p"
  shows "quiet w (snd (os_remove p w))"
proof -
  obtain e w1 where t: "tick w = (e, w1)" by (cases "tick w")
  have q: "quiet w w1" and ok: "fs_ok w1"
    using assms(1) tick_same_fs [OF t] by (simp_all add: same_fs_quiet same_fs_views)
  have "quiet w1 (log_txn [(p, None)] w1)" by (rule log_temp_quiet [OF ok assms(2)]) simp
  then show ?thesis using t q by (cases e) (auto simp: os_remove_def intro: quiet_trans)
qed

lemma writeFile_contract:
  assumes ok: "fs_ok w" and t: "\<not> is_temp (dir, name)"
    and wf: "writeFile dir name c mode exclusive w = (err, w')"
  shows "changes {dir} (replaces (dir, name) c) err w w' \<and>
         (exclusive \<and> se_is_published err \<longrightarrow> live_view w (dir, name) = Absent)"
proof -
  note fails = unchanged [where ds = "{dir}" and f = "replaces (dir, name) c"]
  have qr: "quiet w w" using ok by (simp add: quiet_def)
  show ?thesis
  proof (cases "name = ''.'' \<or> name = [] \<or> path_base name \<noteq> name")
    case True
    then have "err = stage_failed ''name'' ErrInvalid \<and> w' = w" using wf by (simp add: writeFile_def)
    then show ?thesis using fails qr by simp
  next
    case nm: False
    obtain cr w1 where c: "os_create_temp dir w = (cr, w1)" by (cases "os_create_temp dir w")
    show ?thesis
    proof (cases cr)
      case (Inl e)
      have "quiet w w1"
        using create_fails [OF ok] c Inl by (simp add: os_create_temp_def)
      moreover have "err = stage_failed ''create'' e \<and> w' = w1"
        using wf nm c Inl by (simp add: writeFile_def)
      ultimately show ?thesis using fails by simp
    next
      case (Inr tn)
      obtain tmp n where tn: "tn = (tmp, n)" by (cases tn)
      have c1: "quiet w w1 \<and> staged tmp n w1"
        by (rule create_contract [OF ok]) (use c Inr tn in simp)
      then have ok1: "fs_ok w1" and st1: "staged tmp n w1" by (simp_all add: quiet_def)
      obtain err' closed w2 where ws: "write_staged dir name c mode exclusive tmp n w1 = ((err', closed), w2)"
        by (metis surj_pair)
      have sc: "changes {dir} (replaces (dir, name) c) err' w1 w2 \<and>
          (exclusive \<and> se_is_published err' \<longrightarrow> live_view w1 (dir, name) = Absent)"
        by (rule write_staged_contract [OF ok1 st1 t ws])
      then have ok2: "fs_ok w2" by (auto simp: changes_def quiet_def split: if_splits)
      define w3 where "w3 = (if closed then w2 else snd (os_close w2))"
      have q3: "quiet w2 w3"
      proof (cases closed)
        case True
        then show ?thesis using ok2 by (simp add: w3_def quiet_def)
      next
        case False
        then show ?thesis
          using close_contract(1) [OF ok2, of "fst (os_close w2)" "snd (os_close w2)"] by (simp add: w3_def)
      qed
      have "fs_ok w3" "is_temp tmp" using q3 st1 by (simp_all add: quiet_def staged_def)
      then have q4: "quiet w3 (snd (os_remove tmp w3))" by (rule os_remove_temp_quiet)
      have e: "err = err'" "w' = snd (os_remove tmp w3)"
        using wf nm c Inr tn ws by (simp_all add: writeFile_def Let_def w3_def)
      have "quiet w2 w'" using q3 q4 e quiet_trans by blast
      then have "changes {dir} (replaces (dir, name) c) err w w'"
        using sc c1 e changes_pre changes_post by blast
      then show ?thesis using sc c1 e by (auto simp: quiet_def)
    qed
  qed
qed

subsection \<open>Moving and removing a file\<close>

text \<open>A directory change of published names.\<close>

definition relinks :: "path \<Rightarrow> path \<Rightarrow> (path \<Rightarrow> 'c seen) \<Rightarrow> path \<Rightarrow> 'c seen" where
  "relinks from to v = v(from := Absent, to := v from)"

definition drops :: "path \<Rightarrow> (path \<Rightarrow> 'c seen) \<Rightarrow> path \<Rightarrow> 'c seen" where
  "drops p v = v(p := Absent)"

lemma published_present:
  "\<not> is_temp p \<Longrightarrow> fs_ok w \<Longrightarrow> map_of (live w) p = Some n \<Longrightarrow> live_view w p \<noteq> Absent"
  by (auto simp: live_view_def view_of_def node_seen_def split: option.splits)

lemma log_relink:
  assumes ok: "fs_ok w" and n: "map_of (live w) from = Some n"
    and f: "\<not> is_temp from" and t: "\<not> is_temp to" and ne: "from \<noteq> to"
  defines "w' \<equiv> log_txn [(from, None), (to, Some n)] w"
  shows "fs_ok w' \<and> live_view w' = relinks from to (live_view w) \<and>
         crash_views w' \<subseteq> insert (live_view w') (crash_views w)"
proof -
  define m where "m = map_of (apply_txn [(from, None), (to, Some n)] (live w))"
  have m: "m q = (if q = to then Some n else if q = from then None else map_of (live w) q)" for q
    using ne by (auto simp: m_def update_conv' delete_conv')
  have g: "good_map w (map_of (live w))" using ok live_in_prefix_maps by (auto simp: fs_ok_def)
  have "good_map w m"
    unfolding good_map_def
  proof (intro allI impI)
    fix q k assume "m q = Some k"
    then have "q = to \<and> k = n \<or> map_of (live w) q = Some k" using m [of q] by (auto split: if_splits)
    then show "k < w_next w \<and> (\<not> is_temp q \<longrightarrow> in_synced (w_nodes w k) \<and> in_data (w_nodes w k) \<noteq> None)"
      using g n f unfolding good_map_def by blast
  qed
  then have "fs_ok w'" unfolding w'_def m_def by (rule fs_ok_log [OF ok])
  moreover have "view_of w m = relinks from to (live_view w)"
  proof
    fix q show "view_of w m q = relinks from to (live_view w) q"
      using m [of q] n f t ne by (auto simp: view_of_def live_view_def relinks_def)
  qed
  ultimately show ?thesis
    by (simp add: w'_def live_view_log crash_views_log m_def)
qed

lemma log_drop:
  assumes ok: "fs_ok w" and p: "\<not> is_temp p"
  defines "w' \<equiv> log_txn [(p, None)] w"
  shows "fs_ok w' \<and> live_view w' = drops p (live_view w) \<and>
         crash_views w' \<subseteq> insert (live_view w') (crash_views w)"
proof -
  define m where "m = map_of (apply_txn [(p, None)] (live w))"
  have m: "m q = (if q = p then None else map_of (live w) q)" for q
    by (auto simp: m_def delete_conv')
  have g: "good_map w (map_of (live w))" using ok live_in_prefix_maps by (auto simp: fs_ok_def)
  have "good_map w m"
    unfolding good_map_def
  proof (intro allI impI)
    fix q k assume "m q = Some k"
    then have "map_of (live w) q = Some k" using m [of q] by (auto split: if_splits)
    then show "k < w_next w \<and> (\<not> is_temp q \<longrightarrow> in_synced (w_nodes w k) \<and> in_data (w_nodes w k) \<noteq> None)"
      using g unfolding good_map_def by blast
  qed
  then have "fs_ok w'" unfolding w'_def m_def by (rule fs_ok_log [OF ok])
  moreover have "view_of w m = drops p (live_view w)"
  proof
    fix q show "view_of w m q = drops p (live_view w) q"
      using m [of q] by (auto simp: view_of_def live_view_def drops_def)
  qed
  ultimately show ?thesis
    by (simp add: w'_def live_view_log crash_views_log m_def)
qed

lemma confirm_dirs_contract:
  assumes "fs_ok w" and "confirm_dirs ds w = (err, w')"
  shows "quiet w w' \<and> se_is_published err \<and> (err = None \<longrightarrow> (\<forall>d \<in> set ds. settled d w'))"
  using assms
proof (induction ds arbitrary: w)
  case Nil
  then show ?case by (simp add: quiet_def)
next
  case (Cons d ds)
  obtain r w1 where s: "syncDirectory d w = (r, w1)" by (cases "syncDirectory d w")
  have c: "quiet w w1 \<and> (r = None \<longrightarrow> settled d w1)" by (rule syncDirectory_contract [OF Cons.prems(1) s])
  show ?case
  proof (cases r)
    case (Some e)
    then have "err = stage_uncertain ''move directory sync'' e \<and> w' = w1"
      using Cons.prems(2) s by (simp add: publicationSyncsDirectory_def)
    with c show ?thesis by simp
  next
    case None
    then have cd: "confirm_dirs ds w1 = (err, w')" using Cons.prems(2) s by simp
    have "fs_ok w1" using c by (simp add: quiet_def)
    from Cons.IH [OF this cd] have ih: "quiet w1 w' \<and> se_is_published err \<and> (err = None \<longrightarrow> (\<forall>d \<in> set ds. settled d w'))" .
    then show ?thesis using c None quiet_trans quiet_settled by (metis set_ConsD)
  qed
qed

lemma changes_then_quiet:
  assumes "fs_ok w1 \<and> live_view w1 = f (live_view w) \<and> crash_views w1 \<subseteq> insert (live_view w1) (crash_views w)"
    and "quiet w1 w'" and "se_is_published err" and "err = None \<longrightarrow> (\<forall>d \<in> ds. settled d w')"
  shows "changes ds f err w w'"
  using assms by (auto simp: changes_def quiet_def)

lemma moveFile_contract:
  assumes ok: "fs_ok w" and f: "\<not> is_temp from" and t: "\<not> is_temp to" and ne: "from \<noteq> to"
    and mv: "MoveFileDurable from to w = (err, w')"
  shows "changes {fst from, fst to} (relinks from to) err w w' \<and>
         (se_is_published err \<longrightarrow> live_view w from \<noteq> Absent)"
proof -
  obtain r w2 where r: "os_rename from to w = (r, w2)" by (cases "os_rename from to w")
  obtain e w1 where tk: "tick w = (e, w1)" by (cases "tick w")
  have q: "quiet w w1" by (rule tick_quiet [OF ok tk])
  then have ok1: "fs_ok w1" by (simp add: quiet_def)
  show ?thesis
  proof (cases r)
    case (Some e')
    then have "w2 = w1" using r tk ne by (auto simp: os_rename_def split: option.splits if_splits)
    then have "err = stage_failed ''move'' e' \<and> w' = w1"
      using mv r Some by (simp add: MoveFileDurable_def moveFile_def)
    then show ?thesis using unchanged [OF q] by simp
  next
    case None
    then obtain n where n: "map_of (live w1) from = Some n" and w2: "w2 = log_txn [(from, None), (to, Some n)] w1"
      using r tk ne by (auto simp: os_rename_def split: option.splits if_splits)
    have l: "fs_ok w2 \<and> live_view w2 = relinks from to (live_view w1) \<and>
        crash_views w2 \<subseteq> insert (live_view w2) (crash_views w1)"
      unfolding w2 by (rule log_relink [OF ok1 n f t ne])
    have cd: "confirm_dirs [fst to, fst from] w2 = (err, w')"
      using mv r None by (simp add: MoveFileDurable_def moveFile_def confirmMove_def)
    have c: "quiet w2 w' \<and> se_is_published err \<and> (err = None \<longrightarrow> (\<forall>d \<in> {fst from, fst to}. settled d w'))"
      using confirm_dirs_contract [OF _ cd] l by simp
    have "changes {fst from, fst to} (relinks from to) err w1 w'"
      by (rule changes_then_quiet [where ?w1.0 = w2]) (use l c in blast)+
    moreover have "live_view w1 from \<noteq> Absent" by (rule published_present [OF f ok1 n])
    ultimately show ?thesis using changes_pre [OF q] q by (auto simp: quiet_def)
  qed
qed

lemma removeFile_contract:
  assumes ok: "fs_ok w" and p: "\<not> is_temp p"
    and rm: "RemoveFileDurable p w = (err, w')"
  shows "changes {fst p} (drops p) err w w'"
proof -
  obtain r w2 where r: "os_remove p w = (r, w2)" by (cases "os_remove p w")
  obtain e w1 where tk: "tick w = (e, w1)" by (cases "tick w")
  have q: "quiet w w1" by (rule tick_quiet [OF ok tk])
  then have ok1: "fs_ok w1" by (simp add: quiet_def)
  obtain s w3 where s: "syncDirectory (fst p) w2 = (s, w3)" by (cases "syncDirectory (fst p) w2")
  show ?thesis
  proof (cases "r = None \<or> r = Some ErrNotExist")
    case False
    then obtain e' where e': "r = Some e'" "e' \<noteq> ErrNotExist" by (cases r) auto
    then have "w2 = w1" using r tk by (auto simp: os_remove_def split: option.splits if_splits)
    then have "err = stage_failed ''remove'' e' \<and> w' = w1"
      using rm r e' by (simp add: RemoveFileDurable_def removeDurable_def)
    then show ?thesis using unchanged [OF q] by simp
  next
    case True
    have e: "err = (case s of Some e \<Rightarrow> stage_uncertain ''remove directory sync'' e | None \<Rightarrow> None)" "w' = w3"
      using rm r s True by (auto simp: RemoveFileDurable_def removeDurable_def split: option.splits)
    have l: "fs_ok w2 \<and> live_view w2 = drops p (live_view w1) \<and>
        crash_views w2 \<subseteq> insert (live_view w2) (crash_views w1)"
    proof (cases r)
      case None
      then have "w2 = log_txn [(p, None)] w1"
        using r tk by (auto simp: os_remove_def split: option.splits if_splits)
      then show ?thesis using log_drop [OF ok1 p] by blast
    next
      case (Some x)
      then have "map_of (live w1) p = None" and w2: "w2 = w1"
        using True r tk tick_not_directory [of w] by (auto simp: os_remove_def split: option.splits if_splits)
      then have "drops p (live_view w1) = live_view w1"
        by (auto simp: drops_def live_view_def view_of_def)
      then show ?thesis using w2 ok1 by auto
    qed
    have ok2: "fs_ok w2" using l by simp
    have c: "quiet w2 w3 \<and> (s = None \<longrightarrow> settled (fst p) w3)" by (rule syncDirectory_contract [OF ok2 s])
    have "changes {fst p} (drops p) err w1 w'"
    proof (rule changes_then_quiet [where ?w1.0 = w2])
      show "fs_ok w2 \<and> live_view w2 = drops p (live_view w1) \<and>
          crash_views w2 \<subseteq> insert (live_view w2) (crash_views w1)" by (rule l)
      show "quiet w2 w'" using c e by simp
      show "se_is_published err" using e by (simp split: option.splits)
      show "err = None \<longrightarrow> (\<forall>d \<in> {fst p}. settled d w')" using c e by (simp split: option.splits)
    qed
    then show ?thesis using changes_pre [OF q] by blast
  qed
qed

section \<open>Properties\<close>

lemma settledD: "settled (fst p) w \<Longrightarrow> v \<in> crash_views w \<Longrightarrow> v p = live_view w p"
  unfolding settled_def by blast

text \<open>
  C23. Writing a file is atomic under every combination of failures and at every crash point.
  Without an error the file holds the new contents for the program and after any crash.  An
  error that does not count as published leaves the visible files unchanged.  Whatever
  happened, a crash leaves either a state possible before the call or the state before the
  call with the complete new contents under the name.  An exclusive write never replaces a
  file that was there.
\<close>

theorem write_file_crash_atomic:
  assumes "fs_ok w" and "\<not> is_temp (dir, name)" and "writeFile dir name c mode exclusive w = (err, w')"
  shows "fs_ok w' \<and>
    (err = None \<longrightarrow> live_view w' (dir, name) = Whole c \<and> (\<forall>v \<in> crash_views w'. v (dir, name) = Whole c)) \<and>
    (\<not> se_is_published err \<longrightarrow> live_view w' = live_view w) \<and>
    (\<forall>v \<in> crash_views w'. v \<in> crash_views w \<or> v = (live_view w)((dir, name) := Whole c)) \<and>
    (exclusive \<and> live_view w (dir, name) \<noteq> Absent \<longrightarrow> err \<noteq> None \<and> live_view w' = live_view w)"
proof -
  have c: "changes {dir} (replaces (dir, name) c) err w w'"
      "exclusive \<and> se_is_published err \<longrightarrow> live_view w (dir, name) = Absent"
    using writeFile_contract [OF assms] by blast+
  show ?thesis
  proof (cases "se_is_published err")
    case True
    then have p: "fs_ok w'" "live_view w' = (live_view w)((dir, name) := Whole c)"
        "crash_views w' \<subseteq> insert (live_view w') (crash_views w)" "err = None \<longrightarrow> settled dir w'"
      using c(1) True by (auto simp: changes_def replaces_def)
    have "err = None \<longrightarrow> (\<forall>v \<in> crash_views w'. v (dir, name) = Whole c)"
      using p(2,4) settledD [of "(dir, name)" w'] by auto
    with p True c(2) show ?thesis by auto
  next
    case False
    then have "quiet w w'" using c(1) by (simp add: changes_def)
    moreover have "err \<noteq> None" using False by (cases err) simp_all
    ultimately show ?thesis by (auto simp: quiet_def)
  qed
qed

definition empty_world :: "outcome_os list \<Rightarrow> 'c world" where
  "empty_world plan =
     \<lparr>w_nodes = (\<lambda>_. \<lparr>in_data = None, in_synced = False, in_mode = 0\<rparr>), w_next = 0,
      w_dirs = [''d'', ''d/q''], w_disk = [],
      w_journal = [], w_plan = plan, w_dead = False\<rparr>"

lemma empty_world_ok [simp]: "fs_ok (empty_world plan)"
  by (simp add: fs_ok_def good_map_def prefix_maps_def empty_world_def)

lemma write_file_crash_atomic_witness:
  "fst (writeFile ''d'' ''f'' True 384 True (empty_world [Go, Go, Go, Go, Go, Go, Die])) \<noteq> None \<and>
   crash_views (snd (writeFile ''d'' ''f'' True 384 True (empty_world [Go, Go, Go, Go, Go, Go, Die])))
     \<subseteq> {\<lambda>_. Absent, (\<lambda>_. Absent)((''d'', ''f'') := Whole True)}"
proof -
  let ?w = "empty_world [Go, Go, Go, Go, Go, Go, Die] :: bool world"
  have t: "\<not> is_temp (''d'', ''f'')" by (simp add: is_temp_def staging_name_def)
  have e: "fst (writeFile ''d'' ''f'' True 384 True ?w) \<noteq> None" by code_simp
  have v: "crash_views ?w = {\<lambda>_. Absent}" "live_view ?w = (\<lambda>_. Absent)"
    by (auto simp: crash_views_def live_view_def prefix_maps_def view_of_def empty_world_def live_def)
  show ?thesis
    using write_file_crash_atomic [OF empty_world_ok [of "[Go, Go, Go, Go, Go, Go, Die]"] t surjective_pairing,
        of True 384 True] e unfolding v by blast
qed

text \<open>
  A durable move never loses the file and never shows it half moved: at every crash point
  the views are those possible before or the one in which the contents of the source stand
  under the destination and the source is gone.  Without an error the destination survives
  every crash; an error that does not count as published changed nothing.
\<close>

theorem move_file_crash_atomic:
  assumes "fs_ok w" and "\<not> is_temp from" and "\<not> is_temp to" and "from \<noteq> to"
    and "MoveFileDurable from to w = (err, w')"
  shows "fs_ok w' \<and>
    (se_is_published err \<longrightarrow> live_view w from \<noteq> Absent \<and> live_view w' to = live_view w from \<and> live_view w' from = Absent) \<and>
    (err = None \<longrightarrow> (\<forall>v \<in> crash_views w'. v to = live_view w from \<and> v from = Absent)) \<and>
    (\<not> se_is_published err \<longrightarrow> live_view w' = live_view w) \<and>
    (\<forall>v \<in> crash_views w'. v \<in> crash_views w \<or> v = (live_view w)(from := Absent, to := live_view w from))"
proof -
  have c: "changes {fst from, fst to} (relinks from to) err w w'"
      "se_is_published err \<longrightarrow> live_view w from \<noteq> Absent"
    using moveFile_contract [OF assms] by blast+
  show ?thesis
  proof (cases "se_is_published err")
    case True
    then have p: "fs_ok w'" "live_view w' = (live_view w)(from := Absent, to := live_view w from)"
        "crash_views w' \<subseteq> insert (live_view w') (crash_views w)"
        "err = None \<longrightarrow> settled (fst from) w' \<and> settled (fst to) w'"
      using c(1) True by (auto simp: changes_def relinks_def)
    have "err = None \<longrightarrow> (\<forall>v \<in> crash_views w'. v to = live_view w from \<and> v from = Absent)"
      using p(2,4) assms(4) settledD [of "from" w'] settledD [of to w'] by auto
    with p True c(2) assms(4) show ?thesis by auto
  next
    case False
    then have "quiet w w'" using c(1) by (simp add: changes_def)
    with False show ?thesis by (auto simp: quiet_def)
  qed
qed

definition one_file_world :: "path \<Rightarrow> 'c \<Rightarrow> outcome_os list \<Rightarrow> 'c world" where
  "one_file_world p c plan =
     \<lparr>w_nodes = (\<lambda>_. \<lparr>in_data = Some c, in_synced = True, in_mode = 384\<rparr>), w_next = 1,
      w_dirs = [''d'', ''d/q''], w_disk = [(p, 0)],
      w_journal = [], w_plan = plan, w_dead = False\<rparr>"

lemma one_file_world_ok [simp]: "fs_ok (one_file_world p c plan)"
  by (simp add: fs_ok_def good_map_def prefix_maps_def one_file_world_def)

lemma move_file_crash_atomic_witness:
  "fst (MoveFileDurable (''d'', ''f'') (''d/q'', ''f'') (one_file_world (''d'', ''f'') True [])) = None \<and>
   crash_views (snd (MoveFileDurable (''d'', ''f'') (''d/q'', ''f'') (one_file_world (''d'', ''f'') True [])))
     \<subseteq> {v. v (''d/q'', ''f'') = Whole True \<and> v (''d'', ''f'') = Absent}"
proof -
  let ?w = "one_file_world (''d'', ''f'') True []"
  have t: "\<not> is_temp (''d'', ''f'')" "\<not> is_temp (''d/q'', ''f'')" "(''d'', ''f'') \<noteq> (''d/q'', ''f'')"
    by (simp_all add: is_temp_def staging_name_def)
  have e: "fst (MoveFileDurable (''d'', ''f'') (''d/q'', ''f'') ?w) = None" by code_simp
  have v: "live_view ?w (''d'', ''f'') = Whole True" by code_simp
  show ?thesis
    using move_file_crash_atomic [OF one_file_world_ok [of "(''d'', ''f'')" True "[]"] t surjective_pairing] e
    unfolding v by blast
qed

end
