(* ===== verification/Json.thy ===== *)
theory Json
  imports Prelude
begin

text \<open>
  JSON values as \<^verbatim>\<open>encoding/json\<close> decodes them with \<^verbatim>\<open>UseNumber\<close>: a number keeps its text, an
  object keeps its members in the order of their names with one value a name, so that equality
  is \<^verbatim>\<open>reflect.DeepEqual\<close> of the decoded values.  \<open>json_text\<close> is what a Go string becomes when it
  is written and read back: a byte that is no part of a UTF-8 sequence becomes U+FFFD.
\<close>

datatype json =
    JNull
  | JBool bool
  | JNum string
  | JStr string
  | JArr "json list"
  | JObj "(string \<times> json) list"

function json_text :: "string \<Rightarrow> string" where
  "json_text s =
     (case s of
        [] \<Rightarrow> []
      | c # r \<Rightarrow>
          (case decode_rune s of
             None \<Rightarrow> [CHR 0xEF, CHR 0xBF, CHR 0xBD] @ json_text r
           | Some (u, w) \<Rightarrow> take w s @ json_text (drop w s)))"
  by pat_completeness auto
termination
  by (relation "measure length") (auto dest!: decode_rune_width)

declare json_text.simps [simp del]

lemma json_text_valid: "utf8_valid s \<Longrightarrow> json_text s = s"
proof (induction s rule: utf8_valid.induct)
  case (1 s)
  show ?case
  proof (cases s)
    case Nil
    then show ?thesis by (simp add: json_text.simps)
  next
    case (Cons c r)
    have "utf8_valid s" by (rule "1.prems")
    then obtain u w where d: "decode_rune s = Some (u, w)" and v: "utf8_valid (drop w s)"
      using Cons by (subst (asm) utf8_valid.simps) (auto split: option.splits)
    have "json_text (drop w s) = drop w s" using "1.IH" [OF _ d refl v] Cons by simp
    moreover have "json_text s = take w s @ json_text (drop w s)"
      using Cons d by (subst json_text.simps) simp
    ultimately show ?thesis by simp
  qed
qed

text \<open>The field of an object, as unmarshalling into a struct finds it.\<close>

definition json_field :: "string \<Rightarrow> json \<Rightarrow> json option" where
  "json_field k v = (case v of JObj ms \<Rightarrow> map_of ms k | _ \<Rightarrow> None)"

end
