(* ===== verification/Spool.thy ===== *)
theory Spool
  imports Fsx Json Sha256
begin

text \<open>
  \<^verbatim>\<open>pkg/mining/spool/spool.go\<close>: the durable queue of observations.  A file of the queue holds a
  record (\<open>Rec\<close>) or bytes that do not unmarshal into one (\<open>Junk\<close>); the raw observation of a
  record is the value it decodes to, \<open>None\<close> when it is no JSON.  Times are nanoseconds since the
  Unix epoch.  The index \<open>sp_locs\<close> is the map from stable identities to locations, \<open>None\<close> for
  the nil map of an inspection handle.  The mutex is held for the whole of every operation, so
  operations are sequential steps on the handle and the file system.
\<close>

section \<open>State\<close>

record srecord =
  sr_id :: string
  sr_slot :: "64 word"
  sr_epoch :: "64 word"
  sr_obs :: "json option"
  sr_spooled_at :: int
  sr_attempts :: int
  sr_next :: int
  sr_terminal :: string
  sr_removal :: bool

datatype content = Rec srecord | Junk

datatype loc = Active string | Quar string

record spool =
  sp_dir :: string
  sp_locs :: "(string \<times> loc) list option"
  sp_unknown :: int

datatype spool_error =
    SpEmptyDir
  | SpOS os_error
  | SpStage stage_error
  | SpInvalidID
  | SpInspectionOnly
  | SpEvidenceConflict
  | SpDuplicateIdentity string
  | SpAbsent
  | SpEncode
  | SpUnmarshal
  | SpNoID
  | SpJoin spool_error "spool_error option"

type_synonym sworld = "content world"

text \<open>The zero \<^verbatim>\<open>time.Time\<close>, and the times \<^verbatim>\<open>json.Marshal\<close> accepts (years 0 to 9999).\<close>

definition go_zero_time :: int where
  "go_zero_time = - 62135596800000000000"

definition time_marshals :: "int \<Rightarrow> bool" where
  "time_marshals t \<longleftrightarrow> - 62167219200000000000 \<le> t \<and> t < 253402300800000000000"

definition quar_dir :: "spool \<Rightarrow> string" where
  "quar_dir sp = sp_dir sp @ ''/quarantine''"

definition loc_path :: "spool \<Rightarrow> loc \<Rightarrow> path" where
  "loc_path sp l = (case l of Active n \<Rightarrow> (sp_dir sp, n) | Quar n \<Rightarrow> (quar_dir sp, n))"

fun quarantined :: "loc \<Rightarrow> bool" where
  "quarantined (Active n) = False"
| "quarantined (Quar n) = True"

fun loc_name :: "loc \<Rightarrow> string" where
  "loc_name (Active n) = n"
| "loc_name (Quar n) = ''quarantine/'' @ n"

definition json_file :: "string \<Rightarrow> bool" where
  "json_file n \<longleftrightarrow> \<not> (prefix ''.tmp-'' n \<or> \<not> suffix ''.json'' n)"

section \<open>Identities and names\<close>

text \<open>\<^verbatim>\<open>NewClientRecordID\<close> from the random bytes and the clock in milliseconds.\<close>

definition uuid_bytes :: "bytes \<Rightarrow> nat \<Rightarrow> bytes" where
  "uuid_bytes rnd ms =
     (let b = take 6 (drop 2 (be_bytes 8 (ms mod 2 ^ 64))) @ drop 6 rnd
      in b[6 := char_of (b2n (b ! 6) mod 16 + 112), 8 := char_of (b2n (b ! 8) mod 64 + 128)])"

definition NewClientRecordID :: "bytes \<Rightarrow> nat \<Rightarrow> string" where
  "NewClientRecordID rnd ms =
     (let h = hex_encode (uuid_bytes rnd ms)
      in take 8 h @ ''-'' @ take 4 (drop 8 h) @ ''-'' @ take 4 (drop 12 h) @ ''-'' @
         take 4 (drop 16 h) @ ''-'' @ drop 20 h)"

definition filename :: "srecord \<Rightarrow> string" where
  "filename rec = dec_digits (unat (sr_slot rec)) @ ''-'' @ dec_digits (unat (sr_epoch rec)) @ ''-'' @
     sr_id rec @ ''.json''"

text \<open>\<^verbatim>\<open>sanitize\<close>: rune by rune; a byte that is no part of a rune counts as one.\<close>

definition plain_rune :: "nat \<Rightarrow> bool" where
  "plain_rune r \<longleftrightarrow> 97 \<le> r \<and> r \<le> 122 \<or> 65 \<le> r \<and> r \<le> 90 \<or> 48 \<le> r \<and> r \<le> 57 \<or> r = 95"

function sanitize_runes :: "string \<Rightarrow> string" where
  "sanitize_runes s =
     (case s of
        [] \<Rightarrow> []
      | c # t \<Rightarrow>
          (case decode_rune s of
             None \<Rightarrow> CHR ''_'' # sanitize_runes t
           | Some (r, w) \<Rightarrow> (if plain_rune r then char_of r else CHR ''_'') # sanitize_runes (drop w s)))"
  by pat_completeness auto
termination
  by (relation "measure length") (auto dest!: decode_rune_width)

declare sanitize_runes.simps [simp del]

definition sanitize :: "string \<Rightarrow> string" where
  "sanitize s = take 32 (sanitize_runes s)"

section \<open>Reading and writing records\<close>

definition sameEvidence :: "json option \<Rightarrow> json option \<Rightarrow> bool" where
  "sameEvidence a b \<longleftrightarrow> a \<noteq> None \<and> b \<noteq> None \<and> a = b"

text \<open>\<^verbatim>\<open>json.Marshal\<close> of a record: what the file will unmarshal to.\<close>

definition marshal_record :: "srecord \<Rightarrow> content option" where
  "marshal_record rec =
     (if sr_obs rec = None \<or> \<not> time_marshals (sr_spooled_at rec) \<or> \<not> time_marshals (sr_next rec) then None
      else Some (Rec (rec\<lparr>sr_id := json_text (sr_id rec), sr_terminal := json_text (sr_terminal rec)\<rparr>)))"

definition sp_read :: "spool \<Rightarrow> loc \<Rightarrow> sworld \<Rightarrow> (spool_error + srecord) \<times> sworld" where
  "sp_read sp name w =
     (case os_read_file (loc_path sp name) w of
        (Inl e, w) \<Rightarrow> (Inl (SpOS e), w)
      | (Inr raw, w) \<Rightarrow>
          (case raw of
             Some (Rec r) \<Rightarrow> if sr_id r = [] then (Inl SpNoID, w) else (Inr r, w)
           | _ \<Rightarrow> (Inl SpUnmarshal, w)))"

definition set_loc :: "string \<Rightarrow> loc \<Rightarrow> spool \<Rightarrow> spool" where
  "set_loc i l sp = sp\<lparr>sp_locs := map_option (AList.update i l) (sp_locs sp)\<rparr>"

definition del_loc :: "string \<Rightarrow> spool \<Rightarrow> spool" where
  "del_loc i sp = sp\<lparr>sp_locs := map_option (AList.delete i) (sp_locs sp)\<rparr>"

definition find_loc :: "string \<Rightarrow> spool \<Rightarrow> loc option" where
  "find_loc i sp = (case sp_locs sp of None \<Rightarrow> None | Some m \<Rightarrow> map_of m i)"

definition stage_result :: "stage_error option \<Rightarrow> spool_error option" where
  "stage_result err = map_option SpStage err"

definition persist :: "srecord \<Rightarrow> loc \<Rightarrow> bool \<Rightarrow> spool \<Rightarrow> sworld \<Rightarrow> spool_error option \<times> spool \<times> sworld" where
  "persist rec name exclusive sp w =
     (case marshal_record rec of
        None \<Rightarrow> (Some SpEncode, sp, w)
      | Some payload \<Rightarrow>
          (case (if exclusive then WriteFileExclusive (sp_dir sp) (loc_name name) payload 384 w
                 else WriteFileAtomic (sp_dir sp) (loc_name name) payload 384 w) of
             (err, w) \<Rightarrow>
               (stage_result err, if se_is_published err then set_loc (sr_id rec) name sp else sp, w)))"

definition syncDir :: "spool \<Rightarrow> sworld \<Rightarrow> spool_error option \<times> sworld" where
  "syncDir sp w =
     (case SyncDirectory (sp_dir sp) w of
        (Some e, w) \<Rightarrow> (if e = ErrDirectorySyncUnsupported then None else Some (SpOS e), w)
      | (None, w) \<Rightarrow> (None, w))"

section \<open>Opening\<close>

text \<open>One directory of \<^verbatim>\<open>reconstruct\<close>; \<open>mk\<close> makes the location of a name.\<close>

fun index_names :: "(string \<Rightarrow> loc) \<Rightarrow> string list \<Rightarrow> spool \<Rightarrow> sworld \<Rightarrow> spool_error option \<times> spool \<times> sworld" where
  "index_names mk [] sp w = (None, sp, w)"
| "index_names mk (n # ns) sp w =
     (if \<not> json_file n then index_names mk ns sp w
      else (case sp_read sp (mk n) w of
              (Inl e, w) \<Rightarrow>
                index_names mk ns (if quarantined (mk n) then sp\<lparr>sp_unknown := sp_unknown sp + 1\<rparr> else sp) w
            | (Inr rec, w) \<Rightarrow>
                if find_loc (sr_id rec) sp \<noteq> None then (Some (SpDuplicateIdentity (sr_id rec)), sp, w)
                else index_names mk ns (set_loc (sr_id rec) (mk n) sp) w))"

definition reconstruct :: "spool \<Rightarrow> sworld \<Rightarrow> spool_error option \<times> spool \<times> sworld" where
  "reconstruct sp w =
     (case os_read_dir (sp_dir sp) w of
        (Inl e, w) \<Rightarrow> (Some (SpOS e), sp, w)
      | (Inr ns, w) \<Rightarrow>
          (case index_names Active ns sp w of
             (Some e, sp, w) \<Rightarrow> (Some e, sp, w)
           | (None, sp, w) \<Rightarrow>
               (case os_read_dir (quar_dir sp) w of
                  (Inl e, w) \<Rightarrow> (Some (SpOS e), sp, w)
                | (Inr ns, w) \<Rightarrow> index_names Quar ns sp w)))"

definition spool_open :: "string \<Rightarrow> sworld \<Rightarrow> (spool_error + spool) \<times> sworld" where
  "spool_open dir w =
     (if dir = [] then (Inl SpEmptyDir, w)
      else (case os_mkdir_all dir w of
              (Some e, w) \<Rightarrow> (Inl (SpOS e), w)
            | (None, w) \<Rightarrow>
                (case os_mkdir_all (dir @ ''/quarantine'') w of
                   (Some e, w) \<Rightarrow> (Inl (SpOS e), w)
                 | (None, w) \<Rightarrow>
                     (case reconstruct \<lparr>sp_dir = dir, sp_locs = Some [], sp_unknown = 0\<rparr> w of
                        (Some e, sp, w) \<Rightarrow> (Inl e, w)
                      | (None, sp, w) \<Rightarrow> (Inr sp, w)))))"

definition OpenExisting :: "string \<Rightarrow> sworld \<Rightarrow> (spool_error + spool) \<times> sworld" where
  "OpenExisting dir w =
     (if dir = [] then (Inl SpEmptyDir, w)
      else (case os_lstat_dir dir w of
              (Some e, w) \<Rightarrow> (Inl (SpOS e), w)
            | (None, w) \<Rightarrow> (Inr \<lparr>sp_dir = dir, sp_locs = None, sp_unknown = 0\<rparr>, w)))"

section \<open>Custody\<close>

record spool_state =
  st_backlog :: int
  st_queued :: int
  st_terminal :: int
  st_quarantined :: int
  st_removal :: int

definition count_record :: "srecord \<Rightarrow> spool_state \<Rightarrow> spool_state" where
  "count_record rec st =
     st\<lparr>st_queued := st_queued st + 1,
        st_backlog := (if sr_terminal rec = [] \<and> \<not> sr_removal rec \<and> (0 < sr_attempts rec \<or> sr_next rec \<noteq> go_zero_time)
                       then st_backlog st + 1 else st_backlog st),
        st_terminal := (if sr_terminal rec \<noteq> [] then st_terminal st + 1 else st_terminal st),
        st_removal := (if sr_removal rec then st_removal st + 1 else st_removal st)\<rparr>"

fun state_of_locs :: "spool \<Rightarrow> loc list \<Rightarrow> spool_state \<Rightarrow> sworld \<Rightarrow> (spool_state \<times> spool_error option) \<times> sworld" where
  "state_of_locs sp [] st w = ((st, None), w)"
| "state_of_locs sp (l # ls) st w =
     (if quarantined l then state_of_locs sp ls (st\<lparr>st_quarantined := st_quarantined st + 1\<rparr>) w
      else (case sp_read sp l w of
              (Inl e, w) \<Rightarrow> ((st, Some e), w)
            | (Inr rec, w) \<Rightarrow> state_of_locs sp ls (count_record rec st) w))"

definition spool_state_of :: "spool \<Rightarrow> sworld \<Rightarrow> (spool_state \<times> spool_error option) \<times> sworld" where
  "spool_state_of sp w =
     state_of_locs sp (map snd (case sp_locs sp of None \<Rightarrow> [] | Some m \<Rightarrow> m))
       \<lparr>st_backlog = 0, st_queued = 0, st_terminal = 0, st_quarantined = sp_unknown sp, st_removal = 0\<rparr> w"

definition Enqueue :: "srecord \<Rightarrow> int \<Rightarrow> spool \<Rightarrow> sworld \<Rightarrow> spool_error option \<times> spool \<times> sworld" where
  "Enqueue rec now sp w =
     (if sr_id rec = [] \<or> list_ex (\<lambda>c. c = CHR ''/'' \<or> c = CHR 0x5C) (sr_id rec) then (Some SpInvalidID, sp, w)
      else if sp_locs sp = None then (Some SpInspectionOnly, sp, w)
      else (case find_loc (sr_id rec) sp of
              Some name \<Rightarrow>
                (case sp_read sp name w of
                   (Inl e, w) \<Rightarrow> (Some e, sp, w)
                 | (Inr existing, w) \<Rightarrow>
                     if \<not> sameEvidence (sr_obs existing) (sr_obs rec) then (Some SpEvidenceConflict, sp, w)
                     else if quarantined name then (None, sp, w)
                     else (case syncDir sp w of (err, w) \<Rightarrow> (err, sp, w)))
            | None \<Rightarrow>
                let rec = (if sr_spooled_at rec = go_zero_time then rec\<lparr>sr_spooled_at := now\<rparr> else rec)
                in persist rec (Active (filename rec)) True sp w))"

definition rewrite_refused :: "loc \<Rightarrow> srecord \<Rightarrow> srecord \<Rightarrow> bool" where
  "rewrite_refused name previous rec \<longleftrightarrow>
     quarantined name \<or> (sr_terminal previous \<noteq> [] \<and> sr_terminal rec \<noteq> sr_terminal previous) \<or>
     (sr_removal previous \<and> \<not> sr_removal rec) \<or> (sr_terminal rec \<noteq> [] \<and> sr_removal rec) \<or>
     sr_slot previous \<noteq> sr_slot rec \<or> sr_epoch previous \<noteq> sr_epoch rec \<or>
     \<not> sameEvidence (sr_obs previous) (sr_obs rec) \<or> sr_spooled_at previous \<noteq> sr_spooled_at rec"

definition Rewrite :: "srecord \<Rightarrow> spool \<Rightarrow> sworld \<Rightarrow> spool_error option \<times> spool \<times> sworld" where
  "Rewrite rec sp w =
     (case find_loc (sr_id rec) sp of
        None \<Rightarrow> (Some SpAbsent, sp, w)
      | Some name \<Rightarrow>
          (case sp_read sp name w of
             (Inl e, w) \<Rightarrow> (Some e, sp, w)
           | (Inr previous, w) \<Rightarrow>
               if rewrite_refused name previous rec then (Some SpEvidenceConflict, sp, w)
               else persist rec name False sp w))"

text \<open>The index after an unreadable file was moved: its entries follow it.\<close>

definition follow_move :: "string \<Rightarrow> spool \<Rightarrow> spool" where
  "follow_move name sp =
     (let m = (case sp_locs sp of None \<Rightarrow> [] | Some m \<Rightarrow> m)
      in sp\<lparr>sp_unknown := sp_unknown sp + 1 - int (length (filter (\<lambda>(i, l). l = Active name) m)),
            sp_locs := map_option (map (\<lambda>(i, l). (i, if l = Active name then Quar name else l))) (sp_locs sp)\<rparr>)"

fun pending_names :: "string list \<Rightarrow> spool \<Rightarrow> sworld \<Rightarrow> (spool_error + srecord list) \<times> spool \<times> sworld" where
  "pending_names [] sp w = (Inr [], sp, w)"
| "pending_names (n # ns) sp w =
     (case sp_read sp (Active n) w of
        (Inr rec, w) \<Rightarrow>
          (case pending_names ns sp w of
             (Inl e, sp, w) \<Rightarrow> (Inl e, sp, w)
           | (Inr rs, sp, w) \<Rightarrow> (Inr (rec # rs), sp, w))
      | (Inl e, w) \<Rightarrow>
          (case MoveFileDurable (sp_dir sp, n) (quar_dir sp, n) w of
             (moveErr, w) \<Rightarrow>
               let sp = (if se_is_published moveErr then follow_move n sp else sp)
               in (case moveErr of
                     Some me \<Rightarrow> (Inl (SpStage me), sp, w)
                   | None \<Rightarrow> pending_names ns sp w)))"

definition Pending :: "spool \<Rightarrow> sworld \<Rightarrow> (spool_error + srecord list) \<times> spool \<times> sworld" where
  "Pending sp w =
     (case os_read_dir (sp_dir sp) w of
        (Inl e, w) \<Rightarrow> (Inl (SpOS e), sp, w)
      | (Inr entries, w) \<Rightarrow> pending_names (sort (filter json_file entries)) sp w)"

definition Remove :: "srecord \<Rightarrow> spool \<Rightarrow> sworld \<Rightarrow> spool_error option \<times> spool \<times> sworld" where
  "Remove rec sp w =
     (case find_loc (sr_id rec) sp of
        None \<Rightarrow> (None, sp, w)
      | Some name \<Rightarrow>
          if quarantined name then (Some SpEvidenceConflict, sp, w)
          else (case RemoveFileDurable (sp_dir sp, loc_name name) w of
                  (None, w) \<Rightarrow> (None, del_loc (sr_id rec) sp, w)
                | (Some err, w) \<Rightarrow>
                    if \<not> se_published err then (Some (SpStage err), sp, w)
                    else (case marshal_record rec of
                            None \<Rightarrow> (Some (SpJoin (SpStage err) (Some SpEncode)), sp, w)
                          | Some payload \<Rightarrow>
                              (case WriteFileAtomic (sp_dir sp) (loc_name name) payload 384 w of
                                 (restoreErr, w) \<Rightarrow>
                                   (case os_stat (sp_dir sp, loc_name name) w of
                                      (statErr, w) \<Rightarrow>
                                        (Some (SpJoin (SpStage err) (stage_result restoreErr)),
                                         if statErr = Some ErrNotExist then del_loc (sr_id rec) sp else sp, w))))))"

definition Quarantine :: "srecord \<Rightarrow> string \<Rightarrow> spool \<Rightarrow> sworld \<Rightarrow> spool_error option \<times> spool \<times> sworld" where
  "Quarantine rec reason sp w =
     (case find_loc (sr_id rec) sp of
        None \<Rightarrow> (Some SpAbsent, sp, w)
      | Some name \<Rightarrow>
          if quarantined name then (None, sp, w)
          else let target = sanitize reason @ ''-'' @ loc_name name in
               (case MoveFileDurable (sp_dir sp, loc_name name) (quar_dir sp, target) w of
                  (err, w) \<Rightarrow>
                    (stage_result err, if se_is_published err then set_loc (sr_id rec) (Quar target) sp else sp, w)))"

text \<open>\<^verbatim>\<open>Touch\<close> also updates the caller's record when the rewrite succeeds.\<close>

definition Touch :: "srecord \<Rightarrow> spool \<Rightarrow> sworld \<Rightarrow> (spool_error option \<times> srecord) \<times> spool \<times> sworld" where
  "Touch rec sp w =
     (let updated = rec\<lparr>sr_attempts := sr_attempts rec + 1\<rparr> in
      (case Rewrite updated sp w of
         (Some e, sp, w) \<Rightarrow> ((Some e, rec), sp, w)
       | (None, sp, w) \<Rightarrow> ((None, updated), sp, w)))"

definition Count :: "spool \<Rightarrow> sworld \<Rightarrow> (spool_error + int) \<times> sworld" where
  "Count sp w =
     (case os_read_dir (sp_dir sp) w of
        (Inl e, w) \<Rightarrow> (Inl (SpOS e), w)
      | (Inr ns, w) \<Rightarrow> (Inr (int (length (filter json_file ns))), w))"

definition CountQuarantined :: "spool \<Rightarrow> sworld \<Rightarrow> (spool_error + int) \<times> sworld" where
  "CountQuarantined sp w =
     (case os_read_dir (quar_dir sp) w of
        (Inl e, w) \<Rightarrow> (if e = ErrNotExist then Inr 0 else Inl (SpOS e), w)
      | (Inr ns, w) \<Rightarrow> (Inr (int (length (filter json_file ns))), w))"

definition spool_len :: "spool \<Rightarrow> sworld \<Rightarrow> (spool_error + int) \<times> spool \<times> sworld" where
  "spool_len sp w =
     (case Pending sp w of
        (Inl e, sp, w) \<Rightarrow> (Inl e, sp, w)
      | (Inr recs, sp, w) \<Rightarrow> (Inr (int (length recs)), sp, w))"

end
