(* ===== verification/SpoolInv.thy ===== *)
theory SpoolInv
  imports Spool
begin

text \<open>
  The invariant of the spool and the custody of its records.  \<open>index_ok\<close> relates the index to
  the files a program sees; \<open>held\<close> says a view of the files keeps the evidence of an identity,
  and \<open>custody\<close> that every view a crash can leave does.  Each operation is reduced to the change
  of view it makes, by the contracts of theory Fsx.
\<close>

section \<open>Names\<close>

definition loc_base :: "loc \<Rightarrow> string" where
  "loc_base l = (case l of Active n \<Rightarrow> n | Quar n \<Rightarrow> n)"

lemma loc_base_simps [simp]: "loc_base (Active n) = n" "loc_base (Quar n) = n"
  by (simp_all add: loc_base_def)

lemma loc_path_simps [simp]:
  "loc_path sp (Active n) = (sp_dir sp, n)" "loc_path sp (Quar n) = (quar_dir sp, n)"
  by (simp_all add: loc_path_def)

lemma dirs_differ [simp]: "quar_dir sp \<noteq> sp_dir sp" "sp_dir sp \<noteq> quar_dir sp"
  by (simp_all add: quar_dir_def)

lemma loc_path_inj: "loc_path sp l = loc_path sp l' \<longleftrightarrow> l = l'"
  by (cases l; cases l') simp_all

lemma json_file_not_temp: "json_file (loc_base l) \<Longrightarrow> \<not> is_temp (loc_path sp l)"
  by (cases l) (simp_all add: json_file_def is_temp_def staging_name_def)

lemma snd_loc_path [simp]: "snd (loc_path sp l) = loc_base l"
  by (cases l) simp_all

text \<open>The name of a record ends with its identity; identities have the 36 characters of a UUID.\<close>

definition named_for :: "string \<Rightarrow> string \<Rightarrow> bool" where
  "named_for i n \<longleftrightarrow> length i = 36 \<and> suffix (''-'' @ i @ ''.json'') n"

lemma named_for_unique: "named_for i n \<Longrightarrow> named_for j n \<Longrightarrow> i = j"
  by (auto simp: named_for_def suffix_def)

lemma named_for_prepend: "named_for i n \<Longrightarrow> named_for i (s @ n)"
  by (auto simp: named_for_def suffix_def)

lemma dec_digits_no_dot: "CHR ''.'' \<notin> set (dec_digits n)"
  using dec_digits_digits [of n] by (auto simp: list_all_iff is_digit_def)

lemma json_file_named:
  assumes "s \<noteq> []" and "hd s \<noteq> CHR ''.''"
  shows "json_file (s @ i @ ''.json'')"
proof -
  have "\<not> prefix ''.tmp-'' (s @ i @ ''.json'')" using assms by (cases s) auto
  moreover have "suffix ''.json'' (s @ i @ ''.json'')" by (metis append_assoc suffixI)
  ultimately show ?thesis by (simp add: json_file_def)
qed

lemma filename_named: "length (sr_id rec) = 36 \<Longrightarrow> named_for (sr_id rec) (filename rec)"
  by (simp add: named_for_def filename_def suffix_def)

lemma filename_json: "json_file (filename rec)"
proof -
  define s where "s = dec_digits (unat (sr_slot rec)) @ ''-'' @ dec_digits (unat (sr_epoch rec)) @ ''-''"
  have "hd s \<in> set (dec_digits (unat (sr_slot rec)))" by (simp add: s_def)
  then have "hd s \<noteq> CHR ''.''" using dec_digits_no_dot by metis
  moreover have "s \<noteq> []" by (simp add: s_def)
  ultimately have "json_file (s @ sr_id rec @ ''.json'')" by (rule json_file_named [rotated])
  then show ?thesis by (simp add: filename_def s_def)
qed

lemma sanitize_runes_no_dot: "CHR ''.'' \<notin> set (sanitize_runes s)"
proof (induction s rule: sanitize_runes.induct)
  case (1 s)
  have pr: "char_of r \<noteq> CHR ''.''" if "plain_rune r" for r :: nat
  proof
    assume a: "char_of r = CHR ''.''"
    have "r < 256" using that by (auto simp: plain_rune_def)
    then have "(of_char (char_of r :: char) :: nat) = r" by (simp add: of_char_of)
    with a that show False by (auto simp: plain_rune_def)
  qed
  show ?case
  proof (cases s)
    case Nil
    then show ?thesis by (simp add: sanitize_runes.simps)
  next
    case (Cons c t)
    show ?thesis
    proof (cases "decode_rune s")
      case None
      then have "sanitize_runes s = CHR ''_'' # sanitize_runes t"
        using Cons by (subst sanitize_runes.simps) simp
      then show ?thesis using "1.IH"(1) [OF Cons None] by simp
    next
      case (Some p)
      obtain r w where p: "p = (r, w)" by (cases p)
      have "sanitize_runes s = (if plain_rune r then char_of r else CHR ''_'') # sanitize_runes (drop w s)"
        using Cons Some p by (subst sanitize_runes.simps) simp
      then show ?thesis using "1.IH"(2) [OF Cons Some p [symmetric]] pr [of r] by auto
    qed
  qed
qed

lemma target_json: "json_file n \<Longrightarrow> json_file (sanitize reason @ ''-'' @ n)"
proof -
  assume n: "json_file n"
  define s where "s = sanitize reason @ ''-''"
  have "CHR ''.'' \<notin> set s"
    using sanitize_runes_no_dot by (auto simp: s_def sanitize_def dest: in_set_takeD)
  moreover have "s \<noteq> []" by (simp add: s_def)
  ultimately have "\<not> prefix ''.tmp-'' (s @ n)" by (cases s) auto
  moreover have "suffix ''.json'' (s @ n)" using n by (auto simp: json_file_def suffix_def)
  ultimately show ?thesis by (simp add: json_file_def s_def)
qed

section \<open>The index and the files\<close>

definition readable :: "content seen \<Rightarrow> string \<Rightarrow> bool" where
  "readable f i \<longleftrightarrow> (\<exists>r. f = Whole (Rec r) \<and> sr_id r = i \<and> i \<noteq> [])"

definition index_sound :: "spool \<Rightarrow> (path \<Rightarrow> content seen) \<Rightarrow> bool" where
  "index_sound sp L \<longleftrightarrow>
     (\<forall>i l. find_loc i sp = Some l \<longrightarrow>
        json_file (loc_base l) \<and> named_for i (loc_base l) \<and> utf8_valid i \<and>
        (L (loc_path sp l) = Absent \<or> readable (L (loc_path sp l)) i))"

definition index_complete :: "spool \<Rightarrow> (path \<Rightarrow> content seen) \<Rightarrow> bool" where
  "index_complete sp L \<longleftrightarrow>
     (\<forall>l i. json_file (loc_base l) \<and> readable (L (loc_path sp l)) i \<longrightarrow> find_loc i sp = Some l)"

text \<open>No unreadable file of the queue goes by the name of an indexed identity.\<close>

definition junk_apart :: "spool \<Rightarrow> (path \<Rightarrow> content seen) \<Rightarrow> bool" where
  "junk_apart sp L \<longleftrightarrow>
     (\<forall>n i. json_file n \<and> L (sp_dir sp, n) \<noteq> Absent \<and> named_for i n \<and> find_loc i sp \<noteq> None \<longrightarrow>
        (\<exists>j. readable (L (sp_dir sp, n)) j))"

definition index_ok :: "spool \<Rightarrow> (path \<Rightarrow> content seen) \<Rightarrow> bool" where
  "index_ok sp L \<longleftrightarrow> sp_locs sp \<noteq> None \<and> index_sound sp L \<and> index_complete sp L \<and> junk_apart sp L"

text \<open>Whatever a crash leaves can be indexed.\<close>

definition indexable :: "string \<Rightarrow> (path \<Rightarrow> content seen) \<Rightarrow> bool" where
  "indexable d v \<longleftrightarrow> (\<exists>idx. sp_dir idx = d \<and> index_ok idx v)"

definition spool_ok :: "spool \<Rightarrow> sworld \<Rightarrow> bool" where
  "spool_ok sp w \<longleftrightarrow> fs_ok w \<and> index_ok sp (live_view w) \<and> (\<forall>v \<in> crash_views w. indexable (sp_dir sp) v)"

lemma indexableI: "index_ok sp v \<Longrightarrow> indexable (sp_dir sp) v"
  by (auto simp: indexable_def)

lemma find_set_loc: "sp_locs sp \<noteq> None \<Longrightarrow> find_loc i (set_loc j l sp) = (if i = j then Some l else find_loc i sp)"
  by (auto simp: find_loc_def set_loc_def update_conv')

lemma find_del_loc: "find_loc i (del_loc j sp) = (if i = j then None else find_loc i sp)"
  by (auto simp: find_loc_def del_loc_def delete_conv' split: option.split)

lemma loc_updates [simp]:
  "sp_dir (set_loc i l sp) = sp_dir sp" "sp_dir (del_loc i sp) = sp_dir sp"
  "quar_dir (set_loc i l sp) = quar_dir sp" "quar_dir (del_loc i sp) = quar_dir sp"
  "loc_path (set_loc i l sp) k = loc_path sp k" "loc_path (del_loc i sp) k = loc_path sp k"
  "sp_locs (set_loc i l sp) = None \<longleftrightarrow> sp_locs sp = None"
  "sp_locs (del_loc i sp) = None \<longleftrightarrow> sp_locs sp = None"
  by (simp_all add: set_loc_def del_loc_def quar_dir_def loc_path_def split: loc.split)

lemma soundD:
  assumes "index_ok sp L" and "find_loc i sp = Some l"
  shows "json_file (loc_base l)" "named_for i (loc_base l)" "utf8_valid i"
    "L (loc_path sp l) = Absent \<or> readable (L (loc_path sp l)) i"
  using assms by (auto simp: index_ok_def index_sound_def)

lemma completeD: "index_ok sp L \<Longrightarrow> json_file (loc_base l) \<Longrightarrow> readable (L (loc_path sp l)) i \<Longrightarrow> find_loc i sp = Some l"
  by (auto simp: index_ok_def index_complete_def)

lemma readable_unique: "readable f i \<Longrightarrow> readable f j \<Longrightarrow> i = j"
  by (auto simp: readable_def)

text \<open>A record of identity \<open>i\<close> is written at the location the index has, or will have, for \<open>i\<close>.\<close>

lemma index_ok_write:
  assumes ok: "index_ok sp L"
    and js: "json_file (loc_base l)" and nm: "named_for i (loc_base l)" and v: "utf8_valid i"
    and at: "find_loc i sp = Some l \<or>
      find_loc i sp = None \<and> (\<forall>n. json_file n \<and> named_for i n \<longrightarrow> L (sp_dir sp, n) = Absent)"
    and f: "readable c i"
  shows "index_ok (set_loc i l sp) (L(loc_path sp l := c))"
proof -
  have some: "sp_locs sp \<noteq> None" using ok by (simp add: index_ok_def)
  note fl = find_set_loc [OF some]
  have "index_sound (set_loc i l sp) (L(loc_path sp l := c))"
    unfolding index_sound_def
  proof (intro allI impI)
    fix j k assume "find_loc j (set_loc i l sp) = Some k"
    then consider "j = i" "k = l" | "j \<noteq> i" "find_loc j sp = Some k" by (auto simp: fl split: if_splits)
    then show "json_file (loc_base k) \<and> named_for j (loc_base k) \<and> utf8_valid j \<and>
        ((L(loc_path sp l := c)) (loc_path (set_loc i l sp) k) = Absent \<or>
         readable ((L(loc_path sp l := c)) (loc_path (set_loc i l sp) k)) j)"
    proof cases
      case 1
      then show ?thesis using js nm v f by simp
    next
      case 2
      note s = soundD [OF ok 2(2)]
      have "k \<noteq> l" using s(2) nm named_for_unique [of j "loc_base l" i] 2(1) by auto
      then show ?thesis using s by (simp add: loc_path_inj)
    qed
  qed
  moreover have "index_complete (set_loc i l sp) (L(loc_path sp l := c))"
    unfolding index_complete_def
  proof (intro allI impI)
    fix k j assume "json_file (loc_base k) \<and> readable ((L(loc_path sp l := c)) (loc_path (set_loc i l sp) k)) j"
    then have k: "json_file (loc_base k)" and r: "readable ((L(loc_path sp l := c)) (loc_path sp k)) j" by simp_all
    show "find_loc j (set_loc i l sp) = Some k"
    proof (cases "k = l")
      case True
      then have "j = i" using r f readable_unique by simp
      with True show ?thesis by (simp add: fl)
    next
      case False
      then have "find_loc j sp = Some k" using completeD [OF ok k] r by (simp add: loc_path_inj)
      with False at show ?thesis by (auto simp: fl)
    qed
  qed
  moreover have "junk_apart (set_loc i l sp) (L(loc_path sp l := c))"
    unfolding junk_apart_def
  proof (intro allI impI)
    fix n j
    assume "json_file n \<and> (L(loc_path sp l := c)) (sp_dir (set_loc i l sp), n) \<noteq> Absent \<and> named_for j n \<and>
        find_loc j (set_loc i l sp) \<noteq> None"
    then have n: "json_file n" "(L(loc_path sp l := c)) (sp_dir sp, n) \<noteq> Absent" "named_for j n"
        "j = i \<or> find_loc j sp \<noteq> None" by (auto simp: fl split: if_splits)
    show "\<exists>k. readable ((L(loc_path sp l := c)) (sp_dir (set_loc i l sp), n)) k"
    proof (cases "loc_path sp l = (sp_dir sp, n)")
      case True
      then show ?thesis using f by auto
    next
      case False
      then have L: "L (sp_dir sp, n) \<noteq> Absent" using n(2) by (auto split: if_splits)
      have "find_loc j sp \<noteq> None" using n L at by auto
      then have "\<exists>k. readable (L (sp_dir sp, n)) k"
        using ok n L unfolding index_ok_def junk_apart_def by blast
      with False show ?thesis by auto
    qed
  qed
  ultimately show ?thesis using some by (simp add: index_ok_def)
qed

lemma index_ok_cong:
  assumes "index_ok sp L" and "sp_dir sp' = sp_dir sp" and "\<And>i. find_loc i sp' = find_loc i sp"
    and "sp_locs sp' \<noteq> None"
  shows "index_ok sp' L"
proof -
  have p: "loc_path sp' l = loc_path sp l" for l
    using assms(2) by (cases l) (simp_all add: quar_dir_def)
  show ?thesis
    using assms(1,4) unfolding index_ok_def index_sound_def index_complete_def junk_apart_def p assms(2,3)
    by blast
qed

text \<open>The file of \<open>i\<close> disappears; the entry may stay or go.\<close>

lemma index_ok_drop:
  assumes ok: "index_ok sp L" and at: "find_loc i sp = Some l"
  shows "index_ok sp (L(loc_path sp l := Absent))" and "index_ok (del_loc i sp) (L(loc_path sp l := Absent))"
proof -
  let ?L = "L(loc_path sp l := Absent)"
  have other: "k \<noteq> l" if "find_loc j sp = Some k" "j \<noteq> i" for j k
    using soundD(2) [OF ok at] soundD(2) [OF ok that(1)] that(2) named_for_unique by blast
  have sound: "index_sound sp ?L"
    unfolding index_sound_def
  proof (intro allI impI)
    fix j k assume f: "find_loc j sp = Some k"
    then show "json_file (loc_base k) \<and> named_for j (loc_base k) \<and> utf8_valid j \<and>
        (?L (loc_path sp k) = Absent \<or> readable (?L (loc_path sp k)) j)"
      using soundD [OF ok f] by (simp add: loc_path_inj)
  qed
  have complete: "index_complete sp ?L"
    unfolding index_complete_def
  proof (intro allI impI)
    fix k j assume k: "json_file (loc_base k) \<and> readable (?L (loc_path sp k)) j"
    then have "k \<noteq> l" by (auto simp: readable_def)
    with k show "find_loc j sp = Some k" using completeD [OF ok] by (simp add: loc_path_inj)
  qed
  have apart: "junk_apart sp ?L"
    using ok unfolding index_ok_def junk_apart_def by (auto split: if_splits)
  show "index_ok sp ?L" using ok sound complete apart by (simp add: index_ok_def)
  have gone: "k = l" if "find_loc i sp = Some k" for k using that at by simp
  have "index_sound (del_loc i sp) ?L"
    using sound unfolding index_sound_def by (simp add: find_del_loc)
  moreover have "index_complete (del_loc i sp) ?L"
    unfolding index_complete_def
  proof (intro allI impI)
    fix k j assume "json_file (loc_base k) \<and> readable (?L (loc_path (del_loc i sp) k)) j"
    then have k: "json_file (loc_base k)" "readable (?L (loc_path sp k)) j" by simp_all
    then have "find_loc j sp = Some k" using complete unfolding index_complete_def by blast
    moreover have "k \<noteq> l" using k(2) by (auto simp: readable_def)
    ultimately show "find_loc j (del_loc i sp) = Some k" using gone by (auto simp: find_del_loc)
  qed
  moreover have "junk_apart (del_loc i sp) ?L"
    using apart unfolding junk_apart_def find_del_loc loc_updates by metis
  ultimately show "index_ok (del_loc i sp) ?L" using ok by (simp add: index_ok_def)
qed

text \<open>At most one active file goes by the name of an indexed identity.\<close>

lemma active_unique:
  assumes ok: "index_ok sp L" and at: "find_loc i sp = Some l" and n: "json_file n" "named_for i n"
    and L: "L (sp_dir sp, n) \<noteq> Absent"
  shows "l = Active n"
proof -
  obtain j where j: "readable (L (sp_dir sp, n)) j"
    using ok n L at unfolding index_ok_def junk_apart_def by blast
  then have f: "find_loc j sp = Some (Active n)" using completeD [OF ok, of "Active n"] n by simp
  then have "named_for j n" using soundD(2) [OF ok f] by simp
  then have "j = i" using n(2) named_for_unique by blast
  with f at show ?thesis by simp
qed

text \<open>The file of \<open>i\<close> moves to the quarantine.\<close>

lemma index_ok_quarantine:
  assumes ok: "index_ok sp L" and at: "find_loc i sp = Some (Active n)"
    and there: "L (sp_dir sp, n) \<noteq> Absent" and t: "json_file t" "named_for i t"
  shows "index_ok (set_loc i (Quar t) sp) (relinks (sp_dir sp, n) (quar_dir sp, t) L)"
proof -
  let ?sp = "del_loc i sp" and ?L = "L((sp_dir sp, n) := Absent)"
  note s = soundD [OF ok at]
  have r: "readable (L (sp_dir sp, n)) i" using s(4) there by simp
  have 1: "index_ok ?sp ?L" using index_ok_drop(2) [OF ok at] by simp
  have fresh: "find_loc i ?sp = None \<and> (\<forall>n'. json_file n' \<and> named_for i n' \<longrightarrow> ?L (sp_dir ?sp, n') = Absent)"
  proof (intro conjI allI impI)
    show "find_loc i ?sp = None" by (simp add: find_del_loc)
    fix n' assume n': "json_file n' \<and> named_for i n'"
    show "?L (sp_dir ?sp, n') = Absent"
    proof (rule ccontr)
      assume "?L (sp_dir ?sp, n') \<noteq> Absent"
      then have "n' \<noteq> n" "L (sp_dir sp, n') \<noteq> Absent" by (auto split: if_splits)
      then show False using active_unique [OF ok at, of n'] n' by simp
    qed
  qed
  have "index_ok (set_loc i (Quar t) ?sp) (?L(loc_path ?sp (Quar t) := L (sp_dir sp, n)))"
    by (rule index_ok_write [OF 1]) (use t s fresh r in simp_all)
  then have 2: "index_ok (set_loc i (Quar t) ?sp) (relinks (sp_dir sp, n) (quar_dir sp, t) L)"
    by (simp add: relinks_def)
  have some: "sp_locs sp \<noteq> None" "sp_locs ?sp \<noteq> None" using ok 1 by (simp_all add: index_ok_def)
  show ?thesis
    by (rule index_ok_cong [OF 2])
      (use some in \<open>simp_all add: find_set_loc [OF some(1)] find_set_loc [OF some(2)] find_del_loc\<close>)
qed

lemma find_follow_move:
  "find_loc j (follow_move n sp) = (if find_loc j sp = Some (Active n) then Some (Quar n) else find_loc j sp)"
proof (cases "sp_locs sp")
  case None
  then show ?thesis by (simp add: find_loc_def follow_move_def)
next
  case (Some m)
  have "map_of (map (\<lambda>(i, l). (i, f l)) m) j = map_option f (map_of m j)" for f :: "loc \<Rightarrow> loc"
    by (induction m) auto
  then show ?thesis using Some by (cases "map_of m j") (auto simp: find_loc_def follow_move_def Let_def)
qed

lemma follow_move_fields [simp]:
  "sp_dir (follow_move n sp) = sp_dir sp" "quar_dir (follow_move n sp) = quar_dir sp"
  "loc_path (follow_move n sp) l = loc_path sp l" "sp_locs (follow_move n sp) = None \<longleftrightarrow> sp_locs sp = None"
  by (simp_all add: follow_move_def Let_def quar_dir_def loc_path_def split: loc.split)

text \<open>No identity is in the quarantine under the name of an active file.\<close>

lemma quar_name_free:
  assumes ok: "index_ok sp L" and n: "json_file n" and there: "L (sp_dir sp, n) \<noteq> Absent"
  shows "find_loc j sp \<noteq> Some (Quar n)"
proof
  assume f: "find_loc j sp = Some (Quar n)"
  have "Quar n = Active n"
    by (rule active_unique [OF ok f n _ there]) (use soundD(2) [OF ok f] in simp)
  then show False by simp
qed

lemma index_ok_follow:
  assumes ok: "index_ok sp L" and n: "json_file n" and there: "L (sp_dir sp, n) \<noteq> Absent"
  shows "index_ok (follow_move n sp) (relinks (sp_dir sp, n) (quar_dir sp, n) L)"
proof (cases "\<exists>i. find_loc i sp = Some (Active n)")
  case True
  then obtain i where i: "find_loc i sp = Some (Active n)" by blast
  have nm: "named_for i n" using soundD(2) [OF ok i] by simp
  have one: "find_loc j sp = Some (Active n) \<longleftrightarrow> j = i" for j
    using i soundD(2) [OF ok, of j "Active n"] nm named_for_unique [of i n j] by auto
  have some: "sp_locs sp \<noteq> None" using ok by (simp add: index_ok_def)
  show ?thesis
    by (rule index_ok_cong [OF index_ok_quarantine [OF ok i there n nm]])
      (use some in \<open>simp_all add: find_set_loc [OF some] find_follow_move one\<close>)
next
  case False
  let ?L = "relinks (sp_dir sp, n) (quar_dir sp, n) L"
  have unread: "\<not> readable (L (sp_dir sp, n)) j" for j
    using completeD [OF ok, of "Active n"] n False by auto
  note free = quar_name_free [OF ok n there]
  have at: "?L (loc_path sp l) = L (loc_path sp l)" if "find_loc j sp = Some l" for j l
    using that free [of j] False by (cases l) (auto simp: relinks_def)
  have "index_sound sp ?L"
    unfolding index_sound_def using soundD [OF ok] at by simp
  moreover have "index_complete sp ?L"
    unfolding index_complete_def
  proof (intro allI impI)
    fix k j assume k: "json_file (loc_base k) \<and> readable (?L (loc_path sp k)) j"
    have "readable (L (loc_path sp k)) j"
    proof (cases k)
      case (Active n')
      with k show ?thesis by (auto simp: relinks_def readable_def split: if_splits)
    next
      case (Quar n')
      with k unread show ?thesis by (auto simp: relinks_def split: if_splits)
    qed
    with k show "find_loc j sp = Some k" using completeD [OF ok] by blast
  qed
  moreover have "junk_apart sp ?L"
    using ok unfolding index_ok_def junk_apart_def relinks_def by auto
  ultimately have "index_ok sp ?L" using ok by (simp add: index_ok_def)
  then show ?thesis
    by (rule index_ok_cong) (use ok False in \<open>simp_all add: find_follow_move index_ok_def\<close>)
qed

section \<open>Custody\<close>

text \<open>A view keeps the evidence \<open>e\<close> of identity \<open>i\<close> in the queue or its quarantine.\<close>

definition held :: "spool \<Rightarrow> (path \<Rightarrow> content seen) \<Rightarrow> string \<Rightarrow> json \<Rightarrow> bool" where
  "held sp v i e \<longleftrightarrow>
     (\<exists>l r. json_file (loc_base l) \<and> v (loc_path sp l) = Whole (Rec r) \<and> sr_id r = i \<and> i \<noteq> [] \<and>
            sr_obs r = Some e)"

definition custody :: "spool \<Rightarrow> sworld \<Rightarrow> string \<Rightarrow> json \<Rightarrow> bool" where
  "custody sp w i e \<longleftrightarrow> (\<forall>v \<in> crash_views w. held sp v i e)"

text \<open>No file says that a removal is due for an identity outside \<open>A\<close>.\<close>

definition marks_in :: "string set \<Rightarrow> sworld \<Rightarrow> bool" where
  "marks_in A w \<longleftrightarrow> (\<forall>v \<in> crash_views w. \<forall>p r. v p = Whole (Rec r) \<and> sr_removal r \<longrightarrow> sr_id r \<in> A)"

lemma held_cong: "sp_dir sp' = sp_dir sp \<Longrightarrow> held sp' = held sp"
proof -
  assume d: "sp_dir sp' = sp_dir sp"
  have p: "loc_path sp' l = loc_path sp l" for l
    using d by (cases l) (simp_all add: quar_dir_def)
  show ?thesis by (intro ext) (simp only: held_def p)
qed

lemma custody_cong: "sp_dir sp' = sp_dir sp \<Longrightarrow> custody sp' = custody sp"
proof -
  assume "sp_dir sp' = sp_dir sp"
  then have h: "held sp' = held sp" by (rule held_cong)
  show ?thesis by (intro ext) (simp only: custody_def h)
qed

lemma custody_live: "custody sp w i e \<Longrightarrow> held sp (live_view w) i e"
  using live_view_in_crash_views by (auto simp: custody_def)

lemma held_indexed:
  assumes ok: "index_ok sp L" and h: "held sp L i e"
  obtains l r where "find_loc i sp = Some l" "L (loc_path sp l) = Whole (Rec r)" "sr_id r = i" "sr_obs r = Some e"
proof -
  obtain l r where l: "json_file (loc_base l)" "L (loc_path sp l) = Whole (Rec r)" "sr_id r = i" "i \<noteq> []" "sr_obs r = Some e"
    using h by (auto simp: held_def)
  then have "readable (L (loc_path sp l)) i" by (auto simp: readable_def)
  then have "find_loc i sp = Some l" using completeD [OF ok l(1)] by simp
  with l that show thesis by blast
qed

lemma heldI:
  "json_file (loc_base l) \<Longrightarrow> v (loc_path sp l) = Whole (Rec r) \<Longrightarrow> sr_id r = i \<Longrightarrow> i \<noteq> [] \<Longrightarrow>
   sr_obs r = Some e \<Longrightarrow> held sp v i e"
  by (auto simp: held_def)

lemma held_nonempty: "held sp v i e \<Longrightarrow> i \<noteq> []"
  by (auto simp: held_def)

lemma held_write:
  assumes ok: "index_ok sp L" and l: "json_file (loc_base l)" "named_for j (loc_base l)"
    and c: "sr_id r' = j" and same: "\<And>r. L (loc_path sp l) = Whole (Rec r) \<Longrightarrow> sr_id r = j \<Longrightarrow> sr_obs r' = sr_obs r"
    and h: "held sp L i e"
  shows "held sp (L(loc_path sp l := Whole (Rec r'))) i e"
proof -
  obtain k r where k: "find_loc i sp = Some k" "L (loc_path sp k) = Whole (Rec r)" "sr_id r = i" "sr_obs r = Some e"
    by (rule held_indexed [OF ok h])
  note s = soundD [OF ok k(1)]
  note ne = held_nonempty [OF h]
  show ?thesis
  proof (cases "k = l")
    case True
    then have "i = j" using s(2) l(2) named_for_unique by blast
    then have "sr_obs r' = Some e" using same [of r] k True by simp
    then show ?thesis
      by (intro heldI [of l _ _ r']) (use l c ne \<open>i = j\<close> in simp_all)
  next
    case False
    then show ?thesis
      by (intro heldI [of k _ _ r]) (use s k ne in \<open>simp_all add: loc_path_inj\<close>)
  qed
qed

lemma held_drop:
  assumes ok: "index_ok sp L" and at: "find_loc j sp = Some l" and ne: "i \<noteq> j" and h: "held sp L i e"
  shows "held sp (L(loc_path sp l := Absent)) i e"
proof -
  obtain k r where k: "find_loc i sp = Some k" "L (loc_path sp k) = Whole (Rec r)" "sr_id r = i" "sr_obs r = Some e"
    by (rule held_indexed [OF ok h])
  have "k \<noteq> l" using soundD(2) [OF ok k(1)] soundD(2) [OF ok at] ne named_for_unique by blast
  then show ?thesis
    by (intro heldI [of k _ _ r])
      (use soundD(1) [OF ok k(1)] k held_nonempty [OF h] in \<open>simp_all add: loc_path_inj\<close>)
qed

lemma held_relink:
  assumes ok: "index_ok sp L" and t: "json_file t"
    and free: "find_loc i sp \<noteq> Some (Quar t)" and h: "held sp L i e"
  shows "held sp (relinks (sp_dir sp, n) (quar_dir sp, t) L) i e"
proof -
  obtain k r where k: "find_loc i sp = Some k" "L (loc_path sp k) = Whole (Rec r)" "sr_id r = i" "sr_obs r = Some e"
    by (rule held_indexed [OF ok h])
  note j = soundD(1) [OF ok k(1)]
  note ne = held_nonempty [OF h]
  show ?thesis
  proof (cases "k = Active n")
    case True
    then show ?thesis
      by (intro heldI [of "Quar t" _ _ r]) (use t k ne in \<open>simp_all add: relinks_def\<close>)
  next
    case False
    then have "loc_path sp k \<noteq> (sp_dir sp, n)" "loc_path sp k \<noteq> (quar_dir sp, t)"
      using free k(1) by (cases k; simp)+
    then show ?thesis
      by (intro heldI [of k _ _ r]) (use j k ne in \<open>simp_all add: relinks_def\<close>)
  qed
qed

section \<open>From views to worlds\<close>

text \<open>What an operation keeps: the invariant, the marks, and the custody of identities outside \<open>X\<close>.\<close>

definition keeps :: "string set \<Rightarrow> string set \<Rightarrow> spool \<Rightarrow> sworld \<Rightarrow> spool \<Rightarrow> sworld \<Rightarrow> bool" where
  "keeps A X sp w sp' w' \<longleftrightarrow>
     sp_dir sp' = sp_dir sp \<and> spool_ok sp' w' \<and> (marks_in A w \<longrightarrow> marks_in A w') \<and>
     (\<forall>i e. i \<notin> X \<longrightarrow> custody sp w i e \<longrightarrow> custody sp' w' i e)"

lemma keeps_refl: "spool_ok sp w \<Longrightarrow> keeps A X sp w sp w"
  by (simp add: keeps_def)

lemma keeps_trans: "keeps A X sp w sp' w' \<Longrightarrow> keeps A X sp' w' sp'' w'' \<Longrightarrow> keeps A X sp w sp'' w''"
  by (simp add: keeps_def)

lemma keeps_mono: "keeps A X sp w sp' w' \<Longrightarrow> X \<subseteq> Y \<Longrightarrow> keeps A Y sp w sp' w'"
  by (auto simp: keeps_def)

lemma quiet_keeps: "spool_ok sp w \<Longrightarrow> quiet w w' \<Longrightarrow> keeps A X sp w sp w'"
  unfolding keeps_def spool_ok_def quiet_def custody_def marks_in_def by auto

text \<open>A published change of the view, with the index that goes with it.\<close>

lemma changes_keeps:
  assumes ok: "spool_ok sp w" and ch: "changes ds f err w w'" and d: "sp_dir sp' = sp_dir sp"
    and pub: "se_is_published err \<Longrightarrow> index_ok sp' (f (live_view w))"
    and unp: "\<not> se_is_published err \<Longrightarrow> sp' = sp"
    and held: "\<And>i e. se_is_published err \<Longrightarrow> i \<notin> X \<Longrightarrow> held sp (live_view w) i e \<Longrightarrow> held sp (f (live_view w)) i e"
    and marks: "\<And>p r. se_is_published err \<Longrightarrow> f (live_view w) p = Whole (Rec r) \<Longrightarrow> sr_removal r \<Longrightarrow>
                  (\<exists>q. live_view w q = Whole (Rec r)) \<or> sr_id r \<in> A"
  shows "keeps A X sp w sp' w'"
proof (cases "se_is_published err")
  case False
  then have "quiet w w'" using ch by (simp add: changes_def)
  then show ?thesis using quiet_keeps [OF ok] unp [OF False] by simp
next
  case True
  have c: "fs_ok w'" "live_view w' = f (live_view w)" "crash_views w' \<subseteq> insert (f (live_view w)) (crash_views w)"
    using ch True by (auto simp: changes_def)
  have "indexable (sp_dir sp) v" if "v \<in> crash_views w'" for v
  proof -
    from c(3) that consider "v = f (live_view w)" | "v \<in> crash_views w" by blast
    then show ?thesis
    proof cases
      case 1
      then show ?thesis using indexableI [OF pub [OF True]] d by simp
    next
      case 2
      then show ?thesis using ok by (simp add: spool_ok_def)
    qed
  qed
  then have 1: "spool_ok sp' w'" using c pub [OF True] d by (simp add: spool_ok_def)
  have 2: "marks_in A w'" if m: "marks_in A w"
    unfolding marks_in_def
  proof (intro ballI allI impI)
    fix v p r assume v: "v \<in> crash_views w'" and r: "v p = Whole (Rec r) \<and> sr_removal r"
    from c(3) v consider "v = f (live_view w)" | "v \<in> crash_views w" by blast
    then show "sr_id r \<in> A"
    proof cases
      case 1
      then consider q where "live_view w q = Whole (Rec r)" | "sr_id r \<in> A" using marks [OF True] r by blast
      then show ?thesis using m r live_view_in_crash_views unfolding marks_in_def by cases blast+
    next
      case 2
      then show ?thesis using m r unfolding marks_in_def by blast
    qed
  qed
  have 3: "custody sp' w' i e" if i: "i \<notin> X" and cu: "custody sp w i e" for i e
  proof -
    have "held sp (f (live_view w)) i e" by (rule held [OF True i custody_live [OF cu]])
    then have "custody sp w' i e" using c(3) cu by (auto simp: custody_def)
    then show ?thesis by (simp add: custody_cong [OF d])
  qed
  show ?thesis using 1 2 3 d by (simp add: keeps_def)
qed

end
