(* ===== verification/SpoolOps.thy ===== *)
theory SpoolOps
  imports SpoolInv
begin

text \<open>
  What every operation of the spool keeps, for every plan of failures and crashes: the index
  invariant, the marks of due removals, and the custody of every identity but, for a removal,
  the one removed.
\<close>

section \<open>Reading\<close>

lemma os_read_contract:
  assumes ok: "fs_ok w" and p: "\<not> is_temp p" and r: "os_read_file p w = (res, w')"
  shows "quiet w w' \<and> (\<forall>c. res = Inr (Some c) \<longrightarrow> live_view w p = Whole c)"
proof -
  obtain e w1 where t: "tick w = (e, w1)" by (cases "tick w")
  have q: "quiet w w1" by (rule tick_quiet [OF ok t])
  have ok1: "fs_ok w1" and l1: "live_view w1 = live_view w" using q by (simp_all add: quiet_def)
  have g: "good_map w1 (map_of (live w1))" using ok1 live_in_prefix_maps by (auto simp: fs_ok_def)
  have w': "w' = w1" using r t by (cases e) (auto simp: os_read_file_def split: option.splits)
  have "live_view w1 p = Whole c" if res: "res = Inr (Some c)" for c
  proof -
    obtain n where n: "map_of (live w1) p = Some n" "in_data (w_nodes w1 n) = Some c"
      using r t res by (cases e) (auto simp: os_read_file_def split: option.splits)
    then have "in_synced (w_nodes w1 n)" using g p unfolding good_map_def by blast
    with n p show ?thesis by (simp add: live_view_def view_of_def node_seen_def)
  qed
  with q w' l1 show ?thesis by simp
qed

lemma sp_read_quiet:
  assumes ok: "fs_ok w" and r: "sp_read sp l w = (res, w')"
  shows "quiet w w'"
proof -
  obtain e w1 where t: "tick w = (e, w1)" by (cases "tick w")
  have "w' = w1"
    using r t
    by (cases e) (auto simp: sp_read_def os_read_file_def split: option.splits content.splits if_splits)
  then show ?thesis using tick_quiet [OF ok t] by simp
qed

lemma sp_read_contract:
  assumes ok: "fs_ok w" and l: "json_file (loc_base l)" and r: "sp_read sp l w = (res, w')"
  shows "quiet w w' \<and> (\<forall>rec. res = Inr rec \<longrightarrow> live_view w (loc_path sp l) = Whole (Rec rec) \<and> sr_id rec \<noteq> [])"
proof -
  obtain x w1 where x: "os_read_file (loc_path sp l) w = (x, w1)" by (metis surj_pair)
  have c: "quiet w w1 \<and> (\<forall>c. x = Inr (Some c) \<longrightarrow> live_view w (loc_path sp l) = Whole c)"
    by (rule os_read_contract [OF ok json_file_not_temp [OF l] x])
  have w': "w' = w1"
    using r x by (auto simp: sp_read_def split: sum.splits option.splits content.splits if_splits)
  have "x = Inr (Some (Rec rec)) \<and> sr_id rec \<noteq> []" if "res = Inr rec" for rec
    using r x that by (auto simp: sp_read_def split: sum.splits option.splits content.splits if_splits)
  with c w' show ?thesis by blast
qed

lemma spool_ok_quiet: "spool_ok sp w \<Longrightarrow> quiet w w' \<Longrightarrow> spool_ok sp w'"
  by (auto simp: spool_ok_def quiet_def)

section \<open>Writing a record\<close>

lemma marshal_record_fields:
  assumes "marshal_record rec = Some c" and "utf8_valid (sr_id rec)"
  obtains r where "c = Rec r" "sr_id r = sr_id rec" "sr_obs r = sr_obs rec" "sr_removal r = sr_removal rec"
  using assms by (auto simp: marshal_record_def json_text_valid split: if_splits)

text \<open>The write of a record at the location the index has or will have for it.\<close>

lemma write_keeps:
  assumes ok: "spool_ok sp w" and l: "json_file (loc_base (Active n))" "named_for i n" and v: "utf8_valid i"
    and at: "find_loc i sp = Some (Active n) \<or>
      find_loc i sp = None \<and> (\<forall>k. json_file k \<and> named_for i k \<longrightarrow> live_view w (sp_dir sp, k) = Absent)"
    and rr: "sr_id r = i" "i \<noteq> []" "sr_removal r \<longrightarrow> i \<in> A"
    and same: "\<And>r'. live_view w (sp_dir sp, n) = Whole (Rec r') \<Longrightarrow> sr_id r' = i \<Longrightarrow> sr_obs r = sr_obs r'"
    and wf: "writeFile (sp_dir sp) n (Rec r) 384 ex w = (err, w')"
  shows "keeps A {} sp w (if se_is_published err then set_loc i (Active n) sp else sp) w'"
proof -
  let ?L = "live_view w" and ?l = "Active n"
  have fs: "fs_ok w" and io: "index_ok sp ?L" using ok by (simp_all add: spool_ok_def)
  have nt: "\<not> is_temp (sp_dir sp, n)" using json_file_not_temp [OF l(1), of sp] by simp
  have ch: "changes {sp_dir sp} (replaces (sp_dir sp, n) (Rec r)) err w w'"
    using writeFile_contract [OF fs nt wf] by blast
  have f: "replaces (sp_dir sp, n) (Rec r) ?L = ?L(loc_path sp ?l := Whole (Rec r))"
    by (simp add: replaces_def)
  have rd: "readable (Whole (Rec r)) i" using rr by (simp add: readable_def)
  have l': "json_file (loc_base ?l)" "named_for i (loc_base ?l)" using l by simp_all
  have io': "index_ok (set_loc i ?l sp) (replaces (sp_dir sp, n) (Rec r) ?L)"
    unfolding f by (rule index_ok_write [OF io l' v at rd])
  have h: "held sp (replaces (sp_dir sp, n) (Rec r) ?L) j e" if "held sp ?L j e" for j e
    unfolding f by (rule held_write [OF io l' rr(1) same that]) simp_all
  show ?thesis
  proof (rule changes_keeps [OF ok ch])
    fix p r'
    assume v: "replaces (sp_dir sp, n) (Rec r) ?L p = Whole (Rec r')" and "sr_removal r'"
    then show "(\<exists>q. ?L q = Whole (Rec r')) \<or> sr_id r' \<in> A"
      using rr by (cases "p = (sp_dir sp, n)") (auto simp: replaces_def simp del: split_paired_Ex)
  qed (use io' h in simp_all)
qed

lemma persist_keeps:
  assumes ok: "spool_ok sp w" and l: "json_file n" "named_for (sr_id rec) n"
    and v: "utf8_valid (sr_id rec)" and mk: "sr_removal rec \<longrightarrow> sr_id rec \<in> A"
    and at: "find_loc (sr_id rec) sp = Some (Active n) \<or>
      find_loc (sr_id rec) sp = None \<and>
        (\<forall>k. json_file k \<and> named_for (sr_id rec) k \<longrightarrow> live_view w (sp_dir sp, k) = Absent)"
    and same: "\<And>r'. live_view w (sp_dir sp, n) = Whole (Rec r') \<Longrightarrow> sr_id r' = sr_id rec \<Longrightarrow> sr_obs rec = sr_obs r'"
    and p: "persist rec (Active n) ex sp w = (err, sp', w')"
  shows "keeps A {} sp w sp' w' \<and>
    (err = None \<longrightarrow> (\<exists>r. sr_id r = sr_id rec \<and> sr_obs r = sr_obs rec \<and> sr_obs rec \<noteq> None \<and>
       (\<forall>v \<in> crash_views w'. v (sp_dir sp, n) = Whole (Rec r))))"
proof (cases "marshal_record rec")
  case None
  then have "err = Some SpEncode \<and> sp' = sp \<and> w' = w" using p by (simp add: persist_def)
  then show ?thesis using keeps_refl [OF ok] by simp
next
  case (Some c)
  obtain r where r: "c = Rec r" "sr_id r = sr_id rec" "sr_obs r = sr_obs rec" "sr_removal r = sr_removal rec"
    by (rule marshal_record_fields [OF Some v])
  obtain we w1 where wf: "writeFile (sp_dir sp) n (Rec r) 384 ex w = (we, w1)" by (metis surj_pair)
  have res: "err = stage_result we" "w' = w1"
      "sp' = (if se_is_published we then set_loc (sr_id rec) (Active n) sp else sp)"
    using p Some r wf unfolding persist_def WriteFileExclusive_def WriteFileAtomic_def
    by (cases ex; simp)+
  have ne: "sr_id rec \<noteq> []" using l(2) by (auto simp: named_for_def)
  have k: "keeps A {} sp w sp' w'"
    unfolding res by (rule write_keeps [OF ok _ l(2) v at _ _ _ _ wf]) (use l r mk ne same in auto)
  have nt: "\<not> is_temp (sp_dir sp, n)" using json_file_not_temp [of "Active n" sp] l(1) by simp
  have fs: "fs_ok w" using ok by (simp add: spool_ok_def)
  have ch: "changes {sp_dir sp} (replaces (sp_dir sp, n) (Rec r)) we w w1"
    using writeFile_contract [OF fs nt wf] by blast
  have "\<forall>v \<in> crash_views w'. v (sp_dir sp, n) = Whole (Rec r)" if "err = None"
  proof -
    have "we = None" using that res by (simp add: stage_result_def)
    then have "settled (sp_dir sp) w1" "live_view w1 (sp_dir sp, n) = Whole (Rec r)"
      using ch by (auto simp: changes_def replaces_def)
    then show ?thesis using settledD [of "(sp_dir sp, n)" w1] res by auto
  qed
  moreover have "sr_obs rec \<noteq> None" using Some by (simp add: marshal_record_def split: if_splits)
  ultimately show ?thesis using k r by blast
qed

section \<open>Enqueue\<close>

text \<open>No unreadable file goes by the name of \<open>i\<close>.\<close>

definition no_junk_for :: "string \<Rightarrow> spool \<Rightarrow> sworld \<Rightarrow> bool" where
  "no_junk_for i sp w \<longleftrightarrow>
     (\<forall>n. json_file n \<and> named_for i n \<and> live_view w (sp_dir sp, n) \<noteq> Absent \<longrightarrow>
        (\<exists>j. readable (live_view w (sp_dir sp, n)) j))"

lemma syncDir_quiet:
  assumes "fs_ok w" and "syncDir sp w = (err, w')"
  shows "quiet w w'"
proof -
  obtain r w1 where s: "syncDirectory (sp_dir sp) w = (r, w1)" by (metis surj_pair)
  have "quiet w w1" using syncDirectory_contract [OF assms(1) s] by blast
  moreover have "w' = w1" using assms(2) s by (auto simp: syncDir_def SyncDirectory_def split: option.splits)
  ultimately show ?thesis by simp
qed

lemma Enqueue_keeps:
  assumes ok: "spool_ok sp w" and id: "utf8_valid (sr_id rec)" "length (sr_id rec) = 36"
    and nj: "no_junk_for (sr_id rec) sp w" and rm: "\<not> sr_removal rec"
    and e: "Enqueue rec now sp w = (err, sp', w')"
  shows "keeps A {} sp w sp' w'"
proof (cases "(sr_id rec = [] \<or> list_ex (\<lambda>c. c = CHR ''/'' \<or> c = CHR 0x5C) (sr_id rec)) \<or> sp_locs sp = None")
  case True
  then have "sp' = sp \<and> w' = w" using e by (auto simp: Enqueue_def split: if_splits)
  then show ?thesis using keeps_refl [OF ok] by simp
next
  case g: False
  have io: "index_ok sp (live_view w)" and fs: "fs_ok w" using ok by (simp_all add: spool_ok_def)
  show ?thesis
  proof (cases "find_loc (sr_id rec) sp")
    case (Some l)
    obtain res w1 where r: "sp_read sp l w = (res, w1)" by (metis surj_pair)
    have q1: "quiet w w1"
      using sp_read_contract [OF fs soundD(1) [OF io Some] r] by blast
    obtain se w2 where s: "syncDir sp w1 = (se, w2)" by (metis surj_pair)
    have q2: "quiet w1 w2" using syncDir_quiet [OF _ s] q1 by (simp add: quiet_def)
    have "sp' = sp \<and> (w' = w1 \<or> w' = w2)"
      using e g Some r s by (auto simp: Enqueue_def split: sum.splits if_splits)
    then show ?thesis using quiet_keeps [OF ok] q1 quiet_trans [OF q1 q2] by blast
  next
    case None
    define rec' where "rec' = (if sr_spooled_at rec = go_zero_time then rec\<lparr>sr_spooled_at := now\<rparr> else rec)"
    have f: "sr_id rec' = sr_id rec" "sr_obs rec' = sr_obs rec" "sr_removal rec' = sr_removal rec"
        "filename rec' = filename rec"
      by (simp_all add: rec'_def filename_def)
    have p: "persist rec' (Active (filename rec)) True sp w = (err, sp', w')"
    proof -
      have g': "\<not> (sr_id rec = [] \<or> list_ex (\<lambda>c. c = CHR ''/'' \<or> c = CHR 0x5C) (sr_id rec))"
          "\<not> sp_locs sp = None" using g by blast+
      have "persist rec' (Active (filename rec')) True sp w = (err, sp', w')"
        using e by (simp only: Enqueue_def g' None if_False option.case Let_def rec'_def)
      then show ?thesis by (simp only: f(4))
    qed
    have free: "live_view w (sp_dir sp, k) = Absent" if k: "json_file k" "named_for (sr_id rec) k" for k
    proof (rule ccontr)
      assume "live_view w (sp_dir sp, k) \<noteq> Absent"
      then obtain j where j: "readable (live_view w (sp_dir sp, k)) j"
        using nj k unfolding no_junk_for_def by blast
      then have "find_loc j sp = Some (Active k)" using completeD [OF io, of "Active k"] k by simp
      moreover from this have "j = sr_id rec" using soundD(2) [OF io] k(2) named_for_unique by fastforce
      ultimately show False using None by simp
    qed
    have nm: "named_for (sr_id rec) (filename rec)" by (rule filename_named [OF id(2)])
    have "live_view w (sp_dir sp, filename rec) = Absent" by (rule free [OF filename_json nm])
    then show ?thesis
      using persist_keeps [OF ok _ _ _ _ _ _ p] f filename_json nm id rm None free by simp
  qed
qed

section \<open>Rewrite and Touch\<close>

lemma Rewrite_keeps:
  assumes ok: "spool_ok sp w" and mk: "sr_removal rec \<longrightarrow> sr_id rec \<in> A"
    and r: "Rewrite rec sp w = (err, sp', w')"
  shows "keeps A {} sp w sp' w'"
proof (cases "find_loc (sr_id rec) sp")
  case None
  then have "sp' = sp \<and> w' = w" using r by (simp add: Rewrite_def)
  then show ?thesis using keeps_refl [OF ok] by simp
next
  case (Some l)
  have io: "index_ok sp (live_view w)" and fs: "fs_ok w" using ok by (simp_all add: spool_ok_def)
  note s = soundD [OF io Some]
  obtain res w1 where rd: "sp_read sp l w = (res, w1)" by (metis surj_pair)
  have c: "quiet w w1 \<and> (\<forall>rec. res = Inr rec \<longrightarrow> live_view w (loc_path sp l) = Whole (Rec rec) \<and> sr_id rec \<noteq> [])"
    by (rule sp_read_contract [OF fs s(1) rd])
  have k1: "keeps A {} sp w sp w1" by (rule quiet_keeps [OF ok]) (use c in simp)
  show ?thesis
  proof (cases "\<exists>prev. res = Inr prev \<and> \<not> rewrite_refused l prev rec")
    case False
    then have "sp' = sp \<and> w' = w1" using r Some rd by (auto simp: Rewrite_def split: sum.splits if_splits)
    then show ?thesis using k1 by simp
  next
    case True
    then obtain prev where prev: "res = Inr prev" and nr: "\<not> rewrite_refused l prev rec" by blast
    then obtain n where n: "l = Active n" by (cases l) (auto simp: rewrite_refused_def)
    have p: "persist rec (Active n) False sp w1 = (err, sp', w')"
      using r Some rd prev nr n by (simp add: Rewrite_def)
    have ok1: "spool_ok sp w1" and lv: "live_view w1 = live_view w"
      using k1 c by (simp_all add: keeps_def quiet_def)
    have "sr_obs rec = sr_obs prev" using nr by (auto simp: rewrite_refused_def sameEvidence_def)
    moreover have "live_view w (sp_dir sp, n) = Whole (Rec prev)" using c prev n by simp
    ultimately have same: "sr_obs rec = sr_obs r'" if "live_view w1 (sp_dir sp, n) = Whole (Rec r')" for r'
      using that by (simp add: lv)
    have "keeps A {} sp w1 sp' w'"
      using persist_keeps [OF ok1 _ _ s(3) mk _ same p] s Some n by simp
    then show ?thesis using k1 keeps_trans by blast
  qed
qed

lemma Touch_keeps:
  assumes ok: "spool_ok sp w" and mk: "sr_removal rec \<longrightarrow> sr_id rec \<in> A"
    and t: "Touch rec sp w = (res, sp', w')"
  shows "keeps A {} sp w sp' w'"
proof -
  define up where "up = rec\<lparr>sr_attempts := sr_attempts rec + 1\<rparr>"
  obtain e sp1 w1 where r: "Rewrite up sp w = (e, sp1, w1)" by (metis surj_pair)
  have "keeps A {} sp w sp1 w1" by (rule Rewrite_keeps [OF ok _ r]) (use mk in \<open>simp add: up_def\<close>)
  moreover have "sp' = sp1 \<and> w' = w1"
    using t r by (auto simp: Touch_def Let_def up_def split: option.splits)
  ultimately show ?thesis by simp
qed

section \<open>Quarantine\<close>

lemma marks_relink:
  "relinks a b L p = Whole (Rec r) \<Longrightarrow> \<exists>q. L q = Whole (Rec r)"
  unfolding relinks_def fun_upd_def by (metis seen.distinct(3))

lemma Quarantine_keeps:
  assumes ok: "spool_ok sp w" and q: "Quarantine rec reason sp w = (err, sp', w')"
  shows "keeps A {} sp w sp' w'"
proof (cases "find_loc (sr_id rec) sp")
  case None
  then have "sp' = sp \<and> w' = w" using q by (simp add: Quarantine_def)
  then show ?thesis using keeps_refl [OF ok] by simp
next
  case (Some l)
  have io: "index_ok sp (live_view w)" and fs: "fs_ok w" using ok by (simp_all add: spool_ok_def)
  note s = soundD [OF io Some]
  show ?thesis
  proof (cases l)
    case (Quar n)
    then have "sp' = sp \<and> w' = w" using q Some by (simp add: Quarantine_def)
    then show ?thesis using keeps_refl [OF ok] by simp
  next
    case l: (Active n)
    define t where "t = sanitize reason @ ''-'' @ n"
    have n: "json_file n" "named_for (sr_id rec) n" using s l by simp_all
    have t: "json_file t" unfolding t_def by (rule target_json [OF n(1)])
    have "named_for (sr_id rec) ((sanitize reason @ ''-'') @ n)" by (rule named_for_prepend [OF n(2)])
    then have tn: "named_for (sr_id rec) t" by (simp add: t_def)
    obtain me w1 where mv: "MoveFileDurable (sp_dir sp, n) (quar_dir sp, t) w = (me, w1)" by (metis surj_pair)
    have res: "w' = w1" "sp' = (if se_is_published me then set_loc (sr_id rec) (Quar t) sp else sp)"
      using q Some l mv by (auto simp: Quarantine_def Let_def t_def)
    have nt: "\<not> is_temp (sp_dir sp, n)" "\<not> is_temp (quar_dir sp, t)"
      using json_file_not_temp [of "Active n" sp] json_file_not_temp [of "Quar t" sp] n t by simp_all
    have mc: "changes {sp_dir sp, quar_dir sp} (relinks (sp_dir sp, n) (quar_dir sp, t)) me w w1 \<and>
        (se_is_published me \<longrightarrow> live_view w (sp_dir sp, n) \<noteq> Absent)"
      using moveFile_contract [OF fs nt _ mv] by simp
    have fr: "find_loc j sp \<noteq> Some (Quar t)" for j
    proof
      assume f: "find_loc j sp = Some (Quar t)"
      have "named_for j t" using soundD(2) [OF io f] by simp
      then have "j = sr_id rec" using tn named_for_unique by blast
      then show False using f Some l by simp
    qed
    show ?thesis
    proof (rule changes_keeps [OF ok])
      show "changes {sp_dir sp, quar_dir sp} (relinks (sp_dir sp, n) (quar_dir sp, t)) me w w'"
        using mc res by simp
      show "sp_dir sp' = sp_dir sp" using res by simp
      show "sp' = sp" if "\<not> se_is_published me" using that res by simp
      show "index_ok sp' (relinks (sp_dir sp, n) (quar_dir sp, t) (live_view w))" if "se_is_published me"
        using index_ok_quarantine [OF io _ _ t tn, of n] Some l mc res that by simp
      show "held sp (relinks (sp_dir sp, n) (quar_dir sp, t) (live_view w)) i e"
        if "held sp (live_view w) i e" for i e
        by (rule held_relink [OF io t fr that])
      fix p r
      assume "relinks (sp_dir sp, n) (quar_dir sp, t) (live_view w) p = Whole (Rec r)"
      then show "(\<exists>q. live_view w q = Whole (Rec r)) \<or> sr_id r \<in> A" using marks_relink by blast
    qed
  qed
qed

section \<open>Remove\<close>

lemma stat_contract:
  assumes ok: "fs_ok w" and s: "os_stat p w = (e, w')"
  shows "quiet w w' \<and> (e = Some ErrNotExist \<longrightarrow> live_view w p = Absent)"
proof -
  obtain r w1 where t: "tick w = (r, w1)" by (cases "tick w")
  have q: "quiet w w1" by (rule tick_quiet [OF ok t])
  have "w' = w1" using s t by (cases r) (auto simp: os_stat_def)
  moreover have "live_view w1 p = Absent" if e: "e = Some ErrNotExist"
  proof -
    have "r = None" using s t e tick_not_directory [of w] by (cases r) (auto simp: os_stat_def)
    then have "map_of (live w1) p = None" using s t e by (auto simp: os_stat_def split: if_splits)
    then show ?thesis by (simp add: live_view_def view_of_def)
  qed
  ultimately show ?thesis using q by (auto simp: quiet_def)
qed

lemma set_loc_same: "find_loc i sp = Some l \<Longrightarrow> find_loc j (set_loc i l sp) = find_loc j sp"
  by (cases "sp_locs sp") (auto simp: find_loc_def set_loc_def update_conv')

lemma keeps_same_index:
  assumes k: "keeps A X sp w sp' w'" and f: "\<And>j. find_loc j sp'' = find_loc j sp'" and d: "sp_dir sp'' = sp_dir sp'"
    and n: "sp_locs sp'' \<noteq> None"
  shows "keeps A X sp w sp'' w'"
proof -
  have "index_ok sp'' (live_view w')"
    by (rule index_ok_cong [OF _ d f n]) (use k in \<open>simp add: keeps_def spool_ok_def\<close>)
  moreover have "custody sp'' w' = custody sp' w'" by (simp add: custody_cong [OF d])
  ultimately show ?thesis using k d by (auto simp: keeps_def spool_ok_def)
qed

lemma drops_id: "L p = Absent \<Longrightarrow> drops p L = L"
  by (auto simp: drops_def)

lemma del_loc_keeps:
  assumes ok: "spool_ok sp w" and at: "find_loc i sp = Some l" and gone: "live_view w (loc_path sp l) = Absent"
  shows "keeps A X sp w (del_loc i sp) w"
proof -
  have io: "index_ok sp (live_view w)" and fs: "fs_ok w" using ok by (simp_all add: spool_ok_def)
  have "(live_view w)(loc_path sp l := Absent) = live_view w" using gone by auto
  then have "index_ok (del_loc i sp) (live_view w)" using index_ok_drop(2) [OF io at] by simp
  moreover have "custody (del_loc i sp) w = custody sp w" by (rule fun_cong [OF custody_cong]) simp
  ultimately show ?thesis using ok fs by (auto simp: keeps_def spool_ok_def)
qed

text \<open>Putting the record back after a removal whose durability is unknown.\<close>

lemma restore_keeps:
  assumes ok: "spool_ok sp w" and at: "find_loc (sr_id rec) sp = Some (Active n)"
    and gone: "live_view w (sp_dir sp, n) = Absent"
    and mk: "sr_removal rec \<longrightarrow> sr_id rec \<in> A" and m: "marshal_record rec = Some payload"
    and wf: "WriteFileAtomic (sp_dir sp) n payload 384 w = (re, w1)"
    and st: "os_stat (sp_dir sp, n) w1 = (se, w2)"
  shows "keeps A X sp w (if se = Some ErrNotExist then del_loc (sr_id rec) sp else sp) w2"
proof -
  have io: "index_ok sp (live_view w)" and fs: "fs_ok w" using ok by (simp_all add: spool_ok_def)
  note s = soundD [OF io at]
  obtain r where r: "payload = Rec r" "sr_id r = sr_id rec" "sr_obs r = sr_obs rec" "sr_removal r = sr_removal rec"
    by (rule marshal_record_fields [OF m s(3)])
  have ne: "sr_id rec \<noteq> []" using s(2) by (auto simp: named_for_def)
  have nm: "named_for (sr_id rec) n" using s(2) by simp
  have wf': "writeFile (sp_dir sp) n (Rec r) 384 False w = (re, w1)"
    using wf r by (simp add: WriteFileAtomic_def)
  have "keeps A {} sp w (if se_is_published re then set_loc (sr_id rec) (Active n) sp else sp) w1"
    by (rule write_keeps [OF ok s(1) nm s(3) _ _ _ _ _ wf']) (use at r mk ne gone in simp_all)
  then have k1: "keeps A {} sp w sp w1"
    by (rule keeps_same_index) (use io set_loc_same [OF at] in \<open>simp_all add: index_ok_def\<close>)
  have ok1: "spool_ok sp w1" using k1 by (simp add: keeps_def)
  then have "fs_ok w1" by (simp add: spool_ok_def)
  then have sc: "quiet w1 w2 \<and> (se = Some ErrNotExist \<longrightarrow> live_view w1 (sp_dir sp, n) = Absent)"
    using stat_contract st by blast
  have k2: "keeps A {} sp w1 sp w2" by (rule quiet_keeps [OF ok1]) (use sc in simp)
  have ok2: "spool_ok sp w2" and l2: "live_view w2 = live_view w1" using k2 sc by (simp_all add: keeps_def quiet_def)
  have "keeps A {} sp w2 (if se = Some ErrNotExist then del_loc (sr_id rec) sp else sp) w2"
    using del_loc_keeps [OF ok2 at] keeps_refl [OF ok2] sc l2 by simp
  then have "keeps A {} sp w (if se = Some ErrNotExist then del_loc (sr_id rec) sp else sp) w2"
    using k1 k2 keeps_trans by blast
  then show ?thesis by (rule keeps_mono) simp
qed

lemma Remove_keeps:
  assumes ok: "spool_ok sp w" and mk: "sr_removal rec \<longrightarrow> sr_id rec \<in> A"
    and r: "Remove rec sp w = (err, sp', w')"
  shows "keeps A {sr_id rec} sp w sp' w'"
proof (cases "\<exists>n. find_loc (sr_id rec) sp = Some (Active n)")
  case False
  then have "sp' = sp \<and> w' = w"
    using r by (auto simp: Remove_def split: option.splits if_splits elim: quarantined.elims)
  then show ?thesis using keeps_refl [OF ok] by simp
next
  case True
  then obtain n where at: "find_loc (sr_id rec) sp = Some (Active n)" by blast
  have io: "index_ok sp (live_view w)" and fs: "fs_ok w" using ok by (simp_all add: spool_ok_def)
  note s = soundD [OF io at]
  obtain de w1 where rm: "RemoveFileDurable (sp_dir sp, n) w = (de, w1)" by (metis surj_pair)
  have nt: "\<not> is_temp (sp_dir sp, n)" using json_file_not_temp [of "Active n" sp] s(1) by simp
  have ch: "changes {sp_dir sp} (drops (sp_dir sp, n)) de w w1"
    using removeFile_contract [OF fs nt rm] by simp
  have drop: "drops (sp_dir sp, n) (live_view w) = (live_view w)(loc_path sp (Active n) := Absent)"
    by (simp add: drops_def)
  have held: "held sp (drops (sp_dir sp, n) (live_view w)) i e"
    if "i \<notin> {sr_id rec}" "held sp (live_view w) i e" for i e
    unfolding drop by (rule held_drop [OF io at]) (use that in simp_all)
  have marks: "(\<exists>q. live_view w q = Whole (Rec r)) \<or> sr_id r \<in> A"
    if "drops (sp_dir sp, n) (live_view w) p = Whole (Rec r)" for p r
    using that unfolding drops_def fun_upd_def by (metis seen.distinct(3))
  have k: "keeps A {sr_id rec} sp w sp1 w1"
    if "sp1 = sp \<or> se_is_published de \<and> sp1 = del_loc (sr_id rec) sp" for sp1
  proof (rule changes_keeps [OF ok ch])
    show "sp_dir sp1 = sp_dir sp" using that by auto
    show "index_ok sp1 (drops (sp_dir sp, n) (live_view w))"
      using that index_ok_drop [OF io at] unfolding drop by auto
  qed (use that held marks in auto)
  consider (clean) "de = None" | (unp) e where "de = Some e" "\<not> se_published e"
    | (enc) e where "de = Some e" "se_published e" "marshal_record rec = None"
    | (put) e payload where "de = Some e" "se_published e" "marshal_record rec = Some payload"
    by (cases de; cases "marshal_record rec") auto
  then show ?thesis
  proof cases
    case clean
    then have "sp' = del_loc (sr_id rec) sp \<and> w' = w1" using r at rm by (simp add: Remove_def)
    then show ?thesis using k clean by simp
  next
    case unp
    then have "sp' = sp \<and> w' = w1" using r at rm by (simp add: Remove_def)
    then show ?thesis using k by simp
  next
    case enc
    then have "sp' = sp \<and> w' = w1" using r at rm by (simp add: Remove_def)
    then show ?thesis using k by simp
  next
    case put
    obtain re w2 where wf: "WriteFileAtomic (sp_dir sp) n payload 384 w1 = (re, w2)" by (metis surj_pair)
    obtain se w3 where st: "os_stat (sp_dir sp, n) w2 = (se, w3)" by (metis surj_pair)
    have res: "sp' = (if se = Some ErrNotExist then del_loc (sr_id rec) sp else sp)" "w' = w3"
      using r at rm put wf st by (auto simp: Remove_def)
    have k1: "keeps A {sr_id rec} sp w sp w1" using k by simp
    have pub: "se_is_published de" using put by (simp add: se_is_published_def)
    then have "live_view w1 (sp_dir sp, n) = Absent" using ch by (simp add: changes_def drops_def)
    moreover have "spool_ok sp w1" using k1 by (simp add: keeps_def)
    ultimately have "keeps A {sr_id rec} sp w1 sp' w'"
      unfolding res using restore_keeps [OF _ at _ mk put(3) wf st] by blast
    then show ?thesis using k1 keeps_trans by blast
  qed
qed

section \<open>Pending\<close>

lemma pending_move_keeps:
  assumes ok: "spool_ok sp w" and n: "json_file n"
    and mv: "MoveFileDurable (sp_dir sp, n) (quar_dir sp, n) w = (me, w')"
  shows "keeps A {} sp w (if se_is_published me then follow_move n sp else sp) w'"
proof -
  have io: "index_ok sp (live_view w)" and fs: "fs_ok w" using ok by (simp_all add: spool_ok_def)
  have nt: "\<not> is_temp (sp_dir sp, n)" "\<not> is_temp (quar_dir sp, n)"
    using json_file_not_temp [of "Active n" sp] json_file_not_temp [of "Quar n" sp] n by simp_all
  have mc: "changes {sp_dir sp, quar_dir sp} (relinks (sp_dir sp, n) (quar_dir sp, n)) me w w' \<and>
      (se_is_published me \<longrightarrow> live_view w (sp_dir sp, n) \<noteq> Absent)"
    using moveFile_contract [OF fs nt _ mv] by simp
  show ?thesis
  proof (rule changes_keeps [OF ok])
    show "changes {sp_dir sp, quar_dir sp} (relinks (sp_dir sp, n) (quar_dir sp, n)) me w w'" using mc by simp
    show "index_ok (if se_is_published me then follow_move n sp else sp)
        (relinks (sp_dir sp, n) (quar_dir sp, n) (live_view w))" if "se_is_published me"
      using index_ok_follow [OF io n] mc that by simp
    show "held sp (relinks (sp_dir sp, n) (quar_dir sp, n) (live_view w)) i e"
      if "se_is_published me" "held sp (live_view w) i e" for i e
      by (rule held_relink [OF io n _ that(2)]) (use quar_name_free [OF io n] mc that in blast)
    fix p r
    assume "relinks (sp_dir sp, n) (quar_dir sp, n) (live_view w) p = Whole (Rec r)"
    then show "(\<exists>q. live_view w q = Whole (Rec r)) \<or> sr_id r \<in> A" using marks_relink by blast
  qed simp_all
qed

text \<open>The records listed are files of the queue: one due for removal carries its mark.\<close>

lemma pending_names_keeps:
  assumes "spool_ok sp w" and "\<forall>n \<in> set ns. json_file n" and "pending_names ns sp w = (res, sp', w')"
    and "marks_in A w"
  shows "keeps A {} sp w sp' w' \<and>
    (\<forall>rs. res = Inr rs \<longrightarrow> (\<forall>rec \<in> set rs. sr_id rec \<noteq> [] \<and> (sr_removal rec \<longrightarrow> sr_id rec \<in> A)))"
  using assms
proof (induction ns arbitrary: sp w res sp' w')
  case Nil
  then show ?case using keeps_refl by auto
next
  case (Cons n ns)
  note ok = Cons.prems(1)
  have fs: "fs_ok w" using ok by (simp add: spool_ok_def)
  have n: "json_file n" using Cons.prems(2) by simp
  obtain rd w1 where rd: "sp_read sp (Active n) w = (rd, w1)" by (metis surj_pair)
  have c: "quiet w w1 \<and> (\<forall>rec. rd = Inr rec \<longrightarrow> live_view w (loc_path sp (Active n)) = Whole (Rec rec) \<and> sr_id rec \<noteq> [])"
    by (rule sp_read_contract [OF fs _ rd]) (use n in simp)
  have k1: "keeps A {} sp w sp w1" by (rule quiet_keeps [OF ok]) (use c in simp)
  have ok1: "spool_ok sp w1" and m1: "marks_in A w1" using k1 Cons.prems(4) by (simp_all add: keeps_def)
  have ns: "\<forall>n \<in> set ns. json_file n" using Cons.prems(2) by simp
  show ?case
  proof (cases rd)
    case (Inr rec)
    obtain res2 sp2 w2 where p: "pending_names ns sp w1 = (res2, sp2, w2)" by (metis surj_pair)
    note ih = Cons.IH [OF ok1 ns p m1]
    have e: "sp' = sp2" "w' = w2" "\<forall>rs. res = Inr rs \<longrightarrow> (\<exists>rs'. res2 = Inr rs' \<and> rs = rec # rs')"
      using Cons.prems(3) rd Inr p by (auto split: sum.splits)
    have "live_view w (sp_dir sp, n) = Whole (Rec rec)" "sr_id rec \<noteq> []" using c Inr by simp_all
    moreover have "sr_removal rec \<longrightarrow> sr_id rec \<in> A"
      using Cons.prems(4) live_view_in_crash_views calculation(1) unfolding marks_in_def by blast
    ultimately show ?thesis using ih e keeps_trans [OF k1] by (metis set_ConsD)
  next
    case (Inl er)
    obtain me w2 where mv: "MoveFileDurable (sp_dir sp, n) (quar_dir sp, n) w1 = (me, w2)" by (metis surj_pair)
    define sp2 where "sp2 = (if se_is_published me then follow_move n sp else sp)"
    have k2: "keeps A {} sp w1 sp2 w2" unfolding sp2_def by (rule pending_move_keeps [OF ok1 n mv])
    have k12: "keeps A {} sp w sp2 w2" by (rule keeps_trans [OF k1 k2])
    show ?thesis
    proof (cases me)
      case (Some e)
      then have "res = Inl (SpStage e) \<and> sp' = sp2 \<and> w' = w2"
        using Cons.prems(3) rd Inl mv by (auto simp: sp2_def Let_def)
      then show ?thesis using k12 by simp
    next
      case None
      then have p: "pending_names ns sp2 w2 = (res, sp', w')"
        using Cons.prems(3) rd Inl mv by (simp add: sp2_def Let_def)
      have ok2: "spool_ok sp2 w2" and m2: "marks_in A w2" using k2 m1 by (simp_all add: keeps_def)
      from Cons.IH [OF ok2 ns p m2] show ?thesis using keeps_trans [OF k12] by blast
    qed
  qed
qed

lemma Pending_keeps:
  assumes ok: "spool_ok sp w" and m: "marks_in A w" and p: "Pending sp w = (res, sp', w')"
  shows "keeps A {} sp w sp' w' \<and>
    (\<forall>rs. res = Inr rs \<longrightarrow> (\<forall>rec \<in> set rs. sr_id rec \<noteq> [] \<and> (sr_removal rec \<longrightarrow> sr_id rec \<in> A)))"
proof -
  have fs: "fs_ok w" using ok by (simp add: spool_ok_def)
  obtain e w1 where t: "tick w = (e, w1)" by (cases "tick w")
  have q: "quiet w w1" by (rule tick_quiet [OF fs t])
  have k1: "keeps A {} sp w sp w1" by (rule quiet_keeps [OF ok q])
  obtain x where x: "os_read_dir (sp_dir sp) w = (x, w1)"
    using t by (cases e) (auto simp: os_read_dir_def)
  show ?thesis
  proof (cases x)
    case (Inl er)
    then have "res = Inl (SpOS er) \<and> sp' = sp \<and> w' = w1" using p x by (simp add: Pending_def)
    then show ?thesis using k1 by simp
  next
    case (Inr ns)
    then have pn: "pending_names (sort (filter json_file ns)) sp w1 = (res, sp', w')"
      using p x by (simp add: Pending_def)
    have "\<forall>n \<in> set (sort (filter json_file ns)). json_file n" by simp
    note js = this
    have "spool_ok sp w1" "marks_in A w1" using k1 m by (simp_all add: keeps_def)
    from pending_names_keeps [OF this(1) js pn this(2)] show ?thesis
      using keeps_trans [OF k1] by blast
  qed
qed

end
