(* ===== verification/Collector.thy ===== *)
theory Collector
  imports SpoolOps
begin

text \<open>
  \<^verbatim>\<open>pkg/mining/collector/collector.go\<close>: the delivery loop over the spool.  What the loop gets
  from outside is in \<open>cs_env\<close>: the readings of the clock, the answers of the submitter, the
  checks of the context, and the random numbers of the jitter, each a list consumed in order;
  \<open>ev_log\<close> records what was submitted and answered.  Durations are nanoseconds.  The text of a
  submission error goes through \<open>op_redact\<close>, the function of \<^verbatim>\<open>pkg/redact\<close>; a storage error is
  kept as the error itself.
\<close>

section \<open>State\<close>

record answer =
  an_satisfied :: bool
  an_permanent :: bool
  an_retry_after :: int
  an_err :: "string option"

record env =
  ev_clock :: "int list"
  ev_answers :: "answer list"
  ev_cancelled :: "bool list"
  ev_random :: "nat list"
  ev_log :: "(srecord \<times> answer) list"

record coptions =
  op_interval :: int
  op_base_backoff :: int
  op_max_backoff :: int
  op_max_attempts :: int
  op_redact :: "string \<Rightarrow> string"

record health =
  hl_retry_backlog :: int
  hl_queued :: int
  hl_last_success :: int
  hl_last_failure :: int
  hl_last_failure_note :: string
  hl_consecutive_failures :: int
  hl_delivered :: int
  hl_submission_failures :: int
  hl_terminal_failures :: int
  hl_quarantined :: int
  hl_local_removal_failures :: int
  hl_cleanup_recovered :: int
  hl_storage_error :: "spool_error option"

record cstate =
  cs_spool :: spool
  cs_world :: sworld
  cs_opts :: coptions
  cs_health :: health
  cs_pass_removal_failures :: int
  cs_wake :: bool
  cs_env :: env

definition zero_health :: health where
  "zero_health =
     \<lparr>hl_retry_backlog = 0, hl_queued = 0, hl_last_success = go_zero_time, hl_last_failure = go_zero_time,
      hl_last_failure_note = [], hl_consecutive_failures = 0, hl_delivered = 0, hl_submission_failures = 0,
      hl_terminal_failures = 0, hl_quarantined = 0, hl_local_removal_failures = 0, hl_cleanup_recovered = 0,
      hl_storage_error = None\<rparr>"

definition DefaultMaxAttempts :: int where "DefaultMaxAttempts = 50"

definition withDefaults :: "coptions \<Rightarrow> coptions" where
  "withDefaults o' =
     o'\<lparr>op_interval := (if op_interval o' = 0 then 30000000000 else op_interval o'),
        op_base_backoff := (if op_base_backoff o' = 0 then 2000000000 else op_base_backoff o'),
        op_max_backoff := (if op_max_backoff o' = 0 then 300000000000 else op_max_backoff o')\<rparr>"

section \<open>The environment\<close>

text \<open>A list that has run out repeats a default: the epoch, a refusal, not cancelled, zero.\<close>

definition read_clock :: "cstate \<Rightarrow> int \<times> cstate" where
  "read_clock s =
     (case ev_clock (cs_env s) of
        [] \<Rightarrow> (0, s)
      | t # ts \<Rightarrow> (t, s\<lparr>cs_env := (cs_env s)\<lparr>ev_clock := ts\<rparr>\<rparr>))"

definition no_answer :: answer where
  "no_answer = \<lparr>an_satisfied = False, an_permanent = False, an_retry_after = 0, an_err = Some ''no answer''\<rparr>"

definition submit :: "srecord \<Rightarrow> cstate \<Rightarrow> answer \<times> cstate" where
  "submit rec s =
     (let e = cs_env s; a = (case ev_answers e of [] \<Rightarrow> no_answer | a # _ \<Rightarrow> a)
      in (a, s\<lparr>cs_env := e\<lparr>ev_answers := tl (ev_answers e), ev_log := ev_log e @ [(rec, a)]\<rparr>\<rparr>))"

definition ctx_err :: "cstate \<Rightarrow> bool \<times> cstate" where
  "ctx_err s =
     (case ev_cancelled (cs_env s) of
        [] \<Rightarrow> (False, s)
      | b # bs \<Rightarrow> (b, s\<lparr>cs_env := (cs_env s)\<lparr>ev_cancelled := bs\<rparr>\<rparr>))"

definition rand53 :: "cstate \<Rightarrow> nat \<times> cstate" where
  "rand53 s =
     (case ev_random (cs_env s) of
        [] \<Rightarrow> (0, s)
      | r # rs \<Rightarrow> (r mod 2 ^ 53, s\<lparr>cs_env := (cs_env s)\<lparr>ev_random := rs\<rparr>\<rparr>))"

section \<open>Health\<close>

definition on_health :: "(health \<Rightarrow> health) \<Rightarrow> cstate \<Rightarrow> cstate" where
  "on_health f s = s\<lparr>cs_health := f (cs_health s)\<rparr>"

definition recordSuccess :: "cstate \<Rightarrow> cstate" where
  "recordSuccess s =
     (case read_clock s of (now, s) \<Rightarrow>
        on_health (\<lambda>h. h\<lparr>hl_last_success := now, hl_delivered := hl_delivered h + 1,
                         hl_consecutive_failures := 0, hl_last_failure_note := []\<rparr>) s)"

definition recordFailure :: "string option \<Rightarrow> cstate \<Rightarrow> cstate" where
  "recordFailure err s =
     (case read_clock s of (now, s) \<Rightarrow>
        on_health (\<lambda>h. h\<lparr>hl_last_failure := now, hl_submission_failures := hl_submission_failures h + 1,
                         hl_consecutive_failures := hl_consecutive_failures h + 1,
                         hl_last_failure_note :=
                           (case err of None \<Rightarrow> hl_last_failure_note h | Some t \<Rightarrow> op_redact (cs_opts s) t)\<rparr>) s)"

definition storageFailure :: "spool_error option \<Rightarrow> bool \<Rightarrow> cstate \<Rightarrow> cstate" where
  "storageFailure err removal s =
     (if err = None then s
      else if removal then
        (let n = cs_pass_removal_failures s + 1
         in on_health (\<lambda>h. h\<lparr>hl_storage_error := err, hl_local_removal_failures := n\<rparr>)
              (s\<lparr>cs_pass_removal_failures := n\<rparr>))
      else on_health (\<lambda>h. h\<lparr>hl_storage_error := err\<rparr>) s)"

definition refreshState :: "cstate \<Rightarrow> cstate" where
  "refreshState s =
     (case spool_state_of (cs_spool s) (cs_world s) of ((st, err), w) \<Rightarrow>
        let s = s\<lparr>cs_world := w\<rparr> in
        if err \<noteq> None then storageFailure err False s
        else on_health (\<lambda>h. h\<lparr>hl_queued := st_queued st, hl_retry_backlog := st_backlog st,
                               hl_quarantined := st_quarantined st,
                               hl_terminal_failures := max (st_terminal st + st_quarantined st) (hl_terminal_failures h),
                               hl_local_removal_failures := max (st_removal st) (cs_pass_removal_failures s)\<rparr>) s)"

definition New :: "spool \<Rightarrow> sworld \<Rightarrow> coptions \<Rightarrow> env \<Rightarrow> cstate" where
  "New sp w opts e =
     refreshState \<lparr>cs_spool = sp, cs_world = w, cs_opts = withDefaults opts, cs_health = zero_health,
                   cs_pass_removal_failures = 0, cs_wake = False, cs_env = e\<rparr>"

definition Wake :: "cstate \<Rightarrow> cstate" where
  "Wake s = s\<lparr>cs_wake := True\<rparr>"

section \<open>Calls on the spool\<close>

definition on_spool :: "(spool \<Rightarrow> sworld \<Rightarrow> 'a \<times> spool \<times> sworld) \<Rightarrow> cstate \<Rightarrow> 'a \<times> cstate" where
  "on_spool f s =
     (case f (cs_spool s) (cs_world s) of (r, sp, w) \<Rightarrow> (r, s\<lparr>cs_spool := sp, cs_world := w\<rparr>))"

definition c_rewrite :: "srecord \<Rightarrow> cstate \<Rightarrow> spool_error option \<times> cstate" where
  "c_rewrite rec s = on_spool (Rewrite rec) s"

definition c_quarantine :: "srecord \<Rightarrow> string \<Rightarrow> cstate \<Rightarrow> spool_error option \<times> cstate" where
  "c_quarantine rec reason s = on_spool (Quarantine rec reason) s"

definition c_remove :: "srecord \<Rightarrow> cstate \<Rightarrow> spool_error option \<times> cstate" where
  "c_remove rec s = on_spool (Remove rec) s"

section \<open>Delivery\<close>

definition finishRemoval :: "srecord \<Rightarrow> bool \<Rightarrow> cstate \<Rightarrow> cstate" where
  "finishRemoval rec acknowledged s =
     (case c_remove rec s of
        (Some e, s) \<Rightarrow> storageFailure (Some e) True s
      | (None, s) \<Rightarrow>
          if \<not> acknowledged then on_health (\<lambda>h. h\<lparr>hl_cleanup_recovered := hl_cleanup_recovered h + 1\<rparr>) s
          else recordSuccess s)"

definition count_terminal :: "cstate \<Rightarrow> cstate" where
  "count_terminal s = on_health (\<lambda>h. h\<lparr>hl_terminal_failures := hl_terminal_failures h + 1\<rparr>) s"

definition markTerminal :: "srecord \<Rightarrow> string \<Rightarrow> cstate \<Rightarrow> cstate" where
  "markTerminal rec reason s =
     (let updated = rec\<lparr>sr_terminal := reason\<rparr> in
      (case c_rewrite updated s of
         (Some e, s) \<Rightarrow> storageFailure (Some e) False s
       | (None, s) \<Rightarrow>
           (case c_quarantine updated reason (count_terminal s) of
              (err, s) \<Rightarrow> storageFailure err False s)))"

text \<open>
  \<^verbatim>\<open>backoffFor\<close>.  Scaling by a power of two is exact in a \<^verbatim>\<open>float64\<close>; a product of \<open>2 ^ 63\<close> or
  more converts to a duration that is negative or the largest, and either is replaced by the
  maximum.  The random number is \<open>m / 2 ^ 53\<close>, so the jitter factor is \<open>3 / 4 + m / 2 ^ 54\<close>; it
  is applied exactly here, where the code rounds to a \<^verbatim>\<open>float64\<close>.
\<close>

definition backoff_wait :: "coptions \<Rightarrow> int \<Rightarrow> int" where
  "backoff_wait o' attempts =
     (let attempts = (if attempts < 1 then 1 else attempts);
          wait = 2 ^ nat (attempts - 1) * op_base_backoff o'
      in if 2 ^ 63 \<le> wait \<or> op_max_backoff o' < wait \<or> wait \<le> 0 then op_max_backoff o' else wait)"

definition jittered :: "int \<Rightarrow> nat \<Rightarrow> int" where
  "jittered wait m = wait * (3 * 2 ^ 52 + int m) div 2 ^ 54"

definition backoffFor :: "int \<Rightarrow> cstate \<Rightarrow> int \<times> cstate" where
  "backoffFor attempts s =
     (case rand53 s of (m, s) \<Rightarrow> (jittered (backoff_wait (cs_opts s) attempts) m, s))"

text \<open>The record \<^verbatim>\<open>scheduleRetry\<close> persists, and what follows its choice of a deadline.\<close>

definition retry_record :: "coptions \<Rightarrow> srecord \<Rightarrow> int \<Rightarrow> int \<Rightarrow> srecord" where
  "retry_record o' rec now wait =
     (let updated = rec\<lparr>sr_attempts := sr_attempts rec + 1, sr_next := now + wait\<rparr>
      in if 0 < op_max_attempts o' \<and> op_max_attempts o' \<le> sr_attempts updated
         then updated\<lparr>sr_terminal := ''attempts_exhausted''\<rparr> else updated)"

definition persist_retry :: "srecord \<Rightarrow> cstate \<Rightarrow> spool_error option \<times> cstate" where
  "persist_retry updated s =
     (case c_rewrite updated s of
        (Some e, s) \<Rightarrow> (Some e, s)
      | (None, s) \<Rightarrow>
          if sr_terminal updated \<noteq> [] then c_quarantine updated (sr_terminal updated) (count_terminal s)
          else (None, s))"

definition retry_wait :: "srecord \<Rightarrow> int \<Rightarrow> cstate \<Rightarrow> int \<times> cstate" where
  "retry_wait rec retryAfter s =
     (if retryAfter \<le> 0 then backoffFor (sr_attempts rec + 1) s else (retryAfter, s))"

definition scheduleRetry :: "srecord \<Rightarrow> int \<Rightarrow> cstate \<Rightarrow> spool_error option \<times> cstate" where
  "scheduleRetry rec retryAfter s =
     (case retry_wait rec retryAfter s of (wait, s) \<Rightarrow>
        (case read_clock s of (now, s) \<Rightarrow>
           persist_retry (retry_record (cs_opts s) rec now wait) s))"

definition deliver :: "srecord \<Rightarrow> cstate \<Rightarrow> cstate" where
  "deliver rec s =
     (case submit rec s of
        (a, s) \<Rightarrow>
          if an_satisfied a then
            (let updated = rec\<lparr>sr_removal := True\<rparr> in
             (case c_rewrite updated s of
                (Some e, s) \<Rightarrow> storageFailure (Some e) True s
              | (None, s) \<Rightarrow> finishRemoval updated True s))
          else if an_permanent a then
            markTerminal (rec\<lparr>sr_attempts := sr_attempts rec + 1\<rparr>) ''permanent'' (recordFailure (an_err a) s)
          else
            (case scheduleRetry rec (an_retry_after a) (recordFailure (an_err a) s) of
               (err, s) \<Rightarrow> storageFailure err False s))"

fun drain_records :: "srecord list \<Rightarrow> cstate \<Rightarrow> cstate" where
  "drain_records [] s = s"
| "drain_records (rec # recs) s =
     (case ctx_err s of
        (True, s) \<Rightarrow> s
      | (False, s) \<Rightarrow>
          if sr_terminal rec \<noteq> [] then
            (case c_quarantine rec (sr_terminal rec) s of
               (err, s) \<Rightarrow> drain_records recs (storageFailure err False s))
          else if sr_removal rec then drain_records recs (finishRemoval rec False s)
          else if 0 < op_max_attempts (cs_opts s) \<and> op_max_attempts (cs_opts s) \<le> sr_attempts rec then
            drain_records recs (markTerminal rec ''attempts_exhausted'' s)
          else
            (case read_clock s of
               (now, s) \<Rightarrow>
                 if now < sr_next rec then drain_records recs s else drain_records recs (deliver rec s)))"

definition drain :: "cstate \<Rightarrow> cstate" where
  "drain s =
     (let s = on_health (\<lambda>h. h\<lparr>hl_delivered := 0, hl_submission_failures := 0, hl_terminal_failures := 0,
                               hl_local_removal_failures := 0, hl_storage_error := None\<rparr>)
                (s\<lparr>cs_pass_removal_failures := 0\<rparr>);
          s = refreshState s
      in (case on_spool Pending s of
            (Inl e, s) \<Rightarrow> refreshState (storageFailure (Some e) False s)
          | (Inr recs, s) \<Rightarrow> refreshState (drain_records recs s)))"

text \<open>\<^verbatim>\<open>Run\<close> for the events its select receives; it returns when the context is done.\<close>

datatype run_event = CtxDone | TickerFired | WakeReceived

fun Run :: "run_event list \<Rightarrow> cstate \<Rightarrow> cstate" where
  "Run [] s = drain s"
| "Run (CtxDone # es) s = drain s"
| "Run (TickerFired # es) s = Run es (drain s)"
| "Run (WakeReceived # es) s = Run es ((drain s)\<lparr>cs_wake := False\<rparr>)"

section \<open>The promotion side\<close>

datatype writer_error = WrEncode | WrNoClientRecordID | WrSpool spool_error

text \<open>
  \<^verbatim>\<open>SpoolWriter.Enqueue\<close>: the observation as it marshals, \<open>None\<close> when it does not, and the clock
  the spool reads.  The collector is woken when there is one.
\<close>

definition writer_enqueue ::
    "64 word \<Rightarrow> 64 word \<Rightarrow> json option \<Rightarrow> int \<Rightarrow> bool \<Rightarrow> cstate \<Rightarrow> (writer_error + string) \<times> cstate" where
  "writer_enqueue slotID targetEpoch observation now has_collector s =
     (case observation of
        None \<Rightarrow> (Inl WrEncode, s)
      | Some payload \<Rightarrow>
          (case json_field ''client_record_id'' payload of
             Some (JStr i) \<Rightarrow>
               if i = [] then (Inl WrNoClientRecordID, s)
               else
                 (let rec = \<lparr>sr_id = i, sr_slot = slotID, sr_epoch = targetEpoch, sr_obs = Some payload,
                             sr_spooled_at = go_zero_time, sr_attempts = 0, sr_next = go_zero_time,
                             sr_terminal = [], sr_removal = False\<rparr> in
                  (case on_spool (Enqueue rec now) s of
                     (Some e, s) \<Rightarrow> (Inl (WrSpool e), s)
                   | (None, s) \<Rightarrow> (Inr i, if has_collector then Wake s else s)))
           | _ \<Rightarrow> (Inl WrNoClientRecordID, s)))"

end
