(* ===== verification/SpoolSpec.thy ===== *)
theory SpoolSpec
  imports SpoolOps
begin

text \<open>
  The contract of the spool: what an accepted record survives, what a crash followed by a
  restart finds, and that a stable identity keeps its evidence.
\<close>

section \<open>Operations as steps\<close>

text \<open>
  Any use of a handle: the operations of the package in any order.  New identities are 36
  bytes of UTF-8 that no unreadable file of the queue is named for.
\<close>

inductive spool_step :: "spool \<times> sworld \<Rightarrow> string option \<Rightarrow> spool \<times> sworld \<Rightarrow> bool" where
  step_enqueue: "Enqueue rec now sp w = (err, sp', w') \<Longrightarrow> utf8_valid (sr_id rec) \<Longrightarrow> length (sr_id rec) = 36 \<Longrightarrow>
    no_junk_for (sr_id rec) sp w \<Longrightarrow> \<not> sr_removal rec \<Longrightarrow> spool_step (sp, w) None (sp', w')"
| step_rewrite: "Rewrite rec sp w = (err, sp', w') \<Longrightarrow> spool_step (sp, w) None (sp', w')"
| step_touch: "Touch rec sp w = (res, sp', w') \<Longrightarrow> spool_step (sp, w) None (sp', w')"
| step_pending: "Pending sp w = (recs, sp', w') \<Longrightarrow> spool_step (sp, w) None (sp', w')"
| step_quarantine: "Quarantine rec reason sp w = (err, sp', w') \<Longrightarrow> spool_step (sp, w) None (sp', w')"
| step_remove: "Remove rec sp w = (err, sp', w') \<Longrightarrow> spool_step (sp, w) (Some (sr_id rec)) (sp', w')"

inductive spool_steps :: "spool \<times> sworld \<Rightarrow> string set \<Rightarrow> spool \<times> sworld \<Rightarrow> bool" where
  steps_none: "spool_steps s {} s"
| steps_more: "spool_steps s X t \<Longrightarrow> spool_step t r u \<Longrightarrow> spool_steps s (X \<union> set_option r) u"

inductive_cases spool_stepE: "spool_step (sp, w) r t"

lemma spool_step_keeps:
  assumes "spool_step (sp, w) r (sp', w')" and "spool_ok sp w"
  shows "keeps UNIV (set_option r) sp w sp' w'"
  using assms(1)
proof (cases rule: spool_step.cases)
  case (step_enqueue rec now err)
  then show ?thesis using Enqueue_keeps [OF assms(2), of rec now err sp' w' UNIV] by simp
next
  case (step_rewrite rec err)
  then show ?thesis using Rewrite_keeps [OF assms(2), of rec UNIV] by simp
next
  case (step_touch rec res)
  then show ?thesis using Touch_keeps [OF assms(2), of rec UNIV] by simp
next
  case (step_pending recs)
  have "marks_in UNIV w" by (simp add: marks_in_def)
  then have "keeps UNIV {} sp w sp' w'" using Pending_keeps [OF assms(2)] step_pending(2) by blast
  then show ?thesis using step_pending(1) by simp
next
  case (step_quarantine rec reason err)
  then show ?thesis using Quarantine_keeps [OF assms(2)] by simp
next
  case (step_remove rec err)
  then show ?thesis using Remove_keeps [OF assms(2), of rec UNIV] by simp
qed

lemma spool_steps_keeps:
  assumes "spool_steps s X t" and "spool_ok (fst s) (snd s)"
  shows "keeps UNIV X (fst s) (snd s) (fst t) (snd t)"
  using assms
proof (induction rule: spool_steps.induct)
  case (steps_none s)
  then show ?case by (simp add: keeps_refl)
next
  case (steps_more s X t r u)
  have k: "keeps UNIV X (fst s) (snd s) (fst t) (snd t)" using steps_more by simp
  then have "spool_ok (fst t) (snd t)" by (simp add: keeps_def)
  moreover have "spool_step (fst t, snd t) r (fst u, snd u)" using steps_more.hyps(2) by simp
  ultimately have "keeps UNIV (set_option r) (fst t) (snd t) (fst u) (snd u)" by (rule spool_step_keeps [rotated])
  then have "keeps UNIV (X \<union> set_option r) (fst t) (snd t) (fst u) (snd u)" by (rule keeps_mono) simp
  moreover have "keeps UNIV (X \<union> set_option r) (fst s) (snd s) (fst t) (snd t)" using k by (rule keeps_mono) simp
  ultimately show ?case using keeps_trans by blast
qed

lemma held_unique: "index_ok sp L \<Longrightarrow> held sp L i e \<Longrightarrow> held sp L i e' \<Longrightarrow> e = e'"
  by (metis held_indexed option.inject content.inject seen.inject)

section \<open>A record in an otherwise empty queue\<close>

definition sample_id :: string where
  "sample_id = replicate 36 CHR ''a''"

definition sample_record :: srecord where
  "sample_record =
     \<lparr>sr_id = sample_id, sr_slot = 7, sr_epoch = 1042, sr_obs = Some (JObj [(''client_record_id'', JStr sample_id)]),
      sr_spooled_at = 1000, sr_attempts = 0, sr_next = go_zero_time, sr_terminal = [], sr_removal = False\<rparr>"

definition sample_name :: string where
  "sample_name = filename sample_record"

definition sample_spool :: spool where
  "sample_spool = \<lparr>sp_dir = ''d'', sp_locs = Some [(sample_id, Active sample_name)], sp_unknown = 0\<rparr>"

definition sample_world :: "outcome_os list \<Rightarrow> sworld" where
  "sample_world plan =
     \<lparr>w_nodes = (\<lambda>_. \<lparr>in_data = Some (Rec sample_record), in_synced = True, in_mode = 384\<rparr>), w_next = 1,
      w_dirs = [''d'', ''d/quarantine''], w_disk = [((''d'', sample_name), 0)], w_journal = [], w_plan = plan,
      w_dead = False\<rparr>"

lemma sample_named: "json_file sample_name" "named_for sample_id sample_name"
  using filename_json [of sample_record] filename_named [of sample_record]
  by (simp_all add: sample_name_def sample_record_def sample_id_def)

lemma sample_view:
  "live_view (sample_world plan) = (\<lambda>_. Absent)((''d'', sample_name) := Whole (Rec sample_record))"
  "crash_views (sample_world plan) = {(\<lambda>_. Absent)((''d'', sample_name) := Whole (Rec sample_record))}"
proof -
  have t: "\<not> is_temp (''d'', sample_name)" using sample_named(1) by (simp add: is_temp_def staging_name_def json_file_def)
  have v: "view_of (sample_world plan) (map_of [((''d'', sample_name), 0)]) =
      (\<lambda>_. Absent)((''d'', sample_name) := Whole (Rec sample_record))"
    using t by (intro ext) (simp add: view_of_def sample_world_def node_seen_def)
  have p: "prefix_maps (sample_world plan) = {map_of [((''d'', sample_name), 0)]}"
    by (simp add: prefix_maps_def sample_world_def)
  have l: "live (sample_world plan) = [((''d'', sample_name), 0)]" by (simp add: live_def sample_world_def)
  show "live_view (sample_world plan) = (\<lambda>_. Absent)((''d'', sample_name) := Whole (Rec sample_record))"
    by (simp only: live_view_def l v)
  show "crash_views (sample_world plan) = {(\<lambda>_. Absent)((''d'', sample_name) := Whole (Rec sample_record))}"
    by (simp only: crash_views_def p image_insert image_empty v)
qed

lemma sample_utf8: "utf8_valid sample_id"
  by (rule utf8_valid_ascii) (simp add: sample_id_def list_all_iff)

lemma sample_index: "index_ok sample_spool ((\<lambda>_. Absent)((''d'', sample_name) := Whole (Rec sample_record)))"
proof -
  have ne: "sample_id \<noteq> []" and id: "sr_id sample_record = sample_id"
    by (simp_all add: sample_id_def sample_record_def)
  have f: "find_loc i sample_spool = Some l \<longleftrightarrow> i = sample_id \<and> l = Active sample_name" for i l
    by (auto simp: find_loc_def sample_spool_def)
  have d: "sp_dir sample_spool = ''d''" by (simp add: sample_spool_def)
  have r: "readable (((\<lambda>_. Absent)((''d'', sample_name) := Whole (Rec sample_record))) (loc_path sample_spool l)) i \<longleftrightarrow>
      i = sample_id \<and> l = Active sample_name" for l i
    using ne id dirs_differ(1) [of sample_spool] by (cases l) (auto simp: readable_def d)
  have "index_sound sample_spool ((\<lambda>_. Absent)((''d'', sample_name) := Whole (Rec sample_record)))"
    unfolding index_sound_def f r using sample_named sample_utf8 by auto
  moreover have "index_complete sample_spool ((\<lambda>_. Absent)((''d'', sample_name) := Whole (Rec sample_record)))"
    unfolding index_complete_def f r by simp
  moreover have "junk_apart sample_spool ((\<lambda>_. Absent)((''d'', sample_name) := Whole (Rec sample_record)))"
    unfolding junk_apart_def using r [of "Active sample_name" sample_id] by (auto simp: d split: if_splits)
  ultimately show ?thesis by (simp add: index_ok_def sample_spool_def)
qed

lemma sample_ok: "spool_ok sample_spool (sample_world plan)"
proof -
  have "fs_ok (sample_world plan)"
    by (simp add: fs_ok_def good_map_def prefix_maps_def sample_world_def)
  then show ?thesis
    using sample_index indexableI [OF sample_index] by (simp add: spool_ok_def sample_view)
qed

lemma sample_custody:
  "custody sample_spool (sample_world plan) sample_id (JObj [(''client_record_id'', JStr sample_id)])"
  unfolding custody_def sample_view
proof
  fix v assume "v \<in> {(\<lambda>_. Absent)((''d'', sample_name) := Whole (Rec sample_record))}"
  then show "held sample_spool v sample_id (JObj [(''client_record_id'', JStr sample_id)])"
    by (intro heldI [of "Active sample_name" _ _ sample_record])
      (use sample_named in \<open>simp_all add: sample_spool_def sample_record_def sample_id_def\<close>)
qed

section \<open>Restart after a crash\<close>

text \<open>The disk after a crash that kept \<open>j\<close> directory changes; the next process has no failures.\<close>

definition crash_world :: "nat \<Rightarrow> sworld \<Rightarrow> sworld" where
  "crash_world j w =
     w\<lparr>w_disk := replay (take j (w_journal w)) (w_disk w), w_journal := [], w_plan := [], w_dead := False\<rparr>"

definition calm :: "sworld \<Rightarrow> bool" where
  "calm w \<longleftrightarrow> fs_ok w \<and> w_plan w = [] \<and> \<not> w_dead w"

lemma tick_calm: "calm w \<Longrightarrow> tick w = (None, w)"
  by (simp add: calm_def tick_def)

lemma crash_world_views:
  "live_view (crash_world j w) \<in> crash_views w" "crash_views (crash_world j w) = {live_view (crash_world j w)}"
  "fs_ok w \<Longrightarrow> calm (crash_world j w)"
proof -
  define m where "m = map_of (replay (take j (w_journal w)) (w_disk w))"
  have m: "m \<in> prefix_maps w" by (auto simp: m_def prefix_maps_def)
  have l: "map_of (live (crash_world j w)) = m" by (simp add: live_def crash_world_def m_def)
  have p: "prefix_maps (crash_world j w) = {m}" by (simp add: prefix_maps_def crash_world_def m_def)
  have v: "view_of (crash_world j w) = view_of w" by (rule view_of_cong) (simp add: crash_world_def)
  show "live_view (crash_world j w) \<in> crash_views w" by (simp add: live_view_def l v crash_views_def m)
  show "crash_views (crash_world j w) = {live_view (crash_world j w)}"
    by (simp add: crash_views_def live_view_def l p)
  have g: "good_map (crash_world j w) = good_map w" by (rule good_map_cong) (simp_all add: crash_world_def)
  show "calm (crash_world j w)" if "fs_ok w"
    using that m by (simp add: calm_def fs_ok_def p g) (simp add: crash_world_def)
qed

lemma sp_read_calm:
  assumes c: "calm w" and l: "json_file (loc_base l)"
  obtains res where "sp_read sp l w = (res, w)"
    "\<And>rec. res = Inr rec \<longleftrightarrow> live_view w (loc_path sp l) = Whole (Rec rec) \<and> sr_id rec \<noteq> []"
proof -
  define p where "p = loc_path sp l"
  have g: "good_map w (map_of (live w))" using c live_in_prefix_maps by (auto simp: calm_def fs_ok_def)
  have t: "\<not> is_temp p" unfolding p_def by (rule json_file_not_temp [OF l])
  show thesis
  proof (cases "map_of (live w) p")
    case None
    then have "sp_read sp l w = (Inl (SpOS ErrNotExist), w)"
      by (simp add: sp_read_def os_read_file_def tick_calm [OF c] p_def)
    moreover have "live_view w p = Absent" using None by (simp add: live_view_def view_of_def)
    ultimately show thesis using that by (auto simp: p_def)
  next
    case (Some n)
    then obtain x where x: "in_data (w_nodes w n) = Some x" and sy: "in_synced (w_nodes w n)"
      using g t unfolding good_map_def by blast
    have v: "live_view w p = Whole x" using Some t x sy by (simp add: live_view_def view_of_def node_seen_def)
    have r: "os_read_file p w = (Inr (Some x), w)" using Some x by (simp add: os_read_file_def tick_calm [OF c])
    show thesis
    proof (cases x)
      case (Rec r')
      then have rd: "sp_read sp l w = (if sr_id r' = [] then Inl SpNoID else Inr r', w)"
        using r by (simp add: sp_read_def p_def)
      have "(if sr_id r' = [] then Inl SpNoID else Inr r') = Inr rec \<longleftrightarrow>
          live_view w (loc_path sp l) = Whole (Rec rec) \<and> sr_id rec \<noteq> []" for rec
        using v Rec by (auto simp: p_def)
      then show thesis using that [OF rd] by blast
    next
      case Junk
      then have "sp_read sp l w = (Inl SpUnmarshal, w)" using r by (simp add: sp_read_def p_def)
      then show thesis using that v Junk by (auto simp: p_def)
    qed
  qed
qed

text \<open>No two files of a view answer for one identity.\<close>

definition one_file_each :: "spool \<Rightarrow> (path \<Rightarrow> content seen) \<Rightarrow> bool" where
  "one_file_each sp V \<longleftrightarrow>
     (\<forall>l l' i. json_file (loc_base l) \<and> json_file (loc_base l') \<and> readable (V (loc_path sp l)) i \<and>
        readable (V (loc_path sp l')) i \<longrightarrow> l = l')"

lemma index_names_calm:
  assumes c: "calm w" and one: "one_file_each sp (live_view w)" and mk: "\<And>n. loc_base (mk n) = n"
    and d: "distinct ns" and some: "sp_locs sp \<noteq> None"
    and known: "\<And>i l. find_loc i sp = Some l \<Longrightarrow>
      json_file (loc_base l) \<and> readable (live_view w (loc_path sp l)) i \<and> (\<forall>n \<in> set ns. l \<noteq> mk n)"
  shows "\<exists>sp'. index_names mk ns sp w = (None, sp', w) \<and> sp_dir sp' = sp_dir sp \<and> sp_locs sp' \<noteq> None \<and>
    (\<forall>i l. find_loc i sp' = Some l \<longleftrightarrow> find_loc i sp = Some l \<or>
       (\<exists>n \<in> set ns. l = mk n \<and> json_file n \<and> readable (live_view w (loc_path sp l)) i))"
  using one d some known
proof (induction ns arbitrary: sp)
  case Nil
  then show ?case by auto
next
  case (Cons n ns)
  have inj: "mk a = mk b \<longleftrightarrow> a = b" for a b using mk by metis
  show ?case
  proof (cases "json_file n")
    case False
    have "\<exists>sp'. index_names mk ns sp w = (None, sp', w) \<and> sp_dir sp' = sp_dir sp \<and> sp_locs sp' \<noteq> None \<and>
      (\<forall>i l. find_loc i sp' = Some l \<longleftrightarrow> find_loc i sp = Some l \<or>
         (\<exists>n \<in> set ns. l = mk n \<and> json_file n \<and> readable (live_view w (loc_path sp l)) i))"
      using Cons.IH [of sp] Cons.prems by auto
    then show ?thesis using False by auto
  next
    case True
    have js: "json_file (loc_base (mk n))" using True mk by simp
    obtain res where r: "sp_read sp (mk n) w = (res, w)"
        "\<And>rec. res = Inr rec \<longleftrightarrow> live_view w (loc_path sp (mk n)) = Whole (Rec rec) \<and> sr_id rec \<noteq> []"
      using sp_read_calm [OF c js, of sp] by blast
    show ?thesis
    proof (cases res)
      case (Inl e)
      define sp1 where "sp1 = (if quarantined (mk n) then sp\<lparr>sp_unknown := sp_unknown sp + 1\<rparr> else sp)"
      have f: "find_loc i sp1 = find_loc i sp" "loc_path sp1 l = loc_path sp l" "sp_dir sp1 = sp_dir sp"
          "sp_locs sp1 = sp_locs sp" for i l
        by (simp_all add: sp1_def find_loc_def loc_path_def quar_dir_def split: loc.split)
      have unread: "\<not> readable (live_view w (loc_path sp (mk n))) i" for i
      proof
        assume "readable (live_view w (loc_path sp (mk n))) i"
        then obtain rec where "live_view w (loc_path sp (mk n)) = Whole (Rec rec)" "sr_id rec \<noteq> []"
          by (auto simp: readable_def)
        then show False using r(2) [of rec] Inl by simp
      qed
      have "one_file_each sp1 (live_view w)" using Cons.prems(1) by (simp add: one_file_each_def f)
      then have "\<exists>sp'. index_names mk ns sp1 w = (None, sp', w) \<and> sp_dir sp' = sp_dir sp1 \<and> sp_locs sp' \<noteq> None \<and>
        (\<forall>i l. find_loc i sp' = Some l \<longleftrightarrow> find_loc i sp1 = Some l \<or>
           (\<exists>n \<in> set ns. l = mk n \<and> json_file n \<and> readable (live_view w (loc_path sp1 l)) i))"
        using Cons.IH [of sp1] Cons.prems by (auto simp: f)
      moreover have "index_names mk (n # ns) sp w = index_names mk ns sp1 w"
        using True r(1) Inl by (simp add: sp1_def)
      ultimately show ?thesis unfolding f using unread by auto
    next
      case (Inr rec)
      then have v: "live_view w (loc_path sp (mk n)) = Whole (Rec rec)" "sr_id rec \<noteq> []" using r(2) by auto
      then have rd: "readable (live_view w (loc_path sp (mk n))) i \<longleftrightarrow> i = sr_id rec" for i
        by (auto simp: readable_def)
      have new: "find_loc (sr_id rec) sp = None"
      proof (rule ccontr)
        assume "find_loc (sr_id rec) sp \<noteq> None"
        then obtain l where l: "find_loc (sr_id rec) sp = Some l" by blast
        have "l = mk n"
          using Cons.prems(1) Cons.prems(4) [OF l] js rd unfolding one_file_each_def by blast
        then show False using Cons.prems(4) [OF l] by simp
      qed
      define sp1 where "sp1 = set_loc (sr_id rec) (mk n) sp"
      have f: "find_loc i sp1 = (if i = sr_id rec then Some (mk n) else find_loc i sp)" for i
        by (simp add: sp1_def find_set_loc [OF Cons.prems(3)])
      have g: "loc_path sp1 l = loc_path sp l" "sp_dir sp1 = sp_dir sp" "sp_locs sp1 \<noteq> None" for l
        using Cons.prems(3) by (simp_all add: sp1_def)
      have one1: "one_file_each sp1 (live_view w)" using Cons.prems(1) by (simp add: one_file_each_def g)
      have kn: "json_file (loc_base l) \<and> readable (live_view w (loc_path sp1 l)) i \<and> (\<forall>n \<in> set ns. l \<noteq> mk n)"
        if "find_loc i sp1 = Some l" for i l
        using that Cons.prems(2,4) js rd inj by (auto simp: f g split: if_splits)
      have dn: "distinct ns" using Cons.prems(2) by simp
      obtain sp' where sp': "index_names mk ns sp1 w = (None, sp', w)" "sp_dir sp' = sp_dir sp1" "sp_locs sp' \<noteq> None"
          "\<And>i l. find_loc i sp' = Some l \<longleftrightarrow> find_loc i sp1 = Some l \<or>
             (\<exists>n \<in> set ns. l = mk n \<and> json_file n \<and> readable (live_view w (loc_path sp1 l)) i)"
        using Cons.IH [OF one1 dn g(3) kn] by blast
      have e: "index_names mk (n # ns) sp w = index_names mk ns sp1 w"
        using True r(1) Inr new by (simp add: sp1_def)
      have "find_loc i sp' = Some l \<longleftrightarrow> find_loc i sp = Some l \<or>
          (\<exists>n \<in> set (n # ns). l = mk n \<and> json_file n \<and> readable (live_view w (loc_path sp l)) i)" for i l
        unfolding sp'(4) f g using new rd True by auto
      then show ?thesis using e sp' g by auto
    qed
  qed
qed

lemma names_in_props: "distinct (names_in d m)" "n \<in> set (names_in d m) \<longleftrightarrow> map_of m (d, n) \<noteq> None"
proof -
  show "distinct (names_in d m)" by (simp add: names_in_def)
  show "n \<in> set (names_in d m) \<longleftrightarrow> map_of m (d, n) \<noteq> None"
    by (force simp: names_in_def map_of_eq_None_iff)
qed

lemma reconstruct_calm:
  assumes c: "calm w" and one: "one_file_each sp (live_view w)" and e: "sp_locs sp = Some []"
    and dirs: "sp_dir sp \<in> set (w_dirs w)" "quar_dir sp \<in> set (w_dirs w)"
  shows "\<exists>sp'. reconstruct sp w = (None, sp', w) \<and> sp_dir sp' = sp_dir sp \<and> sp_locs sp' \<noteq> None \<and>
    (\<forall>i l. find_loc i sp' = Some l \<longleftrightarrow> json_file (loc_base l) \<and> readable (live_view w (loc_path sp l)) i)"
proof -
  let ?V = "live_view w"
  have listed: "map_of (live w) p \<noteq> None" if "readable (?V p) i" for p i
    using that by (auto simp: readable_def live_view_def view_of_def split: if_splits option.splits)
  define ns where "ns = names_in (sp_dir sp) (live w)"
  define qs where "qs = names_in (quar_dir sp) (live w)"
  have e0: "find_loc i sp = None" for i using e by (simp add: find_loc_def)
  obtain sp1 where 1: "index_names Active ns sp w = (None, sp1, w)" "sp_dir sp1 = sp_dir sp" "sp_locs sp1 \<noteq> None"
      "\<And>i l. find_loc i sp1 = Some l \<longleftrightarrow> find_loc i sp = Some l \<or>
        (\<exists>n \<in> set ns. l = Active n \<and> json_file n \<and> readable (?V (loc_path sp l)) i)"
    using index_names_calm [OF c one, of Active ns] e e0 names_in_props(1) by (auto simp: ns_def)
  have f: "quar_dir sp1 = quar_dir sp" "loc_path sp1 l = loc_path sp l" for l
    using 1(2) by (simp_all add: quar_dir_def loc_path_def split: loc.split)
  have one1: "one_file_each sp1 ?V" using one by (simp add: one_file_each_def f)
  have known: "json_file (loc_base l) \<and> readable (?V (loc_path sp1 l)) i \<and> (\<forall>n \<in> set qs. l \<noteq> Quar n)"
    if "find_loc i sp1 = Some l" for i l
    using that by (auto simp: 1(4) e0 f)
  obtain sp2 where 2: "index_names Quar qs sp1 w = (None, sp2, w)" "sp_dir sp2 = sp_dir sp1" "sp_locs sp2 \<noteq> None"
      "\<And>i l. find_loc i sp2 = Some l \<longleftrightarrow> find_loc i sp1 = Some l \<or>
        (\<exists>n \<in> set qs. l = Quar n \<and> json_file n \<and> readable (?V (loc_path sp1 l)) i)"
    using index_names_calm [OF c one1, of Quar qs] 1(3) known names_in_props(1) by (auto simp: qs_def)
  have "reconstruct sp w = (None, sp2, w)"
    using dirs by (simp add: reconstruct_def os_read_dir_def tick_calm [OF c] ns_def [symmetric] qs_def [symmetric] 1(1) 2(1) f)
  moreover have "find_loc i sp2 = Some l \<longleftrightarrow> json_file (loc_base l) \<and> readable (?V (loc_path sp l)) i" for i l
    unfolding 2(4) 1(4) f e0
    using listed [of "loc_path sp l" i] names_in_props(2) by (cases l) (auto simp: ns_def qs_def)
  ultimately show ?thesis using 1(2) 2(2,3) by auto
qed

lemma index_ok_rebuilt:
  assumes ok: "index_ok idx V" and d: "sp_dir sp = sp_dir idx" and some: "sp_locs sp \<noteq> None"
    and f: "\<And>i l. find_loc i sp = Some l \<longleftrightarrow> json_file (loc_base l) \<and> readable (V (loc_path idx l)) i"
  shows "index_ok sp V"
proof -
  have p: "loc_path sp l = loc_path idx l" for l
    using d by (cases l) (simp_all add: quar_dir_def)
  have g: "find_loc i idx = Some l" if "find_loc i sp = Some l" for i l
    using completeD [OF ok] that f by blast
  have "index_sound sp V"
    unfolding index_sound_def p using soundD [OF ok g] f by blast
  moreover have "index_complete sp V" unfolding index_complete_def p using f by blast
  moreover have "junk_apart sp V"
    using ok g unfolding index_ok_def junk_apart_def d by (metis option.exhaust)
  ultimately show ?thesis using some by (simp add: index_ok_def)
qed

lemma mkdir_calm:
  assumes "calm w"
  shows "os_mkdir_all d w = (None, w\<lparr>w_dirs := d # w_dirs w\<rparr>)" "calm (w\<lparr>w_dirs := d # w_dirs w\<rparr>)"
    "live_view (w\<lparr>w_dirs := d # w_dirs w\<rparr>) = live_view w" "crash_views (w\<lparr>w_dirs := d # w_dirs w\<rparr>) = crash_views w"
proof -
  let ?w = "w\<lparr>w_dirs := d # w_dirs w\<rparr>"
  have s: "same_fs w ?w" by (simp add: same_fs_def)
  show "os_mkdir_all d w = (None, ?w)" by (simp add: os_mkdir_all_def tick_calm [OF assms])
  show "live_view ?w = live_view w" "crash_views ?w = crash_views w" using s by (simp_all add: same_fs_views)
  show "calm ?w" using assms same_fs_views(6) [OF s] by (simp add: calm_def)
qed

section \<open>Properties\<close>

text \<open>
  C27. Custody.  Evidence that every crash would preserve stays so through any sequence of
  spool operations, under any failures and with a crash at any point, as long as its identity
  is not removed; and the identity has no other evidence in the visible queue.
\<close>

theorem spool_custody:
  assumes "spool_ok sp w" and "spool_steps (sp, w) X (sp', w')" and "i \<notin> X" and "custody sp w i e"
  shows "custody sp' w' i e \<and> spool_ok sp' w' \<and> (\<forall>e'. held sp' (live_view w') i e' \<longrightarrow> e' = e)"
proof -
  have k: "keeps UNIV X sp w sp' w'" using spool_steps_keeps [OF assms(2)] assms(1) by simp
  then have c: "custody sp' w' i e" and ok: "spool_ok sp' w'" using assms by (simp_all add: keeps_def)
  then show ?thesis using custody_live [OF c] held_unique by (auto simp: spool_ok_def)
qed

lemma spool_custody_witness:
  "\<exists>sp' w'. custody sp' w' sample_id (JObj [(''client_record_id'', JStr sample_id)]) \<and> w_dead w'"
proof -
  let ?w = "sample_world [Go, Go, Die]"
  obtain res sp' w' where t: "Touch sample_record sample_spool ?w = (res, sp', w')" by (metis surj_pair)
  have "spool_steps (sample_spool, ?w) ({} \<union> set_option None) (sp', w')"
    by (rule steps_more [OF steps_none step_touch [OF t]])
  then have s: "spool_steps (sample_spool, ?w) {} (sp', w')" by simp
  have d: "w_dead (snd (snd (Touch sample_record sample_spool ?w)))" by code_simp
  show ?thesis
    using spool_custody [OF sample_ok s _ sample_custody] d t by auto
qed

text \<open>A new record is written exclusively; a known one is confirmed by a sync of the directory.\<close>

lemma enqueue_new_durable:
  assumes ok: "spool_ok sp w" and id: "utf8_valid (sr_id rec)" "length (sr_id rec) = 36"
    and nj: "no_junk_for (sr_id rec) sp w" and rm: "\<not> sr_removal rec"
    and nf: "find_loc (sr_id rec) sp = None" and e: "Enqueue rec now sp w = (None, sp', w')"
  shows "\<exists>ev. sr_obs rec = Some ev \<and> custody sp' w' (sr_id rec) ev \<and> spool_ok sp' w'"
proof -
  have k: "keeps UNIV {} sp w sp' w'" by (rule Enqueue_keeps [OF ok id nj rm e])
  then have ok': "spool_ok sp' w'" and d: "sp_dir sp' = sp_dir sp" by (simp_all add: keeps_def)
  have fs: "fs_ok w" and io: "index_ok sp (live_view w)" using ok by (simp_all add: spool_ok_def)
  have ne: "sr_id rec \<noteq> []" using id by auto
  have g: "\<not> (sr_id rec = [] \<or> list_ex (\<lambda>c. c = CHR ''/'' \<or> c = CHR 0x5C) (sr_id rec))" "\<not> sp_locs sp = None"
    using e by (auto simp: Enqueue_def split: if_splits)
  define rec' where "rec' = (if sr_spooled_at rec = go_zero_time then rec\<lparr>sr_spooled_at := now\<rparr> else rec)"
  have f: "sr_id rec' = sr_id rec" "sr_obs rec' = sr_obs rec" "filename rec' = filename rec"
      "sr_removal rec' = sr_removal rec"
    by (simp_all add: rec'_def filename_def)
  have "persist rec' (Active (filename rec')) True sp w = (None, sp', w')"
    using e by (simp only: Enqueue_def g nf if_False option.case Let_def rec'_def)
  then obtain c where m: "marshal_record rec' = Some c"
    by (auto simp: persist_def split: option.splits)
  obtain r where r: "c = Rec r" "sr_id r = sr_id rec'" "sr_obs r = sr_obs rec'"
    by (rule marshal_record_fields [OF m]) (use id(1) f in auto)
  obtain we w1 where wf: "writeFile (sp_dir sp) (filename rec) (Rec r) 384 True w = (we, w1)" by (metis surj_pair)
  have "we = None \<and> w' = w1"
    using \<open>persist rec' (Active (filename rec')) True sp w = (None, sp', w')\<close> m r wf f
    by (auto simp: persist_def WriteFileExclusive_def stage_result_def)
  moreover have "\<not> is_temp (sp_dir sp, filename rec)"
    using json_file_not_temp [of "Active (filename rec)" sp] filename_json by simp
  ultimately have ch: "changes {sp_dir sp} (replaces (sp_dir sp, filename rec) (Rec r)) None w w'"
    using writeFile_contract [OF fs _ wf] by blast
  obtain ev where ev: "sr_obs rec = Some ev" using m f by (auto simp: marshal_record_def split: if_splits)
  have "held sp' v (sr_id rec) ev" if "v \<in> crash_views w'" for v
  proof (rule heldI [of "Active (filename rec)" _ _ r])
    have "v (sp_dir sp, filename rec) = live_view w' (sp_dir sp, filename rec)"
      using ch that settledD [of "(sp_dir sp, filename rec)" w' v] by (simp add: changes_def)
    then show "v (loc_path sp' (Active (filename rec))) = Whole (Rec r)"
      using ch d by (simp add: changes_def replaces_def)
  qed (use filename_json r f ne ev in simp_all)
  then show ?thesis using ev ok' by (auto simp: custody_def)
qed

lemma enqueue_replay_durable:
  assumes ok: "spool_ok sp w" and id: "utf8_valid (sr_id rec)" "length (sr_id rec) = 36"
    and nj: "no_junk_for (sr_id rec) sp w" and rm: "\<not> sr_removal rec"
    and fl: "find_loc (sr_id rec) sp = Some (Active n)" and e: "Enqueue rec now sp w = (None, sp', w')"
  shows "\<exists>ev. sr_obs rec = Some ev \<and> custody sp' w' (sr_id rec) ev \<and> spool_ok sp' w'"
proof -
  have k: "keeps UNIV {} sp w sp' w'" by (rule Enqueue_keeps [OF ok id nj rm e])
  then have ok': "spool_ok sp' w'" and d: "sp_dir sp' = sp_dir sp" by (simp_all add: keeps_def)
  have fs: "fs_ok w" and io: "index_ok sp (live_view w)" using ok by (simp_all add: spool_ok_def)
  have ne: "sr_id rec \<noteq> []" using id by auto
  have g: "\<not> (sr_id rec = [] \<or> list_ex (\<lambda>c. c = CHR ''/'' \<or> c = CHR 0x5C) (sr_id rec))" "\<not> sp_locs sp = None"
    using e by (auto simp: Enqueue_def split: if_splits)
  define l where "l = Active n"
  have n: "l = Active n" and Some: "find_loc (sr_id rec) sp = Some l" using fl by (simp_all add: l_def)
  note s = soundD [OF io Some]
  obtain res w1 where rd: "sp_read sp l w = (res, w1)" by (metis surj_pair)
  have c: "quiet w w1 \<and> (\<forall>x. res = Inr x \<longrightarrow> live_view w (loc_path sp l) = Whole (Rec x) \<and> sr_id x \<noteq> [])"
    by (rule sp_read_contract [OF fs s(1) rd])
  have eq: "(None, sp', w') =
      (case res of Inl e \<Rightarrow> (Some e, sp, w1)
       | Inr x \<Rightarrow> if \<not> sameEvidence (sr_obs x) (sr_obs rec) then (Some SpEvidenceConflict, sp, w1)
                 else (case syncDir sp w1 of (err, w) \<Rightarrow> (err, sp, w)))"
  proof -
    have "(case res of Inl e \<Rightarrow> (Some e, sp, w1)
       | Inr x \<Rightarrow> if \<not> sameEvidence (sr_obs x) (sr_obs rec) then (Some SpEvidenceConflict, sp, w1)
                 else if quarantined l then (None, sp, w1)
                 else (case syncDir sp w1 of (err, w) \<Rightarrow> (err, sp, w))) = (None, sp', w')"
      using e by (simp only: Enqueue_def g Some if_False option.case rd prod.case)
    then show ?thesis using n by (cases res) (auto split: if_splits)
  qed
  then obtain x where x: "res = Inr x" "sameEvidence (sr_obs x) (sr_obs rec)"
      and sy: "syncDir sp w1 = (None, w')" and sp': "sp' = sp"
    by (cases res) (auto split: if_splits prod.splits)
  obtain ev where ev: "sr_obs x = Some ev" "sr_obs rec = Some ev" using x(2) by (auto simp: sameEvidence_def)
  have lx: "live_view w (loc_path sp l) = Whole (Rec x)" using c x(1) by simp
  then have idx: "sr_id x = sr_id rec" using s(4) by (auto simp: readable_def)
  have fs1: "fs_ok w1" and lv1: "live_view w1 = live_view w" using c by (simp_all add: quiet_def)
  obtain sr w2 where sd: "syncDirectory (sp_dir sp) w1 = (sr, w2)" by (metis surj_pair)
  have sc: "quiet w1 w2 \<and> (sr = None \<longrightarrow> settled (sp_dir sp) w2)" by (rule syncDirectory_contract [OF fs1 sd])
  have "sr \<noteq> Some ErrDirectorySyncUnsupported"
    using sd by (auto simp: syncDirectory_def os_open_def os_sync_dir_def os_close_def
        dest: tick_not_directory split: prod.splits option.splits if_splits)
  then have w2: "w' = w2" "sr = None"
    using sy sd by (auto simp: syncDir_def SyncDirectory_def split: option.splits if_splits)
  have "held sp' v (sr_id rec) ev" if "v \<in> crash_views w'" for v
  proof (rule heldI [of l _ _ x])
    have "v (sp_dir sp, n) = live_view w2 (sp_dir sp, n)"
      using settledD [of "(sp_dir sp, n)" w2 v] sc w2 that by simp
    then show "v (loc_path sp' l) = Whole (Rec x)" using sc lv1 lx n sp' by (simp add: quiet_def)
  qed (use s idx ev ne in simp_all)
  then show ?thesis using ev ok' by (auto simp: custody_def)
qed

lemma enqueue_durable_contract:
  assumes ok: "spool_ok sp w" and id: "utf8_valid (sr_id rec)" "length (sr_id rec) = 36"
    and nj: "no_junk_for (sr_id rec) sp w" and rm: "\<not> sr_removal rec"
    and qu: "\<forall>n. find_loc (sr_id rec) sp \<noteq> Some (Quar n)" and e: "Enqueue rec now sp w = (None, sp', w')"
  shows "\<exists>ev. sr_obs rec = Some ev \<and> custody sp' w' (sr_id rec) ev \<and> spool_ok sp' w'"
proof (cases "find_loc (sr_id rec) sp")
  case None
  then show ?thesis by (rule enqueue_new_durable [OF ok id nj rm _ e])
next
  case (Some l)
  then obtain n where "find_loc (sr_id rec) sp = Some (Active n)" using qu by (cases l) auto
  then show ?thesis by (rule enqueue_replay_durable [OF ok id nj rm _ e])
qed



lemma restart_contract:
  assumes "spool_ok sp w" and "sp_dir sp \<noteq> []"
  shows "\<exists>sp' w'. spool_open (sp_dir sp) (crash_world j w) = (Inr sp', w') \<and> spool_ok sp' w' \<and>
    sp_dir sp' = sp_dir sp \<and> (\<forall>i e. custody sp w i e \<longrightarrow> custody sp' w' i e)"
proof -
  have fs: "fs_ok w" using assms(1) by (simp add: spool_ok_def)
  define w0 where "w0 = crash_world j w"
  define V where "V = live_view w0"
  have c0: "calm w0" and V: "V \<in> crash_views w" and cv0: "crash_views w0 = {V}"
    using crash_world_views [where j = j and w = w] fs by (auto simp: w0_def V_def)
  define w1 where "w1 = w0\<lparr>w_dirs := sp_dir sp # w_dirs w0\<rparr>"
  define w2 where "w2 = w1\<lparr>w_dirs := (sp_dir sp @ ''/quarantine'') # w_dirs w1\<rparr>"
  note m1 = mkdir_calm [OF c0, of "sp_dir sp", folded w1_def]
  note m2 = mkdir_calm [OF m1(2), of "sp_dir sp @ ''/quarantine''", folded w2_def]
  have V2: "live_view w2 = V" "crash_views w2 = {V}" using m1 m2 cv0 V_def by simp_all
  obtain idx where idx: "sp_dir idx = sp_dir sp" "index_ok idx V"
    using assms(1) V unfolding spool_ok_def indexable_def by blast
  define sp0 where "sp0 = \<lparr>sp_dir = sp_dir sp, sp_locs = Some [], sp_unknown = 0\<rparr>"
  have p: "loc_path sp0 l = loc_path idx l" for l
    using idx(1) by (cases l) (simp_all add: quar_dir_def sp0_def)
  have one: "one_file_each sp0 (live_view w2)"
    unfolding one_file_each_def V2 p using completeD [OF idx(2)] by (metis option.inject)
  have "sp_locs sp0 = Some []" "sp_dir sp0 \<in> set (w_dirs w2)" "quar_dir sp0 \<in> set (w_dirs w2)"
    by (simp_all add: sp0_def quar_dir_def w2_def w1_def)
  then obtain sp' where sp': "reconstruct sp0 w2 = (None, sp', w2)" "sp_dir sp' = sp_dir sp0" "sp_locs sp' \<noteq> None"
      "\<And>i l. find_loc i sp' = Some l \<longleftrightarrow> json_file (loc_base l) \<and> readable (V (loc_path sp0 l)) i"
    using reconstruct_calm [OF m2(2) one] V2 by auto
  have d': "sp_dir sp' = sp_dir sp" using sp'(2) by (simp add: sp0_def)
  have io: "index_ok sp' V"
    by (rule index_ok_rebuilt [OF idx(2)]) (use sp' p idx(1) d' in simp_all)
  have "fs_ok w2" using m2(2) by (simp add: calm_def)
  then have ok': "spool_ok sp' w2" using io indexableI [OF io] V2 by (simp add: spool_ok_def)
  have "custody sp' w2 i e" if "custody sp w i e" for i e
    using that V by (simp add: custody_def V2 held_cong [OF d'])
  moreover have "spool_open (sp_dir sp) w0 = (Inr sp', w2)"
    using assms(2) m1(1) m2(1) sp'(1) by (simp add: spool_open_def sp0_def)
  ultimately show ?thesis using ok' d' by (auto simp: w0_def)
qed

text \<open>
  C29. Restart.  After a crash at any point a process that opens the spool without failures
  gets a handle whose index matches the files, and every record that was in custody is in
  custody of the new handle.
\<close>

theorem restart_recovers:
  assumes "spool_ok sp w" and "sp_dir sp \<noteq> []"
  shows "\<exists>sp' w'. spool_open (sp_dir sp) (crash_world j w) = (Inr sp', w') \<and> spool_ok sp' w' \<and>
    sp_dir sp' = sp_dir sp \<and> (\<forall>i e. custody sp w i e \<longrightarrow> custody sp' w' i e)"
  by (rule restart_contract [OF assms])

lemma restart_recovers_witness:
  "\<exists>sp' w'. spool_open ''d'' (crash_world 0 (sample_world [])) = (Inr sp', w') \<and>
     custody sp' w' sample_id (JObj [(''client_record_id'', JStr sample_id)])"
proof -
  have "sp_dir sample_spool = ''d''" by (simp add: sample_spool_def)
  then show ?thesis using restart_recovers [OF sample_ok, of 0 "[]"] sample_custody [of "[]"] by auto
qed

end
