(* ===== verification/CollectorSpec.thy ===== *)
theory CollectorSpec
  imports Collector SpoolSpec
begin

text \<open>
  The safety of the delivery loop: under every plan of failures and crashes and for every
  sequence of answers, evidence leaves the custody of the spool only for an identity the
  authorization server acknowledged.  \<open>acked\<close> collects those answers of the log; \<open>A\<close> stands for
  the acknowledgements of earlier runs, which the marks on disk record.
\<close>

definition acked :: "cstate \<Rightarrow> string set" where
  "acked s = {sr_id rec | rec a. (rec, a) \<in> set (ev_log (cs_env s)) \<and> an_satisfied a}"

definition coll_ok :: "string set \<Rightarrow> cstate \<Rightarrow> bool" where
  "coll_ok A s \<longleftrightarrow> spool_ok (cs_spool s) (cs_world s) \<and> marks_in (A \<union> acked s) (cs_world s)"

definition coll_custody :: "cstate \<Rightarrow> string \<Rightarrow> json \<Rightarrow> bool" where
  "coll_custody s i e = custody (cs_spool s) (cs_world s) i e"

text \<open>The step from \<open>s\<close> to \<open>s'\<close> is safe.\<close>

definition safe_step :: "string set \<Rightarrow> cstate \<Rightarrow> cstate \<Rightarrow> bool" where
  "safe_step A s s' \<longleftrightarrow>
     coll_ok A s' \<and> sp_dir (cs_spool s') = sp_dir (cs_spool s) \<and> acked s \<subseteq> acked s' \<and>
     (\<forall>i e. i \<notin> A \<union> acked s' \<longrightarrow> coll_custody s i e \<longrightarrow> coll_custody s' i e)"

lemma safe_refl: "coll_ok A s \<Longrightarrow> safe_step A s s"
  by (simp add: safe_step_def)

lemma safe_trans: "safe_step A s t \<Longrightarrow> safe_step A t u \<Longrightarrow> safe_step A s u"
  unfolding safe_step_def by (auto; blast)

lemma safe_ok: "safe_step A s t \<Longrightarrow> coll_ok A t"
  by (simp add: safe_step_def)

lemma marks_in_mono: "marks_in A w \<Longrightarrow> A \<subseteq> B \<Longrightarrow> marks_in B w"
  by (auto simp: marks_in_def)

text \<open>Steps that touch neither spool, file system nor log.\<close>

definition same_core :: "cstate \<Rightarrow> cstate \<Rightarrow> bool" where
  "same_core s s' \<longleftrightarrow> cs_spool s' = cs_spool s \<and> cs_world s' = cs_world s \<and>
     ev_log (cs_env s') = ev_log (cs_env s)"

lemma same_core_acked: "same_core s s' \<Longrightarrow> acked s' = acked s"
  by (simp add: same_core_def acked_def)

lemma same_core_trans: "same_core s t \<Longrightarrow> same_core t u \<Longrightarrow> same_core s u"
  by (simp add: same_core_def)

lemma same_core_safe: "coll_ok A s \<Longrightarrow> same_core s s' \<Longrightarrow> safe_step A s s'"
  by (simp add: safe_step_def coll_ok_def coll_custody_def same_core_acked) (simp add: same_core_def)

lemma core_on_health [simp]: "same_core s (on_health f s)"
  by (simp add: same_core_def on_health_def)

lemma core_read_clock: "read_clock s = (t, s') \<Longrightarrow> same_core s s'"
  by (auto simp: read_clock_def same_core_def split: list.splits)

lemma core_rand53: "rand53 s = (t, s') \<Longrightarrow> same_core s s'"
  by (auto simp: rand53_def same_core_def split: list.splits)

lemma core_ctx_err: "ctx_err s = (t, s') \<Longrightarrow> same_core s s'"
  by (auto simp: ctx_err_def same_core_def split: list.splits)

lemma core_backoffFor: "backoffFor n s = (t, s') \<Longrightarrow> same_core s s'"
  by (auto simp: backoffFor_def dest: core_rand53 split: prod.splits)

lemma core_recordSuccess: "same_core s (recordSuccess s)"
  unfolding recordSuccess_def
  by (auto split: prod.split dest!: core_read_clock intro: same_core_trans)

lemma core_recordFailure: "same_core s (recordFailure e s)"
  unfolding recordFailure_def
  by (auto split: prod.split dest!: core_read_clock intro: same_core_trans)

lemma core_storageFailure: "same_core s (storageFailure e b s)"
  by (simp add: storageFailure_def Let_def same_core_def on_health_def)

lemma core_count_terminal: "same_core s (count_terminal s)"
  by (simp add: count_terminal_def)

section \<open>Calls on the spool\<close>

lemma on_spool_safe:
  assumes ok: "coll_ok A s" and c: "on_spool f s = (r, s')"
    and k: "\<And>sp w. f (cs_spool s) (cs_world s) = (r, sp, w) \<Longrightarrow>
              keeps (A \<union> acked s) X (cs_spool s) (cs_world s) sp w"
    and X: "X \<subseteq> A \<union> acked s"
  shows "safe_step A s s'"
proof -
  obtain sp w where f: "f (cs_spool s) (cs_world s) = (r, sp, w)" and s': "s' = s\<lparr>cs_spool := sp, cs_world := w\<rparr>"
    using c by (auto simp: on_spool_def split: prod.splits)
  have kk: "keeps (A \<union> acked s) X (cs_spool s) (cs_world s) sp w" by (rule k [OF f])
  have a: "acked s' = acked s" by (simp add: acked_def s')
  show ?thesis
    using ok kk X unfolding safe_step_def coll_ok_def coll_custody_def keeps_def a
    by (simp add: s') blast
qed

lemma c_rewrite_safe:
  assumes ok: "coll_ok A s" and mk: "sr_removal rec \<longrightarrow> sr_id rec \<in> A \<union> acked s" and c: "c_rewrite rec s = (r, s')"
  shows "safe_step A s s'"
  by (rule on_spool_safe [OF ok, where X = "{}"])
    (use c mk ok in \<open>auto simp: c_rewrite_def coll_ok_def intro!: Rewrite_keeps\<close>)

lemma c_quarantine_safe:
  assumes ok: "coll_ok A s" and c: "c_quarantine rec reason s = (r, s')"
  shows "safe_step A s s'"
  by (rule on_spool_safe [OF ok, where X = "{}"])
    (use c ok in \<open>auto simp: c_quarantine_def coll_ok_def intro!: Quarantine_keeps\<close>)

lemma c_remove_safe:
  assumes ok: "coll_ok A s" and mk: "sr_id rec \<in> A \<union> acked s" and c: "c_remove rec s = (r, s')"
  shows "safe_step A s s'"
  by (rule on_spool_safe [OF ok, where X = "{sr_id rec}"])
    (use c mk ok in \<open>auto simp: c_remove_def coll_ok_def intro!: Remove_keeps\<close>)

lemma state_of_locs_quiet:
  assumes "fs_ok w" and "state_of_locs sp ls st w = (r, w')"
  shows "quiet w w'"
  using assms
proof (induction ls arbitrary: st w)
  case Nil
  then show ?case by (simp add: quiet_def)
next
  case (Cons l ls)
  show ?case
  proof (cases "quarantined l")
    case True
    then show ?thesis using Cons by simp
  next
    case False
    obtain x w1 where x: "sp_read sp l w = (x, w1)" by (metis surj_pair)
    have q: "quiet w w1" by (rule sp_read_quiet [OF Cons.prems(1) x])
    show ?thesis
    proof (cases x)
      case (Inl e)
      then show ?thesis using Cons.prems(2) False x q by simp
    next
      case (Inr rec)
      have "quiet w1 w'"
        by (rule Cons.IH) (use Cons.prems False x Inr q in \<open>auto simp: quiet_def\<close>)
      then show ?thesis using q quiet_trans by blast
    qed
  qed
qed

lemma refreshState_safe:
  assumes ok: "coll_ok A s"
  shows "safe_step A s (refreshState s)"
proof -
  obtain st err w where st: "spool_state_of (cs_spool s) (cs_world s) = ((st, err), w)" by (metis surj_pair)
  define s1 where "s1 = s\<lparr>cs_world := w\<rparr>"
  have sp: "spool_ok (cs_spool s) (cs_world s)" using ok by (simp add: coll_ok_def)
  then have q: "quiet (cs_world s) w"
    using st state_of_locs_quiet by (auto simp: spool_ok_def spool_state_of_def)
  have k: "keeps (A \<union> acked s) {} (cs_spool s) (cs_world s) (cs_spool s) w" by (rule quiet_keeps [OF sp q])
  have a: "acked s1 = acked s" by (simp add: acked_def s1_def)
  have 1: "safe_step A s s1"
    using ok k by (simp add: safe_step_def coll_ok_def coll_custody_def keeps_def a) (simp add: s1_def)
  have "same_core s1 (refreshState s)"
    by (simp add: refreshState_def st s1_def [symmetric] Let_def core_storageFailure)
  then show ?thesis using 1 safe_ok same_core_safe safe_trans by blast
qed

section \<open>Delivery\<close>

lemma finishRemoval_safe:
  assumes ok: "coll_ok A s" and mk: "sr_id rec \<in> A \<union> acked s"
  shows "safe_step A s (finishRemoval rec b s)"
proof -
  obtain r s1 where c: "c_remove rec s = (r, s1)" by (metis surj_pair)
  have 1: "safe_step A s s1" by (rule c_remove_safe [OF ok mk c])
  have "same_core s1 (finishRemoval rec b s)"
    by (cases r) (simp_all add: finishRemoval_def c core_storageFailure core_recordSuccess)
  then show ?thesis using 1 safe_ok same_core_safe safe_trans by blast
qed

lemma quarantine_and_note_safe:
  assumes ok: "coll_ok A s" and c: "c_quarantine rec reason s = (r, s1)"
  shows "safe_step A s (storageFailure r b s1)"
  using c_quarantine_safe [OF ok c] core_storageFailure safe_ok same_core_safe safe_trans by blast

lemma markTerminal_safe:
  assumes ok: "coll_ok A s" and mk: "sr_removal rec \<longrightarrow> sr_id rec \<in> A \<union> acked s"
  shows "safe_step A s (markTerminal rec reason s)"
proof -
  define up where "up = rec\<lparr>sr_terminal := reason\<rparr>"
  obtain r s1 where c: "c_rewrite up s = (r, s1)" by (metis surj_pair)
  have 1: "safe_step A s s1" by (rule c_rewrite_safe [OF ok _ c]) (use mk in \<open>simp add: up_def\<close>)
  show ?thesis
  proof (cases r)
    case (Some e)
    then have "markTerminal rec reason s = storageFailure (Some e) False s1"
      using c by (simp add: markTerminal_def Let_def up_def)
    then show ?thesis using 1 core_storageFailure safe_ok same_core_safe safe_trans by metis
  next
    case None
    have 2: "safe_step A s1 (count_terminal s1)" by (rule same_core_safe [OF safe_ok [OF 1] core_count_terminal])
    obtain q s2 where q: "c_quarantine up reason (count_terminal s1) = (q, s2)" by (metis surj_pair)
    have "markTerminal rec reason s = storageFailure q False s2"
      using c None q by (simp add: markTerminal_def Let_def up_def)
    then show ?thesis using quarantine_and_note_safe [OF safe_ok [OF 2] q] 1 2 safe_trans by metis
  qed
qed

lemma persist_retry_safe:
  assumes ok: "coll_ok A s" and mk: "sr_removal up \<longrightarrow> sr_id up \<in> A \<union> acked s"
    and r: "persist_retry up s = (err, s')"
  shows "safe_step A s s'"
proof -
  obtain e s1 where c: "c_rewrite up s = (e, s1)" by (metis surj_pair)
  have 1: "safe_step A s s1" by (rule c_rewrite_safe [OF ok mk c])
  have 2: "safe_step A s (count_terminal s1)"
    using 1 same_core_safe [OF safe_ok [OF 1] core_count_terminal] by (rule safe_trans)
  have 3: "safe_step A s s''" if "c_quarantine up (sr_terminal up) (count_terminal s1) = (x, s'')" for x s''
    using 2 c_quarantine_safe [OF safe_ok [OF 2] that] by (rule safe_trans)
  show ?thesis
  proof (cases "e = None \<and> sr_terminal up \<noteq> []")
    case True
    then have "c_quarantine up (sr_terminal up) (count_terminal s1) = (err, s')"
      using r c by (simp add: persist_retry_def)
    then show ?thesis by (rule 3)
  next
    case False
    then have "s' = s1" using r c by (cases e) (auto simp: persist_retry_def)
    then show ?thesis using 1 by simp
  qed
qed

lemma retry_record_fields [simp]:
  "sr_id (retry_record o' rec now wait) = sr_id rec" "sr_removal (retry_record o' rec now wait) = sr_removal rec"
  by (simp_all add: retry_record_def Let_def)

lemma core_retry_wait: "retry_wait rec ra s = (wait, s') \<Longrightarrow> same_core s s'"
  using core_backoffFor by (auto simp: retry_wait_def same_core_def split: if_splits)

lemma scheduleRetry_safe:
  assumes ok: "coll_ok A s" and mk: "sr_removal rec \<longrightarrow> sr_id rec \<in> A \<union> acked s"
    and r: "scheduleRetry rec ra s = (err, s')"
  shows "safe_step A s s'"
proof -
  obtain wait s1 where w: "retry_wait rec ra s = (wait, s1)" by (metis surj_pair)
  obtain now s2 where n: "read_clock s1 = (now, s2)" by (metis surj_pair)
  have c: "same_core s s2" using core_retry_wait [OF w] core_read_clock [OF n] by (rule same_core_trans)
  have 2: "safe_step A s s2" by (rule same_core_safe [OF ok c])
  have p: "persist_retry (retry_record (cs_opts s2) rec now wait) s2 = (err, s')"
    using r w n by (simp add: scheduleRetry_def)
  have "safe_step A s2 s'"
    by (rule persist_retry_safe [OF safe_ok [OF 2] _ p]) (use mk same_core_acked [OF c] in simp)
  then show ?thesis using 2 safe_trans by blast
qed

lemma submit_safe:
  assumes ok: "coll_ok A s" and c: "submit rec s = (a, s')"
  shows "safe_step A s s'" and "an_satisfied a \<longrightarrow> sr_id rec \<in> acked s'"
proof -
  have s': "cs_spool s' = cs_spool s" "cs_world s' = cs_world s" "ev_log (cs_env s') = ev_log (cs_env s) @ [(rec, a)]"
    using c by (auto simp: submit_def Let_def split: list.splits)
  have sub: "acked s \<subseteq> acked s'" by (auto simp: acked_def s')
  show "an_satisfied a \<longrightarrow> sr_id rec \<in> acked s'" by (auto simp: acked_def s')
  have "marks_in (A \<union> acked s') (cs_world s)"
    by (rule marks_in_mono [of "A \<union> acked s"]) (use ok sub in \<open>auto simp: coll_ok_def\<close>)
  then show "safe_step A s s'"
    using ok sub by (auto simp: safe_step_def coll_ok_def coll_custody_def s')
qed

lemma deliver_safe:
  assumes ok: "coll_ok A s" and mk: "sr_removal rec \<longrightarrow> sr_id rec \<in> A \<union> acked s"
  shows "safe_step A s (deliver rec s)"
proof -
  obtain a s1 where a: "submit rec s = (a, s1)" by (metis surj_pair)
  note 1 = submit_safe [OF ok a]
  have mk1: "sr_removal rec \<longrightarrow> sr_id rec \<in> A \<union> acked s1" using mk 1(1) by (auto simp: safe_step_def)
  define f where "f = recordFailure (an_err a) s1"
  have cf: "same_core s1 f" unfolding f_def by (rule core_recordFailure)
  have 2: "safe_step A s f" using 1(1) same_core_safe [OF safe_ok [OF 1(1)] cf] safe_trans by blast
  have mk2: "sr_removal rec \<longrightarrow> sr_id rec \<in> A \<union> acked f" using mk1 same_core_acked [OF cf] by simp
  consider (yes) "an_satisfied a" | (perm) "\<not> an_satisfied a" "an_permanent a"
    | (retry) "\<not> an_satisfied a" "\<not> an_permanent a" by blast
  then show ?thesis
  proof cases
    case yes
    define up where "up = rec\<lparr>sr_removal := True\<rparr>"
    have id: "sr_id up \<in> A \<union> acked s1" using 1(2) yes by (simp add: up_def)
    obtain r s2 where c: "c_rewrite up s1 = (r, s2)" by (metis surj_pair)
    have 3: "safe_step A s1 s2" by (rule c_rewrite_safe [OF safe_ok [OF 1(1)] _ c]) (use id in simp)
    show ?thesis
    proof (cases r)
      case (Some e)
      then have "deliver rec s = storageFailure (Some e) True s2"
        using a yes c by (simp add: deliver_def Let_def up_def)
      then show ?thesis
        using 1(1) 3 core_storageFailure safe_ok same_core_safe safe_trans by metis
    next
      case None
      then have d: "deliver rec s = finishRemoval up True s2"
        using a yes c by (simp add: deliver_def Let_def up_def)
      have "sr_id up \<in> A \<union> acked s2" using id 3 by (auto simp: safe_step_def)
      then show ?thesis using d 1(1) 3 finishRemoval_safe [OF safe_ok [OF 3]] safe_trans by metis
    qed
  next
    case perm
    then have "deliver rec s = markTerminal (rec\<lparr>sr_attempts := sr_attempts rec + 1\<rparr>) ''permanent'' f"
      using a by (simp add: deliver_def f_def)
    moreover have "safe_step A f (markTerminal (rec\<lparr>sr_attempts := sr_attempts rec + 1\<rparr>) ''permanent'' f)"
      by (rule markTerminal_safe [OF safe_ok [OF 2]]) (use mk2 in simp)
    ultimately show ?thesis using 2 safe_trans by metis
  next
    case retry
    obtain e s2 where r: "scheduleRetry rec (an_retry_after a) f = (e, s2)" by (metis surj_pair)
    have 3: "safe_step A f s2" by (rule scheduleRetry_safe [OF safe_ok [OF 2] mk2 r])
    have "deliver rec s = storageFailure e False s2" using a retry r by (simp add: deliver_def f_def)
    then show ?thesis using 2 3 core_storageFailure safe_ok same_core_safe safe_trans by metis
  qed
qed

lemma drain_records_safe:
  assumes "coll_ok A s" and "\<forall>rec \<in> set recs. sr_removal rec \<longrightarrow> sr_id rec \<in> A \<union> acked s"
  shows "safe_step A s (drain_records recs s)"
  using assms
proof (induction recs arbitrary: s)
  case Nil
  then show ?case by (simp add: safe_refl)
next
  case (Cons rec recs)
  obtain b s1 where b: "ctx_err s = (b, s1)" by (metis surj_pair)
  have c1: "same_core s s1" by (rule core_ctx_err [OF b])
  have 1: "safe_step A s s1" by (rule same_core_safe [OF Cons.prems(1) c1])
  have mk: "sr_removal rec \<longrightarrow> sr_id rec \<in> A \<union> acked s1" using Cons.prems(2) 1 by (auto simp: safe_step_def)
  have rest: "safe_step A s (drain_records recs t)" if t: "safe_step A s1 t" for t
  proof -
    have st: "safe_step A s t" by (rule safe_trans [OF 1 t])
    have "safe_step A t (drain_records recs t)"
      by (rule Cons.IH [OF safe_ok [OF st]]) (use Cons.prems(2) st in \<open>auto simp: safe_step_def\<close>)
    then show ?thesis using st safe_trans by blast
  qed
  note ok1 = safe_ok [OF 1]
  show ?case
  proof (cases b)
    case True
    then show ?thesis using 1 b by simp
  next
    case nb: False
    consider (fin) "sr_terminal rec \<noteq> []" | (rem) "sr_terminal rec = []" "sr_removal rec"
      | (ex) "sr_terminal rec = []" "\<not> sr_removal rec"
          "0 < op_max_attempts (cs_opts s1) \<and> op_max_attempts (cs_opts s1) \<le> sr_attempts rec"
      | (due) "sr_terminal rec = []" "\<not> sr_removal rec"
          "\<not> (0 < op_max_attempts (cs_opts s1) \<and> op_max_attempts (cs_opts s1) \<le> sr_attempts rec)" by blast
    then show ?thesis
    proof cases
      case fin
      obtain q s2 where q: "c_quarantine rec (sr_terminal rec) s1 = (q, s2)" by (metis surj_pair)
      have "drain_records (rec # recs) s = drain_records recs (storageFailure q False s2)"
        using b nb fin q by simp
      then show ?thesis using rest [OF quarantine_and_note_safe [OF ok1 q]] by simp
    next
      case rem
      have "drain_records (rec # recs) s = drain_records recs (finishRemoval rec False s1)" using b nb rem by simp
      then show ?thesis using rest finishRemoval_safe [OF ok1] mk rem by simp
    next
      case ex
      have "drain_records (rec # recs) s = drain_records recs (markTerminal rec ''attempts_exhausted'' s1)"
        using b nb ex by simp
      then show ?thesis using rest markTerminal_safe [OF ok1] mk by simp
    next
      case due
      obtain now s2 where n: "read_clock s1 = (now, s2)" by (metis surj_pair)
      have c2: "same_core s1 s2" by (rule core_read_clock [OF n])
      have 2: "safe_step A s1 s2" by (rule same_core_safe [OF ok1 c2])
      have "safe_step A s2 (deliver rec s2)"
        by (rule deliver_safe [OF safe_ok [OF 2]]) (use due in simp)
      then have 3: "safe_step A s1 (deliver rec s2)" by (rule safe_trans [OF 2])
      have "drain_records (rec # recs) s =
          (if now < sr_next rec then drain_records recs s2 else drain_records recs (deliver rec s2))"
        using b nb due n by auto
      then show ?thesis using rest [OF 2] rest [OF 3] by simp
    qed
  qed
qed

lemma drain_safe:
  assumes ok: "coll_ok A s"
  shows "safe_step A s (drain s)"
proof -
  define s0 where "s0 = on_health (\<lambda>h. h\<lparr>hl_delivered := 0, hl_submission_failures := 0, hl_terminal_failures := 0,
      hl_local_removal_failures := 0, hl_storage_error := None\<rparr>) (s\<lparr>cs_pass_removal_failures := 0\<rparr>)"
  have c0: "same_core s s0" by (simp add: same_core_def s0_def on_health_def)
  have 0: "safe_step A s s0" by (rule same_core_safe [OF ok c0])
  define s1 where "s1 = refreshState s0"
  have 1: "safe_step A s s1" unfolding s1_def by (rule safe_trans [OF 0 refreshState_safe [OF safe_ok [OF 0]]])
  note ok1 = safe_ok [OF 1]
  obtain r s2 where p: "on_spool Pending s1 = (r, s2)" by (metis surj_pair)
  have sp1: "spool_ok (cs_spool s1) (cs_world s1)" and mk1: "marks_in (A \<union> acked s1) (cs_world s1)"
    using ok1 by (simp_all add: coll_ok_def)
  have 2: "safe_step A s1 s2"
    by (rule on_spool_safe [OF ok1 p, where X = "{}"]) (use Pending_keeps [OF sp1 mk1] in \<open>blast, simp\<close>)
  show ?thesis
  proof (cases r)
    case (Inl e)
    have "drain s = refreshState (storageFailure (Some e) False s2)"
      using p Inl by (simp add: drain_def s0_def s1_def Let_def)
    moreover have 3: "safe_step A s2 (storageFailure (Some e) False s2)"
      by (rule same_core_safe [OF safe_ok [OF 2] core_storageFailure])
    ultimately show ?thesis using 1 2 refreshState_safe [OF safe_ok [OF 3]] safe_trans by metis
  next
    case (Inr recs)
    obtain sp w where f: "Pending (cs_spool s1) (cs_world s1) = (Inr recs, sp, w)"
      using p Inr by (auto simp: on_spool_def split: prod.splits)
    have "\<forall>rec \<in> set recs. sr_removal rec \<longrightarrow> sr_id rec \<in> A \<union> acked s1"
      using Pending_keeps [OF sp1 mk1 f] by blast
    then have "\<forall>rec \<in> set recs. sr_removal rec \<longrightarrow> sr_id rec \<in> A \<union> acked s2" using 2 by (auto simp: safe_step_def)
    then have 3: "safe_step A s2 (drain_records recs s2)" by (rule drain_records_safe [OF safe_ok [OF 2]])
    have "drain s = refreshState (drain_records recs s2)"
      using p Inr by (simp add: drain_def s0_def s1_def Let_def)
    then show ?thesis using 1 2 3 refreshState_safe [OF safe_ok [OF 3]] safe_trans by metis
  qed
qed

lemma Run_safe: "coll_ok A s \<Longrightarrow> safe_step A s (Run es s)"
proof (induction es s rule: Run.induct)
  case (1 s)
  then show ?case by (simp add: drain_safe)
next
  case (2 es s)
  then show ?case by (simp add: drain_safe)
next
  case (3 es s)
  then show ?case using drain_safe safe_ok safe_trans by (metis Run.simps(3))
next
  case (4 es s)
  have "safe_step A (drain s) ((drain s)\<lparr>cs_wake := False\<rparr>)"
    by (rule same_core_safe [OF safe_ok [OF drain_safe [OF 4(2)]]]) (simp add: same_core_def)
  then have "safe_step A s ((drain s)\<lparr>cs_wake := False\<rparr>)" using drain_safe [OF 4(2)] safe_trans by blast
  then show ?case using 4(1) safe_ok safe_trans by (metis Run.simps(4))
qed

section \<open>What is submitted\<close>

lemma log_on_health [simp]: "ev_log (cs_env (on_health f s)) = ev_log (cs_env s)"
  by (simp add: on_health_def)

lemma core_log: "same_core s s' \<Longrightarrow> ev_log (cs_env s') = ev_log (cs_env s)"
  by (simp add: same_core_def)

lemma log_on_spool: "on_spool f s = (r, s') \<Longrightarrow> ev_log (cs_env s') = ev_log (cs_env s) \<and> cs_opts s' = cs_opts s"
  by (auto simp: on_spool_def split: prod.splits)

text \<open>Options never change and only \<open>submit\<close> writes the log.\<close>

definition same_log :: "cstate \<Rightarrow> cstate \<Rightarrow> bool" where
  "same_log s s' \<longleftrightarrow> ev_log (cs_env s') = ev_log (cs_env s) \<and> cs_opts s' = cs_opts s"

lemma same_log_trans: "same_log s t \<Longrightarrow> same_log t u \<Longrightarrow> same_log s u"
  by (simp add: same_log_def)

lemma same_log_basic:
  "same_log s s" "same_log s (on_health f s)" "read_clock s = (t, s') \<Longrightarrow> same_log s s'"
  "ctx_err s = (b, s') \<Longrightarrow> same_log s s'" "rand53 s = (m, s') \<Longrightarrow> same_log s s'"
  "on_spool g s = (r, s') \<Longrightarrow> same_log s s'"
  by (auto simp: same_log_def on_health_def read_clock_def ctx_err_def rand53_def on_spool_def
      split: list.splits prod.splits)

lemma same_log_health:
  "same_log s (storageFailure e b s)" "same_log s (count_terminal s)" "same_log s (recordSuccess s)"
  "same_log s (recordFailure err s)"
  using same_log_basic(3) [of s]
  by (auto simp: storageFailure_def count_terminal_def recordSuccess_def recordFailure_def Let_def same_log_def
      on_health_def split: prod.split)

lemma same_log_refresh: "same_log s (refreshState s)"
  by (auto simp: refreshState_def Let_def same_log_def on_health_def storageFailure_def split: prod.split)

lemma same_log_calls:
  "c_rewrite rec s = (r, s') \<Longrightarrow> same_log s s'" "c_quarantine rec reason s = (r, s') \<Longrightarrow> same_log s s'"
  "c_remove rec s = (r, s') \<Longrightarrow> same_log s s'"
  by (simp_all add: c_rewrite_def c_quarantine_def c_remove_def same_log_basic(6))

lemma same_log_finishRemoval: "same_log s (finishRemoval rec b s)"
proof -
  obtain r s1 where c: "c_remove rec s = (r, s1)" by (metis surj_pair)
  have "same_log s1 (finishRemoval rec b s)"
    by (cases r) (simp_all add: finishRemoval_def c same_log_health same_log_basic)
  then show ?thesis using same_log_calls(3) [OF c] same_log_trans by blast
qed

lemma same_log_markTerminal: "same_log s (markTerminal rec reason s)"
proof -
  obtain r s1 where c: "c_rewrite (rec\<lparr>sr_terminal := reason\<rparr>) s = (r, s1)" by (metis surj_pair)
  obtain q s2 where q: "c_quarantine (rec\<lparr>sr_terminal := reason\<rparr>) reason (count_terminal s1) = (q, s2)"
    by (metis surj_pair)
  have "markTerminal rec reason s =
      (case r of Some e \<Rightarrow> storageFailure (Some e) False s1 | None \<Rightarrow> storageFailure q False s2)"
    by (simp add: markTerminal_def Let_def c q split: option.split)
  moreover have "same_log s s1" by (rule same_log_calls(1) [OF c])
  moreover have "same_log s1 s2" using same_log_health(2) same_log_calls(2) [OF q] by (rule same_log_trans)
  ultimately show ?thesis using same_log_health(1) same_log_trans by (metis option.exhaust option.simps(4,5))
qed

lemma same_log_retry_wait: "retry_wait rec ra s = (wait, s') \<Longrightarrow> same_log s s'"
  using same_log_basic(5) [of s]
  by (auto simp: retry_wait_def backoffFor_def same_log_def split: if_splits prod.splits)

lemma same_log_persist_retry:
  assumes r: "persist_retry up s = (err, s')"
  shows "same_log s s'"
proof -
  obtain e s1 where c: "c_rewrite up s = (e, s1)" by (metis surj_pair)
  have 1: "same_log s s1" by (rule same_log_calls(1) [OF c])
  show ?thesis
  proof (cases "e = None \<and> sr_terminal up \<noteq> []")
    case True
    then have "c_quarantine up (sr_terminal up) (count_terminal s1) = (err, s')"
      using r c by (simp add: persist_retry_def)
    then show ?thesis using 1 same_log_health(2) same_log_calls(2) same_log_trans by blast
  next
    case False
    then have "s' = s1" using r c by (cases e) (auto simp: persist_retry_def)
    then show ?thesis using 1 by simp
  qed
qed

lemma same_log_scheduleRetry:
  assumes "scheduleRetry rec ra s = (e, s')"
  shows "same_log s s'"
proof -
  obtain wait s1 where w: "retry_wait rec ra s = (wait, s1)" by (metis surj_pair)
  obtain now s2 where n: "read_clock s1 = (now, s2)" by (metis surj_pair)
  have p: "persist_retry (retry_record (cs_opts s2) rec now wait) s2 = (e, s')"
    using assms w n by (simp add: scheduleRetry_def)
  show ?thesis
    using same_log_retry_wait [OF w] same_log_basic(3) [OF n] same_log_persist_retry [OF p] same_log_trans by blast
qed

lemma deliver_log:
  "\<exists>a. ev_log (cs_env (deliver rec s)) = ev_log (cs_env s) @ [(rec, a)] \<and> cs_opts (deliver rec s) = cs_opts s"
proof -
  obtain a s1 where a: "submit rec s = (a, s1)" by (metis surj_pair)
  have s1: "ev_log (cs_env s1) = ev_log (cs_env s) @ [(rec, a)]" "cs_opts s1 = cs_opts s"
    using a by (auto simp: submit_def Let_def)
  let ?up = "rec\<lparr>sr_removal := True\<rparr>"
  obtain r s2 where c: "c_rewrite ?up s1 = (r, s2)" by (metis surj_pair)
  obtain e s3 where sc: "scheduleRetry rec (an_retry_after a) (recordFailure (an_err a) s1) = (e, s3)" by (metis surj_pair)
  have d: "deliver rec s =
      (if an_satisfied a then (case r of Some x \<Rightarrow> storageFailure (Some x) True s2 | None \<Rightarrow> finishRemoval ?up True s2)
       else if an_permanent a then
         markTerminal (rec\<lparr>sr_attempts := sr_attempts rec + 1\<rparr>) ''permanent'' (recordFailure (an_err a) s1)
       else storageFailure e False s3)"
    by (simp add: deliver_def a Let_def c sc split: option.split)
  have 1: "same_log s1 (storageFailure x b s2)" "same_log s1 (finishRemoval ?up b s2)" for x b
    using same_log_calls(1) [OF c] same_log_health(1) same_log_finishRemoval same_log_trans by blast+
  have 2: "same_log s1 (markTerminal rr t (recordFailure (an_err a) s1))" for rr t
    using same_log_health(4) same_log_markTerminal same_log_trans by blast
  have 3: "same_log s1 (storageFailure e False s3)"
    using same_log_health(4) same_log_scheduleRetry [OF sc] same_log_health(1) same_log_trans by blast
  have "same_log s1 (deliver rec s)"
    unfolding d using 1 2 3 by (simp split: option.split)
  then show ?thesis using s1 by (auto simp: same_log_def)
qed

text \<open>What may be submitted: not terminal, not acknowledged, attempts left.\<close>

definition may_submit :: "coptions \<Rightarrow> srecord \<Rightarrow> bool" where
  "may_submit o' rec \<longleftrightarrow>
     sr_terminal rec = [] \<and> \<not> sr_removal rec \<and> (0 < op_max_attempts o' \<longrightarrow> sr_attempts rec < op_max_attempts o')"

lemma drain_records_log:
  "\<exists>new. ev_log (cs_env (drain_records recs s)) = ev_log (cs_env s) @ new \<and>
     cs_opts (drain_records recs s) = cs_opts s \<and> subseq (map fst new) recs \<and>
     list_all (\<lambda>(rec, a). may_submit (cs_opts s) rec) new"
proof (induction recs arbitrary: s)
  case Nil
  then show ?case by simp
next
  case (Cons rec recs)
  have rest: "\<exists>new. ev_log (cs_env (drain_records recs t)) = ev_log (cs_env s) @ new \<and>
      cs_opts (drain_records recs t) = cs_opts s \<and> subseq (map fst new) (rec # recs) \<and>
      list_all (\<lambda>(rec, a). may_submit (cs_opts s) rec) new" if "same_log s t" for t
    using Cons.IH [of t] that by (auto simp: same_log_def)
  obtain b s1 where b: "ctx_err s = (b, s1)" by (metis surj_pair)
  have 1: "same_log s s1" by (rule same_log_basic(4) [OF b])
  obtain q s2 where q: "c_quarantine rec (sr_terminal rec) s1 = (q, s2)" by (metis surj_pair)
  have 2: "same_log s (storageFailure q False s2)"
    using 1 same_log_calls(2) [OF q] same_log_health(1) same_log_trans by blast
  have 3: "same_log s (finishRemoval rec False s1)" "same_log s (markTerminal rec r s1)" for r
    using 1 same_log_finishRemoval same_log_markTerminal same_log_trans by blast+
  obtain now s3 where n: "read_clock s1 = (now, s3)" by (metis surj_pair)
  have 4: "same_log s s3" using 1 same_log_basic(3) [OF n] by (rule same_log_trans)
  define exh where "exh = (0 < op_max_attempts (cs_opts s1) \<and> op_max_attempts (cs_opts s1) \<le> sr_attempts rec)"
  have step: "drain_records (rec # recs) s =
      (if b then s1
       else if sr_terminal rec \<noteq> [] then drain_records recs (storageFailure q False s2)
       else if sr_removal rec then drain_records recs (finishRemoval rec False s1)
       else if exh then drain_records recs (markTerminal rec ''attempts_exhausted'' s1)
       else if now < sr_next rec then drain_records recs s3 else drain_records recs (deliver rec s3))"
    by (cases b) (simp_all add: b q n exh_def)
  show ?case
  proof (cases "b \<or> sr_terminal rec \<noteq> [] \<or> sr_removal rec \<or> exh \<or> now < sr_next rec")
    case True
    have "ev_log (cs_env s1) = ev_log (cs_env s) @ [] \<and> cs_opts s1 = cs_opts s" using 1 by (simp add: same_log_def)
    then have "\<exists>new. ev_log (cs_env s1) = ev_log (cs_env s) @ new \<and> cs_opts s1 = cs_opts s \<and>
        subseq (map fst new) (rec # recs) \<and> list_all (\<lambda>(rec, a). may_submit (cs_opts s) rec) new"
      by (intro exI [of _ "[]"]) simp
    then show ?thesis using True rest [OF 2] rest [OF 3(1)] rest [OF 3(2)] rest [OF 4] unfolding step by (simp, blast)
  next
    case False
    obtain a where a: "ev_log (cs_env (deliver rec s3)) = ev_log (cs_env s) @ [(rec, a)]"
        "cs_opts (deliver rec s3) = cs_opts s"
      using deliver_log [of rec s3] 4 by (auto simp: same_log_def)
    obtain new where new: "ev_log (cs_env (drain_records recs (deliver rec s3))) = ev_log (cs_env s) @ (rec, a) # new"
        "cs_opts (drain_records recs (deliver rec s3)) = cs_opts s" "subseq (map fst new) recs"
        "list_all (\<lambda>(rec, a). may_submit (cs_opts s) rec) new"
      using Cons.IH [of "deliver rec s3"] a by auto
    have "may_submit (cs_opts s) rec"
      using False 1 by (auto simp: may_submit_def exh_def same_log_def)
    then have "ev_log (cs_env (drain_records recs (deliver rec s3))) = ev_log (cs_env s) @ ((rec, a) # new) \<and>
        cs_opts (drain_records recs (deliver rec s3)) = cs_opts s \<and> subseq (map fst ((rec, a) # new)) (rec # recs) \<and>
        list_all (\<lambda>(rec, a). may_submit (cs_opts s) rec) ((rec, a) # new)"
      using new by simp
    then show ?thesis using False unfolding step by simp
  qed
qed

section \<open>Properties\<close>

text \<open>
  C26. The removal rule.  However long the collector runs, whatever the authorization server
  answers, and under every combination of storage failures with a crash at any point, evidence
  in the custody of the spool stays in its custody unless the server durably accepted a
  submission of its identity in this run, or had accepted it earlier (\<open>A\<close>, the identities whose
  records carry the mark of a pending removal).
\<close>

theorem collector_removal_rule:
  assumes "spool_ok (cs_spool s) (cs_world s)" and "marks_in A (cs_world s)"
    and "custody (cs_spool s) (cs_world s) i e" and "i \<notin> A"
    and "\<forall>rec a. (rec, a) \<in> set (ev_log (cs_env (Run events s))) \<and> sr_id rec = i \<longrightarrow> \<not> an_satisfied a"
  shows "custody (cs_spool (Run events s)) (cs_world (Run events s)) i e \<and>
         spool_ok (cs_spool (Run events s)) (cs_world (Run events s))"
proof -
  have "marks_in (A \<union> acked s) (cs_world s)" by (rule marks_in_mono [OF assms(2)]) simp
  then have ok: "coll_ok A s" using assms(1) by (simp add: coll_ok_def)
  have st: "safe_step A s (Run events s)" by (rule Run_safe [OF ok])
  have "i \<notin> acked (Run events s)" using assms(5) by (auto simp: acked_def)
  then show ?thesis using st assms(3,4) by (simp add: safe_step_def coll_ok_def coll_custody_def)
qed

definition sample_options :: coptions where
  "sample_options =
     \<lparr>op_interval = 0, op_base_backoff = 0, op_max_backoff = 0, op_max_attempts = 3, op_redact = (\<lambda>t. t)\<rparr>"

definition sample_answer :: "bool \<Rightarrow> bool \<Rightarrow> answer" where
  "sample_answer sat perm = \<lparr>an_satisfied = sat, an_permanent = perm, an_retry_after = 0, an_err = None\<rparr>"

definition sample_collector :: "outcome_os list \<Rightarrow> answer list \<Rightarrow> cstate" where
  "sample_collector plan answers =
     \<lparr>cs_spool = sample_spool, cs_world = sample_world plan, cs_opts = withDefaults sample_options,
      cs_health = zero_health, cs_pass_removal_failures = 0, cs_wake = False,
      cs_env = \<lparr>ev_clock = [10, 20, 30, 40], ev_answers = answers, ev_cancelled = [], ev_random = [], ev_log = []\<rparr>\<rparr>"

lemma sample_marks: "marks_in {} (sample_world plan)"
  unfolding marks_in_def sample_view by (auto simp: sample_record_def split: if_splits)

text \<open>The witness refuses the record, and the machine dies while the refusal is written down.\<close>

lemma collector_removal_rule_witness:
  "w_dead (cs_world (Run [] (sample_collector [Go, Go, Go, Go, Go, Go, Die] [sample_answer False False]))) \<and>
   custody (cs_spool (Run [] (sample_collector [Go, Go, Go, Go, Go, Go, Die] [sample_answer False False])))
     (cs_world (Run [] (sample_collector [Go, Go, Go, Go, Go, Go, Die] [sample_answer False False])))
     sample_id (JObj [(''client_record_id'', JStr sample_id)])"
proof -
  let ?s = "sample_collector [Go, Go, Go, Go, Go, Go, Die] [sample_answer False False]"
  have d: "w_dead (cs_world (Run [] ?s)) \<and>
      list_all (\<lambda>(rec, a). \<not> an_satisfied a) (ev_log (cs_env (Run [] ?s)))" by code_simp
  then have l: "\<forall>rec a. (rec, a) \<in> set (ev_log (cs_env (Run [] ?s))) \<and> sr_id rec = sample_id \<longrightarrow> \<not> an_satisfied a"
    by (auto simp: list_all_iff)
  have f: "cs_spool ?s = sample_spool" "cs_world ?s = sample_world [Go, Go, Go, Go, Go, Go, Die]"
    by (simp_all add: sample_collector_def)
  show ?thesis
    using collector_removal_rule [of ?s "{}" sample_id _ "[]", unfolded f,
        OF sample_ok sample_marks sample_custody _ l] d by simp
qed





end
