(* ===== verification/Base64.thy ===== *)
theory Base64
  imports Prelude
begin

text \<open>
  \<^verbatim>\<open>base64.StdEncoding\<close> of package \<^verbatim>\<open>encoding/base64\<close>, as the wallet journal stores a transaction:
  padded, the bits after the last byte not checked, line ends skipped.
\<close>

definition encodeStd :: string where
  "encodeStd = ''ABCDEFGHIJKLMNOPQRSTUVWXYZabcdefghijklmnopqrstuvwxyz0123456789+/''"

definition b64_char :: "nat \<Rightarrow> char" where
  "b64_char n = encodeStd ! (n mod 64)"

fun find_index :: "char \<Rightarrow> string \<Rightarrow> nat \<Rightarrow> nat option" where
  "find_index c [] k = None"
| "find_index c (d # s) k = (if c = d then Some k else find_index c s (Suc k))"

definition b64_value :: "char \<Rightarrow> nat option" where
  "b64_value c = find_index c encodeStd 0"

fun EncodeToString :: "bytes \<Rightarrow> string" where
  "EncodeToString [] = []"
| "EncodeToString [a] =
     (let v = b2n a * 16 in [b64_char (v div 64), b64_char v] @ ''=='')"
| "EncodeToString [a, b] =
     (let v = (b2n a * 256 + b2n b) * 4 in [b64_char (v div 4096), b64_char (v div 64), b64_char v] @ ''='')"
| "EncodeToString (a # b # c # r) =
     (let v = (b2n a * 256 + b2n b) * 256 + b2n c
      in [b64_char (v div 262144), b64_char (v div 4096), b64_char (v div 64), b64_char v] @ EncodeToString r)"

fun decode_quanta :: "string \<Rightarrow> bytes option" where
  "decode_quanta [] = Some []"
| "decode_quanta (p # q # r # s # rest) =
     (case (b64_value p, b64_value q, b64_value r, b64_value s) of
        (Some i, Some j, Some k, Some l) \<Rightarrow>
          (let v = ((i * 64 + j) * 64 + k) * 64 + l
           in map_option (\<lambda>t. char_of (v div 65536) # char_of (v div 256) # char_of v # t) (decode_quanta rest))
      | (Some i, Some j, Some k, None) \<Rightarrow>
          (let v = (i * 64 + j) * 64 + k
           in if s = CHR ''='' \<and> rest = [] then Some [char_of (v div 1024), char_of (v div 4)] else None)
      | (Some i, Some j, None, _) \<Rightarrow>
          (let v = i * 64 + j
           in if r = CHR ''='' \<and> s = CHR ''='' \<and> rest = [] then Some [char_of (v div 16)] else None)
      | _ \<Rightarrow> None)"
| "decode_quanta _ = None"

definition DecodeString :: "string \<Rightarrow> bytes option" where
  "DecodeString s = decode_quanta (filter (\<lambda>c. c \<noteq> CHR 0x0A \<and> c \<noteq> CHR 0x0D) s)"

section \<open>Decoding inverts encoding\<close>

fun values_match :: "nat \<Rightarrow> string \<Rightarrow> bool" where
  "values_match k [] \<longleftrightarrow> True"
| "values_match k (c # s) \<longleftrightarrow>
     find_index c encodeStd 0 = Some k \<and> c \<noteq> CHR 0x0A \<and> c \<noteq> CHR 0x0D \<and> b2n c < 128 \<and> values_match (Suc k) s"

lemma values_match_nth:
  "values_match k s \<Longrightarrow> i < length s \<Longrightarrow>
     find_index (s ! i) encodeStd 0 = Some (k + i) \<and> s ! i \<noteq> CHR 0x0A \<and> s ! i \<noteq> CHR 0x0D \<and> b2n (s ! i) < 128"
proof (induction s arbitrary: k i)
  case (Cons c s)
  then show ?case by (cases i) (auto simp: less_Suc_eq_0_disj)
qed simp

lemma b64_char_facts:
  "b64_value (b64_char n) = Some (n mod 64)" "b64_char n \<noteq> CHR 0x0A" "b64_char n \<noteq> CHR 0x0D"
  "b2n (b64_char n) < 128"
proof -
  have m: "values_match 0 encodeStd" by code_simp
  have "length encodeStd = 64" by code_simp
  then have "n mod 64 < length encodeStd" by simp
  from values_match_nth [OF m this]
  show "b64_value (b64_char n) = Some (n mod 64)" "b64_char n \<noteq> CHR 0x0A" "b64_char n \<noteq> CHR 0x0D"
      "b2n (b64_char n) < 128"
    by (simp_all add: b64_char_def b64_value_def)
qed

lemma pad_no_value: "b64_value CHR ''='' = None"
  by code_simp

lemma low_digit: "(c::nat) < k \<Longrightarrow> (x * k + c) div k = x \<and> (x * k + c) mod k = c"
  by simp

lemma pack_less: "(x::nat) < m \<Longrightarrow> c < k \<Longrightarrow> x * k + c < m * k"
  using mult_le_mono1 [of "Suc x" m k] by simp

lemma regroup:
  fixes v :: nat
  assumes "v < 16777216"
  shows "((v div 262144 mod 64 * 64 + v div 4096 mod 64) * 64 + v div 64 mod 64) * 64 + v mod 64 = v"
proof -
  define x y z where "x = v div 64" "y = x div 64" "z = y div 64"
  have e: "v div 4096 = y" "v div 262144 = z"
    by (simp_all add: x_y_z_def div_mult2_eq [symmetric])
  have "z < 64" using assms by (simp add: x_y_z_def div_mult2_eq [symmetric] less_mult_imp_div_less)
  then have "z mod 64 * 64 + y mod 64 = y" by (simp add: x_y_z_def(3))
  moreover have "y * 64 + x mod 64 = x" "x * 64 + v mod 64 = v" by (simp_all add: x_y_z_def(1,2))
  ultimately show ?thesis unfolding e by (simp add: x_y_z_def(1) [symmetric])
qed

lemma regroup3:
  fixes v :: nat
  assumes "v < 262144"
  shows "(v div 4096 mod 64 * 64 + v div 64 mod 64) * 64 + v mod 64 = v"
  using regroup [of v] assms by simp

lemma regroup2:
  fixes v :: nat
  assumes "v < 4096"
  shows "v div 64 mod 64 * 64 + v mod 64 = v"
  using regroup [of v] assms by simp

lemma pack3:
  assumes "a < 256" "b < 256" "c < 256"
  defines "v \<equiv> (a * 256 + b) * 256 + (c::nat)"
  shows "v < 16777216" "v div 65536 = a" "v div 256 mod 256 = b" "v mod 256 = c"
proof -
  have d: "v div 256 = a * 256 + b" "v mod 256 = c" using low_digit [OF assms(3), of "a * 256 + b"] unfolding v_def by blast+
  have "v div 65536 = v div 256 div 256" by (simp add: div_mult2_eq [symmetric])
  then show "v div 65536 = a" "v div 256 mod 256 = b" "v mod 256 = c"
    using low_digit [OF assms(2)] d by simp_all
  show "v < 16777216" using pack_less [OF pack_less [OF assms(1,2)] assms(3)] by (simp add: v_def)
qed

lemma pack2:
  assumes "a < 256" "b < 256"
  defines "v \<equiv> (a * 256 + (b::nat)) * 4"
  shows "v < 262144" "v div 1024 mod 256 = a" "v div 4 mod 256 = b"
proof -
  show "v < 262144" using assms(1,2) unfolding v_def by presburger
  have e: "v div 4 = a * 256 + b" by (simp add: v_def)
  moreover have "v div 1024 = v div 4 div 256" by (simp add: div_mult2_eq [symmetric])
  ultimately show "v div 1024 mod 256 = a" "v div 4 mod 256 = b"
    using low_digit [OF assms(2), of a] assms(1) by simp_all
qed

lemma decode_four:
  assumes "v < 16777216"
  shows "decode_quanta (b64_char (v div 262144) # b64_char (v div 4096) # b64_char (v div 64) # b64_char v # r)
    = map_option (\<lambda>t. char_of (v div 65536) # char_of (v div 256) # char_of v # t) (decode_quanta r)"
  by (simp only: decode_quanta.simps b64_char_facts regroup [OF assms] Let_def option.case prod.case)

lemma decode_three:
  assumes "v < 262144"
  shows "decode_quanta [b64_char (v div 4096), b64_char (v div 64), b64_char v, CHR ''='']
    = Some [char_of (v div 1024), char_of (v div 4)]"
  by (simp only: decode_quanta.simps b64_char_facts pad_no_value regroup3 [OF assms] Let_def option.case prod.case) simp

lemma decode_two:
  assumes "v < 4096"
  shows "decode_quanta [b64_char (v div 64), b64_char v, CHR ''='', CHR ''=''] = Some [char_of (v div 16)]"
  by (simp only: decode_quanta.simps b64_char_facts pad_no_value regroup2 [OF assms] Let_def option.case prod.case) simp

lemma char_of_mod: "n mod 256 = b2n a \<Longrightarrow> char_of n = a"
  by (metis char_of_char char_of_mod_256)

lemma decode_encode_quanta: "decode_quanta (EncodeToString s) = Some s"
proof (induction s rule: EncodeToString.induct)
  case (2 a)
  have l: "b2n a < 256" by (rule b2n_less)
  then have "b2n a * 16 < 4096" by simp
  from decode_two [OF this] show ?case unfolding EncodeToString.simps Let_def append.simps by simp
next
  case (3 a b)
  define v where "v = (b2n a * 256 + b2n b) * 4"
  note p = pack2 [OF b2n_less [of a] b2n_less [of b], folded v_def]
  have "char_of (v div 1024) = a" "char_of (v div 4) = b" using p by (simp_all add: char_of_mod)
  then show ?case unfolding EncodeToString.simps Let_def v_def [symmetric] append.simps decode_three [OF p(1)] by simp
next
  case (4 a b c r)
  define v where "v = (b2n a * 256 + b2n b) * 256 + b2n c"
  note p = pack3 [OF b2n_less [of a] b2n_less [of b] b2n_less [of c], folded v_def]
  have "char_of (v div 65536) = a" "char_of (v div 256) = b" "char_of v = c"
    using p b2n_less [of a] by (simp_all add: char_of_mod)
  then show ?case using 4 unfolding EncodeToString.simps Let_def v_def [symmetric] append.simps decode_four [OF p(1)] by simp
qed simp

lemma encode_chars:
  "list_all (\<lambda>c. c \<noteq> CHR 0x0A \<and> c \<noteq> CHR 0x0D \<and> b2n c < 128) (EncodeToString s)"
  by (induction s rule: EncodeToString.induct) (simp_all add: Let_def b64_char_facts)

theorem base64_roundtrip: "DecodeString (EncodeToString s) = Some s"
proof -
  have "filter (\<lambda>c. c \<noteq> CHR 0x0A \<and> c \<noteq> CHR 0x0D) (EncodeToString s) = EncodeToString s"
    using encode_chars [of s] by (auto simp: list_all_iff intro: filter_True)
  then show ?thesis by (simp add: DecodeString_def decode_encode_quanta)
qed

lemma encode_nonempty: "s \<noteq> [] \<Longrightarrow> EncodeToString s \<noteq> []"
  by (induction s rule: EncodeToString.induct) (simp_all add: Let_def)

end
