(* ===== verification/Proto.thy ===== *)
theory Proto
  imports Prelude
begin

text \<open>
  The protobuf writer and reader of \<^verbatim>\<open>cmd/dropin-miner/wallet_tx.go\<close>.  A panic of the writer is
  \<open>None\<close>.  The readers are loops over what is left of the buffer, so they are partial functions
  whose value on a buffer that kept them busy forever would be \<open>None\<close>; that there is no such
  buffer is proved in \<open>ProtoSpec\<close>.
\<close>

unbundle bit_operations_syntax

section \<open>The writer\<close>

text \<open>\<^verbatim>\<open>byte(v)\<close>.\<close>

definition byte_of :: "64 word \<Rightarrow> char" where
  "byte_of v = char_of (unat v)"

lemma unat_drop_bit_less: "0x80 \<le> (v :: 64 word) \<Longrightarrow> unat (drop_bit 7 v) < unat v"
  by (simp add: word_le_nat_alt drop_bit_eq_div unat_div)

function protoVarint :: "64 word \<Rightarrow> bytes" where
  "protoVarint v =
     (if 0x80 \<le> v then byte_of (v OR 0x80) # protoVarint (drop_bit 7 v) else [byte_of v])"
  by pat_completeness auto
termination
  by (relation "measure unat") (simp_all add: unat_drop_bit_less)

declare protoVarint.simps [simp del]

definition protoTag :: "int \<Rightarrow> 64 word \<Rightarrow> bytes option" where
  "protoTag field wireType =
     (if field < 1 \<or> 0x1fffffff < field then None
      else Some (protoVarint (push_bit 3 (word_of_int field) OR wireType)))"

definition protoBytes :: "int \<Rightarrow> bytes \<Rightarrow> bytes option" where
  "protoBytes field val =
     (if val = [] then Some []
      else map_option (\<lambda>out. out @ protoVarint (word_of_nat (length val)) @ val) (protoTag field 2))"

definition protoString :: "int \<Rightarrow> string \<Rightarrow> bytes option" where
  "protoString field val = protoBytes field val"

definition protoUint :: "int \<Rightarrow> 64 word \<Rightarrow> bytes option" where
  "protoUint field val =
     (if val = 0 then Some [] else map_option (\<lambda>out. out @ protoVarint val) (protoTag field 0))"

text \<open>The concatenation of parts; a panic in one of them is a panic of the whole.\<close>

fun join_parts :: "bytes option list \<Rightarrow> bytes option" where
  "join_parts [] = Some []"
| "join_parts (p # ps) =
     (case p of None \<Rightarrow> None
      | Some a \<Rightarrow> (case join_parts ps of None \<Rightarrow> None | Some b \<Rightarrow> Some (a @ b)))"

section \<open>The reader\<close>

fun read_varint_from :: "nat \<Rightarrow> 64 word \<Rightarrow> bytes \<Rightarrow> 64 word \<times> nat" where
  "read_varint_from i v [] = (0, 0)"
| "read_varint_from i v (b # buf) =
     (if 10 \<le> i then (0, 0)
      else (let v = v OR push_bit (7 * i) (word_of_nat (b2n b) AND 0x7f)
            in if b2n b < 0x80 then (v, i + 1) else read_varint_from (i + 1) v buf))"

definition readVarint :: "bytes \<Rightarrow> 64 word \<times> nat" where
  "readVarint buf = read_varint_from 0 0 buf"

datatype proto_error =
    TruncatedTag
  | TruncatedField
  | TruncatedVarint
  | TruncatedFixed32
  | TruncatedFixed64
  | UnsupportedWire "64 word"

partial_function (option) protoField :: "bytes \<Rightarrow> int \<Rightarrow> (proto_error + bytes) option" where
  "protoField buf field =
     (if buf = [] then Some (Inr [])
      else (case readVarint buf of (tag, n) \<Rightarrow>
        if n = 0 then Some (Inl TruncatedTag)
        else (let buf = drop n buf; num = uint (drop_bit 3 tag); wire = tag AND 7
          in if wire = 2 then
               (case readVarint buf of (l, n) \<Rightarrow>
                  if n = 0 \<or> word_of_nat (length (drop n buf)) < l then Some (Inl TruncatedField)
                  else if num = field then Some (Inr (take (unat l) (drop n buf)))
                  else protoField (drop (n + unat l) buf) field)
             else if wire = 0 then
               (case readVarint buf of (v, n) \<Rightarrow>
                  if n = 0 then Some (Inl TruncatedVarint) else protoField (drop n buf) field)
             else if wire = 5 then
               (if length buf < 4 then Some (Inl TruncatedFixed32) else protoField (drop 4 buf) field)
             else if wire = 1 then
               (if length buf < 8 then Some (Inl TruncatedFixed64) else protoField (drop 8 buf) field)
             else Some (Inl (UnsupportedWire wire)))))"

partial_function (option) protoVarintField :: "bytes \<Rightarrow> int \<Rightarrow> (proto_error + 64 word) option" where
  "protoVarintField buf field =
     (if buf = [] then Some (Inr 0)
      else (case readVarint buf of (tag, n) \<Rightarrow>
        if n = 0 then Some (Inl TruncatedTag)
        else (let buf = drop n buf; num = uint (drop_bit 3 tag); wire = tag AND 7
          in if wire = 0 then
               (case readVarint buf of (v, n) \<Rightarrow>
                  if n = 0 then Some (Inl TruncatedVarint)
                  else if num = field then Some (Inr v)
                  else protoVarintField (drop n buf) field)
             else if wire = 2 then
               (case readVarint buf of (l, n) \<Rightarrow>
                  if n = 0 \<or> word_of_nat (length (drop n buf)) < l then Some (Inl TruncatedField)
                  else protoVarintField (drop (n + unat l) buf) field)
             else if wire = 5 then
               (if length buf < 4 then Some (Inl TruncatedFixed32) else protoVarintField (drop 4 buf) field)
             else if wire = 1 then
               (if length buf < 8 then Some (Inl TruncatedFixed64) else protoVarintField (drop 8 buf) field)
             else Some (Inl (UnsupportedWire wire)))))"

section \<open>Varints\<close>

lemma byte_of_value: "b2n (byte_of v) = unat v mod 256"
  by (simp add: byte_of_def)

lemma word_byte_of: "(word_of_nat (b2n (byte_of v)) :: 64 word) = v AND 0xFF"
proof -
  have m: "(0xFF :: 64 word) = mask 8" by (simp add: mask_eq_exp_minus_1)
  have "(word_of_nat (b2n (byte_of v)) :: 64 word) = word_of_nat (take_bit 8 (unat v))"
    by (simp add: byte_of_value take_bit_eq_mod)
  also have "\<dots> = take_bit 8 v" by (simp only: unsigned_take_bit_eq [symmetric] of_nat_unat) simp
  finally show ?thesis by (simp add: m take_bit_eq_mask)
qed

lemma low_bits: "(word_of_nat (b2n (byte_of v)) :: 64 word) AND 0x7f = v AND 0x7f"
  by (simp add: word_byte_of and.assoc)

lemma low_bits_or: "(word_of_nat (b2n (byte_of (v OR 0x80))) :: 64 word) AND 0x7f = v AND 0x7f"
  unfolding low_bits by (simp add: bit.conj_disj_distrib2)

lemma byte_continues: "\<not> b2n (byte_of (v OR 0x80)) < 0x80"
proof -
  have "bit (unat (v OR 0x80)) 7" by (simp add: bit_unsigned_iff bit_or_iff)
  then have "unat (v OR 0x80) div 128 mod 2 = 1" by (simp add: bit_iff_odd odd_iff_mod_2_eq_one)
  then have "128 \<le> unat (v OR 0x80) mod 256"
    using mod_mult2_eq [of "unat (v OR 0x80)" 128 2] by simp
  then show ?thesis by (simp add: byte_of_value)
qed

lemma byte_ends: "\<not> 0x80 \<le> v \<Longrightarrow> b2n (byte_of v) < 0x80 \<and> v AND 0x7f = v"
proof -
  assume "\<not> 0x80 \<le> v"
  then have n: "unat v < 128" by (simp add: word_le_nat_alt)
  have "(0x7f :: 64 word) = mask 7" by (simp add: mask_eq_exp_minus_1)
  moreover have "take_bit 7 v = v"
    using n by (simp add: word_unat_eq_iff unsigned_take_bit_eq take_bit_nat_eq_self_iff)
  ultimately show ?thesis using n by (simp add: byte_of_value take_bit_eq_mask)
qed

text \<open>One byte of a varint and the rest of its value.\<close>

lemma varint_split: "push_bit i (v AND 0x7f) OR push_bit (i + 7) (drop_bit 7 v) = push_bit i (v :: 64 word)"
proof -
  have "(0x7f :: 64 word) = mask 7" by (simp add: mask_eq_exp_minus_1)
  then show ?thesis
    by (auto simp: bit_eq_iff bit_simps) (metis add_diff_inverse_nat diff_diff_left)
qed

lemma read_varint_from_write:
  assumes "i < 10" and "unat v < 2 ^ (64 - 7 * i)"
  shows "read_varint_from i acc (protoVarint v @ rest) =
    (acc OR push_bit (7 * i) v, i + length (protoVarint v))"
  using assms
proof (induction v arbitrary: i acc rule: protoVarint.induct)
  case (1 v)
  show ?case
  proof (cases "0x80 \<le> v")
    case True
    have n: "128 \<le> unat v" using True by (simp add: word_le_nat_alt)
    have "i < 9"
    proof (rule ccontr)
      assume "\<not> i < 9"
      then have "i = 9" using "1.prems"(1) by simp
      then show False using "1.prems"(2) n by simp
    qed
    have e: "64 - 7 * i = (64 - 7 * (i + 1)) + 7" using \<open>i < 9\<close> by simp
    have "unat (drop_bit 7 v) < 2 ^ (64 - 7 * (i + 1))"
      using "1.prems"(2) unfolding e power_add
      by (simp add: drop_bit_eq_div unat_div less_mult_imp_div_less)
    then have IH: "read_varint_from (i + 1) acc' (protoVarint (drop_bit 7 v) @ rest) =
        (acc' OR push_bit (7 * (i + 1)) (drop_bit 7 v), i + 1 + length (protoVarint (drop_bit 7 v)))" for acc'
      using "1.IH" [OF True, of "i + 1" acc'] \<open>i < 9\<close> by simp
    have "read_varint_from i acc (protoVarint v @ rest) =
        read_varint_from (i + 1) (acc OR push_bit (7 * i) (v AND 0x7f)) (protoVarint (drop_bit 7 v) @ rest)"
      using True "1.prems"(1) byte_continues [of v]
      by (subst protoVarint.simps) (simp only: if_True append_Cons read_varint_from.simps Let_def low_bits_or
        linorder_not_le [symmetric] if_False simp_thms)
    then show ?thesis
      using varint_split [of "7 * i" v] True
      by (subst (2) protoVarint.simps) (simp only: IH, simp add: or.assoc algebra_simps)
  next
    case False
    have "read_varint_from i acc (protoVarint v @ rest) = (acc OR push_bit (7 * i) (v AND 0x7f), i + 1)"
      using False "1.prems"(1) byte_ends [of v]
      by (subst protoVarint.simps) (simp only: if_False append.simps read_varint_from.simps Let_def low_bits
        linorder_not_le [symmetric] if_True simp_thms)
    then show ?thesis
      using byte_ends [OF False] False by (subst (2) protoVarint.simps) simp
  qed
qed

lemma readVarint_write [simp]: "readVarint (protoVarint v @ rest) = (v, length (protoVarint v))"
  using read_varint_from_write [of 0 v 0 rest] unsigned_less [of v] by (simp add: readVarint_def)

lemma protoVarint_nonempty [simp]: "protoVarint v \<noteq> []"
  by (subst protoVarint.simps) simp

lemma read_varint_from_length:
  "read_varint_from i v buf = (w, n) \<Longrightarrow> n \<noteq> 0 \<Longrightarrow> i < n \<and> n \<le> i + length buf \<and> n \<le> 10"
proof (induction buf arbitrary: i v)
  case Nil
  then show ?case by simp
next
  case (Cons b buf)
  show ?case
  proof (cases "10 \<le> i \<or> b2n b < 0x80")
    case True
    then show ?thesis using Cons.prems by (auto simp: Let_def split: if_splits)
  next
    case False
    with Cons.IH Cons.prems show ?thesis by (fastforce simp: Let_def)
  qed
qed

lemma readVarint_length: "readVarint buf = (w, n) \<Longrightarrow> n \<noteq> 0 \<Longrightarrow> 0 < n \<and> n \<le> length buf \<and> n \<le> 10"
  unfolding readVarint_def using read_varint_from_length by fastforce

lemma varint_length: "length (protoVarint v) \<le> 10"
  using readVarint_length [OF readVarint_write [of v "[]"]] by simp

end
