(* ===== verification/ProtoSpec.thy ===== *)
theory ProtoSpec
  imports Proto
begin

text \<open>
  What the protobuf reader makes of any buffer, and of a buffer the writer made: a message is a
  list of numbered fields, and a field that is empty or zero is not written.
\<close>

unbundle bit_operations_syntax

section \<open>Messages\<close>

datatype field_value = PBytes bytes | PUint "64 word"

fun write_field :: "int \<times> field_value \<Rightarrow> bytes option" where
  "write_field (n, PBytes v) = protoBytes n v"
| "write_field (n, PUint v) = protoUint n v"

definition write_message :: "(int \<times> field_value) list \<Rightarrow> bytes option" where
  "write_message fs = join_parts (map write_field fs)"

definition field_number :: "int \<Rightarrow> bool" where
  "field_number n \<longleftrightarrow> 1 \<le> n \<and> n \<le> 0x1fffffff"

text \<open>The value a reader is to find: the first one written under the number, or the default.\<close>

fun first_bytes :: "int \<Rightarrow> (int \<times> field_value) list \<Rightarrow> bytes" where
  "first_bytes k [] = []"
| "first_bytes k ((n, PBytes v) # fs) = (if n = k \<and> v \<noteq> [] then v else first_bytes k fs)"
| "first_bytes k ((n, PUint v) # fs) = first_bytes k fs"

fun first_uint :: "int \<Rightarrow> (int \<times> field_value) list \<Rightarrow> 64 word" where
  "first_uint k [] = 0"
| "first_uint k ((n, PUint v) # fs) = (if n = k \<and> v \<noteq> 0 then v else first_uint k fs)"
| "first_uint k ((n, PBytes v) # fs) = first_uint k fs"

section \<open>Single fields\<close>

lemma protoTag_Some: "field_number n \<Longrightarrow> protoTag n wt = Some (protoVarint (push_bit 3 (word_of_int n) OR wt))"
  by (simp add: protoTag_def field_number_def)

lemma tag_number: "field_number n \<Longrightarrow> uint (drop_bit 3 (push_bit 3 (word_of_int n :: 64 word))) = n"
  by (simp add: field_number_def word_of_int_inverse uint_div_distrib uint_word_ariths push_bit_eq_mult
      drop_bit_eq_div)

lemma tag_parts:
  assumes "field_number n" and "drop_bit 3 wt = 0" and "wt AND 7 = wt"
  shows "uint (drop_bit 3 (push_bit 3 (word_of_int n :: 64 word) OR wt)) = n"
    and "(push_bit 3 (word_of_int n :: 64 word) OR wt) AND 7 = wt"
proof -
  have m: "(7 :: 64 word) = mask 3" by (simp add: mask_eq_exp_minus_1)
  show "uint (drop_bit 3 (push_bit 3 (word_of_int n :: 64 word) OR wt)) = n"
    by (simp only: drop_bit_or assms(2) or.right_neutral tag_number [OF assms(1)])
  have "push_bit 3 (word_of_int n :: 64 word) AND 7 = 0"
    unfolding m take_bit_eq_mask [symmetric] take_bit_push_bit by simp
  then show "(push_bit 3 (word_of_int n :: 64 word) OR wt) AND 7 = wt"
    by (simp only: bit.conj_disj_distrib2 assms(3) or.left_neutral)
qed

lemma written_tag:
  assumes "field_number n" and "wt = 2 \<or> wt = 0"
  obtains t where "protoTag n wt = Some (protoVarint t)" and "uint (drop_bit 3 t) = n" and "t AND 7 = wt"
  using protoTag_Some [OF assms(1), of wt] tag_parts [OF assms(1), of wt] assms(2) that by auto

lemma unat_of_length: "length s < 2 ^ 64 \<Longrightarrow> unat (word_of_nat (length s) :: 64 word) = length s"
  by (simp add: unat_of_nat_64)

lemma length_fits:
  assumes "m + n < 2 ^ 64"
  shows "\<not> (word_of_nat (m + n) :: 64 word) < word_of_nat m"
  using assms by (simp add: word_less_nat_alt unat_of_nat_64 del: of_nat_add)

lemma read_bytes_field:
  assumes "field_number n" and "protoBytes n v = Some b" and "v \<noteq> []" and "length (b @ rest) < 2 ^ 64"
  shows "protoField (b @ rest) k = (if n = k then Some (Inr v) else protoField rest k)"
    and "protoVarintField (b @ rest) k = protoVarintField rest k"
proof -
  obtain t where t: "protoTag n 2 = Some (protoVarint t)" "uint (drop_bit 3 t) = n" "t AND 7 = 2"
    by (rule written_tag [OF assms(1), where wt = 2]) simp_all
  have b: "b = protoVarint t @ protoVarint (word_of_nat (length v)) @ v"
    using assms(2,3) by (simp add: protoBytes_def t(1))
  have l: "unat (word_of_nat (length v) :: 64 word) = length v"
    "\<not> (word_of_nat (length v + length rest) :: 64 word) < word_of_nat (length v)"
    using assms(4) by (simp_all add: b unat_of_length length_fits del: of_nat_add)
  show "protoField (b @ rest) k = (if n = k then Some (Inr v) else protoField rest k)"
    using l t by (subst protoField.simps) (simp add: b Let_def del: of_nat_add)
  show "protoVarintField (b @ rest) k = protoVarintField rest k"
    using l t by (subst protoVarintField.simps) (simp add: b Let_def del: of_nat_add)
qed

lemma read_uint_field:
  assumes "field_number n" and "protoUint n v = Some b" and "v \<noteq> 0"
  shows "protoVarintField (b @ rest) k = (if n = k then Some (Inr v) else protoVarintField rest k)"
    and "protoField (b @ rest) k = protoField rest k"
proof -
  obtain t where t: "protoTag n 0 = Some (protoVarint t)" "uint (drop_bit 3 t) = n" "t AND 7 = 0"
    by (rule written_tag [OF assms(1), where wt = 0]) simp_all
  have b: "b = protoVarint t @ protoVarint v"
    using assms(2,3) by (simp add: protoUint_def t(1))
  show "protoVarintField (b @ rest) k = (if n = k then Some (Inr v) else protoVarintField rest k)"
    using t by (subst protoVarintField.simps) (simp add: b Let_def)
  show "protoField (b @ rest) k = protoField rest k"
    using t by (subst protoField.simps) (simp add: b Let_def)
qed

section \<open>Whole messages\<close>

lemma read_empty [simp]: "protoField [] k = Some (Inr [])" "protoVarintField [] k = Some (Inr 0)"
  by (subst protoField.simps, simp) (subst protoVarintField.simps, simp)

lemma write_message_Cons:
  "write_message (f # fs) = Some buf \<longleftrightarrow>
     (\<exists>a b. write_field f = Some a \<and> write_message fs = Some b \<and> buf = a @ b)"
  by (auto simp: write_message_def split: option.splits)

lemma message_reads:
  assumes "list_all (field_number \<circ> fst) fs" and "write_message fs = Some buf" and "length buf < 2 ^ 64"
  shows "protoField buf k = Some (Inr (first_bytes k fs)) \<and> protoVarintField buf k = Some (Inr (first_uint k fs))"
  using assms
proof (induction fs arbitrary: buf)
  case Nil
  then show ?case by (simp add: write_message_def)
next
  case (Cons f fs)
  obtain n x where f: "f = (n, x)" by (cases f)
  obtain a b where ab: "write_field f = Some a" "write_message fs = Some b" "buf = a @ b"
    using Cons.prems(2) unfolding write_message_Cons by blast
  have n: "field_number n" using Cons.prems(1) f by simp
  have IH: "protoField b k = Some (Inr (first_bytes k fs))" "protoVarintField b k = Some (Inr (first_uint k fs))"
    using Cons.IH [OF _ ab(2)] Cons.prems(1,3) ab(3) by simp_all
  show ?case
  proof (cases x)
    case (PBytes v)
    show ?thesis
    proof (cases "v = []")
      case True
      then show ?thesis using ab(1,3) IH f PBytes by (simp add: protoBytes_def)
    next
      case False
      then show ?thesis
        using read_bytes_field [OF n, of v a b k] ab(1,3) Cons.prems(3) IH f PBytes by simp
    qed
  next
    case (PUint v)
    show ?thesis
    proof (cases "v = 0")
      case True
      then show ?thesis using ab(1,3) IH f PUint by (simp add: protoUint_def)
    next
      case False
      then show ?thesis using read_uint_field [OF n, of v a b k] ab(1,3) IH f PUint by simp
    qed
  qed
qed

lemma protoBytes_Some: "field_number n \<Longrightarrow> \<exists>b. protoBytes n v = Some b \<and> length v \<le> length b"
  by (simp add: protoBytes_def protoTag_Some)

lemma protoUint_Some: "field_number n \<Longrightarrow> \<exists>b. protoUint n v = Some b"
  by (simp add: protoUint_def protoTag_Some)

lemma write_field_Some: "field_number (fst f) \<Longrightarrow> \<exists>b. write_field f = Some b"
  using protoBytes_Some protoUint_Some by (cases f rule: write_field.cases) fastforce+

lemma write_message_Some:
  assumes "list_all (field_number \<circ> fst) fs"
  obtains buf where "write_message fs = Some buf"
  using assms
proof (induction fs arbitrary: thesis)
  case Nil
  then show ?case by (simp add: write_message_def)
next
  case (Cons f fs)
  obtain a where "write_field f = Some a" using write_field_Some [of f] Cons.prems(2) by auto
  moreover obtain b where "write_message fs = Some b" using Cons.IH Cons.prems(2) by auto
  ultimately show ?case using Cons.prems(1) write_message_Cons [of f fs] by blast
qed

lemma written_part_length:
  assumes "write_message fs = Some buf" and "list_all (field_number \<circ> fst) fs" and "(n, PBytes v) \<in> set fs"
  shows "length v \<le> length buf"
  using assms
proof (induction fs arbitrary: buf)
  case Nil
  then show ?case by simp
next
  case (Cons f fs)
  obtain a b where ab: "write_field f = Some a" "write_message fs = Some b" "buf = a @ b"
    using Cons.prems(1) unfolding write_message_Cons by blast
  show ?case
  proof (cases "f = (n, PBytes v)")
    case True
    then show ?thesis using ab(1,3) protoBytes_Some [of n v] Cons.prems(2) by auto
  next
    case False
    then show ?thesis using Cons.IH [OF ab(2)] Cons.prems ab(3) by auto
  qed
qed

section \<open>Any buffer\<close>

lemma word_length_bound: "\<not> (word_of_nat m :: 64 word) < l \<Longrightarrow> unat l \<le> m"
  by (metis linorder_not_less word_less_nat_alt order_trans unat_of_nat mod_less_eq_dividend)

lemma sublist_drop: "sublist v (drop n buf) \<Longrightarrow> sublist v buf"
  by (meson sublist_drop sublist_order.order_trans)

lemma protoField_returns: "\<exists>r. protoField buf k = Some r \<and> (\<forall>v. r = Inr v \<longrightarrow> sublist v buf)"
proof (induction buf rule: length_induct)
  case (1 buf)
  define P where "P r \<longleftrightarrow> (\<exists>x. r = Some x \<and> (\<forall>v. x = Inr v \<longrightarrow> sublist v buf))" for r :: "(proto_error + bytes) option"
  have PI: "P (Some (Inl e))" "sublist v buf \<Longrightarrow> P (Some (Inr v))" for e v by (simp_all add: P_def)
  have rec: "P (protoField (drop m buf) k)" if "0 < m" "buf \<noteq> []" for m
    using "1.IH" [rule_format, of "drop m buf"] that sublist_drop unfolding P_def by fastforce
  show ?case
  proof (cases "buf = []")
    case True
    then show ?thesis by simp
  next
    case False
    obtain t n where t: "readVarint buf = (t, n)" by fastforce
    obtain l m where l: "readVarint (drop n buf) = (l, m)" by fastforce
    have s: "sublist (take i (drop j buf)) buf" for i j
      by (meson sublist_drop sublist_take sublist_order.order_trans)
    have "P (protoField buf k)"
      using False rec PI s by (subst protoField.simps) (simp add: t l Let_def drop_drop add.commute)
    then show ?thesis by (simp add: P_def)
  qed
qed

lemma protoVarintField_returns: "\<exists>r. protoVarintField buf k = Some r"
proof (induction buf rule: length_induct)
  case (1 buf)
  have rec: "\<exists>r. protoVarintField (drop m buf) k = Some r" if "0 < m" "buf \<noteq> []" for m
    using "1.IH" [rule_format, of "drop m buf"] that by fastforce
  show ?case
  proof (cases "buf = []")
    case True
    then show ?thesis by simp
  next
    case False
    obtain t n where t: "readVarint buf = (t, n)" by fastforce
    obtain l m where l: "readVarint (drop n buf) = (l, m)" by fastforce
    show ?thesis
      using False rec by (subst protoVarintField.simps) (simp add: t l Let_def drop_drop add.commute)
  qed
qed

section \<open>Properties\<close>

text \<open>
  C39. What the writer wrote is what the readers find: for any list of numbered fields, the reader
  of byte fields gives the first nonempty value written under the number asked for, the reader of
  integer fields the first one that is not zero, and each gives the default when there is none,
  whatever fields of the other kind stand between.
\<close>

theorem message_reads_back:
  assumes "list_all (field_number \<circ> fst) fs" and "write_message fs = Some buf" and "length buf < 2 ^ 64"
  shows "protoField buf k = Some (Inr (first_bytes k fs)) \<and> protoVarintField buf k = Some (Inr (first_uint k fs))"
  by (rule message_reads [OF assms])

lemma message_reads_back_witness:
  "protoField [CHR 0x0A, CHR 0x02, CHR ''a'', CHR ''b'', CHR 0x18, CHR 0xAC, CHR 0x02] 1 = Some (Inr ''ab'') \<and>
   protoVarintField [CHR 0x0A, CHR 0x02, CHR ''a'', CHR ''b'', CHR 0x18, CHR 0xAC, CHR 0x02] 3 = Some (Inr 300)"
proof -
  let ?fs = "[(1, PBytes ''ab''), (2, PBytes []), (3, PUint 300)]"
  have "write_message ?fs = Some [CHR 0x0A, CHR 0x02, CHR ''a'', CHR ''b'', CHR 0x18, CHR 0xAC, CHR 0x02]"
    by code_simp
  note m = message_reads_back [OF _ this]
  show ?thesis using m [of 1] m [of 3] by (simp add: field_number_def)
qed


end
