(* ===== verification/WalletTx.thy ===== *)
theory WalletTx
  imports ProtoSpec Sha256 "HOL-Library.Monad_Syntax"
begin

text \<open>
  The transaction of a transfer, \<^verbatim>\<open>cmd/dropin-miner/wallet_tx.go\<close>: the messages, the document that
  is signed, the raw transaction that is broadcast, and the reading of the node's account and
  balance answers.  The elliptic curve library is a parameter: \<open>wk_pub\<close> is the compressed public
  key of the wallet key and \<open>wk_compact\<close> what \<^verbatim>\<open>ecdsa.SignCompact\<close> answers for a digest.
\<close>

section \<open>Messages\<close>

definition typeURLMsgSend :: string where
  "typeURLMsgSend = ''/cosmos.bank.v1beta1.MsgSend''"

definition typeURLSecp256k1Pub :: string where
  "typeURLSecp256k1Pub = ''/cosmos.crypto.secp256k1.PubKey''"

definition signModeDirect :: "64 word" where
  "signModeDirect = 1"

definition encodeCoin :: "string \<Rightarrow> string \<Rightarrow> bytes option" where
  "encodeCoin denom amount = join_parts [protoString 1 denom, protoString 2 amount]"

definition encodeMsgSend :: "string \<Rightarrow> string \<Rightarrow> string \<Rightarrow> string \<Rightarrow> bytes option" where
  "encodeMsgSend src dst denom amount = do {
     coin \<leftarrow> encodeCoin denom amount;
     join_parts [protoString 1 src, protoString 2 dst, protoBytes 3 coin]
   }"

definition encodeAny :: "string \<Rightarrow> bytes \<Rightarrow> bytes option" where
  "encodeAny typeURL value = join_parts [protoString 1 typeURL, protoBytes 2 value]"

definition encodeTxBody :: "bytes list \<Rightarrow> string \<Rightarrow> bytes option" where
  "encodeTxBody msgs memo = join_parts (map (protoBytes 1) msgs @ [protoString 2 memo])"

definition encodeSignerInfo :: "bytes \<Rightarrow> 64 word \<Rightarrow> bytes option" where
  "encodeSignerInfo pubKey sequence = do {
     key \<leftarrow> protoBytes 1 pubKey;
     pk \<leftarrow> encodeAny typeURLSecp256k1Pub key;
     single \<leftarrow> protoUint 1 signModeDirect;
     modeInfo \<leftarrow> protoBytes 1 single;
     join_parts [protoBytes 1 pk, protoBytes 2 modeInfo, protoUint 3 sequence]
   }"

definition encodeFee :: "string \<Rightarrow> string \<Rightarrow> 64 word \<Rightarrow> bytes option" where
  "encodeFee denom amount gas = do {
     coin \<leftarrow> encodeCoin denom amount;
     join_parts [protoBytes 1 coin, protoUint 2 gas]
   }"

definition encodeAuthInfo :: "bytes \<Rightarrow> bytes \<Rightarrow> bytes option" where
  "encodeAuthInfo signerInfo fee = join_parts [protoBytes 1 signerInfo, protoBytes 2 fee]"

definition encodeSignDoc :: "bytes \<Rightarrow> bytes \<Rightarrow> string \<Rightarrow> 64 word \<Rightarrow> bytes option" where
  "encodeSignDoc body authInfo chainID accountNumber =
     join_parts [protoBytes 1 body, protoBytes 2 authInfo, protoString 3 chainID, protoUint 4 accountNumber]"

definition encodeTxRaw :: "bytes \<Rightarrow> bytes \<Rightarrow> bytes \<Rightarrow> bytes option" where
  "encodeTxRaw body authInfo signature =
     join_parts [protoBytes 1 body, protoBytes 2 authInfo, protoBytes 3 signature]"

section \<open>Signing\<close>

record send_params =
  snd_from :: string
  snd_to :: string
  snd_denom :: string
  snd_amount :: string
  snd_memo :: string
  snd_chain_id :: string
  snd_account_no :: "64 word"
  snd_sequence :: "64 word"
  snd_gas :: "64 word"
  snd_fee_amount :: string

record wallet_key =
  wk_pub :: bytes
  wk_compact :: "bytes \<Rightarrow> bytes"

datatype sign_error = SignDigestLength nat | SignSignatureLength nat

definition SignDigest :: "wallet_key \<Rightarrow> bytes \<Rightarrow> sign_error + bytes" where
  "SignDigest w digest =
     (if length digest \<noteq> 32 then Inl (SignDigestLength (length digest))
      else (let sig = wk_compact w digest
        in if length sig \<noteq> 65 then Inl (SignSignatureLength (length sig)) else Inr (drop 1 sig)))"

text \<open>The body and the authorization of \<^verbatim>\<open>buildSignedSend\<close>, then the document it signs.\<close>

definition send_body :: "send_params \<Rightarrow> bytes option" where
  "send_body p = do {
     msg \<leftarrow> encodeMsgSend (snd_from p) (snd_to p) (snd_denom p) (snd_amount p);
     any \<leftarrow> encodeAny typeURLMsgSend msg;
     encodeTxBody [any] (snd_memo p)
   }"

definition send_auth :: "bytes \<Rightarrow> send_params \<Rightarrow> bytes option" where
  "send_auth pub p = do {
     signer \<leftarrow> encodeSignerInfo pub (snd_sequence p);
     fee \<leftarrow> encodeFee (snd_denom p) (snd_fee_amount p) (snd_gas p);
     encodeAuthInfo signer fee
   }"

definition sign_doc :: "bytes \<Rightarrow> send_params \<Rightarrow> bytes option" where
  "sign_doc pub p = do {
     body \<leftarrow> send_body p;
     auth \<leftarrow> send_auth pub p;
     encodeSignDoc body auth (snd_chain_id p) (snd_account_no p)
   }"

definition buildSignedSend :: "wallet_key \<Rightarrow> send_params \<Rightarrow> (sign_error + bytes) option" where
  "buildSignedSend key p = do {
     body \<leftarrow> send_body p;
     auth \<leftarrow> send_auth (wk_pub key) p;
     doc \<leftarrow> encodeSignDoc body auth (snd_chain_id p) (snd_account_no p);
     (case SignDigest key (sha256 doc) of
        Inl e \<Rightarrow> Some (Inl e)
      | Inr sig \<Rightarrow> map_option Inr (encodeTxRaw body auth sig))
   }"

definition to_upper_hex :: "char \<Rightarrow> char" where
  "to_upper_hex c = (if is_lower c then char_of (b2n c - 32) else c)"

definition txHash :: "bytes \<Rightarrow> string" where
  "txHash txRaw = map to_upper_hex (hex_encode (sha256 txRaw))"

section \<open>Node answers\<close>

text \<open>
  \<^verbatim>\<open>account\<close> and \<^verbatim>\<open>balance\<close> on the answer of \<^verbatim>\<open>abciQuery\<close>: the text of an error, or the value, empty
  when there is none.
\<close>

record account_state =
  as_number :: "64 word"
  as_sequence :: "64 word"

datatype account_error = NoAccount | QueryFailed string | AccountDecode proto_error

definition account :: "string + bytes \<Rightarrow> (account_error + account_state) option" where
  "account answer =
     (case answer of
        Inl e \<Rightarrow> Some (Inl (if sublist ''not found'' e \<or> sublist ''key not found'' e then NoAccount else QueryFailed e))
      | Inr value \<Rightarrow>
          if value = [] then Some (Inl NoAccount)
          else do {
            any \<leftarrow> protoField value 1;
            (case any of Inl e \<Rightarrow> Some (Inl (AccountDecode e))
             | Inr anyBytes \<Rightarrow> do {
                 base \<leftarrow> protoField anyBytes 2;
                 (case base of Inl e \<Rightarrow> Some (Inl (AccountDecode e))
                  | Inr baseAccount \<Rightarrow> do {
                      num \<leftarrow> protoVarintField baseAccount 3;
                      (case num of Inl e \<Rightarrow> Some (Inl (AccountDecode e))
                       | Inr n \<Rightarrow> do {
                           sq \<leftarrow> protoVarintField baseAccount 4;
                           (case sq of Inl e \<Rightarrow> Some (Inl (AccountDecode e))
                            | Inr s \<Rightarrow> Some (Inr \<lparr>as_number = n, as_sequence = s\<rparr>))
                         })
                    })
               })
          })"

definition balance_request :: "string \<Rightarrow> string \<Rightarrow> bytes option" where
  "balance_request address denom = join_parts [protoString 1 address, protoString 2 denom]"

definition balance :: "string + bytes \<Rightarrow> (string + string) option" where
  "balance answer =
     (case answer of
        Inl e \<Rightarrow> Some (Inl e)
      | Inr value \<Rightarrow>
          if value = [] then Some (Inr ''0'')
          else do {
            coin \<leftarrow> protoField value 1;
            (case coin of
               Inl e \<Rightarrow> Some (Inr ''0'')
             | Inr c \<Rightarrow>
                 if c = [] then Some (Inr ''0'')
                 else do {
                   amount \<leftarrow> protoField c 2;
                   (case amount of
                      Inl e \<Rightarrow> Some (Inr ''0'')
                    | Inr a \<Rightarrow> Some (Inr (if a = [] then ''0'' else a)))
                 })
          })"

end
