(* ===== verification/Bech32.thy ===== *)
theory Bech32
  imports Proto Sha256
begin

text \<open>
  Addresses, \<^verbatim>\<open>pkg/auth/walletkeys.go\<close>: the bech32 encoding of BIP-173, the regrouping of bits
  below it, RIPEMD-160, and the account address of a public key.  A panic or a loop that does not
  end is \<open>None\<close>.  Case mapping outside ASCII follows the Unicode tables of package \<^verbatim>\<open>unicode\<close>;
  they are the arguments \<open>ul\<close> and \<open>uu\<close>, used only for a string that is not ASCII.
\<close>

unbundle bit_operations_syntax

section \<open>package strings\<close>

definition is_ascii :: "string \<Rightarrow> bool" where
  "is_ascii s \<longleftrightarrow> list_all (\<lambda>c. b2n c < 128) s"

definition lower_char :: "char \<Rightarrow> char" where
  "lower_char c = (if is_upper c then char_of (b2n c + 32) else c)"

definition upper_char :: "char \<Rightarrow> char" where
  "upper_char c = (if is_lower c then char_of (b2n c - 32) else c)"

definition ToLower :: "(string \<Rightarrow> string) \<Rightarrow> string \<Rightarrow> string" where
  "ToLower ul s = (if is_ascii s then map lower_char s else ul s)"

definition ToUpper :: "(string \<Rightarrow> string) \<Rightarrow> string \<Rightarrow> string" where
  "ToUpper uu s = (if is_ascii s then map upper_char s else uu s)"

text \<open>\<^verbatim>\<open>strings.LastIndexByte\<close>.\<close>

definition LastIndexByte :: "string \<Rightarrow> char \<Rightarrow> int" where
  "LastIndexByte s c =
     (if c \<in> set s then int (length s) - 1 - int (length (takeWhile (\<lambda>x. x \<noteq> c) (rev s))) else -1)"

text \<open>\<^verbatim>\<open>range\<close> over a string: the runes, U+FFFD for a byte that starts none.\<close>

function go_runes :: "string \<Rightarrow> nat list" where
  "go_runes s =
     (case s of
        [] \<Rightarrow> []
      | c # r \<Rightarrow>
          (case decode_rune s of
             None \<Rightarrow> 0xFFFD # go_runes r
           | Some (u, w) \<Rightarrow> u # go_runes (drop w s)))"
  by pat_completeness auto
termination
  by (relation "measure length") (auto dest!: decode_rune_width)

declare go_runes.simps [simp del]

lemma go_runes_ascii: "is_ascii s \<Longrightarrow> go_runes s = map b2n s"
proof (induction s)
  case Nil
  then show ?case by (simp add: go_runes.simps)
next
  case (Cons c s)
  then have "decode_rune (c # s) = Some (b2n c, 1)" by (simp add: decode_rune_def is_ascii_def)
  with Cons show ?case by (subst go_runes.simps) (simp add: is_ascii_def)
qed

section \<open>Regrouping bits\<close>

datatype bech32_error =
    MixedCase
  | Malformed
  | BadPrefixChar
  | BadDataChar
  | ChecksumMismatch
  | BadRange char
  | BadPadding

definition maxv :: "nat \<Rightarrow> 64 word" where
  "maxv to = push_bit to 1 - 1"

partial_function (option) emit_groups :: "nat \<Rightarrow> 64 word \<Rightarrow> nat \<Rightarrow> (bytes \<times> nat) option" where
  "emit_groups to acc bits =
     (if to \<le> bits then
        Option.bind (emit_groups to acc (bits - to))
          (\<lambda>(out, rest). Some (byte_of (drop_bit (bits - to) acc AND maxv to AND 0xff) # out, rest))
      else Some ([], bits))"

declare emit_groups.simps [code]

fun convert_loop ::
    "nat \<Rightarrow> nat \<Rightarrow> 64 word \<Rightarrow> nat \<Rightarrow> bytes \<Rightarrow> bytes \<Rightarrow> (bech32_error + 64 word \<times> nat \<times> bytes) option" where
  "convert_loop src to acc bits out [] = Some (Inr (acc, bits, out))"
| "convert_loop src to acc bits out (b # data) =
     (if drop_bit src (word_of_nat (b2n b) :: 64 word) \<noteq> 0 then Some (Inl (BadRange b))
      else (let acc = push_bit src acc OR word_of_nat (b2n b)
        in (case emit_groups to acc (bits + src) of
              None \<Rightarrow> None
            | Some (g, bits) \<Rightarrow> convert_loop src to acc bits (out @ g) data)))"

definition convertBits :: "bytes \<Rightarrow> nat \<Rightarrow> nat \<Rightarrow> bool \<Rightarrow> (bech32_error + bytes) option" where
  "convertBits data src to pad =
     (case convert_loop src to 0 0 [] data of
        None \<Rightarrow> None
      | Some (Inl e) \<Rightarrow> Some (Inl e)
      | Some (Inr (acc, bits, out)) \<Rightarrow>
          if pad then
            Some (Inr (if 0 < bits then out @ [byte_of (push_bit (to - bits) acc AND maxv to AND 0xff)] else out))
          else if src \<le> bits \<or> push_bit (to - bits) acc AND maxv to \<noteq> 0 then Some (Inl BadPadding)
          else Some (Inr out))"

section \<open>The checksum\<close>

definition bech32Charset :: string where
  "bech32Charset = ''qpzry9x8gf2tvdw0s3jn54khce6mua7l''"

definition bech32Gen :: "w32 list" where
  "bech32Gen = [0x3b6a57b2, 0x26508e6d, 0x1ea119fa, 0x3d4233dd, 0x2a1462b3]"

definition polymod_step :: "w32 \<Rightarrow> char \<Rightarrow> w32" where
  "polymod_step chk v =
     (let top = drop_bit 25 chk;
          chk = push_bit 5 (chk AND 0x1ffffff) XOR word_of_nat (b2n v)
      in foldl (\<lambda>chk i. if drop_bit i top AND 1 = 1 then chk XOR bech32Gen ! i else chk) chk [0..<5])"

definition bech32Polymod :: "bytes \<Rightarrow> w32" where
  "bech32Polymod values = foldl polymod_step 1 values"

definition bech32HRPExpand :: "string \<Rightarrow> bytes" where
  "bech32HRPExpand hrp =
     map (\<lambda>c. char_of (c mod 128 div 32)) (go_runes hrp) @ [CHR 0x00] @ map (\<lambda>c. char_of (c mod 32)) (go_runes hrp)"

text \<open>\<^verbatim>\<open>bech32Charset[v]\<close>, a panic out of range, and \<^verbatim>\<open>IndexRune\<close> of a character.\<close>

definition charset_at :: "nat \<Rightarrow> char option" where
  "charset_at v = (if v < length bech32Charset then Some (bech32Charset ! v) else None)"

fun charset_string :: "bytes \<Rightarrow> string option" where
  "charset_string [] = Some []"
| "charset_string (v # vs) =
     (case (charset_at (b2n v), charset_string vs) of
        (Some c, Some cs) \<Rightarrow> Some (c # cs)
      | _ \<Rightarrow> None)"

definition charset_index :: "char \<Rightarrow> nat option" where
  "charset_index c =
     (let i = length (takeWhile (\<lambda>x. x \<noteq> c) bech32Charset)
      in if i < length bech32Charset then Some i else None)"

fun charset_values :: "string \<Rightarrow> bytes option" where
  "charset_values [] = Some []"
| "charset_values (c # cs) =
     (case (charset_index c, charset_values cs) of
        (Some i, Some vs) \<Rightarrow> Some (char_of (i mod 32) # vs)
      | _ \<Rightarrow> None)"

definition checksum_values :: "w32 \<Rightarrow> bytes" where
  "checksum_values polymod = map (\<lambda>i. char_of (unat (drop_bit (5 * (5 - i)) polymod AND 31))) [0..<6]"

definition bech32Encode :: "string \<Rightarrow> bytes \<Rightarrow> (bech32_error + string) option" where
  "bech32Encode hrp data =
     (case convertBits data 8 5 True of
        None \<Rightarrow> None
      | Some (Inl e) \<Rightarrow> Some (Inl e)
      | Some (Inr five) \<Rightarrow>
          (let values = bech32HRPExpand hrp @ five;
               polymod = bech32Polymod (values @ replicate 6 CHR 0x00) XOR 1
           in map_option (\<lambda>cs. Inr (hrp @ ''1'' @ cs)) (charset_string (five @ checksum_values polymod))))"

definition bech32Decode ::
    "(string \<Rightarrow> string) \<Rightarrow> (string \<Rightarrow> string) \<Rightarrow> string \<Rightarrow> (bech32_error + string \<times> bytes) option" where
  "bech32Decode ul uu s =
     (if ToLower ul s \<noteq> s \<and> ToUpper uu s \<noteq> s then Some (Inl MixedCase)
      else (let s = ToLower ul s; sep = LastIndexByte s CHR ''1''
        in if sep < 1 \<or> int (length s) < sep + 7 \<or> 90 < length s then Some (Inl Malformed)
           else (let hrp = take (nat sep) s; rest = drop (nat sep + 1) s
             in if list_ex (\<lambda>c. c < 33 \<or> 126 < c) (go_runes hrp) then Some (Inl BadPrefixChar)
                else (case charset_values rest of
                  None \<Rightarrow> Some (Inl BadDataChar)
                | Some data \<Rightarrow>
                    if bech32Polymod (bech32HRPExpand hrp @ data) \<noteq> 1 then Some (Inl ChecksumMismatch)
                    else (case convertBits (take (length data - 6) data) 5 8 False of
                      None \<Rightarrow> None
                    | Some (Inl e) \<Rightarrow> Some (Inl e)
                    | Some (Inr decoded) \<Rightarrow> Some (Inr (hrp, decoded)))))))"

section \<open>RIPEMD-160\<close>

definition rmdR :: "nat list" where
  "rmdR =
     [0, 1, 2, 3, 4, 5, 6, 7, 8, 9, 10, 11, 12, 13, 14, 15,
      7, 4, 13, 1, 10, 6, 15, 3, 12, 0, 9, 5, 2, 14, 11, 8,
      3, 10, 14, 4, 9, 15, 8, 1, 2, 7, 0, 6, 13, 11, 5, 12,
      1, 9, 11, 10, 0, 8, 12, 4, 13, 3, 7, 15, 14, 5, 6, 2,
      4, 0, 5, 9, 7, 12, 2, 10, 14, 1, 3, 8, 11, 6, 15, 13]"

definition rmdRp :: "nat list" where
  "rmdRp =
     [5, 14, 7, 0, 9, 2, 11, 4, 13, 6, 15, 8, 1, 10, 3, 12,
      6, 11, 3, 7, 0, 13, 5, 10, 14, 15, 8, 12, 4, 9, 1, 2,
      15, 5, 1, 3, 7, 14, 6, 9, 11, 8, 12, 2, 10, 0, 4, 13,
      8, 6, 4, 1, 3, 11, 15, 0, 5, 12, 2, 13, 9, 7, 10, 14,
      12, 15, 10, 4, 1, 5, 8, 7, 6, 2, 13, 14, 0, 3, 9, 11]"

definition rmdS :: "nat list" where
  "rmdS =
     [11, 14, 15, 12, 5, 8, 7, 9, 11, 13, 14, 15, 6, 7, 9, 8,
      7, 6, 8, 13, 11, 9, 7, 15, 7, 12, 15, 9, 11, 7, 13, 12,
      11, 13, 6, 7, 14, 9, 13, 15, 14, 8, 13, 6, 5, 12, 7, 5,
      11, 12, 14, 15, 14, 15, 9, 8, 9, 14, 5, 6, 8, 6, 5, 12,
      9, 15, 5, 11, 6, 8, 13, 12, 5, 12, 13, 14, 11, 8, 5, 6]"

definition rmdSp :: "nat list" where
  "rmdSp =
     [8, 9, 9, 11, 13, 15, 15, 5, 7, 7, 8, 11, 14, 14, 12, 6,
      9, 13, 15, 7, 12, 8, 9, 11, 7, 7, 12, 7, 6, 15, 13, 11,
      9, 7, 15, 11, 8, 6, 6, 14, 12, 13, 5, 14, 13, 13, 7, 5,
      15, 5, 8, 11, 14, 14, 6, 14, 6, 9, 12, 9, 12, 5, 15, 8,
      8, 5, 12, 9, 12, 5, 14, 6, 8, 13, 6, 5, 15, 13, 11, 11]"

definition rmdF :: "nat \<Rightarrow> w32 \<Rightarrow> w32 \<Rightarrow> w32 \<Rightarrow> w32" where
  "rmdF j x y z =
     (if j < 16 then x XOR y XOR z
      else if j < 32 then (x AND y) OR (NOT x AND z)
      else if j < 48 then (x OR NOT y) XOR z
      else if j < 64 then (x AND z) OR (y AND NOT z)
      else x XOR (y OR NOT z))"

definition rmdK :: "nat \<Rightarrow> w32" where
  "rmdK j = [0x00000000, 0x5a827999, 0x6ed9eba1, 0x8f1bbcdc, 0xa953fd4e] ! (j div 16)"

definition rmdKp :: "nat \<Rightarrow> w32" where
  "rmdKp j = [0x50a28be6, 0x5c4dd124, 0x6d703ef3, 0x7a6d76e9, 0x00000000] ! (j div 16)"

definition rol :: "w32 \<Rightarrow> nat \<Rightarrow> w32" where
  "rol x n = push_bit n x OR drop_bit (32 - n) x"

type_synonym rmd_line = "w32 \<times> w32 \<times> w32 \<times> w32 \<times> w32"

fun rmd_left :: "w32 list \<Rightarrow> nat \<Rightarrow> rmd_line \<Rightarrow> rmd_line" where
  "rmd_left x j (a, b, c, d, e) =
     (let t = rol (a + rmdF j b c d + x ! (rmdR ! j) + rmdK j) (rmdS ! j) + e in (e, t, b, rol c 10, d))"

fun rmd_right :: "w32 list \<Rightarrow> nat \<Rightarrow> rmd_line \<Rightarrow> rmd_line" where
  "rmd_right x j (a, b, c, d, e) =
     (let t = rol (a + rmdF (79 - j) b c d + x ! (rmdRp ! j) + rmdKp j) (rmdSp ! j) + e in (e, t, b, rol c 10, d))"

fun rmd_block :: "w32 list \<Rightarrow> rmd_line \<Rightarrow> rmd_line" where
  "rmd_block x (h0, h1, h2, h3, h4) =
     (case (foldl (\<lambda>l j. rmd_left x j l) (h0, h1, h2, h3, h4) [0..<80],
            foldl (\<lambda>l j. rmd_right x j l) (h0, h1, h2, h3, h4) [0..<80]) of
        ((a, b, c, d, e), (ap, bp, cp, dp, ep)) \<Rightarrow>
          (h1 + c + dp, h2 + d + ep, h3 + e + ap, h4 + a + bp, h0 + b + cp))"

text \<open>\<^verbatim>\<open>encoding/binary\<close>, little endian.\<close>

definition le_bytes :: "nat \<Rightarrow> nat \<Rightarrow> bytes" where
  "le_bytes k n = rev (be_bytes k n)"

fun le_words :: "bytes \<Rightarrow> w32 list" where
  "le_words (a # b # c # d # r) = word_of_nat (be_value [d, c, b, a]) # le_words r"
| "le_words _ = []"

function pad_zeros :: "bytes \<Rightarrow> bytes" where
  "pad_zeros padded = (if length padded mod 64 \<noteq> 56 then pad_zeros (padded @ [CHR 0x00]) else padded)"
  by pat_completeness auto
termination
  by (relation "measure (\<lambda>s. if length s mod 64 \<le> 56 then 56 - length s mod 64 else 120 - length s mod 64)")
    (auto simp: mod_Suc)

declare pad_zeros.simps [simp del]

function rmd_blocks :: "bytes \<Rightarrow> rmd_line \<Rightarrow> rmd_line" where
  "rmd_blocks s h = (if s = [] then h else rmd_blocks (drop 64 s) (rmd_block (le_words (take 64 s)) h))"
  by pat_completeness auto
termination
  by (relation "measure (\<lambda>(s, _). length s)") auto

declare rmd_blocks.simps [simp del]

definition ripemd160Sum :: "bytes \<Rightarrow> bytes" where
  "ripemd160Sum msg =
     (let padded = pad_zeros (msg @ [CHR 0x80]) @ le_bytes 8 (length msg * 8)
      in (case rmd_blocks padded (0x67452301, 0xefcdab89, 0x98badcfe, 0x10325476, 0xc3d2e1f0) of
            (h0, h1, h2, h3, h4) \<Rightarrow> concat (map (\<lambda>v. le_bytes 4 (unat v)) [h0, h1, h2, h3, h4])))"

definition TwilightHRP :: string where
  "TwilightHRP = ''twilight''"

definition AddressFromPubKey :: "string \<Rightarrow> bytes \<Rightarrow> (bech32_error + string) option" where
  "AddressFromPubKey hrp compressed = bech32Encode hrp (ripemd160Sum (sha256 compressed))"

end
