(* ===== verification/WalletJournal.thy ===== *)
theory WalletJournal
  imports Base64 WalletTx Bech32 Fsx Json
begin

text \<open>
  The journal of the wallet, \<^verbatim>\<open>cmd/dropin-miner/wallet_journal.go\<close>, and the commands that use it:
  \<^verbatim>\<open>walletSend\<close> of \<^verbatim>\<open>wallet.go\<close> with \<^verbatim>\<open>broadcast\<close>, \<^verbatim>\<open>queryTxOnce\<close> and \<^verbatim>\<open>waitForTx\<close> of \<^verbatim>\<open>wallet_tx.go\<close>.

  The node is a record of its endpoints; the code asks each at most once while it holds
  \<^verbatim>\<open>wallet.lock\<close>.  What the commands tell the network and the user is a list of events, the
  newest first; the wallet directory is the file system of theory Fs.  A panic is \<open>Panics\<close>.
  The tables of package \<^verbatim>\<open>unicode\<close> are arguments, used only for text that is not ASCII.
\<close>

section \<open>Strings\<close>

record unicode =
  uc_lower :: "string \<Rightarrow> string"
  uc_upper :: "string \<Rightarrow> string"
  uc_fold :: "string \<Rightarrow> string \<Rightarrow> bool"

definition EqualFold :: "unicode \<Rightarrow> string \<Rightarrow> string \<Rightarrow> bool" where
  "EqualFold uc s t \<longleftrightarrow>
     (if is_ascii s \<and> is_ascii t then map lower_char s = map lower_char t else uc_fold uc s t)"

text \<open>\<^verbatim>\<open>strconv.ParseInt(s, 10, 64)\<close>.\<close>

definition ParseInt :: "string \<Rightarrow> int option" where
  "ParseInt s =
     (case s of
        [] \<Rightarrow> None
      | c # r \<Rightarrow>
          (let neg = (c = CHR ''-''); ds = (if neg \<or> c = CHR ''+'' then r else s); v = dec_value ds
           in if ds = [] \<or> \<not> list_all is_digit ds then None
              else if neg then (if v \<le> 2 ^ 63 then Some (- int v) else None)
              else if v < 2 ^ 63 then Some (int v) else None))"

definition isPositiveInteger :: "string \<Rightarrow> bool" where
  "isPositiveInteger s \<longleftrightarrow> s \<noteq> [] \<and> list_all is_digit s \<and> list_ex (\<lambda>c. c \<noteq> CHR ''0'') s"

section \<open>The node\<close>

text \<open>
  An answer of \<^verbatim>\<open>rpcClient.get\<close>: its error, a result that does not unmarshal, or the result.
  An absent code is \<open>None\<close>, as \<^verbatim>\<open>CodeSet\<close> records it.
\<close>

datatype 'a reply = Refused string | Garbled | Reply 'a

record tx_result =
  tr_hash :: string
  tr_height :: string
  tr_code :: "nat option"

record broadcast_result =
  br_code :: "nat option"
  br_hash :: string

record node =
  nd_tx :: "string \<Rightarrow> tx_result reply"
  nd_broadcast :: "string \<Rightarrow> broadcast_result reply"
  nd_network :: "string reply"
  nd_account :: "string + bytes"

datatype event =
    EvSent bytes
  | EvConfirmed string
  | EvRejected string
  | EvAbandoned string
  | EvUncertain string
  | EvPowerLoss

definition confirmed :: "unicode \<Rightarrow> tx_result \<Rightarrow> string \<Rightarrow> bool" where
  "confirmed uc tr wantHash \<longleftrightarrow>
     EqualFold uc (tr_hash tr) wantHash \<and> tr_code tr \<noteq> None \<and>
     (case ParseInt (tr_height tr) of None \<Rightarrow> False | Some h \<Rightarrow> h > 0)"

definition trim_prefix :: "string \<Rightarrow> string \<Rightarrow> string" where
  "trim_prefix p s = (if prefix p s then drop (length p) s else s)"

text \<open>\<^verbatim>\<open>queryTxOnce\<close>: \<open>None\<close> for an error, else the result, \<^verbatim>\<open>found\<close> and \<^verbatim>\<open>confirmed\<close>.\<close>

definition queryTxOnce :: "unicode \<Rightarrow> node \<Rightarrow> string \<Rightarrow> (tx_result option \<times> bool \<times> bool) option" where
  "queryTxOnce uc nd hash =
     (let wantHash = ToUpper (uc_upper uc) hash
      in case nd_tx nd (''0x'' @ trim_prefix ''0X'' wantHash) of
           Refused e \<Rightarrow>
             if sublist ''not found'' (ToLower (uc_lower uc) e) then Some (None, False, False) else None
         | Garbled \<Rightarrow> None
         | Reply out \<Rightarrow> Some (Some out, True, confirmed uc out wantHash))"

text \<open>One node of the list for each poll; the context ends with the list.\<close>

fun waitForTx :: "unicode \<Rightarrow> string \<Rightarrow> node list \<Rightarrow> tx_result option" where
  "waitForTx uc hash [] = None"
| "waitForTx uc hash (nd # nds) =
     (case queryTxOnce uc nd hash of
        None \<Rightarrow> None
      | Some (res, _, c) \<Rightarrow> if c then res else waitForTx uc hash nds)"

definition broadcast :: "unicode \<Rightarrow> node \<Rightarrow> bytes \<Rightarrow> event list \<Rightarrow> broadcast_result option \<times> event list" where
  "broadcast uc nd txRaw evs =
     (let evs = EvSent txRaw # evs
      in case nd_broadcast nd (''0x'' @ hex_encode txRaw) of
           Reply res \<Rightarrow>
             (let want = txHash txRaw
              in if br_code res = None \<or> \<not> EqualFold uc (br_hash res) want then (None, evs) else (Some res, evs))
         | _ \<Rightarrow> (None, evs))"

definition chainID :: "node \<Rightarrow> string option" where
  "chainID nd = (case nd_network nd of Reply n \<Rightarrow> if n = [] then None else Some n | _ \<Rightarrow> None)"

section \<open>The journal file\<close>

record pending_tx =
  pt_version :: int
  pt_hash :: string
  pt_tx_raw :: string
  pt_to :: string
  pt_amount :: string
  pt_denom :: string
  pt_chain_id :: string
  pt_sequence :: "64 word"
  pt_created_at :: string

text \<open>A file of the wallet directory: a record of a pending transaction, or anything else.\<close>

datatype wallet_file = PendingTx pending_tx | OtherFile

type_synonym wworld = "wallet_file world"

datatype journal_error = JournalFs os_error | JournalSyntax | JournalShape

definition pendingTxFile :: string where
  "pendingTxFile = ''pending_tx.json''"

definition pendingTxVersion :: int where
  "pendingTxVersion = 1"

definition txRaw :: "pending_tx \<Rightarrow> bytes option" where
  "txRaw p = DecodeString (pt_tx_raw p)"

definition readWalletFile :: "string \<Rightarrow> string \<Rightarrow> wworld \<Rightarrow> (journal_error + pending_tx) \<times> wworld" where
  "readWalletFile dir name w =
     (case os_stat (dir, name) w of
        (Some e, w) \<Rightarrow> (Inl (JournalFs e), w)
      | (None, w) \<Rightarrow>
          (case os_read_file (dir, name) w of
             (Inl e, w) \<Rightarrow> (Inl (JournalFs e), w)
           | (Inr (Some (PendingTx p)), w) \<Rightarrow> (Inr p, w)
           | (Inr _, w) \<Rightarrow> (Inl JournalSyntax, w)))"

text \<open>What unmarshalling gives back for a record that was marshalled.\<close>

definition as_json :: "pending_tx \<Rightarrow> pending_tx" where
  "as_json p = \<lparr>pt_version = pt_version p, pt_hash = json_text (pt_hash p),
     pt_tx_raw = json_text (pt_tx_raw p), pt_to = json_text (pt_to p), pt_amount = json_text (pt_amount p),
     pt_denom = json_text (pt_denom p), pt_chain_id = json_text (pt_chain_id p),
     pt_sequence = pt_sequence p, pt_created_at = json_text (pt_created_at p)\<rparr>"

definition writeWalletFile :: "string \<Rightarrow> string \<Rightarrow> pending_tx \<Rightarrow> wworld \<Rightarrow> stage_error option \<times> wworld" where
  "writeWalletFile dir name p w = WriteFileAtomic dir name (PendingTx (as_json p)) 384 w"

definition writePendingTx :: "string \<Rightarrow> pending_tx \<Rightarrow> wworld \<Rightarrow> stage_error option \<times> wworld" where
  "writePendingTx dir p w = writeWalletFile dir pendingTxFile (p\<lparr>pt_version := pendingTxVersion\<rparr>) w"

definition loadPendingTx :: "string \<Rightarrow> wworld \<Rightarrow> (journal_error + pending_tx option) \<times> wworld" where
  "loadPendingTx dir w =
     (case readWalletFile dir pendingTxFile w of
        (Inl e, w) \<Rightarrow> (if e = JournalFs ErrNotExist then Inr None else Inl e, w)
      | (Inr p, w) \<Rightarrow>
          (if pt_version p \<noteq> pendingTxVersion \<or> pt_hash p = [] \<or> pt_tx_raw p = [] then Inl JournalShape
           else Inr (Some p), w))"

definition removePendingTx :: "string \<Rightarrow> wworld \<Rightarrow> os_error option \<times> wworld" where
  "removePendingTx dir w =
     (case os_remove (dir, pendingTxFile) w of
        (err, w) \<Rightarrow> (if err = Some ErrNotExist then None else err, w))"

definition removePendingTxIfHash ::
    "unicode \<Rightarrow> string \<Rightarrow> string \<Rightarrow> wworld \<Rightarrow> (bool \<times> string \<times> journal_error option) \<times> wworld" where
  "removePendingTxIfHash uc dir expectedHash w =
     (case loadPendingTx dir w of
        (Inl e, w) \<Rightarrow> ((False, [], Some e), w)
      | (Inr None, w) \<Rightarrow> ((False, [], None), w)
      | (Inr (Some p), w) \<Rightarrow>
          (if \<not> EqualFold uc (pt_hash p) expectedHash then ((False, pt_hash p, None), w)
           else (case removePendingTx dir w of
                   (Some e, w) \<Rightarrow> ((False, pt_hash p, Some (JournalFs e)), w)
                 | (None, w) \<Rightarrow> ((True, pt_hash p, None), w))))"

section \<open>Resolving a pending transaction\<close>

datatype pending_outcome = PendingNone | PendingResolved | PendingUnresolved | PendingCheckFailed

type_synonym site = "wworld \<times> event list"

definition resolvePendingTxLocked :: "unicode \<Rightarrow> node \<Rightarrow> string \<Rightarrow> site \<Rightarrow> pending_outcome \<times> site" where
  "resolvePendingTxLocked uc nd dir st =
     (case st of (w, evs) \<Rightarrow>
      case loadPendingTx dir w of
        (Inl e, w) \<Rightarrow> (PendingCheckFailed, (w, evs))
      | (Inr None, w) \<Rightarrow> (PendingNone, (w, evs))
      | (Inr (Some p), w) \<Rightarrow>
     (case queryTxOnce uc nd (pt_hash p) of
        None \<Rightarrow> (PendingCheckFailed, (w, evs))
      | Some (res, found, conf) \<Rightarrow>
          if conf then
            (case removePendingTx dir w of
               (Some e, w) \<Rightarrow> (PendingCheckFailed, (w, EvConfirmed (pt_hash p) # evs))
             | (None, w) \<Rightarrow> (PendingResolved, (w, EvConfirmed (pt_hash p) # evs)))
          else if found \<and> (case res of None \<Rightarrow> False | Some r \<Rightarrow> EqualFold uc (tr_hash r) (pt_hash p))
          then (PendingUnresolved, (w, evs))
          else
            (case txRaw p of
               None \<Rightarrow> (PendingCheckFailed, (w, evs))
             | Some raw \<Rightarrow> (PendingUnresolved, (w, snd (broadcast uc nd raw evs))))))"

section \<open>Sending\<close>

definition exitOK :: nat where "exitOK = 0"
definition exitTransport :: nat where "exitTransport = 1"
definition exitUsage :: nat where "exitUsage = 2"
definition exitChainRejected :: nat where "exitChainRejected = 3"
definition exitOutcomeUnknown :: nat where "exitOutcomeUnknown = 5"

record send_args =
  sa_to :: string
  sa_amount :: string
  sa_denom :: string
  sa_memo :: string
  sa_gas :: "64 word"
  sa_fee :: string
  sa_yes :: bool

text \<open>
  What the rest of the program hands to the command: the address of the sidecar, the expected
  chain, whether a node was found and passes \<^verbatim>\<open>validateNodeURL\<close>, the answer to the prompt
  (\<open>None\<close> when the input ended), the key or the exit code of the steps that open it, the clock.
\<close>

record send_context =
  sx_address :: string
  sx_chain :: string
  sx_node_ok :: bool
  sx_answer :: "bool option"
  sx_key :: "nat + wallet_key"
  sx_now :: string

datatype send_result = Exits nat | Panics | Submitted string string

definition send_checks :: "unicode \<Rightarrow> send_args \<Rightarrow> send_context \<Rightarrow> send_result option" where
  "send_checks uc a x =
     (if sa_to a = [] \<or> sa_amount a = [] then Some (Exits exitUsage)
      else (case bech32Decode (uc_lower uc) (uc_upper uc) (sa_to a) of
              None \<Rightarrow> Some Panics
            | Some (Inl e) \<Rightarrow> Some (Exits exitUsage)
            | Some (Inr (hrp, payload)) \<Rightarrow>
                if hrp \<noteq> TwilightHRP then Some (Exits exitUsage)
                else if \<not> isPositiveInteger (sa_amount a) then Some (Exits exitUsage)
                else if \<not> isPositiveInteger (sa_fee a) then Some (Exits exitUsage)
                else if sx_address x = sa_to a then Some (Exits exitUsage)
                else if sx_chain x = [] then Some (Exits exitUsage)
                else if \<not> sx_node_ok x then Some (Exits exitUsage)
                else None))"

text \<open>From the check of the node's chain to the signed transaction: no file is touched.\<close>

definition sign_transfer :: "node \<Rightarrow> send_args \<Rightarrow> send_context \<Rightarrow> send_result + bytes \<times> account_state" where
  "sign_transfer nd a x =
     (case chainID nd of
        None \<Rightarrow> Inl (Exits exitTransport)
      | Some reported \<Rightarrow>
          if reported \<noteq> sx_chain x then Inl (Exits exitUsage)
          else
     (case account (nd_account nd) of
        None \<Rightarrow> Inl Panics
      | Some (Inl e) \<Rightarrow> Inl (Exits exitTransport)
      | Some (Inr acct) \<Rightarrow>
          if \<not> sa_yes a \<and> sx_answer x = None then Inl (Exits exitUsage)
          else if \<not> sa_yes a \<and> sx_answer x = Some False then Inl (Exits exitOK)
          else
     (case sx_key x of
        Inl code \<Rightarrow> Inl (Exits code)
      | Inr key \<Rightarrow>
     (case buildSignedSend key
        \<lparr>snd_from = sx_address x, snd_to = sa_to a, snd_denom = sa_denom a, snd_amount = sa_amount a,
         snd_memo = sa_memo a, snd_chain_id = sx_chain x, snd_account_no = as_number acct,
         snd_sequence = as_sequence acct, snd_gas = sa_gas a, snd_fee_amount = sa_fee a\<rparr> of
        None \<Rightarrow> Inl Panics
      | Some (Inl e) \<Rightarrow> Inl (Exits exitTransport)
      | Some (Inr raw) \<Rightarrow> Inr (raw, acct)))))"

text \<open>The journal entry and the first broadcast.\<close>

definition journal_entry :: "send_args \<Rightarrow> send_context \<Rightarrow> account_state \<Rightarrow> bytes \<Rightarrow> pending_tx" where
  "journal_entry a x acct raw =
     \<lparr>pt_version = 0, pt_hash = txHash raw, pt_tx_raw = EncodeToString raw, pt_to = sa_to a,
      pt_amount = sa_amount a, pt_denom = sa_denom a, pt_chain_id = sx_chain x,
      pt_sequence = as_sequence acct, pt_created_at = sx_now x\<rparr>"

definition uncertain_event :: "string \<Rightarrow> stage_error option \<Rightarrow> event list \<Rightarrow> event list" where
  "uncertain_event hash err evs =
     (case err of None \<Rightarrow> evs | Some e \<Rightarrow> if se_published e then EvUncertain hash # evs else evs)"

definition first_broadcast ::
    "unicode \<Rightarrow> node \<Rightarrow> string \<Rightarrow> pending_tx \<Rightarrow> bytes \<Rightarrow> site \<Rightarrow> send_result \<times> site" where
  "first_broadcast uc nd dir entry raw st =
     (case st of (w, evs) \<Rightarrow>
      case writePendingTx dir entry w of
        (Some e, w) \<Rightarrow> (Exits exitTransport, (w, uncertain_event (txHash raw) (Some e) evs))
      | (None, w) \<Rightarrow>
     (case broadcast uc nd raw evs of
        (None, evs) \<Rightarrow> (Exits exitOutcomeUnknown, (w, evs))
      | (Some res, evs) \<Rightarrow>
          if br_code res \<noteq> Some 0
          then (Exits exitChainRejected, (snd (removePendingTx dir w), EvRejected (txHash raw) # evs))
          else (Submitted (txHash raw) (br_hash res), (w, evs))))"

text \<open>\<^verbatim>\<open>walletSend\<close> from the lock to its release.\<close>

definition send_locked ::
    "unicode \<Rightarrow> node \<Rightarrow> send_args \<Rightarrow> send_context \<Rightarrow> string \<Rightarrow> site \<Rightarrow> send_result \<times> site" where
  "send_locked uc nd a x dir st =
     (case resolvePendingTxLocked uc nd dir st of
        (PendingResolved, st) \<Rightarrow> (Exits exitOK, st)
      | (PendingUnresolved, st) \<Rightarrow> (Exits exitOutcomeUnknown, st)
      | (PendingCheckFailed, st) \<Rightarrow> (Exits exitTransport, st)
      | (PendingNone, st) \<Rightarrow>
          (case sign_transfer nd a x of
             Inl r \<Rightarrow> (r, st)
           | Inr (raw, acct) \<Rightarrow> first_broadcast uc nd dir (journal_entry a x acct raw) raw st))"

definition walletSend ::
    "unicode \<Rightarrow> node \<Rightarrow> send_args \<Rightarrow> send_context \<Rightarrow> string \<Rightarrow> site \<Rightarrow> send_result \<times> site" where
  "walletSend uc nd a x dir st =
     (case send_checks uc a x of Some r \<Rightarrow> (r, st) | None \<Rightarrow> send_locked uc nd a x dir st)"

text \<open>After the wait: the confirmed transaction leaves the journal if it still owns it.\<close>

definition send_cleanup :: "unicode \<Rightarrow> string \<Rightarrow> string \<Rightarrow> tx_result \<Rightarrow> site \<Rightarrow> nat \<times> site" where
  "send_cleanup uc dir hash tx st =
     (case st of (w, evs) \<Rightarrow>
      (if tr_code tx \<noteq> Some 0 then exitChainRejected else exitOK,
       (snd (removePendingTxIfHash uc dir hash w), EvConfirmed hash # evs)))"

text \<open>\<^verbatim>\<open>wallet send -abandon-pending\<close>.\<close>

definition abandon_pending :: "string \<Rightarrow> site \<Rightarrow> nat \<times> site" where
  "abandon_pending dir st =
     (case st of (w, evs) \<Rightarrow>
      case loadPendingTx dir w of
        (Inl e, w) \<Rightarrow> (exitTransport, (w, evs))
      | (Inr None, w) \<Rightarrow> (exitOK, (w, evs))
      | (Inr (Some p), w) \<Rightarrow>
          (case removePendingTx dir w of
             (Some e, w) \<Rightarrow> (exitTransport, (w, evs))
           | (None, w) \<Rightarrow> (exitOK, (w, EvAbandoned (pt_hash p) # evs))))"

section \<open>All commands together\<close>

text \<open>
  The wallet directory under any sequence of commands of any number of processes.  What runs
  under \<^verbatim>\<open>wallet.lock\<close> is one step; the plan of a step decides which of its system calls fail
  and where its process dies.  \<open>wy_waiting\<close> are the senders whose transaction was accepted: the
  hash they computed and the one the node reported.
\<close>

record wallet_sys =
  wy_world :: wworld
  wy_events :: "event list"
  wy_waiting :: "(string \<times> string) list"

definition boot :: "outcome_os list \<Rightarrow> wworld \<Rightarrow> wworld" where
  "boot plan w = w\<lparr>w_plan := plan, w_dead := False\<rparr>"

definition power_loss :: "nat \<Rightarrow> wworld \<Rightarrow> wworld" where
  "power_loss j w = w\<lparr>w_disk := replay (take j (w_journal w)) (w_disk w), w_journal := []\<rparr>"

definition submitted :: "send_result \<Rightarrow> (string \<times> string) list \<Rightarrow> (string \<times> string) list" where
  "submitted r ws = (case r of Submitted h rh \<Rightarrow> (h, rh) # ws | _ \<Rightarrow> ws)"

definition site_of :: "outcome_os list \<Rightarrow> wallet_sys \<Rightarrow> site" where
  "site_of plan s = (boot plan (wy_world s), wy_events s)"

definition with_site :: "site \<Rightarrow> wallet_sys \<Rightarrow> wallet_sys" where
  "with_site st s = s\<lparr>wy_world := fst st, wy_events := snd st\<rparr>"

inductive wallet_step :: "unicode \<Rightarrow> string \<Rightarrow> wallet_sys \<Rightarrow> wallet_sys \<Rightarrow> bool" for uc dir where
  balance: "resolvePendingTxLocked uc nd dir (site_of plan s) = (r, st) \<Longrightarrow>
    wallet_step uc dir s (with_site st s)"
| send: "walletSend uc nd a x dir (site_of plan s) = (r, st) \<Longrightarrow>
    wallet_step uc dir s (with_site st (s\<lparr>wy_waiting := submitted r (wy_waiting s)\<rparr>))"
| cleanup: "(h, rh) \<in> set (wy_waiting s) \<Longrightarrow> waitForTx uc rh polls = Some tx \<Longrightarrow>
    send_cleanup uc dir h tx (site_of plan s) = (r, st) \<Longrightarrow>
    wallet_step uc dir s (with_site st s)"
| abandon: "abandon_pending dir (site_of plan s) = (r, st) \<Longrightarrow> wallet_step uc dir s (with_site st s)"
| power: "wallet_step uc dir s
    (s\<lparr>wy_world := power_loss j (wy_world s), wy_events := EvPowerLoss # wy_events s, wy_waiting := []\<rparr>)"

definition journal_path :: "string \<Rightarrow> path" where
  "journal_path dir = (dir, pendingTxFile)"

definition fresh_wallet :: "string \<Rightarrow> wallet_sys \<Rightarrow> bool" where
  "fresh_wallet dir s \<longleftrightarrow> fs_ok (wy_world s) \<and> wy_events s = [] \<and> wy_waiting s = [] \<and>
     (\<forall>v \<in> crash_views (wy_world s). v (journal_path dir) = Absent)"

inductive wallet_reach :: "unicode \<Rightarrow> string \<Rightarrow> wallet_sys \<Rightarrow> bool" for uc dir where
  start: "fresh_wallet dir s \<Longrightarrow> wallet_reach uc dir s"
| step: "wallet_reach uc dir s \<Longrightarrow> wallet_step uc dir s s' \<Longrightarrow> wallet_reach uc dir s'"

inductive_cases wallet_stepE: "wallet_step uc dir s s'"

end
