(* ===== verification/WalletJournalSpec.thy ===== *)
theory WalletJournalSpec
  imports WalletJournal
begin

text \<open>
  No payment is made twice: whatever commands run, in whatever order, with whatever failures of
  the node, of the file system and of the processes themselves, a second transaction is sent
  only after the first one was settled, and an unsettled one is on disk.
\<close>

section \<open>The history\<close>

definition settles :: "string \<Rightarrow> event \<Rightarrow> bool" where
  "settles h e \<longleftrightarrow> e = EvConfirmed h \<or> e = EvRejected h \<or> e = EvAbandoned h"

text \<open>The payment whose outcome is open.\<close>

fun outstanding :: "event list \<Rightarrow> bytes option" where
  "outstanding [] = None"
| "outstanding (EvSent r # evs) = Some r"
| "outstanding (e # evs) =
     (case outstanding evs of
        None \<Rightarrow> None
      | Some r \<Rightarrow> if settles (txHash r) e then None else Some r)"

fun one_at_a_time :: "event list \<Rightarrow> bool" where
  "one_at_a_time [] \<longleftrightarrow> True"
| "one_at_a_time (EvSent r # evs) \<longleftrightarrow> (outstanding evs = None \<or> outstanding evs = Some r) \<and> one_at_a_time evs"
| "one_at_a_time (e # evs) \<longleftrightarrow> one_at_a_time evs"

fun has_uncertain :: "event list \<Rightarrow> bool" where
  "has_uncertain [] \<longleftrightarrow> False"
| "has_uncertain (EvUncertain h # evs) \<longleftrightarrow> True"
| "has_uncertain (e # evs) \<longleftrightarrow> has_uncertain evs"

text \<open>The power failed after the sync of a journal entry's directory had failed.\<close>

fun journal_lost :: "event list \<Rightarrow> bool" where
  "journal_lost [] \<longleftrightarrow> False"
| "journal_lost (EvPowerLoss # evs) \<longleftrightarrow> has_uncertain evs \<or> journal_lost evs"
| "journal_lost (e # evs) \<longleftrightarrow> journal_lost evs"

lemma outstanding_not_sent:
  "\<forall>r. e \<noteq> EvSent r \<Longrightarrow> outstanding (e # evs) =
     (case outstanding evs of None \<Rightarrow> None | Some r \<Rightarrow> if settles (txHash r) e then None else Some r)"
  by (cases e) (simp_all split: option.splits)

lemma one_at_a_time_not_sent: "\<forall>r. e \<noteq> EvSent r \<Longrightarrow> one_at_a_time (e # evs) = one_at_a_time evs"
  by (cases e) simp_all

lemma one_at_a_time_append: "one_at_a_time (later @ evs) \<Longrightarrow> one_at_a_time evs"
proof (induction later)
  case (Cons e later)
  then show ?case by (cases e) simp_all
qed simp

lemma still_outstanding:
  assumes "one_at_a_time (between @ EvSent r # evs)" and "\<forall>e \<in> set between. \<not> settles (txHash r) e"
  shows "outstanding (between @ EvSent r # evs) = Some r"
  using assms
proof (induction between)
  case (Cons e between)
  then have "one_at_a_time (between @ EvSent r # evs)" using one_at_a_time_append [of "[e]"] by simp
  then have ih: "outstanding (between @ EvSent r # evs) = Some r" using Cons by simp
  show ?case
  proof (cases "\<exists>q. e = EvSent q")
    case True
    then show ?thesis using Cons.prems(1) ih by auto
  next
    case False
    then show ?thesis using ih Cons.prems(2) by (simp add: outstanding_not_sent)
  qed
qed simp

section \<open>Names of transactions\<close>

lemma hex_upper_ascii: "is_hex_lower c \<Longrightarrow> b2n (to_upper_hex c) < 128"
  by (auto simp: is_hex_lower_def to_upper_hex_def is_lower_def is_digit_def)

lemma lower_of_upper: "is_hex_lower c \<Longrightarrow> lower_char (to_upper_hex c) = c"
proof (cases "is_lower c")
  case True
  then have u: "b2n (to_upper_hex c) = b2n c - 32" and "97 \<le> b2n c" "b2n c \<le> 122"
    by (auto simp: to_upper_hex_def is_lower_def of_char_of)
  then have "is_upper (to_upper_hex c)" and "b2n c - 32 + 32 = b2n c" unfolding is_upper_def u by presburger+
  then show ?thesis using u by (simp add: lower_char_def)
next
  case False
  moreover assume "is_hex_lower c"
  ultimately have "b2n c < 65" by (auto simp: is_hex_lower_def is_digit_def is_lower_def)
  then show ?thesis using False by (simp add: to_upper_hex_def lower_char_def is_upper_def)
qed

lemma txHash_ascii: "is_ascii (txHash r)"
  using hex_encode_lower [of "sha256 r"] hex_upper_ascii
  by (auto simp: txHash_def is_ascii_def list_all_iff)

lemma lower_of_upper_list: "list_all is_hex_lower s \<Longrightarrow> map lower_char (map to_upper_hex s) = s"
  by (induction s) (simp_all add: lower_of_upper)

lemma EqualFold_txHash: "EqualFold uc (txHash r) (txHash q) \<longleftrightarrow> txHash r = txHash q"
proof
  assume "EqualFold uc (txHash r) (txHash q)"
  then have "hex_encode (sha256 r) = hex_encode (sha256 q)"
    using lower_of_upper_list [OF hex_encode_lower] txHash_ascii unfolding EqualFold_def txHash_def by metis
  then show "txHash r = txHash q" by (simp add: txHash_def)
next
  assume "txHash r = txHash q"
  then show "EqualFold uc (txHash r) (txHash q)" by (simp add: EqualFold_def txHash_ascii)
qed

definition names :: "wallet_file \<Rightarrow> bytes \<Rightarrow> bool" where
  "names f r \<longleftrightarrow> (\<exists>p. f = PendingTx p \<and> pt_hash p = txHash r \<and> txRaw p = Some r)"

lemma names_inj: "names f r \<Longrightarrow> names f q \<Longrightarrow> r = q"
  by (auto simp: names_def)

lemma json_text_ascii: "list_all (\<lambda>c. b2n c < 128) s \<Longrightarrow> json_text s = s"
  by (simp add: json_text_valid utf8_valid_ascii)

lemma entry_names:
  "names (PendingTx (as_json ((journal_entry a x acct raw)\<lparr>pt_version := pendingTxVersion\<rparr>))) raw"
proof -
  have "json_text (EncodeToString raw) = EncodeToString raw"
    by (rule json_text_ascii) (use encode_chars [of raw] in \<open>auto simp: list_all_iff\<close>)
  moreover have "json_text (txHash raw) = txHash raw"
    by (rule json_text_ascii) (use txHash_ascii [of raw] in \<open>simp add: is_ascii_def\<close>)
  ultimately show ?thesis
    by (simp add: names_def as_json_def journal_entry_def txRaw_def base64_roundtrip)
qed

section \<open>The journal file\<close>

lemma journal_not_temp [simp]: "\<not> is_temp (dir, pendingTxFile)"
  by (simp add: is_temp_def staging_name_def pendingTxFile_def)

lemma stat_same_fs: "os_stat p w = (r, w') \<Longrightarrow> same_fs w w'"
  using tick_same_fs [of w] by (auto simp: os_stat_def split: prod.splits option.splits if_splits)

lemma read_same_fs: "os_read_file p w = (r, w') \<Longrightarrow> same_fs w w'"
  using tick_same_fs [of w] by (auto simp: os_read_file_def split: prod.splits option.splits)

lemma stat_absent: "os_stat p w = (Some ErrNotExist, w') \<Longrightarrow> map_of (live w) p = None"
  using tick_same_fs [of w] tick_not_directory [of w]
  by (auto simp: os_stat_def same_fs_views split: prod.splits option.splits if_splits)

lemma read_absent: "os_read_file p w = (Inl ErrNotExist, w') \<Longrightarrow> map_of (live w) p = None"
  using tick_same_fs [of w] tick_not_directory [of w]
  by (auto simp: os_read_file_def same_fs_views split: prod.splits option.splits)

lemma read_present:
  assumes "fs_ok w" and "\<not> is_temp p" and "os_read_file p w = (Inr (Some c), w')"
  shows "live_view w p = Whole c"
proof -
  have g: "good_map w (map_of (live w))" using assms(1) live_in_prefix_maps by (auto simp: fs_ok_def)
  obtain w1 n where "tick w = (None, w1)" "map_of (live w1) p = Some n" "in_data (w_nodes w1 n) = Some c"
    using assms(3) by (auto simp: os_read_file_def split: prod.splits option.splits)
  moreover have "same_fs w w1" using calculation(1) by (rule tick_same_fs)
  ultimately have n: "map_of (live w) p = Some n" "in_data (w_nodes w n) = Some c"
    by (simp_all add: same_fs_views) (simp add: same_fs_def)
  have "in_synced (w_nodes w n)" using g n(1) assms(2) unfolding good_map_def by blast
  then show ?thesis using n assms(2) by (simp add: live_view_def view_of_def node_seen_def)
qed

lemma live_absent: "\<not> is_temp p \<Longrightarrow> map_of (live w) p = None \<Longrightarrow> live_view w p = Absent"
  by (simp add: live_view_def view_of_def)

lemma readWalletFile_cases:
  assumes ok: "fs_ok w" and t: "\<not> is_temp (dir, name)" and r: "readWalletFile dir name w = (res, w')"
  shows "same_fs w w' \<and> (res = Inl (JournalFs ErrNotExist) \<longrightarrow> live_view w (dir, name) = Absent) \<and>
    (\<forall>p. res = Inr p \<longrightarrow> live_view w (dir, name) = Whole (PendingTx p))"
proof -
  obtain e1 w1 where 1: "os_stat (dir, name) w = (e1, w1)" by (cases "os_stat (dir, name) w")
  have s1: "same_fs w w1" by (rule stat_same_fs [OF 1])
  show ?thesis
  proof (cases e1)
    case (Some e)
    then have "res = Inl (JournalFs e)" "w' = w1" using r 1 by (simp_all add: readWalletFile_def)
    then show ?thesis using s1 stat_absent [of "(dir, name)" w w1] 1 Some live_absent [OF t] by auto
  next
    case None
    obtain f w2 where 2: "os_read_file (dir, name) w1 = (f, w2)" by (cases "os_read_file (dir, name) w1")
    have s2: "same_fs w w2" using same_fs_trans [OF s1 read_same_fs [OF 2]] .
    have ok1: "fs_ok w1" and v1: "live_view w1 = live_view w" and l1: "live w1 = live w"
      using s1 ok by (simp_all add: same_fs_views)
    show ?thesis
      using r 1 None 2 s2 read_present [OF ok1 t] read_absent [of "(dir, name)" w1 w2] live_absent [OF t, of w] v1 l1
      by (auto simp: readWalletFile_def split: sum.splits option.splits wallet_file.splits)
  qed
qed

lemma load_cases:
  assumes ok: "fs_ok w" and l: "loadPendingTx dir w = (res, w')"
  shows "same_fs w w'" "res = Inr None \<Longrightarrow> live_view w (journal_path dir) = Absent"
    "res = Inr (Some p) \<Longrightarrow> live_view w (journal_path dir) = Whole (PendingTx p)"
proof -
  obtain r w1 where r: "readWalletFile dir pendingTxFile w = (r, w1)" by (cases "readWalletFile dir pendingTxFile w")
  note c = readWalletFile_cases [OF ok journal_not_temp r]
  show "same_fs w w'" "res = Inr None \<Longrightarrow> live_view w (journal_path dir) = Absent"
    "res = Inr (Some p) \<Longrightarrow> live_view w (journal_path dir) = Whole (PendingTx p)"
    using l r c by (auto simp: loadPendingTx_def journal_path_def split: sum.splits if_splits)
qed

text \<open>A removal is visible at once and durable later.\<close>

lemma remove_contract:
  assumes ok: "fs_ok w" and r: "removePendingTx dir w = (err, w')"
  shows "fs_ok w' \<and> crash_views w' \<subseteq> insert (live_view w') (crash_views w) \<and>
    (live_view w' = drops (journal_path dir) (live_view w) \<or> live_view w' = live_view w \<and> crash_views w' \<subseteq> crash_views w)"
proof -
  obtain e w1 where tk: "tick w = (e, w1)" by (cases "tick w")
  have q: "quiet w w1" by (rule tick_quiet [OF ok tk])
  then have ok1: "fs_ok w1" and v: "live_view w1 = live_view w" "crash_views w1 \<subseteq> crash_views w"
    by (simp_all add: quiet_def)
  have "w' = w1 \<or> w' = log_txn [((dir, pendingTxFile), None)] w1"
    using r tk by (auto simp: removePendingTx_def os_remove_def split: option.splits if_splits)
  then show ?thesis
  proof
    assume "w' = w1"
    then show ?thesis using ok1 v by auto
  next
    assume "w' = log_txn [((dir, pendingTxFile), None)] w1"
    then show ?thesis
      using log_drop [OF ok1 journal_not_temp, of dir] v by (auto simp: journal_path_def)
  qed
qed

lemma write_contract_journal:
  assumes "fs_ok w" and "writePendingTx dir p w = (err, w')"
  shows "changes {dir} (replaces (journal_path dir) (PendingTx (as_json (p\<lparr>pt_version := pendingTxVersion\<rparr>)))) err w w'"
  using writeFile_contract [OF assms(1) journal_not_temp, of dir _ 384 False err w'] assms(2)
  by (simp add: writePendingTx_def writeWalletFile_def WriteFileAtomic_def journal_path_def)

section \<open>The invariant\<close>

text \<open>
  Of a directory the protocol sees the journal entry, \<open>L\<close>, and the entries a crash can leave,
  \<open>C\<close>: an entry names one transaction; unless a sync failed, an entry that is there stays there;
  an open payment has its entry.
\<close>

definition entry_at :: "string \<Rightarrow> wworld \<Rightarrow> wallet_file seen" where
  "entry_at dir w = live_view w (journal_path dir)"

definition entries_at :: "string \<Rightarrow> wworld \<Rightarrow> wallet_file seen set" where
  "entries_at dir w = (\<lambda>v. v (journal_path dir)) ` crash_views w"

definition good_entry :: "wallet_file seen \<Rightarrow> bool" where
  "good_entry x \<longleftrightarrow> x = Absent \<or> (\<exists>f r. x = Whole f \<and> names f r)"

definition journal_inv :: "wallet_file seen \<Rightarrow> wallet_file seen set \<Rightarrow> event list \<Rightarrow> bool" where
  "journal_inv L C evs \<longleftrightarrow>
     L \<in> C \<and> Ball C good_entry \<and>
     (\<not> has_uncertain evs \<and> L \<noteq> Absent \<longrightarrow> C \<subseteq> {L}) \<and>
     (\<not> journal_lost evs \<longrightarrow>
        one_at_a_time evs \<and> (\<forall>r. outstanding evs = Some r \<longrightarrow> (\<exists>f. L = Whole f \<and> names f r)))"

lemma journal_invD:
  assumes "journal_inv L C evs"
  shows "L \<in> C" "x \<in> C \<Longrightarrow> good_entry x" "\<not> has_uncertain evs \<Longrightarrow> L \<noteq> Absent \<Longrightarrow> C \<subseteq> {L}"
    "\<not> journal_lost evs \<Longrightarrow> one_at_a_time evs"
    "\<not> journal_lost evs \<Longrightarrow> outstanding evs = Some r \<Longrightarrow> \<exists>f. L = Whole f \<and> names f r"
  using assms by (simp_all add: journal_inv_def)

lemma journal_invI:
  assumes "L \<in> C" "\<And>x. x \<in> C \<Longrightarrow> good_entry x" "\<not> has_uncertain evs \<Longrightarrow> L \<noteq> Absent \<Longrightarrow> C \<subseteq> {L}"
    "\<not> journal_lost evs \<Longrightarrow> one_at_a_time evs"
    "\<And>r. \<not> journal_lost evs \<Longrightarrow> outstanding evs = Some r \<Longrightarrow> \<exists>f. L = Whole f \<and> names f r"
  shows "journal_inv L C evs"
  using assms by (simp add: journal_inv_def)

lemma good_entry_simps [simp]: "good_entry Absent" "names f r \<Longrightarrow> good_entry (Whole f)"
  by (auto simp: good_entry_def)

lemma inv_open:
  assumes "journal_inv (Whole f) C evs" and "names f r" and "\<not> journal_lost evs"
  shows "outstanding evs = None \<or> outstanding evs = Some r"
  using journal_invD(5) [OF assms(1,3)] names_inj [OF assms(2)] by (cases "outstanding evs") auto

lemma inv_closed: "journal_inv Absent C evs \<Longrightarrow> \<not> journal_lost evs \<Longrightarrow> outstanding evs = None"
  using journal_invD(5) [of Absent C evs] by (cases "outstanding evs") auto

lemma settling:
  assumes "settles h e"
  shows "has_uncertain (e # evs) = has_uncertain evs" "journal_lost (e # evs) = journal_lost evs"
    "one_at_a_time (e # evs) = one_at_a_time evs"
    "outstanding (e # evs) = (case outstanding evs of None \<Rightarrow> None | Some r \<Rightarrow> if settles (txHash r) e then None else Some r)"
  using assms by (auto simp: settles_def)

lemma inv_shrink:
  assumes "journal_inv L C evs" and "C' \<subseteq> C" and "L \<in> C'"
  shows "journal_inv L C' evs"
proof (rule journal_invI [OF assms(3)])
  show "good_entry x" if "x \<in> C'" for x using that assms(2) journal_invD(2) [OF assms(1)] by blast
  show "C' \<subseteq> {L}" if "\<not> has_uncertain evs" "L \<noteq> Absent" using journal_invD(3) [OF assms(1) that] assms(2) by blast
qed (use journal_invD(4,5) [OF assms(1)] in blast)+

lemma inv_settled:
  assumes "journal_inv L C evs" and "settles h e"
  shows "journal_inv L C (e # evs)"
proof (rule journal_invI)
  fix r assume l: "\<not> journal_lost (e # evs)" and "outstanding (e # evs) = Some r"
  then have "outstanding evs = Some r" using settling [OF assms(2)] by (auto split: option.splits if_splits)
  then show "\<exists>f. L = Whole f \<and> names f r" using journal_invD(5) [OF assms(1)] l settling [OF assms(2)] by simp
qed (use settling [OF assms(2)] journal_invD [OF assms(1)] in auto)

lemma inv_removed:
  assumes i: "journal_inv (Whole f) C evs" and n: "names f r" and e: "settles (txHash r) e"
    and C: "C' \<subseteq> insert Absent C" "Absent \<in> C'"
  shows "journal_inv Absent C' (e # evs)"
proof (rule journal_invI [OF C(2)])
  show "good_entry x" if "x \<in> C'" for x using that C(1) journal_invD(2) [OF i] by auto
  fix q assume l: "\<not> journal_lost (e # evs)" and o: "outstanding (e # evs) = Some q"
  then show "\<exists>f. Absent = Whole f \<and> names f q" using inv_open [OF i n] settling [OF e] e by auto
qed (use settling [OF e] journal_invD(4) [OF i] in auto)

lemma inv_resent:
  assumes i: "journal_inv (Whole f) C evs" and n: "names f r"
  shows "journal_inv (Whole f) C (EvSent r # evs)"
  by (rule journal_invI) (use journal_invD [OF i] inv_open [OF i n] n in auto)

lemma inv_first_sent:
  assumes i: "journal_inv Absent C evs" and n: "names f r"
  shows "journal_inv (Whole f) {Whole f} (EvSent r # evs)"
  by (rule journal_invI) (use journal_invD(4) [OF i] inv_closed [OF i] n in auto)

lemma inv_uncertain:
  assumes i: "journal_inv Absent C evs" and n: "names f r" and C: "C' \<subseteq> insert (Whole f) C" "Whole f \<in> C'"
  shows "journal_inv (Whole f) C' (EvUncertain h # evs)"
proof (rule journal_invI [OF C(2)])
  show "good_entry x" if "x \<in> C'" for x using that C(1) journal_invD(2) [OF i] n by auto
qed (use journal_invD(4) [OF i] inv_closed [OF i] in auto)

lemma inv_power:
  assumes i: "journal_inv L C evs" and L: "L' \<in> C"
  shows "journal_inv L' {L'} (EvPowerLoss # evs)"
proof (rule journal_invI)
  show "good_entry x" if "x \<in> {L'}" for x using that L journal_invD(2) [OF i] by simp
  fix r assume l: "\<not> journal_lost (EvPowerLoss # evs)" and "outstanding (EvPowerLoss # evs) = Some r"
  then have o: "outstanding evs = Some r" by (auto split: option.splits if_splits)
  then obtain f where f: "L = Whole f" "names f r" using journal_invD(5) [OF i] l by auto
  then have "C \<subseteq> {L}" using journal_invD(3) [OF i] l by simp
  then show "\<exists>f. L' = Whole f \<and> names f r" using L f by auto
qed (use journal_invD(4) [OF i] in auto)

definition wallet_inv :: "string \<Rightarrow> site \<Rightarrow> bool" where
  "wallet_inv dir st \<longleftrightarrow>
     fs_ok (fst st) \<and> journal_inv (entry_at dir (fst st)) (entries_at dir (fst st)) (snd st)"

lemma entry_in: "entry_at dir w \<in> entries_at dir w"
  unfolding entry_at_def entries_at_def using live_view_in_crash_views by blast

lemma same_fs_entries:
  "same_fs w w' \<Longrightarrow> entry_at dir w' = entry_at dir w \<and> entries_at dir w' = entries_at dir w \<and> fs_ok w' = fs_ok w"
  by (simp add: entry_at_def entries_at_def same_fs_views)

lemma inv_same_fs: "same_fs w w' \<Longrightarrow> wallet_inv dir (w', evs) = wallet_inv dir (w, evs)"
  by (simp add: wallet_inv_def same_fs_entries)

lemma remove_entries:
  assumes "fs_ok w" and "removePendingTx dir w = (err, w')"
  shows "fs_ok w' \<and> (entry_at dir w' = Absent \<and> entries_at dir w' \<subseteq> insert Absent (entries_at dir w) \<or>
    entry_at dir w' = entry_at dir w \<and> entries_at dir w' \<subseteq> entries_at dir w)"
proof -
  note c = remove_contract [OF assms]
  then consider "live_view w' = drops (journal_path dir) (live_view w)" | "live_view w' = live_view w" "crash_views w' \<subseteq> crash_views w"
    by blast
  then show ?thesis
  proof cases
    case 1
    then have "entry_at dir w' = Absent" by (simp add: entry_at_def drops_def)
    moreover have "entries_at dir w' \<subseteq> insert (entry_at dir w') (entries_at dir w)"
      using c unfolding entry_at_def entries_at_def by blast
    ultimately show ?thesis using c by simp
  next
    case 2
    then show ?thesis using c unfolding entry_at_def entries_at_def by auto
  qed
qed

lemma inv_remove:
  assumes i: "wallet_inv dir (w, evs)" and L: "entry_at dir w = Whole f" and n: "names f r"
    and e: "settles (txHash r) e" and r: "removePendingTx dir w = (err, w')"
  shows "wallet_inv dir (w', e # evs)"
proof -
  have ok: "fs_ok w" and j: "journal_inv (Whole f) (entries_at dir w) evs"
    using i L by (simp_all add: wallet_inv_def)
  note c = remove_entries [OF ok r]
  consider "entry_at dir w' = Absent" "entries_at dir w' \<subseteq> insert Absent (entries_at dir w)"
    | "entry_at dir w' = Whole f" "entries_at dir w' \<subseteq> entries_at dir w"
    using c L by metis
  then have "journal_inv (entry_at dir w') (entries_at dir w') (e # evs)"
  proof cases
    case 1
    then show ?thesis using inv_removed [OF j n e 1(2)] entry_in [of dir w'] by simp
  next
    case 2
    then show ?thesis using inv_shrink [OF inv_settled [OF j e] 2(2)] entry_in [of dir w'] by simp
  qed
  then show ?thesis using c by (simp add: wallet_inv_def)
qed

lemma entry_named: "wallet_inv dir (w, evs) \<Longrightarrow> entry_at dir w = Whole f \<Longrightarrow> \<exists>r. names f r"
  using entry_in [of dir w] journal_invD(2) [of "entry_at dir w" "entries_at dir w" evs "entry_at dir w"]
  by (auto simp: wallet_inv_def good_entry_def)

section \<open>Every command keeps it\<close>

lemma broadcast_events: "broadcast uc nd raw evs = (res, evs') \<Longrightarrow> evs' = EvSent raw # evs"
  by (auto simp: broadcast_def Let_def split: reply.splits if_splits)

lemma load_entry:
  assumes i: "wallet_inv dir (w, evs)" and l: "loadPendingTx dir w = (res, w')"
  shows "wallet_inv dir (w', evs)" and "res = Inr None \<Longrightarrow> entry_at dir w' = Absent"
    and "res = Inr (Some p) \<Longrightarrow> \<exists>r. entry_at dir w' = Whole (PendingTx p) \<and> names (PendingTx p) r"
proof -
  have ok: "fs_ok w" using i by (simp add: wallet_inv_def)
  note c = load_cases [OF ok l]
  show i': "wallet_inv dir (w', evs)" using i inv_same_fs [OF c(1)] by simp
  have e: "entry_at dir w' = live_view w (journal_path dir)"
    using same_fs_entries [OF c(1), of dir] by (simp add: entry_at_def)
  show "res = Inr None \<Longrightarrow> entry_at dir w' = Absent" using c(2) e by simp
  show "res = Inr (Some p) \<Longrightarrow> \<exists>r. entry_at dir w' = Whole (PendingTx p) \<and> names (PendingTx p) r"
    using c(3) e entry_named [OF i'] by metis
qed

lemma resolve_inv:
  assumes i: "wallet_inv dir (w, evs)" and r: "resolvePendingTxLocked uc nd dir (w, evs) = (out, st)"
  shows "wallet_inv dir st" "out = PendingNone \<Longrightarrow> snd st = evs \<and> entry_at dir (fst st) = Absent"
proof -
  obtain l w1 where l: "loadPendingTx dir w = (l, w1)" by (cases "loadPendingTx dir w")
  note e = load_entry [OF i l]
  have "wallet_inv dir st \<and> (out = PendingNone \<longrightarrow> snd st = evs \<and> entry_at dir (fst st) = Absent)"
  proof (cases l)
    case (Inl x)
    then show ?thesis using r l e by (simp add: resolvePendingTxLocked_def)
  next
    case (Inr o')
    show ?thesis
    proof (cases o')
      case None
      then show ?thesis using r l e Inr by (auto simp: resolvePendingTxLocked_def)
    next
      case (Some p)
      obtain q where q: "entry_at dir w1 = Whole (PendingTx p)" "names (PendingTx p) q"
        using e(3) [of p] Inr Some by auto
      then have raw: "pt_hash p = txHash q" "txRaw p = Some q" by (auto simp: names_def)
      have sent: "wallet_inv dir (w1, snd (broadcast uc nd q evs))"
        using e(1) inv_resent q broadcast_events [OF surjective_pairing, of uc nd q evs]
        by (simp add: wallet_inv_def)
      obtain re w2 where rm: "removePendingTx dir w1 = (re, w2)" by (cases "removePendingTx dir w1")
      have gone: "wallet_inv dir (w2, EvConfirmed (txHash q) # evs)"
        by (rule inv_remove [OF e(1) q _ rm]) (simp add: settles_def)
      show ?thesis
        using r l Inr Some raw rm gone sent e(1)
        by (auto simp: resolvePendingTxLocked_def split: option.splits if_splits prod.splits)
    qed
  qed
  then show "wallet_inv dir st" "out = PendingNone \<Longrightarrow> snd st = evs \<and> entry_at dir (fst st) = Absent" by simp_all
qed

lemma write_inv:
  assumes i: "wallet_inv dir (w, evs)" and L: "entry_at dir w = Absent"
    and wr: "writePendingTx dir (journal_entry a x acct raw) w = (err, w')"
  shows "err = None \<Longrightarrow> wallet_inv dir (w', EvSent raw # evs) \<and> (\<exists>f. entry_at dir w' = Whole f \<and> names f raw)"
    and "err \<noteq> None \<Longrightarrow> wallet_inv dir (w', uncertain_event h err evs)"
proof -
  define f where "f = PendingTx (as_json ((journal_entry a x acct raw)\<lparr>pt_version := pendingTxVersion\<rparr>))"
  have n: "names f raw" unfolding f_def by (rule entry_names)
  have ok: "fs_ok w" and j: "journal_inv Absent (entries_at dir w) evs" using i L by (simp_all add: wallet_inv_def)
  have c: "changes {dir} (replaces (journal_path dir) f) err w w'"
    unfolding f_def by (rule write_contract_journal [OF ok wr])
  have pub: "fs_ok w'" "entry_at dir w' = Whole f" "entries_at dir w' \<subseteq> insert (Whole f) (entries_at dir w)"
      "err = None \<Longrightarrow> settled dir w'" if "se_is_published err"
  proof -
    have p: "fs_ok w'" "live_view w' = replaces (journal_path dir) f (live_view w)"
        "crash_views w' \<subseteq> insert (live_view w') (crash_views w)" "err = None \<longrightarrow> settled dir w'"
      using c that unfolding changes_def by (simp_all only: if_True) blast+
    show "fs_ok w'" "err = None \<Longrightarrow> settled dir w'" using p by simp_all
    show e: "entry_at dir w' = Whole f" using p(2) by (simp add: entry_at_def replaces_def)
    have "entries_at dir w' \<subseteq> insert (entry_at dir w') (entries_at dir w)"
      using p(3) unfolding entry_at_def entries_at_def by blast
    then show "entries_at dir w' \<subseteq> insert (Whole f) (entries_at dir w)" using e by simp
  qed
  show "wallet_inv dir (w', EvSent raw # evs) \<and> (\<exists>f. entry_at dir w' = Whole f \<and> names f raw)" if "err = None"
  proof -
    have p: "se_is_published err" using that by simp
    have "entries_at dir w' \<subseteq> {entry_at dir w'}"
      using pub(4) [OF p that] unfolding entries_at_def entry_at_def settled_def journal_path_def by auto
    then have "entries_at dir w' = {Whole f}" using entry_in [of dir w'] pub(2) [OF p] by auto
    then show ?thesis using inv_first_sent [OF j n] pub [OF p] n by (simp add: wallet_inv_def)
  qed
  show "wallet_inv dir (w', uncertain_event h err evs)" if "err \<noteq> None"
  proof (cases "se_is_published err")
    case True
    then have "uncertain_event h err evs = EvUncertain h # evs"
      using that by (auto simp: uncertain_event_def se_is_published_def split: option.splits)
    then show ?thesis
      using inv_uncertain [OF j n pub(3) [OF True]] entry_in [of dir w'] pub(1,2) [OF True]
      by (simp add: wallet_inv_def)
  next
    case False
    then have q: "quiet w w'" using c by (simp add: changes_def)
    then have v: "entry_at dir w' = entry_at dir w" "entries_at dir w' \<subseteq> entries_at dir w" "fs_ok w'"
      unfolding entry_at_def entries_at_def quiet_def by auto
    have "journal_inv (entry_at dir w') (entries_at dir w') evs"
      using inv_shrink [OF j v(2)] entry_in [of dir w'] v(1) L by simp
    moreover have "uncertain_event h err evs = evs"
      using False by (auto simp: uncertain_event_def se_is_published_def split: option.splits)
    ultimately show ?thesis using v(3) by (simp add: wallet_inv_def)
  qed
qed

lemma first_broadcast_inv:
  assumes i: "wallet_inv dir (w, evs)" and L: "entry_at dir w = Absent"
    and r: "first_broadcast uc nd dir (journal_entry a x acct raw) raw (w, evs) = (res, st)"
  shows "wallet_inv dir st" and "res = Submitted h rh \<Longrightarrow> h = txHash raw"
proof -
  obtain err w1 where wr: "writePendingTx dir (journal_entry a x acct raw) w = (err, w1)"
    by (cases "writePendingTx dir (journal_entry a x acct raw) w")
  note wi = write_inv [OF i L wr]
  have "wallet_inv dir st \<and> (\<forall>h rh. res = Submitted h rh \<longrightarrow> h = txHash raw)"
  proof (cases err)
    case (Some e)
    then show ?thesis using r wr wi(2) [of "txHash raw"] by (auto simp: first_broadcast_def)
  next
    case None
    obtain b evs' where b: "broadcast uc nd raw evs = (b, evs')" by (cases "broadcast uc nd raw evs")
    have ev: "evs' = EvSent raw # evs" by (rule broadcast_events [OF b])
    obtain f where si: "wallet_inv dir (w1, EvSent raw # evs)" and f: "entry_at dir w1 = Whole f" "names f raw"
      using wi(1) [OF None] by blast
    obtain re w2 where rm: "removePendingTx dir w1 = (re, w2)" by (cases "removePendingTx dir w1")
    have gone: "wallet_inv dir (w2, EvRejected (txHash raw) # EvSent raw # evs)"
      by (rule inv_remove [OF si f _ rm]) (simp add: settles_def)
    show ?thesis
      using r wr None b ev si rm gone by (auto simp: first_broadcast_def split: option.splits if_splits)
  qed
  then show "wallet_inv dir st" "res = Submitted h rh \<Longrightarrow> h = txHash raw" by simp_all
qed

lemma send_inv:
  assumes i: "wallet_inv dir (w, evs)" and r: "walletSend uc nd a x dir (w, evs) = (res, st)"
  shows "wallet_inv dir st" and "res = Submitted h rh \<Longrightarrow> \<exists>raw. h = txHash raw"
proof -
  obtain out st1 where o: "resolvePendingTxLocked uc nd dir (w, evs) = (out, st1)"
    by (cases "resolvePendingTxLocked uc nd dir (w, evs)")
  note ri = resolve_inv [OF i o]
  obtain w1 evs1 where st1: "st1 = (w1, evs1)" by (cases st1)
  have "wallet_inv dir st \<and> (res = Submitted h rh \<longrightarrow> (\<exists>raw. h = txHash raw))"
  proof (cases "send_checks uc a x")
    case (Some r')
    moreover have "r' \<noteq> Submitted h rh"
      using Some by (auto simp: send_checks_def split: if_splits option.splits sum.splits)
    ultimately show ?thesis using r i by (auto simp: walletSend_def)
  next
    case None
    show ?thesis
    proof (cases "out = PendingNone")
      case False
      then show ?thesis using r None o ri(1) by (cases out) (auto simp: walletSend_def send_locked_def)
    next
      case True
      show ?thesis
      proof (cases "sign_transfer nd a x")
        case (Inl r')
        moreover have "r' \<noteq> Submitted h rh"
          using Inl by (auto simp: sign_transfer_def split: if_splits option.splits sum.splits)
        ultimately show ?thesis using r None o True ri(1) by (auto simp: walletSend_def send_locked_def)
      next
        case (Inr ra)
        obtain raw acct where ra: "ra = (raw, acct)" by (cases ra)
        have fb: "first_broadcast uc nd dir (journal_entry a x acct raw) raw (w1, evs1) = (res, st)"
          using r None o True Inr ra st1 by (simp add: walletSend_def send_locked_def)
        have "wallet_inv dir (w1, evs1)" "entry_at dir w1 = Absent" using ri True st1 by simp_all
        then show ?thesis using first_broadcast_inv [OF _ _ fb] by blast
      qed
    qed
  qed
  then show "wallet_inv dir st" "res = Submitted h rh \<Longrightarrow> \<exists>raw. h = txHash raw" by simp_all
qed

lemma cleanup_inv:
  assumes i: "wallet_inv dir (w, evs)"
  shows "wallet_inv dir (snd (removePendingTxIfHash uc dir (txHash q) w), EvConfirmed (txHash q) # evs)"
proof -
  obtain l w1 where l: "loadPendingTx dir w = (l, w1)" by (cases "loadPendingTx dir w")
  note e = load_entry [OF i l]
  have set: "settles (txHash q) (EvConfirmed (txHash q))" by (simp add: settles_def)
  have keep: "wallet_inv dir (w1, EvConfirmed (txHash q) # evs)"
    using e(1) inv_settled [OF _ set] by (simp add: wallet_inv_def)
  show ?thesis
  proof (cases "\<exists>p. l = Inr (Some p) \<and> EqualFold uc (pt_hash p) (txHash q)")
    case False
    then show ?thesis using l keep
      by (auto simp: removePendingTxIfHash_def split: sum.splits option.splits)
  next
    case True
    then obtain p where p: "l = Inr (Some p)" "EqualFold uc (pt_hash p) (txHash q)" by blast
    then obtain r where r: "entry_at dir w1 = Whole (PendingTx p)" "names (PendingTx p) r" using e(3) by blast
    then have "pt_hash p = txHash r" by (simp add: names_def)
    then have "txHash r = txHash q" using p(2) by (simp add: EqualFold_txHash)
    then have set': "settles (txHash r) (EvConfirmed (txHash q))" by (simp add: settles_def)
    obtain re w2 where rm: "removePendingTx dir w1 = (re, w2)" by (cases "removePendingTx dir w1")
    have "wallet_inv dir (w2, EvConfirmed (txHash q) # evs)" by (rule inv_remove [OF e(1) r set' rm])
    then show ?thesis using l p rm by (auto simp: removePendingTxIfHash_def split: option.splits)
  qed
qed

lemma abandon_inv:
  assumes i: "wallet_inv dir (w, evs)" and a: "abandon_pending dir (w, evs) = (c, st)"
  shows "wallet_inv dir st"
proof -
  obtain l w1 where l: "loadPendingTx dir w = (l, w1)" by (cases "loadPendingTx dir w")
  note e = load_entry [OF i l]
  show ?thesis
  proof (cases "\<exists>p. l = Inr (Some p)")
    case False
    then show ?thesis using a l e(1) by (auto simp: abandon_pending_def split: sum.splits option.splits)
  next
    case True
    then obtain p where p: "l = Inr (Some p)" by blast
    then obtain r where r: "entry_at dir w1 = Whole (PendingTx p)" "names (PendingTx p) r" using e(3) by blast
    then have h: "pt_hash p = txHash r" by (simp add: names_def)
    have set: "settles (txHash r) (EvAbandoned (txHash r))" by (simp add: settles_def)
    obtain re w2 where rm: "removePendingTx dir w1 = (re, w2)" by (cases "removePendingTx dir w1")
    have gone: "wallet_inv dir (w2, EvAbandoned (txHash r) # evs)" by (rule inv_remove [OF e(1) r set rm])
    show ?thesis
    proof (cases re)
      case None
      then show ?thesis using a l p rm gone h by (auto simp: abandon_pending_def)
    next
      case (Some x)
      then have "w2 = snd (tick w1)"
        using rm by (auto simp: removePendingTx_def os_remove_def split: prod.splits option.splits if_splits)
      then have "same_fs w1 w2" using tick_same_fs [OF surjective_pairing] by simp
      then have "wallet_inv dir (w2, evs)" using e(1) inv_same_fs by blast
      then show ?thesis using a l p rm Some by (auto simp: abandon_pending_def)
    qed
  qed
qed

lemma power_entries:
  assumes "fs_ok w"
  shows "fs_ok (power_loss j w)" "entry_at dir (power_loss j w) \<in> entries_at dir w"
    "entries_at dir (power_loss j w) = {entry_at dir (power_loss j w)}"
proof -
  define m where "m = map_of (replay (take j (w_journal w)) (w_disk w))"
  have m: "m \<in> prefix_maps w" by (auto simp: m_def prefix_maps_def)
  have l: "map_of (live (power_loss j w)) = m" by (simp add: live_def power_loss_def m_def)
  have p: "prefix_maps (power_loss j w) = {m}" by (simp add: prefix_maps_def power_loss_def m_def)
  have v: "view_of (power_loss j w) = view_of w" by (rule view_of_cong) (simp add: power_loss_def)
  have g: "good_map (power_loss j w) = good_map w" by (rule good_map_cong) (simp_all add: power_loss_def)
  show "fs_ok (power_loss j w)" using assms m by (simp add: fs_ok_def p g)
  show "entry_at dir (power_loss j w) \<in> entries_at dir w"
    using m by (auto simp: entry_at_def entries_at_def live_view_def l v crash_views_def)
  show "entries_at dir (power_loss j w) = {entry_at dir (power_loss j w)}"
    by (simp add: entry_at_def entries_at_def live_view_def l v crash_views_def p)
qed

definition sys_inv :: "string \<Rightarrow> wallet_sys \<Rightarrow> bool" where
  "sys_inv dir s \<longleftrightarrow> wallet_inv dir (wy_world s, wy_events s) \<and>
     (\<forall>h rh. (h, rh) \<in> set (wy_waiting s) \<longrightarrow> (\<exists>raw. h = txHash raw))"

lemma boot_inv: "wallet_inv dir (wy_world s, wy_events s) \<Longrightarrow> wallet_inv dir (site_of plan s)"
  using inv_same_fs [of "wy_world s" "boot plan (wy_world s)" dir "wy_events s"]
  by (simp add: site_of_def same_fs_def boot_def)

lemma step_inv:
  assumes "wallet_step uc dir s s'" and i: "sys_inv dir s"
  shows "sys_inv dir s'"
proof -
  have b: "wallet_inv dir (boot plan (wy_world s), wy_events s)" for plan
    using boot_inv [of dir s plan] i by (simp add: sys_inv_def site_of_def)
  have wt: "\<exists>raw. h = txHash raw" if "(h, rh) \<in> set (wy_waiting s)" for h rh
    using that i by (auto simp: sys_inv_def)
  from assms(1) show ?thesis
  proof (cases rule: wallet_step.cases)
    case (balance nd plan r st)
    then show ?thesis using resolve_inv(1) [OF b] wt by (auto simp: sys_inv_def with_site_def site_of_def)
  next
    case (send nd a x plan r st)
    then have "wallet_inv dir st" "\<And>h rh. r = Submitted h rh \<Longrightarrow> \<exists>raw. h = txHash raw"
      using send_inv [OF b] by (auto simp: site_of_def)
    then show ?thesis using send(1) wt
      by (auto simp: sys_inv_def with_site_def submitted_def split: send_result.splits)
  next
    case (cleanup h rh polls tx plan r st)
    then obtain raw where "h = txHash raw" using wt by blast
    then show ?thesis using cleanup cleanup_inv [OF b] wt
      by (auto simp: sys_inv_def with_site_def site_of_def send_cleanup_def)
  next
    case (abandon plan r st)
    then show ?thesis using abandon_inv [OF b] wt by (auto simp: sys_inv_def with_site_def site_of_def)
  next
    case (power j)
    have ok: "fs_ok (wy_world s)" and
        j: "journal_inv (entry_at dir (wy_world s)) (entries_at dir (wy_world s)) (wy_events s)"
      using i by (simp_all add: sys_inv_def wallet_inv_def)
    show ?thesis using power power_entries(1) [OF ok, of j] power_entries(2,3) [OF ok, of dir j] inv_power [OF j, of "entry_at dir (power_loss j (wy_world s))"]
      by (simp add: sys_inv_def wallet_inv_def)
  qed
qed

lemma reach_inv: "wallet_reach uc dir s \<Longrightarrow> sys_inv dir s"
proof (induction rule: wallet_reach.induct)
  case (start s)
  then have f: "fs_ok (wy_world s)" "wy_events s = []" "wy_waiting s = []"
      "\<And>v. v \<in> crash_views (wy_world s) \<Longrightarrow> v (journal_path dir) = Absent"
    by (simp_all add: fresh_wallet_def)
  have a: "x = Absent" if "x \<in> entries_at dir (wy_world s)" for x
    using that f(4) unfolding entries_at_def by blast
  have "journal_inv (entry_at dir (wy_world s)) (entries_at dir (wy_world s)) []"
  proof (rule journal_invI [OF entry_in])
    show "good_entry x" if "x \<in> entries_at dir (wy_world s)" for x using a [OF that] by simp
    show "entries_at dir (wy_world s) \<subseteq> {entry_at dir (wy_world s)}" 
    proof
      fix x assume "x \<in> entries_at dir (wy_world s)"
      then show "x \<in> {entry_at dir (wy_world s)}" using a a [OF entry_in] by simp
    qed
  qed simp_all
  then show ?case using f(1-3) by (simp add: sys_inv_def wallet_inv_def)
next
  case (step s s')
  then show ?case using step_inv by blast
qed

end
