(* ===== verification/WalletTxSpec.thy ===== *)
theory WalletTxSpec
  imports WalletTx
begin

text \<open>
  The transaction of a transfer as the chain reads it.  Each message is a list of numbered fields
  (\<open>write_message\<close>), so what was written can be read back field by field, and two documents with
  the same bytes come from the same transfer.
\<close>

section \<open>Messages as lists of fields\<close>

lemmas message_forms = write_message_def protoString_def

lemma encodeCoin_message: "encodeCoin denom amount = write_message [(1, PBytes denom), (2, PBytes amount)]"
  by (simp add: encodeCoin_def message_forms)

lemma encodeAny_message: "encodeAny u v = write_message [(1, PBytes u), (2, PBytes v)]"
  by (simp add: encodeAny_def message_forms)

lemma encodeTxBody_message: "encodeTxBody [m] memo = write_message [(1, PBytes m), (2, PBytes memo)]"
  by (simp add: encodeTxBody_def message_forms)

lemma encodeAuthInfo_message: "encodeAuthInfo s f = write_message [(1, PBytes s), (2, PBytes f)]"
  by (simp add: encodeAuthInfo_def message_forms)

lemma encodeSignDoc_message:
  "encodeSignDoc b a c n = write_message [(1, PBytes b), (2, PBytes a), (3, PBytes c), (4, PUint n)]"
  by (simp add: encodeSignDoc_def message_forms)

lemma encodeTxRaw_message: "encodeTxRaw b a s = write_message [(1, PBytes b), (2, PBytes a), (3, PBytes s)]"
  by (simp add: encodeTxRaw_def message_forms)

lemma encodeMsgSend_message:
  "encodeMsgSend f t d a =
     Option.bind (encodeCoin d a) (\<lambda>c. write_message [(1, PBytes f), (2, PBytes t), (3, PBytes c)])"
  by (simp add: encodeMsgSend_def message_forms)

lemma encodeFee_message:
  "encodeFee d a g = Option.bind (encodeCoin d a) (\<lambda>c. write_message [(1, PBytes c), (2, PUint g)])"
  by (simp add: encodeFee_def message_forms)

lemma encodeSignerInfo_message:
  "encodeSignerInfo pub n =
     Option.bind (write_message [(1, PBytes pub)]) (\<lambda>k.
     Option.bind (encodeAny typeURLSecp256k1Pub k) (\<lambda>pk.
     Option.bind (write_message [(1, PUint signModeDirect)]) (\<lambda>single.
     Option.bind (write_message [(1, PBytes single)]) (\<lambda>info.
       write_message [(1, PBytes pk), (2, PBytes info), (3, PUint n)]))))"
  by (cases "protoBytes 1 pub"; cases "protoUint 1 signModeDirect")
    (simp_all add: encodeSignerInfo_def message_forms split: option.splits bind_splits)

lemmas as_messages = encodeCoin_message encodeAny_message encodeTxBody_message encodeAuthInfo_message
  encodeSignDoc_message encodeTxRaw_message encodeMsgSend_message encodeFee_message encodeSignerInfo_message

abbreviation numbered :: "(int \<times> field_value) list \<Rightarrow> bool" where
  "numbered fs \<equiv> list_all (field_number \<circ> fst) fs"

text \<open>Messages with the same bytes have the same fields.\<close>

lemma same_message:
  assumes "write_message fs = Some b" and "write_message gs = Some b" and "length b < 2 ^ 64"
    and "numbered fs" and "numbered gs"
  shows "first_bytes k fs = first_bytes k gs \<and> first_uint k fs = first_uint k gs"
  using message_reads [OF assms(4,1,3), of k] message_reads [OF assms(5,2,3), of k] by simp

lemma part_fits:
  "write_message fs = Some b \<Longrightarrow> numbered fs \<Longrightarrow> length b < 2 ^ 64 \<Longrightarrow> (n, PBytes v) \<in> set fs \<Longrightarrow> length v < 2 ^ 64"
  using written_part_length order_le_less_trans by blast

lemmas pick = field_number_def

text \<open>Two fields of bytes.\<close>

lemma same_pair:
  assumes "write_message [(1, PBytes x), (2, PBytes y)] = Some b" and "write_message [(1, PBytes x'), (2, PBytes y')] = Some b"
    and "length b < 2 ^ 64"
  shows "x = x' \<and> y = y'" and "length x < 2 ^ 64" and "length y < 2 ^ 64"
proof -
  note s = same_message [OF assms(1,2,3)] and f = part_fits [OF assms(1) _ assms(3)]
  show "x = x' \<and> y = y'" using s [of 1] s [of 2] by (simp add: pick split: if_splits)
  show "length x < 2 ^ 64" and "length y < 2 ^ 64" using f [of 1 x] f [of 2 y] by (simp_all add: pick)
qed

lemma same_triple:
  assumes "write_message [(1, PBytes x), (2, PBytes y), (3, PBytes z)] = Some b"
    and "write_message [(1, PBytes x'), (2, PBytes y'), (3, PBytes z')] = Some b" and "length b < 2 ^ 64"
  shows "x = x' \<and> y = y' \<and> z = z'" and "length z < 2 ^ 64"
proof -
  note s = same_message [OF assms(1,2,3)]
  show "x = x' \<and> y = y' \<and> z = z'" using s [of 1] s [of 2] s [of 3] by (simp add: pick split: if_splits)
  show "length z < 2 ^ 64" using part_fits [OF assms(1) _ assms(3), of 3 z] by (simp add: pick)
qed

section \<open>The parts of a transfer\<close>

lemma send_body_parts:
  "send_body p = Some b \<longleftrightarrow>
     (\<exists>coin msg any.
        write_message [(1, PBytes (snd_denom p)), (2, PBytes (snd_amount p))] = Some coin \<and>
        write_message [(1, PBytes (snd_from p)), (2, PBytes (snd_to p)), (3, PBytes coin)] = Some msg \<and>
        write_message [(1, PBytes typeURLMsgSend), (2, PBytes msg)] = Some any \<and>
        write_message [(1, PBytes any), (2, PBytes (snd_memo p))] = Some b)"
  by (simp add: send_body_def as_messages bind_eq_Some_conv)

lemma send_auth_parts:
  "send_auth pub p = Some b \<longleftrightarrow>
     (\<exists>key pk single info signer coin fee.
        write_message [(1, PBytes pub)] = Some key \<and>
        write_message [(1, PBytes typeURLSecp256k1Pub), (2, PBytes key)] = Some pk \<and>
        write_message [(1, PUint signModeDirect)] = Some single \<and>
        write_message [(1, PBytes single)] = Some info \<and>
        write_message [(1, PBytes pk), (2, PBytes info), (3, PUint (snd_sequence p))] = Some signer \<and>
        write_message [(1, PBytes (snd_denom p)), (2, PBytes (snd_fee_amount p))] = Some coin \<and>
        write_message [(1, PBytes coin), (2, PUint (snd_gas p))] = Some fee \<and>
        write_message [(1, PBytes signer), (2, PBytes fee)] = Some b)"
  by (auto simp: send_auth_def as_messages bind_eq_Some_conv)

lemma same_body:
  assumes "send_body p = Some b" and "send_body q = Some b" and "length b < 2 ^ 64"
  shows "snd_denom p = snd_denom q \<and> snd_amount p = snd_amount q \<and> snd_from p = snd_from q \<and>
    snd_to p = snd_to q \<and> snd_memo p = snd_memo q"
proof -
  obtain coin msg any where p:
    "write_message [(1, PBytes (snd_denom p)), (2, PBytes (snd_amount p))] = Some coin"
    "write_message [(1, PBytes (snd_from p)), (2, PBytes (snd_to p)), (3, PBytes coin)] = Some msg"
    "write_message [(1, PBytes typeURLMsgSend), (2, PBytes msg)] = Some any"
    "write_message [(1, PBytes any), (2, PBytes (snd_memo p))] = Some b"
    using assms(1) unfolding send_body_parts by blast
  obtain coin' msg' any' where q:
    "write_message [(1, PBytes (snd_denom q)), (2, PBytes (snd_amount q))] = Some coin'"
    "write_message [(1, PBytes (snd_from q)), (2, PBytes (snd_to q)), (3, PBytes coin')] = Some msg'"
    "write_message [(1, PBytes typeURLMsgSend), (2, PBytes msg')] = Some any'"
    "write_message [(1, PBytes any'), (2, PBytes (snd_memo q))] = Some b"
    using assms(2) unfolding send_body_parts by blast
  note b = same_pair [OF p(4) q(4) assms(3)]
  note a = same_pair [OF p(3) q(3) [folded b(1) [THEN conjunct1]] b(2)]
  note m = same_triple [OF p(2) q(2) [folded a(1) [THEN conjunct2]] a(3)]
  have "coin' = coin" using m(1) by simp
  note c = same_pair [OF p(1) q(1) [unfolded this] m(2)]
  show ?thesis using b(1) m(1) c(1) by simp
qed

lemma same_auth:
  assumes "send_auth pub p = Some b" and "send_auth pub' q = Some b" and "length b < 2 ^ 64"
  shows "pub = pub' \<and> snd_sequence p = snd_sequence q \<and> snd_fee_amount p = snd_fee_amount q \<and> snd_gas p = snd_gas q"
proof -
  obtain key pk single info signer coin fee where p:
    "write_message [(1, PBytes pub)] = Some key"
    "write_message [(1, PBytes typeURLSecp256k1Pub), (2, PBytes key)] = Some pk"
    "write_message [(1, PBytes pk), (2, PBytes info), (3, PUint (snd_sequence p))] = Some signer"
    "write_message [(1, PBytes (snd_denom p)), (2, PBytes (snd_fee_amount p))] = Some coin"
    "write_message [(1, PBytes coin), (2, PUint (snd_gas p))] = Some fee"
    "write_message [(1, PBytes signer), (2, PBytes fee)] = Some b"
    using assms(1) unfolding send_auth_parts by blast
  obtain key' pk' single' info' signer' coin' fee' where q:
    "write_message [(1, PBytes pub')] = Some key'"
    "write_message [(1, PBytes typeURLSecp256k1Pub), (2, PBytes key')] = Some pk'"
    "write_message [(1, PBytes pk'), (2, PBytes info'), (3, PUint (snd_sequence q))] = Some signer'"
    "write_message [(1, PBytes (snd_denom q)), (2, PBytes (snd_fee_amount q))] = Some coin'"
    "write_message [(1, PBytes coin'), (2, PUint (snd_gas q))] = Some fee'"
    "write_message [(1, PBytes signer'), (2, PBytes fee')] = Some b"
    using assms(2) unfolding send_auth_parts by blast
  note b = same_pair [OF p(6) q(6) assms(3)]
  have e: "signer' = signer" "fee' = fee" using b(1) by simp_all
  note s = same_message [OF p(3) q(3) [unfolded e] b(2)]
  have s': "pk' = pk" "snd_sequence p = snd_sequence q"
    using s [of 1] s [of 3] by (simp_all add: pick split: if_splits)
  have pk: "length pk < 2 ^ 64" using part_fits [OF p(3) _ b(2), of 1 pk] by (simp add: pick)
  note k = same_pair [OF p(2) q(2) [unfolded s'(1)] pk]
  have "key' = key" using k(1) by simp
  have pub: "pub = pub'"
    using same_message [OF p(1) q(1) [unfolded \<open>key' = key\<close>] k(3), of 1] by (simp add: pick split: if_splits)
  note f = same_message [OF p(5) q(5) [unfolded e] b(3)]
  have f': "coin' = coin" "snd_gas p = snd_gas q"
    using f [of 1] f [of 2] by (simp_all add: pick split: if_splits)
  have c: "length coin < 2 ^ 64" using part_fits [OF p(5) _ b(3), of 1 coin] by (simp add: pick)
  show ?thesis using same_pair(1) [OF p(4) q(4) [unfolded f'(1)] c] pub s'(2) f'(2) by simp
qed

lemma same_sign_doc:
  assumes "sign_doc pub p = Some d" and "sign_doc pub' q = Some d" and "length d < 2 ^ 64"
  shows "pub = pub' \<and> p = q"
proof -
  obtain body auth where p: "send_body p = Some body" "send_auth pub p = Some auth"
    "write_message [(1, PBytes body), (2, PBytes auth), (3, PBytes (snd_chain_id p)), (4, PUint (snd_account_no p))] = Some d"
    using assms(1) by (auto simp: sign_doc_def bind_eq_Some_conv encodeSignDoc_message)
  obtain body' auth' where q: "send_body q = Some body'" "send_auth pub' q = Some auth'"
    "write_message [(1, PBytes body'), (2, PBytes auth'), (3, PBytes (snd_chain_id q)), (4, PUint (snd_account_no q))] = Some d"
    using assms(2) by (auto simp: sign_doc_def bind_eq_Some_conv encodeSignDoc_message)
  note s = same_message [OF p(3) q(3) assms(3)]
  have e: "body' = body" "auth' = auth" "snd_chain_id p = snd_chain_id q" "snd_account_no p = snd_account_no q"
    using s [of 1] s [of 2] s [of 3] s [of 4] by (simp_all add: pick split: if_splits)
  have l: "length body < 2 ^ 64" "length auth < 2 ^ 64"
    using part_fits [OF p(3) _ assms(3), of 1 body] part_fits [OF p(3) _ assms(3), of 2 auth] by (simp_all add: pick)
  show ?thesis
    using same_body [OF p(1) q(1) [unfolded e] l(1)] same_auth [OF p(2) q(2) [unfolded e] l(2)] e by simp
qed

text \<open>The writer does not panic.\<close>

lemma write_message_total: "numbered fs \<Longrightarrow> \<exists>b. write_message fs = Some b"
  using write_message_Some by blast

lemma sign_doc_total: "\<exists>body auth d. send_body p = Some body \<and> send_auth pub p = Some auth \<and>
  encodeSignDoc body auth (snd_chain_id p) (snd_account_no p) = Some d"
proof -
  have w: "\<exists>b. write_message [(1, x)] = Some b" "\<exists>b. write_message [(1, x), (2, y)] = Some b"
    "\<exists>b. write_message [(1, x), (2, y), (3, z)] = Some b"
    "\<exists>b. write_message [(1, x), (2, y), (3, z), (4, u)] = Some b" for x y z u
    by (rule write_message_total, simp add: pick)+
  have "\<exists>body. send_body p = Some body" unfolding send_body_parts using w by metis
  moreover have "\<exists>auth. send_auth pub p = Some auth" unfolding send_auth_parts using w by metis
  ultimately show ?thesis unfolding encodeSignDoc_message using w(4) by blast
qed

lemma signed_case:
  "(case x of Inl e \<Rightarrow> Some (Inl e) | Inr sig \<Rightarrow> map_option Inr (f sig)) = Some (Inr tx) \<longleftrightarrow>
     (\<exists>sig. x = Inr sig \<and> f sig = Some tx)"
  by (cases x) auto

lemma buildSignedSend_parts:
  "buildSignedSend key p = Some (Inr tx) \<longleftrightarrow>
     (\<exists>body auth doc sig. send_body p = Some body \<and> send_auth (wk_pub key) p = Some auth \<and>
        encodeSignDoc body auth (snd_chain_id p) (snd_account_no p) = Some doc \<and>
        SignDigest key (sha256 doc) = Inr sig \<and> encodeTxRaw body auth sig = Some tx)"
  by (auto simp: buildSignedSend_def bind_eq_Some_conv signed_case)

text \<open>The account of a \<^verbatim>\<open>QueryAccountResponse\<close>.\<close>

lemma account_reads:
  assumes "write_message [(1, PBytes addr), (2, PBytes pub), (3, PUint num), (4, PUint sq)] = Some acc"
    and "write_message [(1, PBytes url), (2, PBytes acc)] = Some any"
    and "write_message [(1, PBytes any)] = Some value" and "value \<noteq> []" and "length value < 2 ^ 64"
  shows "account (Inr value) = Some (Inr \<lparr>as_number = num, as_sequence = sq\<rparr>)"
proof -
  have n: "numbered [(1, PBytes any)]" "numbered [(1, PBytes url), (2, PBytes acc)]"
    "numbered [(1, PBytes addr), (2, PBytes pub), (3, PUint num), (4, PUint sq)]" by (simp_all add: pick)
  have l: "length any < 2 ^ 64" using part_fits [OF assms(3) n(1) assms(5), of 1 any] by simp
  have l': "length acc < 2 ^ 64" using part_fits [OF assms(2) n(2) l, of 2 acc] by simp
  show ?thesis
    using message_reads [OF n(1) assms(3,5), of 1] message_reads [OF n(2) assms(2) l, of 2]
      message_reads [OF n(3) assms(1) l', of 3] message_reads [OF n(3) assms(1) l', of 4] assms(4)
    by (simp add: account_def split: if_splits)
qed

text \<open>A field adds at most twenty bytes to its value.\<close>

fun field_room :: "int \<times> field_value \<Rightarrow> nat" where
  "field_room (n, PBytes v) = length v + 20"
| "field_room (n, PUint v) = 20"

lemma written_room:
  assumes "write_message fs = Some b"
  shows "length b \<le> (\<Sum>f\<leftarrow>fs. field_room f)"
  using assms
proof (induction fs arbitrary: b)
  case Nil
  then show ?case by (simp add: write_message_def)
next
  case (Cons f fs)
  obtain a c where ac: "write_field f = Some a" "write_message fs = Some c" "b = a @ c"
    using Cons.prems unfolding write_message_Cons by blast
  have t: "length (protoVarint u) + length (protoVarint v) \<le> 20" for u v
    using varint_length [of u] varint_length [of v] by linarith
  have "length a \<le> field_room f"
    using ac(1) t by (cases f rule: field_room.cases)
      (auto simp: protoBytes_def protoUint_def protoTag_def split: if_splits)
  then show ?case using Cons.IH [OF ac(2)] ac(3) by simp
qed

lemma send_body_room:
  assumes "send_body p = Some b"
  shows "length b \<le> length (snd_denom p) + length (snd_amount p) + length (snd_from p) + length (snd_to p) +
    length (snd_memo p) + 228"
  using assms unfolding send_body_parts by (auto dest!: written_room simp: typeURLMsgSend_def)

lemma send_auth_room:
  assumes "send_auth pub p = Some b"
  shows "length b \<le> length pub + length (snd_denom p) + length (snd_fee_amount p) + 400"
  using assms unfolding send_auth_parts by (auto dest!: written_room simp: typeURLSecp256k1Pub_def)

section \<open>Properties\<close>

text \<open>
  C36. What is broadcast is what was signed, and the signature covers the whole transfer: the raw
  transaction carries the body and the authorization of the signed document and a signature over
  its SHA-256, and no other transfer, whatever sender, recipient, amount, fee, gas, memo, chain,
  account, sequence or key it differs in, has the same document.
\<close>

theorem signature_covers_transfer:
  assumes "buildSignedSend key p = Some (Inr tx)" and "length tx < 2 ^ 64"
  shows "\<exists>body auth doc sig. protoField tx 1 = Some (Inr body) \<and> protoField tx 2 = Some (Inr auth) \<and>
     protoField tx 3 = Some (Inr sig) \<and> SignDigest key (sha256 doc) = Inr sig \<and>
     encodeSignDoc body auth (snd_chain_id p) (snd_account_no p) = Some doc \<and> sign_doc (wk_pub key) p = Some doc \<and>
     (\<forall>pub q. sign_doc pub q = Some doc \<and> length doc < 2 ^ 64 \<longrightarrow> pub = wk_pub key \<and> q = p)"
proof -
  obtain body auth doc sig where b: "send_body p = Some body" "send_auth (wk_pub key) p = Some auth"
    "encodeSignDoc body auth (snd_chain_id p) (snd_account_no p) = Some doc"
    "SignDigest key (sha256 doc) = Inr sig" "encodeTxRaw body auth sig = Some tx"
    using assms(1) unfolding buildSignedSend_parts by blast
  have d: "sign_doc (wk_pub key) p = Some doc" using b(1,2,3) by (simp add: sign_doc_def)
  note m = message_reads [OF _ b(5) [unfolded encodeTxRaw_message] assms(2)]
  have "protoField tx 1 = Some (Inr body)" "protoField tx 2 = Some (Inr auth)" "protoField tx 3 = Some (Inr sig)"
    using m [of 1] m [of 2] m [of 3] by (simp_all add: pick split: if_splits)
  moreover have "pub = wk_pub key \<and> q = p" if "sign_doc pub q = Some doc" "length doc < 2 ^ 64" for pub q
    using same_sign_doc [OF that(1) d that(2)] .
  ultimately show ?thesis using b(3,4) d by blast
qed

definition sample_send :: send_params where
  "sample_send = \<lparr>snd_from = ''twilight1a'', snd_to = ''twilight1b'', snd_denom = ''utwlt'', snd_amount = ''10'',
     snd_memo = [], snd_chain_id = ''c'', snd_account_no = 7, snd_sequence = 2, snd_gas = 200000,
     snd_fee_amount = ''2000''\<rparr>"

definition sample_key :: wallet_key where
  "sample_key = \<lparr>wk_pub = replicate 33 CHR 0x02, wk_compact = (\<lambda>_. replicate 65 CHR 0x1F)\<rparr>"

lemma sample_sign: "SignDigest sample_key (sha256 d) = Inr (replicate 64 CHR 0x1F)"
  by (simp add: SignDigest_def sample_key_def)

lemma signature_covers_transfer_witness:
  "\<exists>tx doc. buildSignedSend sample_key sample_send = Some (Inr tx) \<and>
     protoField tx 3 = Some (Inr (replicate 64 CHR 0x1F)) \<and> sign_doc (wk_pub sample_key) sample_send = Some doc"
proof -
  obtain body auth d where s: "send_body sample_send = Some body" "send_auth (wk_pub sample_key) sample_send = Some auth"
    "encodeSignDoc body auth (snd_chain_id sample_send) (snd_account_no sample_send) = Some d"
    using sign_doc_total by blast
  obtain tx where t: "encodeTxRaw body auth (replicate 64 CHR 0x1F) = Some tx"
    unfolding encodeTxRaw_message using write_message_total by (fastforce simp: pick)
  have "length body < 400" "length auth < 500"
    using send_body_room [OF s(1)] send_auth_room [OF s(2)] by (simp_all add: sample_send_def sample_key_def)
  then have "length tx < 2 ^ 64"
    using written_room [OF t [unfolded encodeTxRaw_message]] by simp
  moreover have tx: "buildSignedSend sample_key sample_send = Some (Inr tx)"
    unfolding buildSignedSend_parts using s t sample_sign by auto
  ultimately show ?thesis using signature_covers_transfer [of sample_key sample_send tx] by (auto simp: sample_sign)
qed

end
