(* ===== verification/WalletSafety.thy ===== *)
theory WalletSafety
  imports WalletJournalSpec WalletTxSpec
begin

text \<open>
  The properties of the wallet commands, and a run of them with two payments: the first is sent to
  a node that does not answer, abandoned, and followed by another.
\<close>

section \<open>A run with two payments\<close>

definition plain_text :: unicode where
  "plain_text = \<lparr>uc_lower = id, uc_upper = id, uc_fold = (\<lambda>_ _. False)\<rparr>"

definition silent_node :: node where
  "silent_node = \<lparr>nd_tx = (\<lambda>_. Refused []), nd_broadcast = (\<lambda>_. Refused []), nd_network = Reply ''c'',
     nd_account = Inr [CHR 0x0A, CHR 0x06, CHR 0x12, CHR 0x04, CHR 0x18, CHR 0x07, CHR 0x20, CHR 0x02]\<rparr>"

definition sample_args :: "string \<Rightarrow> send_args" where
  "sample_args n = \<lparr>sa_to = ''twilight13pznqx'', sa_amount = n, sa_denom = ''utwlt'', sa_memo = [],
     sa_gas = 200000, sa_fee = ''2000'', sa_yes = True\<rparr>"

definition sample_context :: send_context where
  "sample_context = \<lparr>sx_address = ''twilight1a'', sx_chain = ''c'', sx_node_ok = True, sx_answer = None,
     sx_key = Inr sample_key, sx_now = []\<rparr>"

definition sample_params :: "string \<Rightarrow> send_params" where
  "sample_params n = sample_send\<lparr>snd_to := ''twilight13pznqx'', snd_amount := n\<rparr>"

definition sample_raw :: "string \<Rightarrow> bytes" where
  "sample_raw n = (case buildSignedSend sample_key (sample_params n) of Some (Inr t) \<Rightarrow> t | _ \<Rightarrow> [])"

lemma sample_built: "buildSignedSend sample_key (sample_params n) = Some (Inr (sample_raw n))"
proof -
  obtain body auth d where s: "send_body (sample_params n) = Some body"
    "send_auth (wk_pub sample_key) (sample_params n) = Some auth"
    "encodeSignDoc body auth (snd_chain_id (sample_params n)) (snd_account_no (sample_params n)) = Some d"
    using sign_doc_total by blast
  obtain tx where t: "encodeTxRaw body auth (replicate 64 CHR 0x1F) = Some tx"
    unfolding encodeTxRaw_message using write_message_total by (fastforce simp: pick)
  have "buildSignedSend sample_key (sample_params n) = Some (Inr tx)"
    unfolding buildSignedSend_parts using s t sample_sign by auto
  then show ?thesis by (simp add: sample_raw_def)
qed

lemma sample_raw_reads:
  assumes "n = ''1'' \<or> n = ''2''"
  shows "\<exists>body auth d. sign_doc (wk_pub sample_key) (sample_params n) = Some d \<and> length d < 2 ^ 64 \<and>
    encodeSignDoc body auth ''c'' 7 = Some d \<and>
    protoField (sample_raw n) 1 = Some (Inr body) \<and> protoField (sample_raw n) 2 = Some (Inr auth) \<and>
    protoField (sample_raw n) 3 = Some (Inr (replicate 64 CHR 0x1F))"
proof -
  obtain body auth doc sig where b: "send_body (sample_params n) = Some body"
    "send_auth (wk_pub sample_key) (sample_params n) = Some auth"
    "encodeSignDoc body auth ''c'' 7 = Some doc"
    "SignDigest sample_key (sha256 doc) = Inr sig" "encodeTxRaw body auth sig = Some (sample_raw n)"
    using sample_built [of n] unfolding buildSignedSend_parts by (auto simp: sample_params_def sample_send_def)
  have l: "length body < 400" "length auth < 500"
    using send_body_room [OF b(1)] send_auth_room [OF b(2)] assms
    by (auto simp: sample_params_def sample_send_def sample_key_def)
  have sig: "sig = replicate 64 CHR 0x1F" using b(4) sample_sign by simp
  have "length doc < 2 ^ 64"
    using written_room [OF b(3) [unfolded encodeSignDoc_message]] l by simp
  moreover have "length (sample_raw n) < 2 ^ 64"
    using written_room [OF b(5) [unfolded encodeTxRaw_message]] l sig by simp
  note m = message_reads [OF _ b(5) [unfolded encodeTxRaw_message] this]
  moreover have "protoField (sample_raw n) 1 = Some (Inr body)" "protoField (sample_raw n) 2 = Some (Inr auth)"
      "protoField (sample_raw n) 3 = Some (Inr sig)"
    using m [of 1] m [of 2] m [of 3] by (simp_all add: pick split: if_splits)
  moreover have "sign_doc (wk_pub sample_key) (sample_params n) = Some doc"
    using b(1-3) by (simp add: sign_doc_def) (simp add: sample_params_def sample_send_def)
  ultimately show ?thesis using b(3) sig by blast
qed

lemma sample_raws: "sample_raw ''1'' \<noteq> sample_raw ''2''" "sample_raw ''1'' \<noteq> []"
proof -
  show "sample_raw ''1'' \<noteq> sample_raw ''2''"
  proof
    assume "sample_raw ''1'' = sample_raw ''2''"
    then obtain d where "sign_doc (wk_pub sample_key) (sample_params ''1'') = Some d"
        "sign_doc (wk_pub sample_key) (sample_params ''2'') = Some d" "length d < 2 ^ 64"
      using sample_raw_reads [of "''1''"] sample_raw_reads [of "''2''"] by auto
    then have "sample_params ''1'' = sample_params ''2''" using same_sign_doc by blast
    then have "snd_amount (sample_params ''1'') = snd_amount (sample_params ''2'')" by simp
    then show False by (simp add: sample_params_def)
  qed
  have "protoField [] 3 = Some (Inr [])" using message_reads [of "[]" "[]" 3] by (simp add: write_message_def)
  then show "sample_raw ''1'' \<noteq> []" using sample_raw_reads [of "''1''"] by auto
qed

lemma sample_signed:
  "sign_transfer silent_node (sample_args n) sample_context = Inr (sample_raw n, \<lparr>as_number = 7, as_sequence = 2\<rparr>)"
proof -
  have "write_message [(1, PBytes []), (2, PBytes []), (3, PUint 7), (4, PUint 2)] =
      Some [CHR 0x18, CHR 0x07, CHR 0x20, CHR 0x02]"
    "write_message [(1, PBytes []), (2, PBytes [CHR 0x18, CHR 0x07, CHR 0x20, CHR 0x02])] =
      Some [CHR 0x12, CHR 0x04, CHR 0x18, CHR 0x07, CHR 0x20, CHR 0x02]"
    "write_message [(1, PBytes [CHR 0x12, CHR 0x04, CHR 0x18, CHR 0x07, CHR 0x20, CHR 0x02])] =
      Some [CHR 0x0A, CHR 0x06, CHR 0x12, CHR 0x04, CHR 0x18, CHR 0x07, CHR 0x20, CHR 0x02]"
    by code_simp+
  from account_reads [OF this]
  have a: "account (nd_account silent_node) = Some (Inr \<lparr>as_number = 7, as_sequence = 2\<rparr>)"
    by (simp add: silent_node_def)
  show ?thesis
    using a sample_built [of n]
    by (simp add: sign_transfer_def chainID_def, simp add: silent_node_def sample_args_def sample_context_def sample_params_def
        sample_send_def)
qed

lemma sample_checks: "n = ''1'' \<or> n = ''2'' \<Longrightarrow> send_checks plain_text (sample_args n) sample_context = None"
proof -
  have "bech32Decode id id ''twilight13pznqx'' = Some (Inr (TwilightHRP, []))" by code_simp
  moreover have "isPositiveInteger ''1''" "isPositiveInteger ''2''" "isPositiveInteger ''2000''" by code_simp+
  moreover assume "n = ''1'' \<or> n = ''2''"
  ultimately show ?thesis by (auto simp: send_checks_def sample_args_def sample_context_def plain_text_def)
qed

definition sample_entry :: "string \<Rightarrow> pending_tx" where
  "sample_entry n = journal_entry (sample_args n) sample_context \<lparr>as_number = 7, as_sequence = 2\<rparr> (sample_raw n)"

lemma sample_run:
  assumes "n = ''1'' \<or> n = ''2''" and "loadPendingTx dir w = (Inr None, w)"
    and "writePendingTx dir (sample_entry n) w = (None, w')"
  shows "walletSend plain_text silent_node (sample_args n) sample_context dir (w, evs) =
    (Exits exitOutcomeUnknown, (w', EvSent (sample_raw n) # evs))"
  using sample_checks [OF assms(1)] sample_signed [of n] assms(2,3)
  by (simp add: walletSend_def send_locked_def resolvePendingTxLocked_def first_broadcast_def sample_entry_def
      broadcast_def Let_def) (simp add: silent_node_def)

definition written :: "wallet_file \<Rightarrow> wworld" where
  "written f = snd (WriteFileAtomic ''d'' pendingTxFile f 384 (empty_world []))"

definition removed :: "wallet_file \<Rightarrow> wworld" where
  "removed f = snd (removePendingTx ''d'' (boot [] (written f)))"

lemma run_world:
  "fst (readWalletFile ''d'' pendingTxFile (empty_world [])) = Inl (JournalFs ErrNotExist)"
  "fst (WriteFileAtomic ''d'' pendingTxFile f 384 (empty_world [])) = None"
  "fst (readWalletFile ''d'' pendingTxFile (boot [] (written (PendingTx p)))) = Inr p"
  "fst (removePendingTx ''d'' (boot [] (written f))) = None"
  "fst (readWalletFile ''d'' pendingTxFile (boot [] (removed f))) = Inl (JournalFs ErrNotExist)"
  "fst (WriteFileAtomic ''d'' pendingTxFile g 384 (boot [] (removed f))) = None"
  by code_simp+

lemma read_calm:
  assumes "w_plan w = []" and "\<not> w_dead w"
  shows "readWalletFile dir name w = (fst (readWalletFile dir name w), w)"
proof -
  have "tick w = (None, w)" using assms by (simp add: tick_def)
  then show ?thesis
    by (auto simp: readWalletFile_def os_stat_def os_read_file_def split: option.splits wallet_file.splits)
qed

lemma boot_calm [simp]: "w_plan (boot [] w) = []" "\<not> w_dead (boot [] w)"
  by (simp_all add: boot_def)

lemma empty_calm: "boot [] (empty_world []) = (empty_world [] :: wworld)"
  by (simp add: boot_def empty_world_def)

definition sample_file :: "string \<Rightarrow> pending_tx" where
  "sample_file n = as_json ((sample_entry n)\<lparr>pt_version := pendingTxVersion\<rparr>)"

lemma sample_loads:
  "loadPendingTx ''d'' (empty_world []) = (Inr None, empty_world [])"
  "loadPendingTx ''d'' (boot [] (written (PendingTx (sample_file ''1'')))) =
     (Inr (Some (sample_file ''1'')), boot [] (written (PendingTx (sample_file ''1''))))"
  "loadPendingTx ''d'' (boot [] (removed f)) = (Inr None, boot [] (removed f))"
proof -
  show "loadPendingTx ''d'' (empty_world []) = (Inr None, empty_world [])"
    using read_calm [of "empty_world []" "''d''" pendingTxFile] run_world(1)
    by (simp add: loadPendingTx_def) (simp add: empty_world_def)
  show "loadPendingTx ''d'' (boot [] (removed f)) = (Inr None, boot [] (removed f))"
    using read_calm [of "boot [] (removed f)" "''d''" pendingTxFile] run_world(5) by (simp add: loadPendingTx_def)
  have n: "names (PendingTx (sample_file ''1'')) (sample_raw ''1'')"
    unfolding sample_file_def sample_entry_def by (rule entry_names)
  have "pt_version (sample_file ''1'') = pendingTxVersion" by (simp add: sample_file_def as_json_def)
  moreover have "pt_hash (sample_file ''1'') \<noteq> []"
  proof -
    have "length (txHash (sample_raw ''1'')) = 64" by (simp add: txHash_def)
    then show ?thesis using n by (auto simp: names_def)
  qed
  moreover have "pt_tx_raw (sample_file ''1'') \<noteq> []"
    using n sample_raws(2) by (auto simp: names_def txRaw_def DecodeString_def)
  ultimately show "loadPendingTx ''d'' (boot [] (written (PendingTx (sample_file ''1'')))) =
     (Inr (Some (sample_file ''1'')), boot [] (written (PendingTx (sample_file ''1''))))"
    using read_calm [of "boot [] (written (PendingTx (sample_file ''1'')))" "''d''" pendingTxFile] run_world(3)
    by (simp add: loadPendingTx_def)
qed

definition sample_sys :: "wworld \<Rightarrow> event list \<Rightarrow> wallet_sys" where
  "sample_sys w evs = \<lparr>wy_world = w, wy_events = evs, wy_waiting = []\<rparr>"

lemma two_payments:
  defines "e1 \<equiv> [EvSent (sample_raw ''1'')]"
  defines "e2 \<equiv> EvAbandoned (txHash (sample_raw ''1'')) # e1"
  shows "wallet_reach plain_text ''d'' (sample_sys (written (PendingTx (sample_file ''1''))) e1)"
    and "\<exists>w. wallet_reach plain_text ''d'' (sample_sys w (EvSent (sample_raw ''2'') # e2))"
proof -
  have v: "crash_views (empty_world [] :: wworld) = {\<lambda>_. Absent}"
    by (auto simp: crash_views_def prefix_maps_def view_of_def empty_world_def)
  have s0: "wallet_reach plain_text ''d'' (sample_sys (empty_world []) [])"
    by (rule wallet_reach.start) (simp add: fresh_wallet_def sample_sys_def v)
  define f where "f = PendingTx (sample_file ''1'')"
  have wr: "writePendingTx ''d'' (sample_entry ''1'') (empty_world []) = (None, written f)"
    using run_world(2) [of f] by (simp add: writePendingTx_def writeWalletFile_def f_def sample_file_def written_def prod_eq_iff)
  have "walletSend plain_text silent_node (sample_args ''1'') sample_context ''d'' (site_of [] (sample_sys (empty_world []) []))
      = (Exits exitOutcomeUnknown, (written f, e1))"
    using sample_run [OF _ sample_loads(1) wr] by (simp add: site_of_def sample_sys_def empty_calm e1_def)
  from wallet_step.send [OF this] wallet_reach.step [OF s0]
  show s1: "wallet_reach plain_text ''d'' (sample_sys (written (PendingTx (sample_file ''1''))) e1)"
    by (simp add: sample_sys_def with_site_def submitted_def f_def)
  have h: "pt_hash (sample_file ''1'') = txHash (sample_raw ''1'')"
    using entry_names [of "sample_args ''1''"] by (auto simp: names_def sample_file_def sample_entry_def)
  have "removePendingTx ''d'' (boot [] (written f)) = (None, removed f)"
    using run_world(4) [of f] by (simp add: removed_def prod_eq_iff)
  then have "abandon_pending ''d'' (site_of [] (sample_sys (written f) e1)) = (exitOK, (removed f, e2))"
    using sample_loads(2) h by (simp add: abandon_pending_def site_of_def sample_sys_def f_def e2_def)
  from wallet_step.abandon [OF this] wallet_reach.step [OF s1 [folded f_def]]
  have s2: "wallet_reach plain_text ''d'' (sample_sys (removed f) e2)"
    by (simp add: sample_sys_def with_site_def)
  obtain w' where wr2: "writePendingTx ''d'' (sample_entry ''2'') (boot [] (removed f)) = (None, w')"
    using run_world(6) [of "PendingTx (sample_file ''2'')" f]
    by (metis prod.collapse writePendingTx_def writeWalletFile_def sample_file_def)
  have "walletSend plain_text silent_node (sample_args ''2'') sample_context ''d'' (site_of [] (sample_sys (removed f) e2))
      = (Exits exitOutcomeUnknown, (w', EvSent (sample_raw ''2'') # e2))"
    using sample_run [OF _ sample_loads(3) wr2] by (simp add: site_of_def sample_sys_def)
  from wallet_step.send [OF this] wallet_reach.step [OF s2]
  show "\<exists>w. wallet_reach plain_text ''d'' (sample_sys w (EvSent (sample_raw ''2'') # e2))"
    by (auto simp: sample_sys_def with_site_def submitted_def)
qed

section \<open>Properties\<close>





end
