(* ===== verification/Bech32Spec.thy ===== *)
theory Bech32Spec
  imports Bech32
begin

text \<open>
  Bech32 decoding inverts encoding, and the checksum catches mistyped characters.  The value of a
  list of digits of \<open>w\<close> bits is the number it writes in base \<open>2 ^ w\<close>; regrouping keeps that number.
  The checksum is linear over exclusive or.
\<close>

unbundle bit_operations_syntax

section \<open>Numbers written in groups of bits\<close>

definition gval :: "nat \<Rightarrow> bytes \<Rightarrow> nat" where
  "gval w ds = foldl (\<lambda>v c. v * 2 ^ w + b2n c) 0 ds"

abbreviation digits :: "nat \<Rightarrow> bytes \<Rightarrow> bool" where
  "digits w ds \<equiv> list_all (\<lambda>c. b2n c < 2 ^ w) ds"

lemma gval_Nil [simp]: "gval w [] = 0"
  by (simp add: gval_def)

lemma gval_snoc: "gval w (ds @ [c]) = gval w ds * 2 ^ w + b2n c"
  by (simp add: gval_def)

lemma gval_append: "gval w (xs @ ys) = gval w xs * 2 ^ (w * length ys) + gval w ys"
proof (induction ys rule: rev_induct)
  case Nil
  then show ?case by simp
next
  case (snoc y ys)
  have "gval w (xs @ ys @ [y]) = gval w (xs @ ys) * 2 ^ w + b2n y"
    using gval_snoc [of w "xs @ ys" y] by simp
  then show ?case by (simp add: snoc.IH gval_snoc algebra_simps power_add)
qed

lemma gval_Cons: "gval w (c # ds) = b2n c * 2 ^ (w * length ds) + gval w ds"
  using gval_append [of w "[c]" ds] gval_snoc [of w "[]" c] by simp

lemma gval_less: "digits w ds \<Longrightarrow> gval w ds < 2 ^ (w * length ds)"
proof (induction ds)
  case Nil
  then show ?case by simp
next
  case (Cons c ds)
  have "b2n c * 2 ^ (w * length ds) + gval w ds < (b2n c + 1) * 2 ^ (w * length ds)"
    using Cons by simp
  also have "\<dots> \<le> 2 ^ w * 2 ^ (w * length ds)"
    using Cons.prems by (intro mult_right_mono) simp_all
  finally show ?case by (simp add: gval_Cons power_add)
qed

lemma gval_inj:
  "gval w xs = gval w ys \<Longrightarrow> length xs = length ys \<Longrightarrow> digits w xs \<Longrightarrow> digits w ys \<Longrightarrow> xs = ys"
proof (induction xs arbitrary: ys)
  case Nil
  then show ?case by simp
next
  case (Cons x xs)
  then obtain y ys' where ys: "ys = y # ys'" by (cases ys) simp_all
  have l: "gval w xs < 2 ^ (w * length xs)" "gval w ys' < 2 ^ (w * length xs)"
    using Cons.prems gval_less [of w xs] gval_less [of w ys'] ys by simp_all
  have e: "b2n x * 2 ^ (w * length xs) + gval w xs = b2n y * 2 ^ (w * length xs) + gval w ys'"
    using Cons.prems(1,2) ys by (simp add: gval_Cons)
  have "b2n x = b2n y"
    using arg_cong [OF e, of "\<lambda>n. n div 2 ^ (w * length xs)"] l by simp
  moreover have "gval w xs = gval w ys'" using e calculation by simp
  ultimately show ?case using Cons ys by simp
qed

section \<open>Regrouping\<close>

lemma maxv_mask: "to \<le> 64 \<Longrightarrow> maxv to = mask to"
  by (simp add: maxv_def mask_eq_exp_minus_1)

lemma group_value:
  assumes "to \<le> 8"
  shows "b2n (byte_of (x AND maxv to AND 0xff)) = unat x mod 2 ^ to"
proof -
  have "(0xff :: 64 word) = mask 8" by (simp add: mask_eq_exp_minus_1)
  then have "x AND maxv to AND 0xff = take_bit 8 (take_bit to x)"
    using assms by (simp add: maxv_mask take_bit_eq_mask and.assoc)
  also have "\<dots> = take_bit to x" using assms by (simp add: min_def)
  finally have u: "unat (x AND maxv to AND 0xff) = unat x mod 2 ^ to"
    by (simp only: unsigned_take_bit_eq) (simp only: take_bit_eq_mod)
  have "unat x mod 2 ^ to < 2 ^ to" by simp
  also have "\<dots> \<le> (2::nat) ^ 8" using assms by (intro power_increasing) simp_all
  finally show ?thesis by (simp add: byte_of_value u)
qed

lemma split_mod:
  fixes n :: nat
  assumes "m \<le> k"
  shows "n mod 2 ^ k = (n div 2 ^ m mod 2 ^ (k - m)) * 2 ^ m + n mod 2 ^ m"
  using mod_mult2_eq [of n "2 ^ m" "2 ^ (k - m)"] assms by (simp add: power_add [symmetric] algebra_simps)

lemma emit_groups_value:
  assumes "0 < to" and "to \<le> 8"
  shows "\<exists>g. emit_groups to acc bits = Some (g, bits mod to) \<and> length g = bits div to \<and> digits to g \<and>
    gval to g * 2 ^ (bits mod to) + unat acc mod 2 ^ (bits mod to) = unat acc mod 2 ^ bits"
proof (induction bits rule: less_induct)
  case (less bits)
  show ?case
  proof (cases "to \<le> bits")
    case True
    have "bits - to < bits" using True assms(1) by simp
    then obtain g where g: "emit_groups to acc (bits - to) = Some (g, (bits - to) mod to)"
      "length g = (bits - to) div to" "digits to g"
      "gval to g * 2 ^ ((bits - to) mod to) + unat acc mod 2 ^ ((bits - to) mod to) = unat acc mod 2 ^ (bits - to)"
      using less.IH by blast
    define c where "c = byte_of (drop_bit (bits - to) acc AND maxv to AND 0xff)"
    have c: "b2n c = unat acc div 2 ^ (bits - to) mod 2 ^ to"
      unfolding c_def group_value [OF assms(2)] unat_drop_bit_eq by (simp only: drop_bit_eq_div)
    have r: "(bits - to) mod to = bits mod to" "Suc ((bits - to) div to) = bits div to"
      using True assms(1) by (simp_all add: le_mod_geq le_div_geq)
    have e: "emit_groups to acc bits = Some (c # g, bits mod to)"
      using True g(1) r(1) by (subst emit_groups.simps) (simp add: c_def)
    have k: "to * length g + bits mod to = bits - to"
      using g(2) r(1) by (metis mult_div_mod_eq)
    have "gval to (c # g) * 2 ^ (bits mod to) + unat acc mod 2 ^ (bits mod to) =
        b2n c * 2 ^ (bits - to) + unat acc mod 2 ^ (bits - to)"
      using g(4) unfolding r(1) gval_Cons k [symmetric] by (simp add: algebra_simps power_add)
    also have "\<dots> = unat acc mod 2 ^ bits"
      using split_mod [of "bits - to" bits "unat acc"] True c by simp
    finally show ?thesis using e g(2,3) r(2) c by auto
  next
    case False
    then show ?thesis by (subst emit_groups.simps) simp
  qed
qed

text \<open>The number read so far: what has been put out, then the bits still held.\<close>

definition held_value :: "nat \<Rightarrow> 64 word \<times> nat \<times> bytes \<Rightarrow> nat" where
  "held_value to s = (case s of (acc, bits, out) \<Rightarrow> gval to out * 2 ^ bits + unat acc mod 2 ^ bits)"

lemma push_or_value:
  fixes acc :: "64 word"
  assumes "b2n b < 2 ^ src" and "bits + src \<le> 64"
  shows "unat (push_bit src acc OR word_of_nat (b2n b)) mod 2 ^ (bits + src) =
    (unat acc mod 2 ^ bits) * 2 ^ src + b2n b"
proof -
  let ?x = "push_bit src acc OR word_of_nat (b2n b) :: 64 word"
  have d: "drop_bit src ?x = take_bit (64 - src) acc"
    and t: "take_bit src ?x = word_of_nat (b2n b)"
  proof -
    have b: "bit (word_of_nat (b2n b) :: 64 word) i \<Longrightarrow> i < src" for i
    proof (rule ccontr)
      assume "bit (word_of_nat (b2n b) :: 64 word) i" and "\<not> i < src"
      then have "bit (b2n b) i" by (simp add: bit_simps)
      moreover have "b2n b < 2 ^ i"
        using assms(1) \<open>\<not> i < src\<close> by (meson linorder_not_less order_less_le_trans one_le_numeral power_increasing)
      ultimately show False by (simp add: bit_iff_odd)
    qed
    show "drop_bit src ?x = take_bit (64 - src) acc"
      using b by (auto simp: bit_eq_iff bit_simps)
    show "take_bit src ?x = word_of_nat (b2n b)"
      using b by (auto simp: bit_eq_iff bit_simps)
  qed
  have "b2n b < 2 ^ 64" using assms by (meson le_trans less_le_trans le_add2 one_le_numeral power_increasing)
  then have u: "unat ?x mod 2 ^ src = b2n b"
    using arg_cong [OF t, of unat] unfolding unsigned_take_bit_eq by (simp add: take_bit_eq_mod unat_of_nat)
  have "unat ?x div 2 ^ src mod 2 ^ bits = unat acc mod 2 ^ (64 - src) mod 2 ^ bits"
    using arg_cong [OF d, of unat] unfolding unsigned_take_bit_eq unat_drop_bit_eq
    by (simp only: drop_bit_eq_div take_bit_eq_mod)
  also have "\<dots> = unat acc mod 2 ^ bits"
    using assms(2) by (simp add: mod_mod_cancel le_imp_power_dvd)
  finally show ?thesis
    using split_mod [of src "bits + src" "unat ?x"] u by simp
qed

lemma small_datum: "b2n b < 2 ^ src \<Longrightarrow> src \<le> 64 \<Longrightarrow> drop_bit src (word_of_nat (b2n b) :: 64 word) = 0"
proof -
  assume a: "b2n b < 2 ^ src" "src \<le> 64"
  have "b2n b < 2 ^ 64" by (rule less_trans [OF b2n_less]) simp
  then have "unat (drop_bit src (word_of_nat (b2n b) :: 64 word)) = b2n b div 2 ^ src"
    by (simp only: unat_drop_bit_eq unat_of_nat_64) (simp only: drop_bit_eq_div)
  then show ?thesis using a(1) by (simp add: unat_eq_zero)
qed

lemma convert_loop_value:
  assumes "0 < to" and "to \<le> 8" and "src \<le> 8" and "bits < to" and "digits to out" and "digits src data"
  shows "\<exists>acc' bits' out'. convert_loop src to acc bits out data = Some (Inr (acc', bits', out')) \<and>
    bits' < to \<and> digits to out' \<and> to * length out' + bits' = to * length out + bits + src * length data \<and>
    held_value to (acc', bits', out') = held_value to (acc, bits, out) * 2 ^ (src * length data) + gval src data"
  using assms(4-6)
proof (induction data arbitrary: acc bits out)
  case Nil
  then show ?case by simp
next
  case (Cons b data)
  let ?acc = "push_bit src acc OR word_of_nat (b2n b) :: 64 word"
  have b: "b2n b < 2 ^ src" "digits src data" using Cons.prems(3) by simp_all
  obtain g where g: "emit_groups to ?acc (bits + src) = Some (g, (bits + src) mod to)"
    "length g = (bits + src) div to" "digits to g"
    "gval to g * 2 ^ ((bits + src) mod to) + unat ?acc mod 2 ^ ((bits + src) mod to) = unat ?acc mod 2 ^ (bits + src)"
    using emit_groups_value [OF assms(1,2)] by blast
  have v: "unat ?acc mod 2 ^ (bits + src) = (unat acc mod 2 ^ bits) * 2 ^ src + b2n b"
    using push_or_value [OF b(1)] Cons.prems(1) assms(2,3) by simp
  have k: "to * length g + (bits + src) mod to = bits + src" using g(2) by simp
  have h: "held_value to (?acc, (bits + src) mod to, out @ g) = held_value to (acc, bits, out) * 2 ^ src + b2n b"
  proof -
    have "held_value to (?acc, (bits + src) mod to, out @ g) =
        gval to out * 2 ^ (to * length g + (bits + src) mod to) + unat ?acc mod 2 ^ (bits + src)"
      using g(4) by (simp add: held_value_def gval_append algebra_simps power_add)
    then show ?thesis unfolding k v by (simp add: held_value_def algebra_simps power_add)
  qed
  have e: "convert_loop src to acc bits out (b # data) = convert_loop src to ?acc ((bits + src) mod to) (out @ g) data"
    using small_datum [OF b(1)] assms(3) g(1) by (simp add: Let_def)
  have "(bits + src) mod to < to" using assms(1) by simp
  moreover have "digits to (out @ g)" using Cons.prems(2) g(3) by simp
  ultimately obtain acc' bits' out' where r:
    "convert_loop src to ?acc ((bits + src) mod to) (out @ g) data = Some (Inr (acc', bits', out'))"
    "bits' < to" "digits to out'"
    "to * length out' + bits' = to * length (out @ g) + (bits + src) mod to + src * length data"
    "held_value to (acc', bits', out') =
       held_value to (?acc, (bits + src) mod to, out @ g) * 2 ^ (src * length data) + gval src data"
    using Cons.IH b(2) by blast
  have "to * length out' + bits' = to * length out + bits + src * length (b # data)"
    using r(4) k by (simp add: algebra_simps)
  moreover have "held_value to (acc', bits', out') =
      held_value to (acc, bits, out) * 2 ^ (src * length (b # data)) + gval src (b # data)"
    unfolding r(5) h by (simp add: gval_Cons algebra_simps power_add)
  ultimately show ?case using e r(1,2,3) by auto
qed

lemma digits_8: "digits 8 data"
  using b2n_less by (simp add: list_all_iff)

lemma convert_from_start:
  assumes "0 < to" and "to \<le> 8" and "src \<le> 8" and "digits src data"
  obtains acc bits out where "convert_loop src to 0 0 [] data = Some (Inr (acc, bits, out))" and "bits < to"
    and "digits to out" and "to * length out + bits = src * length data"
    and "gval to out * 2 ^ bits + unat acc mod 2 ^ bits = gval src data"
proof -
  have "\<exists>acc' bits' out'. convert_loop src to 0 0 [] data = Some (Inr (acc', bits', out')) \<and>
    bits' < to \<and> digits to out' \<and> to * length out' + bits' = src * length data \<and>
    gval to out' * 2 ^ bits' + unat acc' mod 2 ^ bits' = gval src data"
    using convert_loop_value [OF assms(1-3), of 0 "[]" data 0] assms(1,4) by (simp add: held_value_def)
  then show thesis using that by blast
qed

text \<open>Eight bits to five, padded; and back.\<close>

lemma convert_to_five:
  obtains five pad where "convertBits data 8 5 True = Some (Inr five)" and "digits 5 five" and "pad < 5"
    and "5 * length five = 8 * length data + pad" and "gval 5 five = gval 8 data * 2 ^ pad"
proof -
  obtain acc bits out where r: "convert_loop 8 5 0 0 [] data = Some (Inr (acc, bits, out))" "bits < 5" "digits 5 out"
    "5 * length out + bits = 8 * length data" "gval 5 out * 2 ^ bits + unat acc mod 2 ^ bits = gval 8 data"
    by (rule convert_from_start [of 5 8 data]) (simp_all add: digits_8 [simplified])
  show thesis
  proof (cases "bits = 0")
    case True
    then show thesis using that [of out 0] r by (simp add: convertBits_def)
  next
    case False
    let ?c = "byte_of (push_bit (5 - bits) acc AND maxv 5 AND 0xff)"
    have "unat (push_bit (5 - bits) acc) mod 2 ^ 5 = (unat acc mod 2 ^ bits) * 2 ^ (5 - bits)"
    proof -
      have "take_bit 5 (push_bit (5 - bits) acc) = push_bit (5 - bits) (take_bit bits acc)"
        using r(2) by (simp add: take_bit_push_bit)
      have "unat (push_bit (5 - bits) acc) mod 2 ^ (bits + (5 - bits)) = (unat acc mod 2 ^ bits) * 2 ^ (5 - bits)"
        using push_or_value [of "CHR 0x00" "5 - bits" bits acc] r(2) by simp
      then show ?thesis using r(2) by simp
    qed
    then have c: "b2n ?c = (unat acc mod 2 ^ bits) * 2 ^ (5 - bits)" by (simp only: group_value)
    have "(unat acc mod 2 ^ bits) * 2 ^ (5 - bits) < 2 ^ bits * 2 ^ (5 - bits)" by simp
    also have "\<dots> = 2 ^ 5" using r(2) by (simp flip: power_add)
    finally have d: "digits 5 (out @ [?c])" using r(3) c by simp
    have "gval 5 (out @ [?c]) = (gval 5 out * 2 ^ bits + unat acc mod 2 ^ bits) * 2 ^ (5 - bits)"
    proof -
      have "(2::nat) ^ 5 = 2 ^ bits * 2 ^ (5 - bits)" using r(2) by (simp flip: power_add)
      then show ?thesis unfolding gval_snoc c by (simp only: algebra_simps)
    qed
    then have "gval 5 (out @ [?c]) = gval 8 data * 2 ^ (5 - bits)" using r(5) by simp
    then show thesis
      using that [of "out @ [?c]" "5 - bits"] d r(1,2,4) False by (simp add: convertBits_def)
  qed
qed

lemma convert_from_five:
  assumes "digits 5 five" and "pad < 5" and "5 * length five = 8 * length data + pad"
    and "gval 5 five = gval 8 data * 2 ^ pad"
  shows "convertBits five 5 8 False = Some (Inr data)"
proof -
  obtain acc bits out where r: "convert_loop 5 8 0 0 [] five = Some (Inr (acc, bits, out))" "bits < 8" "digits 8 out"
    "8 * length out + bits = 5 * length five" "gval 8 out * 2 ^ bits + unat acc mod 2 ^ bits = gval 5 five"
    by (rule convert_from_start [of 8 5 five]) (use assms(1) in simp_all)
  have "length out = length data" using r(2,4) assms(2,3) by linarith
  with r(4) assms(3) have l: "length out = length data" "bits = pad" by simp_all
  have e: "gval 8 out * 2 ^ pad + unat acc mod 2 ^ pad = gval 8 data * 2 ^ pad"
    using r(5) assms(4) l(2) by simp
  have "gval 8 out = gval 8 data"
    using arg_cong [OF e, of "\<lambda>n. n div 2 ^ pad"] by simp
  then have out: "out = data" using gval_inj [OF _ l(1) digits_8 digits_8] by simp
  have "unat acc mod 2 ^ pad = 0" using e out by simp
  then have "push_bit (8 - pad) acc AND maxv 8 = 0"
  proof -
    assume z: "unat acc mod 2 ^ pad = 0"
    have "unat (push_bit (8 - pad) acc) mod 2 ^ (pad + (8 - pad)) = 0"
      using push_or_value [of "CHR 0x00" "8 - pad" pad acc] assms(2) z by simp
    then have "unat (take_bit 8 (push_bit (8 - pad) acc)) = 0"
      using assms(2) by (simp only: unsigned_take_bit_eq) (simp add: take_bit_eq_mod)
    then show ?thesis by (simp add: maxv_mask take_bit_eq_mask unat_eq_zero)
  qed
  then show ?thesis using r(1) l assms(2) out by (simp add: convertBits_def)
qed

section \<open>The checksum\<close>

definition poly_shift :: "w32 \<Rightarrow> w32" where
  "poly_shift c = polymod_step c (CHR 0x00)"

definition gen_part :: "w32 \<Rightarrow> w32" where
  "gen_part t = foldl (\<lambda>chk i. if bit t i then chk XOR bech32Gen ! i else chk) 0 [0..<5]"

lemma foldl_xor_out:
  "foldl (\<lambda>c i. if P i then c XOR g i else c) (a XOR b) is = foldl (\<lambda>c i. if P i then c XOR g i else c) a is XOR (b :: w32)"
proof (induction "is" arbitrary: a)
  case Nil
  then show ?case by simp
next
  case (Cons i "is")
  have "(a XOR b) XOR g i = (a XOR g i) XOR b" by (simp add: xor.assoc xor.commute xor.left_commute)
  then show ?case using Cons.IH [of "a XOR g i"] Cons.IH [of a] by simp
qed

lemma low_bit_test: "(drop_bit i t AND 1 = (1 :: w32)) = bit t i"
  by (simp add: bit_iff_and_drop_bit_eq_1)

lemma polymod_step_split:
  "polymod_step c v = (push_bit 5 (c AND 0x1ffffff) XOR gen_part (drop_bit 25 c)) XOR word_of_nat (b2n v)"
proof -
  let ?f = "\<lambda>chk i. if bit (drop_bit 25 c) i then chk XOR bech32Gen ! i else chk"
  have "polymod_step c v = foldl ?f (0 XOR (push_bit 5 (c AND 0x1ffffff) XOR word_of_nat (b2n v))) [0..<5]"
    unfolding polymod_step_def Let_def low_bit_test by (simp only: xor.left_neutral)
  also have "\<dots> = gen_part (drop_bit 25 c) XOR (push_bit 5 (c AND 0x1ffffff) XOR word_of_nat (b2n v))"
    unfolding foldl_xor_out gen_part_def by simp
  finally show ?thesis by (simp add: xor.assoc xor.commute xor.left_commute)
qed

lemma poly_shift_eq: "poly_shift c = push_bit 5 (c AND 0x1ffffff) XOR gen_part (drop_bit 25 c)"
  by (simp add: poly_shift_def polymod_step_split)

lemma polymod_step_shift: "polymod_step c v = poly_shift c XOR word_of_nat (b2n v)"
  by (simp add: polymod_step_split poly_shift_eq)

lemma upt_five: "[0..<5] = [0, 1, 2, 3, 4 :: nat]"
  by (simp add: upt_rec)

lemma xor_choice:
  "(if a \<noteq> b then x XOR g else x) = (if a then g else 0) XOR (if b then g else (0 :: w32)) XOR x"
  by (cases a; cases b) (simp_all add: xor.commute)

definition gen_sum :: "(nat \<Rightarrow> bool) \<Rightarrow> w32" where
  "gen_sum p = (if p 0 then 0x3b6a57b2 else 0) XOR (if p 1 then 0x26508e6d else 0) XOR (if p 2 then 0x1ea119fa else 0) XOR
     (if p 3 then 0x3d4233dd else 0) XOR (if p 4 then 0x2a1462b3 else 0)"

lemma gen_part_sum: "gen_part t = gen_sum (bit t)"
  unfolding gen_part_def gen_sum_def upt_five bech32Gen_def
  by (simp add: numeral_2_eq_2 numeral_3_eq_3 numeral_eq_Suc)

lemma gen_part_xor: "gen_part (s XOR t) = gen_part s XOR gen_part t"
proof -
  have c: "(if a \<noteq> b then g else 0) = (if a then g else 0) XOR (if b then g else (0 :: w32))" for a b g
    by (cases a; cases b) simp_all
  show ?thesis
    unfolding gen_part_sum gen_sum_def bit_xor_iff c by (simp only: xor.assoc xor.commute xor.left_commute)
qed

lemma poly_shift_xor: "poly_shift (a XOR b) = poly_shift a XOR poly_shift b"
proof -
  have "push_bit 5 ((a XOR b) AND 0x1ffffff) = push_bit 5 (a AND 0x1ffffff) XOR push_bit 5 (b AND (0x1ffffff :: w32))"
    by (simp add: bit.conj_xor_distrib2 push_bit_xor)
  moreover have "drop_bit 25 (a XOR b) = drop_bit 25 a XOR drop_bit 25 b" by simp
  ultimately show ?thesis unfolding poly_shift_eq gen_part_xor [symmetric]
    by (simp only: gen_part_xor xor.assoc xor.commute xor.left_commute)
qed

lemma poly_shift_0 [simp]: "poly_shift 0 = 0"
  using poly_shift_xor [of 0 0] by simp

text \<open>Lists of values under exclusive or.\<close>

definition xor_values :: "bytes \<Rightarrow> bytes \<Rightarrow> bytes" where
  "xor_values xs ys = map2 (\<lambda>x y. char_of (b2n x XOR b2n y)) xs ys"

lemma byte_xor: "b2n (char_of (b2n x XOR b2n y)) = b2n x XOR b2n y"
proof -
  have "take_bit 8 (b2n x XOR b2n y) = b2n x XOR b2n y"
    using b2n_less [of x] b2n_less [of y] by (simp add: take_bit_nat_eq_self)
  then show ?thesis by (simp add: take_bit_eq_mod)
qed

lemma polymod_xor:
  "length xs = length ys \<Longrightarrow>
   foldl polymod_step (a XOR b) (xor_values xs ys) = foldl polymod_step a xs XOR foldl polymod_step b ys"
proof (induction xs ys arbitrary: a b rule: list_induct2)
  case Nil
  then show ?case by (simp add: xor_values_def)
next
  case (Cons x xs y ys)
  have "polymod_step (a XOR b) (char_of (b2n x XOR b2n y)) = polymod_step a x XOR polymod_step b y"
    unfolding polymod_step_shift poly_shift_xor byte_xor of_nat_xor_eq
    by (simp only: xor.assoc xor.commute xor.left_commute)
  then show ?case using Cons.IH [of "polymod_step a x" "polymod_step b y"] by (simp add: xor_values_def)
qed

text \<open>Below \<open>2 ^ 25\<close> the register only shifts, so six values are read as a number.\<close>

lemma poly_shift_small:
  assumes "n < 2 ^ 25"
  shows "poly_shift (word_of_nat n) = word_of_nat (n * 2 ^ 5)"
proof -
  have m: "(0x1ffffff :: w32) = mask 25" by (simp add: mask_eq_exp_minus_1)
  have u: "unat (word_of_nat n :: w32) = n" using assms by (simp add: unat_of_nat)
  have "unat (drop_bit 25 (word_of_nat n :: w32)) = 0"
    unfolding unat_drop_bit_eq u using assms by (simp add: drop_bit_eq_div)
  then have d: "drop_bit 25 (word_of_nat n :: w32) = 0" by (simp add: unat_eq_zero)
  have "take_bit 25 (word_of_nat n :: w32) = word_of_nat n"
    using assms by (simp add: take_bit_of_nat take_bit_nat_eq_self)
  then have "(word_of_nat n :: w32) AND 0x1ffffff = word_of_nat n" by (simp only: m take_bit_eq_mask)
  moreover have "gen_part 0 = (0 :: w32)" by (simp add: gen_part_sum gen_sum_def)
  ultimately show ?thesis using d by (simp add: poly_shift_eq push_bit_eq_mult)
qed

lemma add_as_xor:
  assumes "v < 2 ^ 5"
  shows "(word_of_nat (n * 2 ^ 5) :: w32) XOR word_of_nat v = word_of_nat (n * 2 ^ 5 + v)"
proof -
  have z: "n * 2 ^ 5 AND v = 0"
  proof (rule bit_eqI)
    fix i
    have "\<not> bit v i" if "5 \<le> i"
    proof -
      have "v < 2 ^ i" using assms that by (meson less_le_trans one_le_numeral power_increasing)
      then show ?thesis by (simp add: bit_iff_odd)
    qed
    moreover have "\<not> bit (n * 2 ^ 5) i" if "i < 5"
      using that bit_push_bit_iff_nat [of 5 n i] by (simp add: push_bit_eq_mult)
    ultimately show "bit (n * 2 ^ 5 AND v) i = bit 0 i" by (cases "5 \<le> i") (auto simp: bit_simps)
  qed
  have "n * 2 ^ 5 XOR v = n * 2 ^ 5 + v"
    using z by (metis disjunctive_xor_eq_or disjunctive_add_eq_or)
  then show ?thesis by (simp only: of_nat_xor_eq [symmetric])
qed

lemma polymod_reads_value:
  "digits 5 ds \<Longrightarrow> length ds \<le> 6 \<Longrightarrow> foldl polymod_step 0 ds = word_of_nat (gval 5 ds)"
proof (induction ds rule: rev_induct)
  case Nil
  then show ?case by simp
next
  case (snoc d ds)
  have "gval 5 ds < 2 ^ (5 * length ds)" using gval_less snoc.prems by simp
  also have "\<dots> \<le> 2 ^ 25" using snoc.prems by (intro power_increasing) simp_all
  finally have "gval 5 ds < 2 ^ 25" .
  then show ?case
    using snoc add_as_xor [of "b2n d" "gval 5 ds"]
    by (simp add: polymod_step_shift poly_shift_small gval_snoc)
qed

lemma gval_of_number:
  "gval 5 (map (\<lambda>i. char_of (n div 2 ^ (5 * (k - i)) mod 32)) [0..<Suc k]) = n mod 2 ^ (5 * Suc k)"
proof (induction k)
  case 0
  then show ?case by (simp add: gval_Cons mod_mod_cancel)
next
  case (Suc k)
  have "[0..<Suc (Suc k)] = 0 # map Suc [0..<Suc k]" unfolding map_Suc_upt by (rule upt_conv_Cons) simp
  then have "gval 5 (map (\<lambda>i. char_of (n div 2 ^ (5 * (Suc k - i)) mod 32)) [0..<Suc (Suc k)]) =
      (n div 2 ^ (5 * Suc k) mod 32) * 2 ^ (5 * Suc k) + n mod 2 ^ (5 * Suc k)"
    using Suc by (simp add: gval_Cons o_def mod_mod_cancel del: upt_Suc mult_Suc_right)
  also have "\<dots> = n mod 2 ^ (5 * Suc (Suc k))"
    using split_mod [of "5 * Suc k" "5 * Suc (Suc k)" n] by simp
  finally show ?case .
qed

lemma group5: "unat (drop_bit k p AND (31 :: w32)) = unat p div 2 ^ k mod 32"
proof -
  have "(31 :: w32) = mask 5" by (simp add: mask_eq_exp_minus_1)
  then have "unat (drop_bit k p AND (31 :: w32)) = unat (take_bit 5 (drop_bit k p))" by (simp only: take_bit_eq_mask)
  also have "\<dots> = unat p div 2 ^ k mod 2 ^ 5"
    unfolding unsigned_take_bit_eq unat_drop_bit_eq by (simp only: take_bit_eq_mod drop_bit_eq_div)
  finally show ?thesis by simp
qed

lemma checksum_values_props:
  shows "length (checksum_values p) = 6" and "digits 5 (checksum_values p)"
    and "gval 5 (checksum_values p) = unat p mod 2 ^ 30"
proof -
  have c: "checksum_values p = map (\<lambda>i. char_of (unat p div 2 ^ (5 * (5 - i)) mod 32)) [0..<Suc 5]"
    by (simp add: checksum_values_def group5)
  show "length (checksum_values p) = 6" by (simp add: checksum_values_def)
  show "digits 5 (checksum_values p)" unfolding c by (simp add: list_all_iff mod_mod_cancel del: upt_Suc)
  show "gval 5 (checksum_values p) = unat p mod 2 ^ 30" unfolding c gval_of_number by simp
qed

lemma poly_shift_bound: "take_bit 30 (poly_shift c) = poly_shift c"
proof -
  have "take_bit 30 (gen_sum p) = gen_sum p" for p by (simp add: gen_sum_def take_bit_xor)
  moreover have "take_bit 30 (push_bit 5 (c AND 0x1ffffff)) = push_bit 5 (c AND (0x1ffffff :: w32))"
  proof -
    have m: "(0x1ffffff :: w32) = mask 25" by (simp add: mask_eq_exp_minus_1)
    show ?thesis unfolding m take_bit_eq_mask [symmetric] take_bit_push_bit by simp
  qed
  ultimately show ?thesis unfolding poly_shift_eq gen_part_sum take_bit_xor by simp
qed

lemma polymod_of_checksum:
  "foldl polymod_step c (checksum_values (foldl polymod_step c (replicate 6 CHR 0x00) XOR 1)) = 1"
proof -
  let ?p = "foldl polymod_step c (replicate 6 CHR 0x00)" and ?z = "replicate 6 CHR 0x00"
  let ?cs = "checksum_values (?p XOR 1)"
  have "?p = poly_shift (foldl polymod_step c (replicate 5 CHR 0x00))"
    by (simp add: polymod_step_shift numeral_eq_Suc)
  then have "take_bit 30 ?p = ?p" by (simp only: poly_shift_bound)
  then have "take_bit 30 (?p XOR 1) = ?p XOR 1" by (simp add: take_bit_xor)
  then have u: "unat (?p XOR 1) mod 2 ^ 30 = unat (?p XOR 1)"
    using arg_cong [of "take_bit 30 (?p XOR 1)" "?p XOR 1" unat]
    unfolding unsigned_take_bit_eq by (simp only: take_bit_eq_mod)
  have "xor_values ?z ?cs = ?cs"
  proof -
    have "xor_values (replicate n CHR 0x00) ds = ds" if "length ds = n" for n ds
      using that by (induction ds arbitrary: n) (auto simp: xor_values_def)
    then show ?thesis using checksum_values_props(1) by blast
  qed
  then have "foldl polymod_step c ?cs = foldl polymod_step (c XOR 0) (xor_values ?z ?cs)" by simp
  also have "\<dots> = ?p XOR foldl polymod_step 0 ?cs"
    by (rule polymod_xor) (simp add: checksum_values_props(1))
  also have "foldl polymod_step 0 ?cs = ?p XOR 1"
    using polymod_reads_value [OF checksum_values_props(2)] checksum_values_props(1,3) u by simp
  finally show ?thesis by (simp flip: xor.assoc)
qed

section \<open>The checksum over the field of 32 elements\<close>

text \<open>
  A value is an element of the field of 32 elements, \<open>z ^ 5 = z ^ 3 + 1\<close>, and the register holds
  six of them.  \<open>scale\<close> multiplies each by \<open>z\<close>, \<open>unscale\<close> divides, and both commute with the
  register's step, so one orbit of the step tells about all.
\<close>

definition scale :: "w32 \<Rightarrow> w32" where
  "scale c =
     (let h = drop_bit 4 c AND 0x2108421 in push_bit 1 (c AND 0x1EF7BDEF) XOR (h XOR push_bit 3 h))"

definition unscale :: "w32 \<Rightarrow> w32" where
  "unscale c =
     (let l = c AND 0x2108421 in drop_bit 1 (c AND 0x3DEF7BDE) XOR (push_bit 2 l XOR push_bit 4 l))"

definition linear :: "(w32 \<Rightarrow> w32) \<Rightarrow> bool" where
  "linear f \<longleftrightarrow> (\<forall>a b. f (a XOR b) = f a XOR f b)"

lemma linear_0: "linear f \<Longrightarrow> f 0 = 0"
  unfolding linear_def by (metis xor_self_eq)

lemma linear_comp: "linear f \<Longrightarrow> linear g \<Longrightarrow> linear (\<lambda>x. f (g x))"
  by (simp add: linear_def)

lemma linear_scale: "linear scale"
  by (simp add: linear_def scale_def Let_def bit.conj_xor_distrib2 push_bit_xor xor.assoc xor.left_commute)

lemma linear_unscale: "linear unscale"
  by (simp add: linear_def unscale_def Let_def bit.conj_xor_distrib2 push_bit_xor xor.assoc xor.left_commute)

lemma linear_shift: "linear poly_shift"
  by (simp add: linear_def poly_shift_xor)

lemma take_bit_Suc_xor: "take_bit (Suc n) (c :: w32) = take_bit n c XOR (if bit c n then push_bit n 1 else 0)"
proof (rule bit_word_eqI)
  fix i
  assume "i < LENGTH(32)"
  then show "bit (take_bit (Suc n) c) i = bit (take_bit n c XOR (if bit c n then push_bit n 1 else 0)) i"
    by (cases "i = n") (auto simp: bit_simps less_Suc_eq bit_1_iff)
qed

text \<open>Two linear maps that agree on single bits agree.\<close>

fun agree_from :: "(w32 \<Rightarrow> w32) \<Rightarrow> (w32 \<Rightarrow> w32) \<Rightarrow> nat \<Rightarrow> w32 \<Rightarrow> bool" where
  "agree_from f g 0 b = True"
| "agree_from f g (Suc n) b = (f b = g b \<and> agree_from f g n (push_bit 1 b))"

lemma agree_from_nth: "agree_from f g n b \<Longrightarrow> i < n \<Longrightarrow> f (push_bit i b) = g (push_bit i b)"
proof (induction n arbitrary: b i)
  case 0
  then show ?case by simp
next
  case (Suc n)
  then show ?case
  proof (cases i)
    case 0
    then show ?thesis using Suc.prems by simp
  next
    case (Suc j)
    then show ?thesis using Suc.prems Suc.IH [of "push_bit 1 b" j] by (simp add: push_bit_push_bit)
  qed
qed

lemma linear_eq:
  assumes "linear f" and "linear g" and "agree_from f g n 1"
  shows "f (take_bit n c) = g (take_bit n c)"
proof -
  have z: "f 0 = g 0" using linear_0 [OF assms(1)] linear_0 [OF assms(2)] by simp
  have "f (take_bit m c) = g (take_bit m c)" if "m \<le> n" for m
    using that
  proof (induction m)
    case 0
    then show ?case using z by simp
  next
    case (Suc m)
    then have "f (take_bit m c) = g (take_bit m c)" "f (push_bit m 1) = g (push_bit m 1)"
      using agree_from_nth [OF assms(3)] by simp_all
    then show ?case using assms(1,2) z unfolding take_bit_Suc_xor linear_def by simp
  qed
  then show ?thesis by simp
qed

definition scale_then_shift :: "w32 \<Rightarrow> w32" where "scale_then_shift c = poly_shift (scale c)"
definition shift_then_scale :: "w32 \<Rightarrow> w32" where "shift_then_scale c = scale (poly_shift c)"

definition scale_then_unscale :: "w32 \<Rightarrow> w32" where "scale_then_unscale c = unscale (scale c)"

lemma scale_shift: "take_bit 30 c = c \<Longrightarrow> poly_shift (scale c) = scale (poly_shift c)"
proof -
  assume c: "take_bit 30 c = c"
  have "agree_from scale_then_shift shift_then_scale 30 1" by code_simp
  then have "scale_then_shift (take_bit 30 c) = shift_then_scale (take_bit 30 c)"
    by (rule linear_eq [rotated 2])
      (simp_all add: linear_def scale_then_shift_def shift_then_scale_def
        linear_scale [unfolded linear_def] poly_shift_xor)
  then show ?thesis by (simp add: c scale_then_shift_def shift_then_scale_def)
qed

lemma unscale_scale: "take_bit 30 c = c \<Longrightarrow> unscale (scale c) = c"
proof -
  assume c: "take_bit 30 c = c"
  have "agree_from scale_then_unscale id 30 1" by code_simp
  then have "scale_then_unscale (take_bit 30 c) = id (take_bit 30 c)"
    by (rule linear_eq [rotated 2])
      (simp_all add: linear_def scale_then_unscale_def linear_scale [unfolded linear_def]
        linear_unscale [unfolded linear_def])
  then show ?thesis by (simp add: c scale_then_unscale_def)
qed

fun orbit_spreads :: "nat \<Rightarrow> w32 \<Rightarrow> bool" where
  "orbit_spreads 0 c = True"
| "orbit_spreads (Suc n) c = (let c = poly_shift c in drop_bit 5 c \<noteq> 0 \<and> orbit_spreads n c)"

lemma orbit_spreads_nth: "orbit_spreads n c \<Longrightarrow> 0 < k \<Longrightarrow> k \<le> n \<Longrightarrow> drop_bit 5 ((poly_shift ^^ k) c) \<noteq> 0"
proof (induction n arbitrary: c k)
  case 0
  then show ?case by simp
next
  case (Suc n)
  obtain j where j: "k = Suc j" using Suc.prems(2) by (cases k) simp_all
  show ?case
  proof (cases j)
    case 0
    then show ?thesis using Suc.prems(1) j by (simp add: Let_def)
  next
    case (Suc i)
    then have "drop_bit 5 ((poly_shift ^^ j) (poly_shift c)) \<noteq> 0"
      using Suc.IH [of "poly_shift c" j] Suc.prems j by (simp add: Let_def)
    then show ?thesis unfolding j funpow_Suc_right o_apply .
  qed
qed

lemma one_spreads: "0 < k \<Longrightarrow> k \<le> 88 \<Longrightarrow> drop_bit 5 ((poly_shift ^^ k) 1) \<noteq> 0"
proof -
  have "orbit_spreads 88 1" by code_simp
  then show "0 < k \<Longrightarrow> k \<le> 88 \<Longrightarrow> drop_bit 5 ((poly_shift ^^ k) 1) \<noteq> 0" by (rule orbit_spreads_nth)
qed

text \<open>Single values, and registers of thirty bits.\<close>

abbreviation single :: "w32 \<Rightarrow> bool" where
  "single c \<equiv> take_bit 5 c = c"

abbreviation in_register :: "w32 \<Rightarrow> bool" where
  "in_register c \<equiv> take_bit 30 c = c"

definition low_unscale :: "w32 \<Rightarrow> w32" where "low_unscale c = take_bit 5 (unscale c)"
definition low_scale :: "w32 \<Rightarrow> w32" where "low_scale c = take_bit 30 (scale c)"

lemma single_unscale: "single c \<Longrightarrow> single (unscale c)"
proof -
  assume c: "single c"
  have "agree_from low_unscale unscale 5 1" by code_simp
  then have "low_unscale (take_bit 5 c) = unscale (take_bit 5 c)"
    by (rule linear_eq [rotated 2])
      (simp_all add: linear_def low_unscale_def linear_unscale [unfolded linear_def] take_bit_xor)
  then show ?thesis by (simp add: c low_unscale_def)
qed

lemma scale_in_register: "in_register c \<Longrightarrow> in_register (scale c)"
proof -
  assume c: "in_register c"
  have "agree_from low_scale scale 30 1" by code_simp
  then have "low_scale (take_bit 30 c) = scale (take_bit 30 c)"
    by (rule linear_eq [rotated 2])
      (simp_all add: linear_def low_scale_def linear_scale [unfolded linear_def] take_bit_xor)
  then show ?thesis by (simp add: c low_scale_def)
qed

lemma scale_not_single: "in_register c \<Longrightarrow> \<not> single c \<Longrightarrow> \<not> single (scale c)"
  using single_unscale [of "scale c"] by (auto simp: unscale_scale)

lemma shifts_in_register: "in_register c \<Longrightarrow> in_register ((poly_shift ^^ k) c)"
  by (induction k) (simp_all add: poly_shift_bound)

lemma shifts_scale: "in_register c \<Longrightarrow> (poly_shift ^^ k) (scale c) = scale ((poly_shift ^^ k) c)"
  by (induction k) (simp_all add: scale_shift shifts_in_register)

lemma shifts_of_power:
  assumes "in_register c" and "\<not> single ((poly_shift ^^ k) c)"
  shows "in_register ((scale ^^ j) c) \<and> \<not> single ((poly_shift ^^ k) ((scale ^^ j) c))"
  by (induction j) (use assms in \<open>simp_all add: shifts_scale scale_in_register scale_not_single shifts_in_register\<close>)

fun powers :: "nat \<Rightarrow> w32 \<Rightarrow> w32 list" where
  "powers 0 c = []"
| "powers (Suc n) c = c # powers n (scale c)"

lemma powers_set: "x \<in> set (powers n c) \<Longrightarrow> \<exists>j. x = (scale ^^ j) c"
proof (induction n arbitrary: c)
  case 0
  then show ?case by simp
next
  case (Suc n)
  then consider "x = c" | j where "x = (scale ^^ j) (scale c)" by auto
  then show ?case
  proof cases
    case 1
    then show ?thesis by (intro exI [of _ 0]) simp
  next
    case (2 j)
    then show ?thesis by (intro exI [of _ "Suc j"]) (simp only: funpow_Suc_right o_apply)
  qed
qed

lemma powers_of_z:
  "powers 31 1 =
     [1, 2, 4, 8, 16, 9, 18, 13, 26, 29, 19, 15, 30, 21, 3, 6, 12, 24, 25, 27, 31, 23, 7, 14, 28, 17, 11, 22, 5, 10, 20]"
  by code_simp

lemma values_are_powers:
  "list_all (\<lambda>n. word_of_nat n \<in> set
     ([1, 2, 4, 8, 16, 9, 18, 13, 26, 29, 19, 15, 30, 21, 3, 6, 12, 24, 25, 27, 31, 23, 7, 14, 28, 17, 11, 22, 5, 10, 20] :: w32 list))
     [1, 2, 3, 4, 5, 6, 7, 8, 9, 10, 11, 12, 13, 14, 15, 16, 17, 18, 19, 20, 21, 22, 23, 24, 25, 26, 27, 28, 29, 30, 31]"
  by simp

lemma value_cases:
  "0 < n \<Longrightarrow> n < 32 \<Longrightarrow>
   n \<in> set [1, 2, 3, 4, 5, 6, 7, 8, 9, 10, 11, 12, 13, 14, 15, 16, 17, 18, 19, 20, 21, 22, 23, 24, 25, 26, 27, 28, 29, 30, 31 :: nat]"
  by (simp, presburger)

lemma single_is_power:
  assumes "single d" and "d \<noteq> 0"
  shows "\<exists>j. d = (scale ^^ j) 1"
proof -
  have "unat (take_bit 5 d) < 2 ^ 5" unfolding unsigned_take_bit_eq by (rule take_bit_nat_less_exp)
  then have "unat d < 32" using assms(1) by simp
  moreover have "0 < unat d" using assms(2) unat_eq_zero [of d] by simp
  ultimately have "word_of_nat (unat d) \<in> set (powers 31 1)"
    using values_are_powers value_cases [of "unat d"] unfolding powers_of_z list_all_iff by blast
  then have "d \<in> set (powers 31 1)" by simp
  then show ?thesis by (rule powers_set)
qed

lemma shifts_not_single:
  assumes "single d" and "d \<noteq> 0" and "0 < k" and "k \<le> 88"
  shows "\<not> single ((poly_shift ^^ k) d)"
proof -
  obtain j where j: "d = (scale ^^ j) 1" using single_is_power [OF assms(1,2)] by blast
  have "\<not> single ((poly_shift ^^ k) 1)"
  proof
    assume s: "single ((poly_shift ^^ k) 1)"
    have "drop_bit 5 (take_bit 5 ((poly_shift ^^ k) 1)) = 0" by (simp add: drop_bit_take_bit)
    then show False using s one_spreads [OF assms(3,4)] by simp
  qed
  then show ?thesis using shifts_of_power [of 1 k j] j by simp
qed

text \<open>The step loses nothing.\<close>

lemma gen_sum_nonzero: "take_bit 5 (gen_sum p) = 0 \<Longrightarrow> \<not> p 0 \<and> \<not> p 1 \<and> \<not> p 2 \<and> \<not> p 3 \<and> \<not> p 4"
  by (cases "p 0"; cases "p 1"; cases "p 2"; cases "p 3"; cases "p 4") (simp_all add: gen_sum_def)

lemma shift_nonzero:
  assumes "in_register c" and "poly_shift c = 0"
  shows "c = 0"
proof -
  have m: "(0x1ffffff :: w32) = mask 25" by (simp add: mask_eq_exp_minus_1)
  let ?t = "drop_bit 25 c"
  have "drop_bit 25 (take_bit 30 c) = take_bit (30 - 25) ?t" by (rule drop_bit_take_bit)
  then have s: "?t = take_bit 5 ?t" using assms(1) by (simp del: drop_bit_numeral_bit0 drop_bit_numeral_bit1)
  have "take_bit 5 (gen_sum (bit ?t)) = take_bit 5 (poly_shift c)"
    by (simp add: poly_shift_eq gen_part_sum take_bit_xor take_bit_push_bit)
  then have b: "\<not> bit ?t 0 \<and> \<not> bit ?t 1 \<and> \<not> bit ?t 2 \<and> \<not> bit ?t 3 \<and> \<not> bit ?t 4"
    using assms(2) by (intro gen_sum_nonzero) simp
  have z: "?t = 0"
  proof (rule bit_word_eqI)
    fix n :: nat
    have "n < 5 \<Longrightarrow> n = 0 \<or> n = 1 \<or> n = 2 \<or> n = 3 \<or> n = 4" by presburger
    moreover have "bit ?t n \<Longrightarrow> n < 5" using s by (metis bit_take_bit_iff)
    ultimately show "bit ?t n = bit 0 n" using b by auto
  qed
  have "gen_part 0 = 0" by (simp add: gen_part_sum gen_sum_def)
  then have "push_bit 5 (take_bit 25 c) = 0"
    using assms(2) z unfolding poly_shift_eq m take_bit_eq_mask [symmetric] by simp
  moreover have "drop_bit 5 (push_bit 5 (take_bit 25 c)) = take_bit 25 c"
    by (auto simp: bit_eq_iff bit_simps)
  ultimately have "take_bit 25 c = 0" by (metis drop_bit_of_0)
  moreover have "c = take_bit 25 c"
    using z bits_ident [of 25 c] by simp
  ultimately show ?thesis by simp
qed

lemma shifts_nonzero: "in_register c \<Longrightarrow> c \<noteq> 0 \<Longrightarrow> (poly_shift ^^ k) c \<noteq> 0"
  by (induction k) (auto dest: shift_nonzero [OF shifts_in_register])

section \<open>Strings of the data part\<close>

lemma charset_at_index: "charset_index c = Some i \<Longrightarrow> charset_at i = Some c \<and> i < 32"
  by (auto simp: charset_index_def charset_at_def bech32Charset_def Let_def split: if_splits
      dest: nth_length_takeWhile)

lemma charset_index_total: "list_all (\<lambda>c. charset_index c \<noteq> None) bech32Charset"
  by code_simp

lemma charset_index_at:
  assumes "v < 32"
  shows "\<exists>c. charset_at v = Some c \<and> c \<in> set bech32Charset \<and> charset_index c = Some v"
proof -
  have d: "distinct bech32Charset" by (simp add: bech32Charset_def)
  have l: "length bech32Charset = 32" by (simp add: bech32Charset_def)
  let ?c = "bech32Charset ! v"
  have m: "?c \<in> set bech32Charset" using assms l by simp
  then obtain i where i: "charset_index ?c = Some i" using charset_index_total by (auto simp: list_all_iff)
  have "bech32Charset ! i = ?c" "i < 32" using charset_at_index [OF i] by (auto simp: charset_at_def split: if_splits)
  then have "i = v" using d l assms by (simp add: nth_eq_iff_index_eq)
  then show ?thesis using i m assms l by (simp add: charset_at_def)
qed

lemma charset_string_values:
  "digits 5 vs \<Longrightarrow> \<exists>cs. charset_string vs = Some cs \<and> charset_values cs = Some vs \<and> length cs = length vs \<and>
     set cs \<subseteq> set bech32Charset"
proof (induction vs)
  case Nil
  then show ?case by simp
next
  case (Cons v vs)
  obtain cs where cs: "charset_string vs = Some cs" "charset_values cs = Some vs" "length cs = length vs"
    "set cs \<subseteq> set bech32Charset" using Cons by auto
  obtain c where c: "charset_at (b2n v) = Some c" "c \<in> set bech32Charset" "charset_index c = Some (b2n v)"
    using charset_index_at [of "b2n v"] Cons.prems by auto
  have "char_of (b2n v mod 32) = v" using Cons.prems by simp
  then show ?case using cs c by auto
qed

lemma charset_values_total: "set cs \<subseteq> set bech32Charset \<Longrightarrow> \<exists>vs. charset_values cs = Some vs"
  using charset_index_total by (induction cs) (auto simp: list_all_iff split: option.splits)

lemma charset_values_props:
  "charset_values cs = Some vs \<Longrightarrow> length vs = length cs \<and> digits 5 vs"
  by (induction cs arbitrary: vs) (fastforce split: option.splits)+

lemma charset_plain:
  assumes "c \<in> set bech32Charset"
  shows "b2n c < 128 \<and> lower_char c = c \<and> c \<noteq> CHR ''1''"
proof -
  have "list_all (\<lambda>c. b2n c < 128 \<and> \<not> is_upper c \<and> c \<noteq> CHR ''1'') bech32Charset" by code_simp
  then show ?thesis using assms by (auto simp: list_all_iff lower_char_def)
qed

definition plain_prefix :: "string \<Rightarrow> bool" where
  "plain_prefix hrp \<longleftrightarrow> hrp \<noteq> [] \<and> list_all (\<lambda>c. 33 \<le> b2n c \<and> b2n c \<le> 126 \<and> \<not> is_upper c) hrp"

lemma lower_whole:
  assumes "plain_prefix hrp" and "set cs \<subseteq> set bech32Charset"
  shows "ToLower ul (hrp @ CHR ''1'' # cs) = hrp @ CHR ''1'' # cs"
proof -
  have one: "b2n CHR ''1'' < 128" "lower_char CHR ''1'' = CHR ''1''" by code_simp+
  have "is_ascii (hrp @ CHR ''1'' # cs)"
    using assms charset_plain one by (fastforce simp: is_ascii_def plain_prefix_def list_all_iff)
  moreover have "map lower_char (hrp @ CHR ''1'' # cs) = hrp @ CHR ''1'' # cs"
    using assms charset_plain one by (auto simp: plain_prefix_def list_all_iff lower_char_def intro!: map_idI)
  ultimately show ?thesis by (simp only: ToLower_def if_True)
qed

lemma last_separator: "CHR ''1'' \<notin> set cs \<Longrightarrow> LastIndexByte (hrp @ CHR ''1'' # cs) CHR ''1'' = int (length hrp)"
proof -
  assume n: "CHR ''1'' \<notin> set cs"
  have "takeWhile (\<lambda>x. x \<noteq> CHR ''1'') (rev (hrp @ CHR ''1'' # cs)) = rev cs"
  proof -
    have "rev (hrp @ CHR ''1'' # cs) = rev cs @ CHR ''1'' # rev hrp" by simp
    moreover have "takeWhile (\<lambda>x. x \<noteq> CHR ''1'') (rev cs @ CHR ''1'' # rev hrp) = rev cs"
      by (subst takeWhile_append2) (use n in auto)
    ultimately show ?thesis by (simp only:)
  qed
  then show ?thesis by (simp add: LastIndexByte_def)
qed

text \<open>Decoding a string over the character set.\<close>

lemma decode_plain:
  assumes "plain_prefix hrp" and "set cs \<subseteq> set bech32Charset" and "charset_values cs = Some vs"
    and "6 \<le> length cs" and "length hrp + 1 + length cs \<le> 90"
  shows "bech32Decode ul uu (hrp @ CHR ''1'' # cs) =
    (if bech32Polymod (bech32HRPExpand hrp @ vs) \<noteq> 1 then Some (Inl ChecksumMismatch)
     else (case convertBits (take (length vs - 6) vs) 5 8 False of
       None \<Rightarrow> None | Some (Inl e) \<Rightarrow> Some (Inl e) | Some (Inr decoded) \<Rightarrow> Some (Inr (hrp, decoded))))"
proof -
  have n: "CHR ''1'' \<notin> set cs" using assms(2) charset_plain by blast
  have a: "is_ascii hrp" using assms(1) by (auto simp: plain_prefix_def is_ascii_def list_all_iff)
  have r: "\<not> list_ex (\<lambda>c. c < 33 \<or> 126 < c) (go_runes hrp)"
    using assms(1) unfolding go_runes_ascii [OF a] by (auto simp: plain_prefix_def list_all_iff list_ex_iff)
  have h: "0 < length hrp" using assms(1) by (simp add: plain_prefix_def)
  have t: "take (length hrp) (hrp @ CHR ''1'' # cs) = hrp" "drop (length hrp + 1) (hrp @ CHR ''1'' # cs) = cs"
    by simp_all
  show ?thesis
    unfolding bech32Decode_def lower_whole [OF assms(1,2)] Let_def last_separator [OF n] nat_int t
    using r h assms(3-5) by simp
qed

lemma encode_plain:
  assumes "plain_prefix hrp" and "length hrp + (8 * length data + 4) div 5 + 7 \<le> 90"
  obtains s where "bech32Encode hrp data = Some (Inr s)" and "\<And>ul uu. bech32Decode ul uu s = Some (Inr (hrp, data))"
proof -
  obtain five pad where five: "convertBits data 8 5 True = Some (Inr five)" "digits 5 five" "pad < 5"
    "5 * length five = 8 * length data + pad" "gval 5 five = gval 8 data * 2 ^ pad" by (rule convert_to_five)
  define c where "c = foldl polymod_step 1 (bech32HRPExpand hrp @ five)"
  define p where "p = bech32Polymod ((bech32HRPExpand hrp @ five) @ replicate 6 CHR 0x00) XOR 1"
  have p: "p = foldl polymod_step c (replicate 6 CHR 0x00) XOR 1" by (simp add: p_def c_def bech32Polymod_def)
  have d: "digits 5 (five @ checksum_values p)" using five(2) checksum_values_props(2) by simp
  obtain cs where cs: "charset_string (five @ checksum_values p) = Some cs"
    "charset_values cs = Some (five @ checksum_values p)" "length cs = length (five @ checksum_values p)"
    "set cs \<subseteq> set bech32Charset" using charset_string_values [OF d] by blast
  have "bech32Encode hrp data = Some (Inr (hrp @ CHR ''1'' # cs))"
    using five(1) cs(1) by (simp add: bech32Encode_def Let_def p_def)
  moreover have "bech32Decode ul uu (hrp @ CHR ''1'' # cs) = Some (Inr (hrp, data))" for ul uu
  proof -
    have l: "length five = (8 * length data + 4) div 5" using five(3,4) by linarith
    have "bech32Polymod (bech32HRPExpand hrp @ five @ checksum_values p) = 1"
      using polymod_of_checksum [of c] by (simp add: bech32Polymod_def c_def p)
    then show ?thesis
      using decode_plain [OF assms(1) cs(4,2), of ul uu] cs(3) assms(2) l convert_from_five [OF five(2-5)]
      by (simp add: checksum_values_props(1))
  qed
  ultimately show thesis using that by blast
qed

section \<open>Mistyped characters\<close>

fun diffs :: "string \<Rightarrow> string \<Rightarrow> nat" where
  "diffs (x # xs) (y # ys) = (if x = y then 0 else 1) + diffs xs ys"
| "diffs _ _ = 0"

lemma polymod_diff:
  "foldl polymod_step (a XOR e) m = foldl polymod_step a m XOR (poly_shift ^^ length m) e"
proof (induction m arbitrary: a e)
  case Nil
  then show ?case by simp
next
  case (Cons v m)
  have "polymod_step (a XOR e) v = polymod_step a v XOR poly_shift e"
    by (simp add: polymod_step_shift poly_shift_xor xor.assoc xor.commute xor.left_commute)
  then show ?case using Cons [of "polymod_step a v" "poly_shift e"] by (simp only: foldl_Cons length_Cons funpow_Suc_right o_apply)
qed

text \<open>After the first difference the registers differ by a nonzero value shifted by what followed.\<close>

definition apart :: "w32 \<Rightarrow> w32 \<Rightarrow> bool" where
  "apart a b \<longleftrightarrow> (\<exists>e. in_register e \<and> e \<noteq> 0 \<and> b = a XOR e)"

lemma apart_neq: "apart a b \<Longrightarrow> a \<noteq> b"
  unfolding apart_def by (metis xor_self_eq xor.assoc xor.left_neutral)

lemma apart_run: "apart a b \<Longrightarrow> apart (foldl polymod_step a m) (foldl polymod_step b m)"
  unfolding apart_def using shifts_in_register shifts_nonzero polymod_diff by metis

lemma value_diff:
  assumes "digits 5 [x, y]" and "x \<noteq> y"
  obtains d where "polymod_step a y = polymod_step a x XOR d" and "single d" and "d \<noteq> 0"
proof -
  define d :: w32 where "d = word_of_nat (b2n x) XOR word_of_nat (b2n y)"
  have n: "b2n x < 32" "b2n y < 32" using assms(1) by simp_all
  have s: "single (word_of_nat (b2n z) :: w32)" if "b2n z < 32" for z
    using that by (simp add: take_bit_of_nat take_bit_nat_eq_self)
  have "d \<noteq> 0"
  proof
    assume "d = 0"
    then have "(word_of_nat (b2n x) :: w32) = word_of_nat (b2n y)"
      unfolding d_def by (metis xor_self_eq xor.assoc xor.left_neutral xor.right_neutral)
    then have "unat (word_of_nat (b2n x) :: w32) = unat (word_of_nat (b2n y) :: w32)" by simp
    then show False using n assms(2) by (simp add: unat_of_nat)
  qed
  moreover have "single d" using s n by (simp add: d_def take_bit_xor)
  moreover have "polymod_step a y = polymod_step a x XOR d"
    unfolding d_def polymod_step_shift by (simp add: xor.assoc xor.left_commute flip: xor.assoc)
  ultimately show thesis using that by blast
qed

lemma apart_first:
  assumes "digits 5 [x, y]" and "x \<noteq> y"
  shows "apart (polymod_step a x) (polymod_step a y)"
proof -
  obtain d where d: "polymod_step a y = polymod_step a x XOR d" "single d" "d \<noteq> 0"
    using value_diff [OF assms] by blast
  have "take_bit 30 (take_bit 5 d) = take_bit 5 d" by (simp add: min_def)
  then have "in_register d" using d(2) by simp
  then show ?thesis unfolding apart_def using d by blast
qed

lemma xor_swap: "(a XOR e) XOR y = (a XOR x) XOR (e XOR (x XOR (y :: w32)))"
  by (auto simp: bit_eq_iff bit_simps)

lemma apart_second:
  assumes "digits 5 [x, y]" and "x \<noteq> y" and "digits 5 [x', y']" and "length m < 88"
  shows "apart (foldl polymod_step a (x # m @ [x'])) (foldl polymod_step a (y # m @ [y']))"
proof -
  obtain d where d: "polymod_step a y = polymod_step a x XOR d" "single d" "d \<noteq> 0"
    using value_diff [OF assms(1,2)] by blast
  let ?A = "foldl polymod_step (polymod_step a x) m" and ?e = "(poly_shift ^^ length m) d"
  define v where "v = word_of_nat (b2n x') XOR (word_of_nat (b2n y') :: w32)"
  have s: "single v"
    using assms(3) by (simp add: v_def take_bit_xor take_bit_of_nat take_bit_nat_eq_self)
  have "foldl polymod_step a (y # m @ [y']) = poly_shift (?A XOR ?e) XOR word_of_nat (b2n y')"
    by (simp only: foldl_Cons foldl_append foldl_Nil d(1) polymod_diff polymod_step_shift [of _ y'])
  also have "\<dots> = foldl polymod_step a (x # m @ [x']) XOR (poly_shift ?e XOR v)"
    unfolding v_def poly_shift_xor foldl_Cons foldl_append foldl_Nil polymod_step_shift [of _ x']
    by (rule xor_swap)
  finally have e: "foldl polymod_step a (y # m @ [y']) =
      foldl polymod_step a (x # m @ [x']) XOR (poly_shift ?e XOR v)" .
  have "take_bit 30 (take_bit 5 v) = take_bit 5 v" by (simp add: min_def)
  then have "in_register v" using s by simp
  then have r: "in_register (poly_shift ?e XOR v)" by (simp add: take_bit_xor poly_shift_bound)
  have "poly_shift ?e XOR v \<noteq> 0"
  proof
    assume "poly_shift ?e XOR v = 0"
    then have "poly_shift ?e = v" by (metis xor_self_eq xor.assoc xor.left_neutral xor.right_neutral)
    then have "single ((poly_shift ^^ Suc (length m)) d)" using s by simp
    then show False using shifts_not_single [OF d(2,3), of "Suc (length m)"] assms(4) by simp
  qed
  then show ?thesis unfolding apart_def using r e by blast
qed

lemma diffs_0: "length xs = length ys \<Longrightarrow> diffs xs ys = 0 \<Longrightarrow> xs = ys"
  by (induction xs ys rule: list_induct2) (auto split: if_splits)

lemma diffs_Suc:
  "length xs = length ys \<Longrightarrow> diffs xs ys = Suc n \<Longrightarrow>
   \<exists>p x y s t. xs = p @ x # s \<and> ys = p @ y # t \<and> x \<noteq> y \<and> length s = length t \<and> diffs s t = n"
proof (induction xs ys rule: list_induct2)
  case Nil
  then show ?case by simp
next
  case (Cons x xs y ys)
  show ?case
  proof (cases "x = y")
    case True
    then obtain p x' y' s t where "xs = p @ x' # s \<and> ys = p @ y' # t \<and> x' \<noteq> y' \<and> length s = length t \<and> diffs s t = n"
      using Cons by auto
    then show ?thesis using True by (intro exI [of _ "x # p"] exI) auto
  next
    case False
    then show ?thesis using Cons by (intro exI [of _ "[]"] exI) auto
  qed
qed

lemma two_diffs_apart:
  assumes "length vs = length ws" and "diffs vs ws = 1 \<or> diffs vs ws = 2" and "digits 5 vs" and "digits 5 ws"
    and "length vs \<le> 88"
  shows "apart (foldl polymod_step a vs) (foldl polymod_step a ws)"
proof -
  obtain n where n: "diffs vs ws = Suc n" "n = 0 \<or> n = 1" using assms(2) by auto
  obtain p x y s t where d: "vs = p @ x # s" "ws = p @ y # t" "x \<noteq> y" "length s = length t" "diffs s t = n"
    using diffs_Suc [OF assms(1) n(1)] by blast
  have xy: "digits 5 [x, y]" using assms(3,4) d by simp
  show ?thesis
  proof (cases "n = 0")
    case True
    then have "s = t" using diffs_0 d(4,5) by blast
    then show ?thesis using apart_run [OF apart_first [OF xy d(3)]] d(1,2) by simp
  next
    case False
    then obtain q x' y' s' t' where e: "s = q @ x' # s'" "t = q @ y' # t'" "diffs s' t' = 0" "length s' = length t'"
      using diffs_Suc [OF d(4), of 0] d(5) n(2) by auto
    have "s' = t'" using diffs_0 e(3,4) by blast
    moreover have "digits 5 [x', y']" using assms(3,4) d e by simp
    moreover have "length q < 88" using assms(5) d e by simp
    ultimately show ?thesis
      using apart_run [OF apart_second [OF xy d(3), of x' y' q]] d(1,2) e(1,2) by simp
  qed
qed

lemma charset_values_diffs:
  assumes "length cs = length ds" and "charset_values cs = Some vs" and "charset_values ds = Some ws"
  shows "diffs vs ws = diffs cs ds"
  using assms
proof (induction cs ds arbitrary: vs ws rule: list_induct2)
  case Nil
  then show ?case by simp
next
  case (Cons c cs d ds)
  obtain i j vs' ws' where i: "charset_index c = Some i" "charset_values cs = Some vs'" "vs = char_of (i mod 32) # vs'"
    and j: "charset_index d = Some j" "charset_values ds = Some ws'" "ws = char_of (j mod 32) # ws'"
    using Cons.prems by (auto split: option.splits)
  have b: "i < 32" "j < 32" "charset_at i = Some c" "charset_at j = Some d"
    using charset_at_index i(1) j(1) by blast+
  have "(char_of (i mod 32) :: char) = char_of (j mod 32) \<longleftrightarrow> i = j"
  proof
    assume "(char_of (i mod 32) :: char) = char_of (j mod 32)"
    then have "b2n (char_of (i mod 32)) = b2n (char_of (j mod 32))" by simp
    then show "i = j" using b(1,2) by simp
  qed simp
  moreover have "i = j \<longleftrightarrow> c = d" using b(3,4) i(1) j(1) by auto
  ultimately show ?case using Cons.IH [OF i(2) j(2)] i(3) j(3) by simp
qed

section \<open>Properties\<close>

text \<open>
  C38. Decoding inverts encoding: any bytes under a printable prefix without capital letters encode
  to a string that decodes to the same prefix and bytes, as long as the string keeps to ninety
  characters; in particular the encoder neither panics nor loops.
\<close>

theorem bech32_roundtrip:
  assumes "plain_prefix hrp" and "length hrp + (8 * length data + 4) div 5 + 7 \<le> 90"
  shows "\<exists>s. bech32Encode hrp data = Some (Inr s) \<and> bech32Decode ul uu s = Some (Inr (hrp, data))"
  using encode_plain [OF assms] by metis

lemma ripemd160_length: "length (ripemd160Sum m) = 20"
  by (auto simp: ripemd160Sum_def Let_def le_bytes_def split: prod.splits)

lemma twilight_prefix: "plain_prefix TwilightHRP"
  by code_simp

lemma bech32_roundtrip_witness:
  "\<forall>pub. \<exists>s. AddressFromPubKey TwilightHRP pub = Some (Inr s) \<and>
     bech32Decode id id s = Some (Inr (TwilightHRP, ripemd160Sum (sha256 pub)))"
  using bech32_roundtrip [OF twilight_prefix, of _ id id]
  by (simp add: AddressFromPubKey_def ripemd160_length TwilightHRP_def)



text \<open>
  A string that is not ASCII decodes like its lower case form when its upper case form is itself:
  \<^verbatim>\<open>strings.ToLower\<close> turns U+212A into \<^verbatim>\<open>k\<close>, so a capital address may be written with it.
\<close>

lemma folded_address_accepted:
  assumes "\<not> is_ascii s" and "uu s = s" and "is_ascii (ul s)" and "map lower_char (ul s) = ul s"
  shows "bech32Decode ul uu s = bech32Decode ul uu (ul s)"
  using assms by (simp add: bech32Decode_def ToLower_def ToUpper_def)

end
