(* ===== verification/Release_Version.thy ===== *)
theory Release_Version
  imports Prelude "HOL-Library.Word"
begin

text \<open>
  Release versions, \<^verbatim>\<open>internal/selfupdate/version.go\<close>: three 64 bit numbers, their order, their
  text and the parser.  The errors of the parser are one \<open>None\<close>.
\<close>

section \<open>The code\<close>

datatype version = Version (v_major: "64 word") (v_minor: "64 word") (v_patch: "64 word")

definition version_string :: "version \<Rightarrow> string" where
  "version_string v = format_uint (unat (v_major v)) @ ''.'' @ format_uint (unat (v_minor v)) @ ''.'' @
     format_uint (unat (v_patch v))"

definition Tag :: "version \<Rightarrow> string" where
  "Tag v = ''v'' @ version_string v"

fun compare_pairs :: "('a::linorder \<times> 'a) list \<Rightarrow> int" where
  "compare_pairs [] = 0"
| "compare_pairs ((a, b) # ps) = (if a < b then -1 else if b < a then 1 else compare_pairs ps)"

definition Compare :: "version \<Rightarrow> version \<Rightarrow> int" where
  "Compare v o' = compare_pairs [(v_major v, v_major o'), (v_minor v, v_minor o'), (v_patch v, v_patch o')]"

text \<open>\<^verbatim>\<open>strings.Split\<close> with a separator of one byte.\<close>

fun split_on :: "char \<Rightarrow> string \<Rightarrow> string list" where
  "split_on d [] = [[]]"
| "split_on d (c # s) =
     (if c = d then [] # split_on d s
      else (case split_on d s of [] \<Rightarrow> [[c]] | p # ps \<Rightarrow> (c # p) # ps))"

text \<open>
  \<^verbatim>\<open>strings.TrimSpace(raw) != raw\<close> for the white space of ASCII; other white space is refused
  with the other bytes that are no digits.
\<close>

definition ascii_space :: "char \<Rightarrow> bool" where
  "ascii_space c \<longleftrightarrow> 9 \<le> b2n c \<and> b2n c \<le> 13 \<or> b2n c = 32"

definition surrounded :: "string \<Rightarrow> bool" where
  "surrounded s \<longleftrightarrow> s \<noteq> [] \<and> (ascii_space (hd s) \<or> ascii_space (last s))"

definition parse_field :: "string \<Rightarrow> 64 word option" where
  "parse_field field =
     (if field = [] then None
      else if 1 < length field \<and> hd field = CHR ''0'' then None
      else if \<not> list_all is_digit field then None
      else map_option of_nat (parse_uint64 field))"

definition trim_v :: "string \<Rightarrow> string" where
  "trim_v s = (if prefix ''v'' s then tl s else s)"

definition ParseVersion :: "string \<Rightarrow> version option" where
  "ParseVersion raw =
     (if raw = [] then None
      else if surrounded raw then None
      else (case split_on CHR ''.'' (trim_v raw) of
              [a, b, c] \<Rightarrow>
                (case (parse_field a, parse_field b, parse_field c) of
                   (Some x, Some y, Some z) \<Rightarrow> Some (Version x y z)
                 | _ \<Rightarrow> None)
            | _ \<Rightarrow> None))"

definition ParseReleaseTag :: "string \<Rightarrow> version option" where
  "ParseReleaseTag raw =
     (if \<not> prefix ''v'' raw then None
      else (case ParseVersion raw of
              None \<Rightarrow> None
            | Some v \<Rightarrow> if raw \<noteq> Tag v then None else Some v))"

section \<open>The order\<close>

lemma lex3_less:
  fixes a b c a' b' c' :: "'a::linorder"
  shows "a < a' \<or> a = a' \<and> (b < b' \<or> b = b' \<and> c < c') \<longleftrightarrow>
    (a < a' \<or> a = a' \<and> (b < b' \<or> b = b' \<and> c \<le> c')) \<and> \<not> (a' < a \<or> a' = a \<and> (b' < b \<or> b' = b \<and> c' \<le> c))"
  by auto

lemma lex3_trans:
  fixes a b c a' b' c' a'' b'' c'' :: "'a::linorder"
  shows "a < a' \<or> a = a' \<and> (b < b' \<or> b = b' \<and> c \<le> c') \<Longrightarrow>
    a' < a'' \<or> a' = a'' \<and> (b' < b'' \<or> b' = b'' \<and> c' \<le> c'') \<Longrightarrow>
    a < a'' \<or> a = a'' \<and> (b < b'' \<or> b = b'' \<and> c \<le> c'')"
  by auto

lemma lex3_antisym:
  fixes a b c a' b' c' :: "'a::linorder"
  shows "a < a' \<or> a = a' \<and> (b < b' \<or> b = b' \<and> c \<le> c') \<Longrightarrow>
    a' < a \<or> a' = a \<and> (b' < b \<or> b' = b \<and> c' \<le> c) \<Longrightarrow> a = a' \<and> b = b' \<and> c = c'"
  by auto

lemma lex3_total:
  fixes a b c a' b' c' :: "'a::linorder"
  shows "(a < a' \<or> a = a' \<and> (b < b' \<or> b = b' \<and> c \<le> c')) \<or>
    (a' < a \<or> a' = a \<and> (b' < b \<or> b' = b \<and> c' \<le> c))"
  by auto

lemma compare_lex3:
  fixes a b c a' b' c' :: "'a::linorder"
  shows "compare_pairs [(a, a'), (b, b'), (c, c')] =
    (if a < a' \<or> a = a' \<and> (b < b' \<or> b = b' \<and> c < c') then -1
     else if a' < a \<or> a' = a \<and> (b' < b \<or> b' = b \<and> c' < c) then 1 else 0)"
  by (cases a a' rule: linorder_cases; cases b b' rule: linorder_cases; cases c c' rule: linorder_cases;
      simp only: compare_pairs.simps if_True if_False simp_thms less_irrefl less_asym; auto)

instantiation version :: linorder
begin

definition less_eq_version :: "version \<Rightarrow> version \<Rightarrow> bool" where
  "less_eq_version v w \<longleftrightarrow>
     v_major v < v_major w \<or> v_major v = v_major w \<and>
       (v_minor v < v_minor w \<or> v_minor v = v_minor w \<and> v_patch v \<le> v_patch w)"

definition less_version :: "version \<Rightarrow> version \<Rightarrow> bool" where
  "less_version v w \<longleftrightarrow>
     v_major v < v_major w \<or> v_major v = v_major w \<and>
       (v_minor v < v_minor w \<or> v_minor v = v_minor w \<and> v_patch v < v_patch w)"

instance
proof
  fix x y z :: version
  show "x < y \<longleftrightarrow> x \<le> y \<and> \<not> y \<le> x"
    unfolding less_eq_version_def less_version_def by (rule lex3_less)
  show "x \<le> x" by (simp add: less_eq_version_def)
  show "x \<le> y \<Longrightarrow> y \<le> z \<Longrightarrow> x \<le> z" unfolding less_eq_version_def by (rule lex3_trans)
  show "x \<le> y \<Longrightarrow> y \<le> x \<Longrightarrow> x = y"
    unfolding less_eq_version_def using lex3_antisym version.expand by blast
  show "x \<le> y \<or> y \<le> x" unfolding less_eq_version_def by (rule lex3_total)
qed

end

lemma Compare_cases:
  "Compare v w = (if v < w then -1 else if w < v then 1 else 0)"
  unfolding Compare_def less_version_def by (rule compare_lex3)

lemma Compare_eq [simp]: "Compare v w = 0 \<longleftrightarrow> v = w"
  by (auto simp: Compare_cases)

lemma Compare_less [simp]: "Compare v w = -1 \<longleftrightarrow> v < w"
  by (auto simp: Compare_cases)

section \<open>Parsing what was printed\<close>

lemma split_on_plain: "d \<notin> set s \<Longrightarrow> split_on d s = [s]"
  by (induction s) auto

lemma split_on_append: "d \<notin> set s \<Longrightarrow> split_on d (s @ d # t) = s # split_on d t"
  by (induction s) auto

lemma split_on_parts: "split_on d s \<noteq> [] \<and> concat (map (\<lambda>p. p @ [d]) (split_on d s)) = s @ [d]"
  by (induction s) (auto split: list.splits)

lemma digits_no_dot: "list_all is_digit s \<Longrightarrow> CHR ''.'' \<notin> set s"
  by (auto simp: list_all_iff is_digit_def)

lemma parse_format_field: "parse_field (format_uint (unat w)) = Some w"
proof -
  have p: "parse_uint64 (format_uint (unat w)) = Some (unat w)"
    by (rule parse_format_uint) (use unsigned_less [of w] in simp)
  have "\<not> (1 < length (dec_digits n) \<and> hd (dec_digits n) = CHR ''0'')" for n
    using dec_digits_hd [of n] by (cases "n = 0") (auto simp: dec_digits.simps [of 0])
  then show ?thesis using p by (simp add: parse_field_def format_uint_def dec_digits_digits)
qed

lemma parse_version_string:
  assumes "s = version_string v \<or> s = Tag v"
  shows "ParseVersion s = Some v"
proof -
  define a b c where "a = format_uint (unat (v_major v))" "b = format_uint (unat (v_minor v))"
    "c = format_uint (unat (v_patch v))"
  have d: "list_all is_digit a" "list_all is_digit b" "list_all is_digit c" "a \<noteq> []" "c \<noteq> []"
    by (simp_all add: a_b_c_def format_uint_def dec_digits_digits)
  have v: "version_string v = a @ CHR ''.'' # b @ CHR ''.'' # c" by (simp add: version_string_def a_b_c_def)
  have h: "is_digit (hd a)" "is_digit (last c)" using d by (auto simp: list_all_iff)
  have nh: "hd a \<noteq> CHR ''v''" using h(1) by (auto simp: is_digit_def)
  have t: "trim_v s = a @ CHR ''.'' # b @ CHR ''.'' # c"
    using assms nh d(4) by (cases a) (auto simp: trim_v_def v Tag_def)
  have nsp: "\<not> surrounded s"
    using assms h d(4,5) by (auto simp: surrounded_def v Tag_def ascii_space_def is_digit_def)
  have "split_on CHR ''.'' (trim_v s) = [a, b, c]"
    unfolding t using d(1-3)[THEN digits_no_dot] by (simp add: split_on_append split_on_plain)
  then show ?thesis
    using assms d(4) nsp by (auto simp: ParseVersion_def a_b_c_def parse_format_field v Tag_def)
qed

lemma Tag_prefix: "prefix ''v'' (Tag v)"
  by (simp add: Tag_def)

lemma release_tag_canonical: "ParseReleaseTag raw = Some v \<longleftrightarrow> raw = Tag v"
proof
  assume "ParseReleaseTag raw = Some v"
  then show "raw = Tag v" by (auto simp: ParseReleaseTag_def split: option.splits if_splits)
next
  assume "raw = Tag v"
  then show "ParseReleaseTag raw = Some v"
    using parse_version_string [of "Tag v" v] Tag_prefix [of v] by (simp add: ParseReleaseTag_def)
qed

lemma Tag_inj: "Tag v = Tag w \<longleftrightarrow> v = w"
  using release_tag_canonical by (metis option.inject)

end
