(* ===== verification/Release.thy ===== *)
theory Release
  imports Release_Version Sha256 Bech32
begin

text \<open>
  What an upgrade fetches and checks, \<^verbatim>\<open>internal/selfupdate\<close>: the artifact names
  (\<^verbatim>\<open>artifact.go\<close>), the checksum file (\<^verbatim>\<open>checksum.go\<close>), the archive (\<^verbatim>\<open>archive.go\<close>), the
  release metadata and downloads (\<^verbatim>\<open>source.go\<close>) and the version check of a candidate
  (\<^verbatim>\<open>candidate.go\<close>).

  Packages \<^verbatim>\<open>net/http\<close>, \<^verbatim>\<open>encoding/json\<close>, \<^verbatim>\<open>archive/tar\<close>, \<^verbatim>\<open>archive/zip\<close> and
  \<^verbatim>\<open>compress/gzip\<close> appear as what they hand to the code: the outcome of a request with its
  decoded metadata, and the entries of an archive.  A process is the answer it gives.
\<close>

section \<open>Failures\<close>

datatype kind =
    KindNotRelease
  | KindDowngrade
  | KindUnavailable
  | KindReleaseInvalid
  | KindUnsupported
  | KindStaging
  | KindCandidateInvalid
  | KindReplacementFailed
  | KindPreviousInUse
  | KindIncomplete
  | KindManualIntervention
  | KindNoPrevious
  | KindPreviousInvalid

definition Retryable :: "kind \<Rightarrow> bool" where
  "Retryable k \<longleftrightarrow> k \<in> {KindUnavailable, KindPreviousInUse, KindReplacementFailed}"

definition MaxReleaseJSONBytes :: nat where "MaxReleaseJSONBytes = 2 ^ 20"
definition MaxChecksumBytes :: nat where "MaxChecksumBytes = 64 * 2 ^ 10"
definition MaxArchiveBytes :: nat where "MaxArchiveBytes = 64 * 2 ^ 20"
definition MaxExecutableBytes :: nat where "MaxExecutableBytes = 64 * 2 ^ 20"
definition MaxExpandedBytes :: nat where "MaxExpandedBytes = 128 * 2 ^ 20"

section \<open>Artifacts\<close>

definition ProjectName :: string where "ProjectName = ''dropin-miner''"

definition ChecksumAssetName :: string where "ChecksumAssetName = ''checksums.txt''"

datatype archive_format = TarGz | Zip

record artifact =
  af_archive :: string
  af_executable :: string
  af_format :: archive_format

definition ArtifactFor :: "version \<Rightarrow> string \<Rightarrow> string \<Rightarrow> artifact option" where
  "ArtifactFor v goos goarch =
     (if goarch \<noteq> ''amd64'' \<and> goarch \<noteq> ''arm64'' then None
      else (let name = \<lambda>ext. ProjectName @ ''_'' @ version_string v @ ''_'' @ goos @ ''_'' @ goarch @ ext
        in if goos = ''linux'' \<or> goos = ''darwin''
           then Some \<lparr>af_archive = name ''.tar.gz'', af_executable = ProjectName, af_format = TarGz\<rparr>
           else if goos = ''windows''
           then Some \<lparr>af_archive = name ''.zip'', af_executable = ProjectName @ ''.exe'', af_format = Zip\<rparr>
           else None))"

section \<open>The checksum file\<close>

definition safeAssetName :: "string \<Rightarrow> bool" where
  "safeAssetName name \<longleftrightarrow> name \<noteq> [] \<and> name \<noteq> ''.'' \<and> name \<noteq> ''..'' \<and>
     list_all (\<lambda>c. c \<noteq> CHR ''/'' \<and> c \<noteq> CHR 0x5C \<and> c \<noteq> CHR '':'') name"

text \<open>\<^verbatim>\<open>strings.Fields\<close>; text that is not ASCII is split by the tables of package \<^verbatim>\<open>unicode\<close>, \<open>uf\<close>.\<close>

fun ascii_fields :: "string \<Rightarrow> string \<Rightarrow> string list" where
  "ascii_fields cur [] = (if cur = [] then [] else [cur])"
| "ascii_fields cur (c # s) =
     (if ascii_space c then (if cur = [] then [] else [cur]) @ ascii_fields [] s
      else ascii_fields (cur @ [c]) s)"

definition Fields :: "(string \<Rightarrow> string list) \<Rightarrow> string \<Rightarrow> string list" where
  "Fields uf s = (if is_ascii s then ascii_fields [] s else uf s)"

definition trim_cr :: "string \<Rightarrow> string" where
  "trim_cr s = (if s \<noteq> [] \<and> last s = CHR 0x0D then butlast s else s)"

definition checksum_line :: "(string \<Rightarrow> string list) \<Rightarrow> string \<Rightarrow> (string \<times> bytes) option" where
  "checksum_line uf line =
     (case Fields uf line of
        [digest, name] \<Rightarrow>
          if length digest \<noteq> 64 \<or> \<not> safeAssetName name then None
          else (case hex_decode digest of None \<Rightarrow> None | Some d \<Rightarrow> Some (name, d))
      | _ \<Rightarrow> None)"

fun checksum_entries :: "(string \<Rightarrow> string list) \<Rightarrow> string list \<Rightarrow> (string \<rightharpoonup> bytes) \<Rightarrow> (string \<rightharpoonup> bytes) option" where
  "checksum_entries uf [] entries = Some entries"
| "checksum_entries uf (raw # lines) entries =
     (let line = trim_cr raw in
      if line = [] then checksum_entries uf lines entries
      else (case checksum_line uf line of
              None \<Rightarrow> None
            | Some (name, d) \<Rightarrow>
                if entries name \<noteq> None then None else checksum_entries uf lines (entries(name \<mapsto> d))))"

definition checksumFor :: "(string \<Rightarrow> string list) \<Rightarrow> bytes \<Rightarrow> string \<Rightarrow> bytes option" where
  "checksumFor uf raw target =
     (case checksum_entries uf (split_on CHR 0x0A raw) Map.empty of
        None \<Rightarrow> None
      | Some entries \<Rightarrow> entries target)"

text \<open>\<^verbatim>\<open>SHA256Verifier\<close>; \<open>ctx\<close> says that the context has ended.\<close>

definition RequiredAssets :: "artifact \<Rightarrow> (string \<times> nat) list" where
  "RequiredAssets target = [(af_archive target, MaxArchiveBytes), (ChecksumAssetName, MaxChecksumBytes)]"

definition Verify :: "(string \<Rightarrow> string list) \<Rightarrow> bool \<Rightarrow> (string \<rightharpoonup> bytes) \<Rightarrow> artifact \<Rightarrow> bool" where
  "Verify uf ctx assets target \<longleftrightarrow>
     (if ctx then False
      else (case assets (af_archive target) of
              None \<Rightarrow> False
            | Some archive \<Rightarrow>
                (case assets ChecksumAssetName of
                   None \<Rightarrow> False
                 | Some sums \<Rightarrow>
                     (case checksumFor uf sums (af_archive target) of
                        None \<Rightarrow> False
                      | Some want \<Rightarrow> sha256 archive = want))))"

section \<open>The archive\<close>

text \<open>
  The entries as the archive packages list them: the name, the declared size (negative in a
  broken tar header), whether the entry is a directory, a regular file or something else, and
  what reading it gives (\<open>None\<close> for an error).
\<close>

datatype entry_type = DirEntry | RegEntry | OtherEntry

record archive_entry =
  ae_name :: string
  ae_size :: int
  ae_type :: entry_type
  ae_data :: "bytes option"

text \<open>An archive that does not open, or its entries and whether the listing ended cleanly.\<close>

datatype archive_view = Unopened | Entries "archive_entry list" bool

definition path_parts_ok :: "string \<Rightarrow> bool" where
  "path_parts_ok name \<longleftrightarrow> list_all (\<lambda>p. p \<noteq> ''..'') (split_on CHR ''/'' name)"

text \<open>\<^verbatim>\<open>path.Clean(name) != "."\<close> of a relative path without \<^verbatim>\<open>..\<close>: a part that is not empty or \<^verbatim>\<open>.\<close>.\<close>

definition safeArchivePath :: "string \<Rightarrow> bool" where
  "safeArchivePath name \<longleftrightarrow>
     name \<noteq> [] \<and> list_all (\<lambda>c. c \<noteq> CHR 0x5C \<and> c \<noteq> CHR '':'') name \<and> hd name \<noteq> CHR ''/'' \<and>
     path_parts_ok name \<and> list_ex (\<lambda>p. p \<noteq> [] \<and> p \<noteq> ''.'') (split_on CHR ''/'' name)"

definition readBounded :: "bytes option \<Rightarrow> nat \<Rightarrow> bytes option" where
  "readBounded data limit =
     (case data of None \<Rightarrow> None | Some d \<Rightarrow> if limit < length d then None else Some d)"

text \<open>The loop of both formats; \<open>expanded\<close> is the sum of the sizes so far.\<close>

fun scan_entries :: "string \<Rightarrow> archive_entry list \<Rightarrow> nat \<Rightarrow> bytes option \<Rightarrow> bytes option option" where
  "scan_entries expected [] expanded executable = Some executable"
| "scan_entries expected (e # es) expanded executable =
     (if \<not> safeArchivePath (ae_name e) then None
      else if ae_size e < 0 \<or> int (MaxExpandedBytes - expanded) < ae_size e then None
      else (let expanded = expanded + nat (ae_size e) in
        (case ae_type e of
           DirEntry \<Rightarrow> scan_entries expected es expanded executable
         | OtherEntry \<Rightarrow> None
         | RegEntry \<Rightarrow>
             if ae_name e \<noteq> expected then scan_entries expected es expanded executable
             else if executable \<noteq> None then None
             else if ae_size e = 0 \<or> int MaxExecutableBytes < ae_size e then None
             else (case readBounded (ae_data e) MaxExecutableBytes of
                     None \<Rightarrow> None
                   | Some d \<Rightarrow>
                       if int (length d) \<noteq> ae_size e then None
                       else scan_entries expected es expanded (Some d)))))"

definition executableFrom :: "archive_view \<Rightarrow> string \<Rightarrow> bytes option" where
  "executableFrom v expected =
     (case v of
        Unopened \<Rightarrow> None
      | Entries es clean \<Rightarrow>
          (case scan_entries expected es 0 None of
             None \<Rightarrow> None
           | Some executable \<Rightarrow> if clean then executable else None))"

text \<open>\<open>unpack\<close> stands for the archive packages.\<close>

definition ArchiveExecutable :: "(archive_format \<Rightarrow> bytes \<Rightarrow> archive_view) \<Rightarrow> bytes \<Rightarrow> artifact \<Rightarrow> bytes option" where
  "ArchiveExecutable unpack archive target =
     (if MaxArchiveBytes < length archive then None
      else executableFrom (unpack (af_format target) archive) (af_executable target))"

section \<open>The source\<close>

text \<open>
  The outcome of one request: a refused redirect, another failure, a status that is not 200, or
  a body; a body may fail while it is read, on the network or otherwise.
\<close>

datatype 'a fetch = RedirectRefused | Unreachable | Status nat | Body 'a nat | BodyNetError | BodyError

definition get :: "'a fetch \<Rightarrow> nat \<Rightarrow> kind + 'a" where
  "get f limit =
     (case f of
        RedirectRefused \<Rightarrow> Inl KindReleaseInvalid
      | Unreachable \<Rightarrow> Inl KindUnavailable
      | Status n \<Rightarrow> Inl (if 500 \<le> n \<or> n = 429 \<or> n = 403 then KindUnavailable else KindReleaseInvalid)
      | BodyNetError \<Rightarrow> Inl KindUnavailable
      | BodyError \<Rightarrow> Inl KindReleaseInvalid
      | Body d n \<Rightarrow> if limit < n then Inl KindReleaseInvalid else Inr d)"

record release_payload =
  rp_tag :: string
  rp_draft :: bool
  rp_prerelease :: bool
  rp_assets :: "(string \<times> int) list"

record release_info =
  ri_version :: version
  ri_assets :: "string \<rightharpoonup> int"

text \<open>
  The two kinds of request of a release source; a body comes with the number of its bytes, the
  metadata as it unmarshals (\<open>None\<close> when it does not).
\<close>

record release_source =
  rs_meta :: "string \<Rightarrow> release_payload option fetch"
  rs_asset :: "string \<Rightarrow> string \<Rightarrow> bytes fetch"

fun collect_assets :: "(string \<times> int) list \<Rightarrow> (string \<rightharpoonup> int) \<Rightarrow> (string \<rightharpoonup> int) option" where
  "collect_assets [] assets = Some assets"
| "collect_assets ((name, size') # as) assets =
     (if \<not> safeAssetName name \<or> size' < 0 then None
      else if assets name \<noteq> None then None
      else collect_assets as (assets(name \<mapsto> size')))"

definition source_release :: "release_source \<Rightarrow> version option \<Rightarrow> kind + release_info" where
  "source_release src requested =
     (let endpoint = (case requested of None \<Rightarrow> ''/latest'' | Some v \<Rightarrow> ''/tags/'' @ Tag v)
      in case get (rs_meta src endpoint) MaxReleaseJSONBytes of
           Inl k \<Rightarrow> Inl k
         | Inr None \<Rightarrow> Inl KindReleaseInvalid
         | Inr (Some payload) \<Rightarrow>
             (case ParseReleaseTag (rp_tag payload) of
                None \<Rightarrow> Inl KindReleaseInvalid
              | Some v \<Rightarrow>
                  if (case requested of None \<Rightarrow> False | Some r \<Rightarrow> Compare v r \<noteq> 0) then Inl KindReleaseInvalid
                  else if rp_draft payload \<or> rp_prerelease payload then Inl KindReleaseInvalid
                  else (case collect_assets (rp_assets payload) Map.empty of
                          None \<Rightarrow> Inl KindReleaseInvalid
                        | Some assets \<Rightarrow> Inr \<lparr>ri_version = v, ri_assets = assets\<rparr>)))"

fun download_assets ::
    "release_source \<Rightarrow> release_info \<Rightarrow> (string \<times> nat) list \<Rightarrow> (string \<rightharpoonup> bytes) \<Rightarrow> kind + (string \<rightharpoonup> bytes)" where
  "download_assets src release [] out = Inr out"
| "download_assets src release ((name, limit) # reqs) out =
     (if \<not> safeAssetName name \<or> limit = 0 then Inl KindReleaseInvalid
      else if out name \<noteq> None then Inl KindReleaseInvalid
      else (case ri_assets release name of
              None \<Rightarrow> Inl KindReleaseInvalid
            | Some advertised \<Rightarrow>
                if int limit < advertised then Inl KindReleaseInvalid
                else (case get (rs_asset src (Tag (ri_version release)) name) limit of
                        Inl k \<Rightarrow> Inl k
                      | Inr data \<Rightarrow> download_assets src release reqs (out(name \<mapsto> data)))))"

section \<open>Running a candidate\<close>

text \<open>What \<^verbatim>\<open>path version\<close> does within its budget: it does not answer, fails, or writes.\<close>

datatype run_answer = RunTimeout | RunFailed | RunOutput bytes bytes

datatype candidate_error = CandidateTimedOut | CandidateRefused

definition candidateVersionOnce :: "run_answer \<Rightarrow> candidate_error + version" where
  "candidateVersionOnce a =
     (case a of
        RunTimeout \<Rightarrow> Inl CandidateTimedOut
      | RunFailed \<Rightarrow> Inl CandidateRefused
      | RunOutput line errs \<Rightarrow>
          if errs \<noteq> [] then Inl CandidateRefused
          else if \<not> prefix (ProjectName @ '' '') line \<or> \<not> suffix [CHR 0x0A] line \<or>
            length (filter (\<lambda>c. c = CHR 0x0A) line) \<noteq> 1 then Inl CandidateRefused
          else (let raw = butlast (drop (length ProjectName + 1) line)
            in case ParseVersion raw of
                 None \<Rightarrow> Inl CandidateRefused
               | Some v \<Rightarrow> if raw \<noteq> version_string v then Inl CandidateRefused else Inr v))"

text \<open>\<open>ctx\<close>: the context has ended after the first attempt.\<close>

definition candidateVersion :: "bool \<Rightarrow> run_answer \<times> run_answer \<Rightarrow> candidate_error + version" where
  "candidateVersion ctx answers =
     (let r = candidateVersionOnce (fst answers)
      in if r \<noteq> Inl CandidateTimedOut \<or> ctx then r else candidateVersionOnce (snd answers))"

definition validateCandidate :: "bool \<Rightarrow> run_answer \<times> run_answer \<Rightarrow> version \<Rightarrow> candidate_error option" where
  "validateCandidate ctx answers expected =
     (case candidateVersion ctx answers of
        Inl e \<Rightarrow> Some e
      | Inr got \<Rightarrow> if Compare got expected \<noteq> 0 then Some CandidateRefused else None)"

definition candidateFailure :: "kind \<Rightarrow> candidate_error \<Rightarrow> kind" where
  "candidateFailure k e = (if e = CandidateTimedOut then KindReplacementFailed else k)"

end
