(* ===== verification/SelfUpdate.thy ===== *)
theory SelfUpdate
  imports Release Fsx
begin

text \<open>
  An upgrade on the disk, \<^verbatim>\<open>internal/selfupdate\<close>: staging a candidate (\<^verbatim>\<open>candidate.go\<close>), the
  replacement transaction of POSIX (\<^verbatim>\<open>replace.go\<close>), \<^verbatim>\<open>Prepare\<close> (\<^verbatim>\<open>prepare.go\<close>), \<^verbatim>\<open>Rollback\<close>
  (\<^verbatim>\<open>rollback.go\<close>) and the upgrade that \<^verbatim>\<open>cmd/dropin-miner/upgrade.go\<close> makes of them, over the
  file system of theory Fs with the bytes of a file as its contents.

  A path is its directory and base name with every link resolved.  A runner answers for the
  contents of the file that is run: the two attempts the code may make.  \<open>ctx\<close> says that the
  context has ended.
\<close>

type_synonym uworld = "bytes world"

type_synonym runner = "bytes \<Rightarrow> run_answer \<times> run_answer"

record update_error =
  ue_kind :: kind
  ue_paths :: "path list"

definition failure :: "kind \<Rightarrow> update_error" where
  "failure k = \<lparr>ue_kind = k, ue_paths = []\<rparr>"

definition PreviousPath :: "path \<Rightarrow> path" where
  "PreviousPath p = (fst p, snd p @ ''.previous'')"

section \<open>System calls\<close>

text \<open>\<^verbatim>\<open>os.Open\<close> or \<^verbatim>\<open>os.Stat\<close> of a file: its node.\<close>

definition os_lookup :: "path \<Rightarrow> uworld \<Rightarrow> (os_error + nat) \<times> uworld" where
  "os_lookup p w =
     (case tick w of
        (Some e, w) \<Rightarrow> (Inl e, w)
      | (None, w) \<Rightarrow> (case map_of (live w) p of None \<Rightarrow> Inl ErrNotExist | Some n \<Rightarrow> Inr n, w))"

text \<open>\<^verbatim>\<open>filepath.Ext\<close> of a base name.\<close>

definition path_ext :: "string \<Rightarrow> string" where
  "path_ext s = (if CHR ''.'' \<in> set s then CHR ''.'' # rev (takeWhile (\<lambda>c. c \<noteq> CHR ''.'') (rev s)) else [])"

definition sync_dir :: "string \<Rightarrow> uworld \<Rightarrow> os_error option \<times> uworld" where
  "sync_dir dir w =
     (case SyncDirectory dir w of
        (Some e, w) \<Rightarrow> (if e \<noteq> ErrDirectorySyncUnsupported then Some e else None, w)
      | (None, w) \<Rightarrow> (None, w))"

definition run_path :: "runner \<Rightarrow> path \<Rightarrow> uworld \<Rightarrow> run_answer \<times> run_answer" where
  "run_path rn p w =
     (case map_of (live w) p of
        None \<Rightarrow> (RunFailed, RunFailed)
      | Some n \<Rightarrow> (case in_data (w_nodes w n) of None \<Rightarrow> (RunFailed, RunFailed) | Some c \<Rightarrow> rn c))"

section \<open>Staging\<close>

text \<open>
  Mode, contents, sync, close, sync of the directory; a copy reads its source before it writes.
  False: some step failed.
\<close>

definition fill_staged :: "nat \<Rightarrow> bool \<Rightarrow> bytes \<Rightarrow> nat \<Rightarrow> string \<Rightarrow> uworld \<Rightarrow> bool \<times> uworld" where
  "fill_staged mode copying data n dir w =
     (case os_chmod n mode w of
        (Some e, w) \<Rightarrow> (False, w)
      | (None, w) \<Rightarrow>
     (case (if copying then tick w else (None, w)) of
        (Some e, w) \<Rightarrow> (False, w)
      | (None, w) \<Rightarrow>
     (case os_write n data w of ((full, werr), w) \<Rightarrow>
        if werr \<noteq> None \<or> \<not> full then (False, w)
        else
     (case os_sync_file n w of
        (Some e, w) \<Rightarrow> (False, w)
      | (None, w) \<Rightarrow>
     (case os_close w of
        (Some e, w) \<Rightarrow> (False, w)
      | (None, w) \<Rightarrow> (case sync_dir dir w of (err, w) \<Rightarrow> (err = None, w)))))))"

definition StageCandidate :: "path \<Rightarrow> bytes \<Rightarrow> uworld \<Rightarrow> path option \<times> uworld" where
  "StageCandidate exe binary w =
     (case os_lookup exe w of (r, w) \<Rightarrow>
      let mode = (case r of
                    Inl e \<Rightarrow> 493
                  | Inr k \<Rightarrow> if bit (in_mode (w_nodes w k)) 6 then in_mode (w_nodes w k) else 493)
      in case os_create_temp_as ''.dropin-miner.candidate-'' (path_ext (snd exe)) (fst exe) w of
           (Inl e, w) \<Rightarrow> (None, w)
         | (Inr (tmp, n), w) \<Rightarrow>
             (case fill_staged mode False binary n (fst exe) w of
                (True, w) \<Rightarrow> (Some tmp, w)
              | (False, w) \<Rightarrow> (None, snd (os_remove tmp (snd (os_close w))))))"

text \<open>
  The size of a file that is not complete is taken for one outside the bounds; no published
  name refers to such a file.
\<close>

definition durableSnapshot :: "path \<Rightarrow> uworld \<Rightarrow> path option \<times> uworld" where
  "durableSnapshot source w =
     (case os_lookup source w of
        (Inl e, w) \<Rightarrow> (None, w)
      | (Inr k, w) \<Rightarrow>
     (case tick w of
        (Some e, w) \<Rightarrow> (None, snd (os_close w))
      | (None, w) \<Rightarrow>
     (case in_data (w_nodes w k) of
        None \<Rightarrow> (None, snd (os_close w))
      | Some c \<Rightarrow>
          if c = [] \<or> MaxExecutableBytes < length c then (None, snd (os_close w))
          else (case os_create_temp_as ''.dropin-miner.snapshot-'' [] (fst source) w of
                  (Inl e, w) \<Rightarrow> (None, snd (os_close w))
                | (Inr (tmp, n), w) \<Rightarrow>
                    (case fill_staged (in_mode (w_nodes w k)) True c n (fst source) w of
                       (ok, w) \<Rightarrow>
                         let w = snd (os_close w);
                             w = (if ok then w else snd (os_remove tmp w))
                         in (if ok then Some tmp else None, snd (os_close w)))))))"

section \<open>The replacement\<close>

definition restorePOSIX :: "path \<Rightarrow> path \<Rightarrow> uworld \<Rightarrow> update_error option \<times> uworld" where
  "restorePOSIX exe snapshot w =
     (case os_rename snapshot exe w of
        (Some e, w) \<Rightarrow> (Some \<lparr>ue_kind = KindManualIntervention, ue_paths = [exe, snapshot]\<rparr>, w)
      | (None, w) \<Rightarrow>
          (case sync_dir (fst exe) w of
             (Some e, w) \<Rightarrow> (Some \<lparr>ue_kind = KindIncomplete, ue_paths = [exe]\<rparr>, w)
           | (None, w) \<Rightarrow> (Some (failure KindReplacementFailed), w)))"

definition replacePOSIX ::
    "runner \<Rightarrow> bool \<Rightarrow> path \<Rightarrow> path \<Rightarrow> version \<Rightarrow> uworld \<Rightarrow> update_error option \<times> uworld" where
  "replacePOSIX rn ctx exe candidate target w =
     (case durableSnapshot exe w of
        (None, w) \<Rightarrow> (Some (failure KindReplacementFailed), w)
      | (Some snapshot, w) \<Rightarrow>
     (case os_rename candidate exe w of
        (Some e, w) \<Rightarrow> (Some (failure KindReplacementFailed), snd (os_remove snapshot w))
      | (None, w) \<Rightarrow>
     (case sync_dir (fst exe) w of
        (Some e, w) \<Rightarrow> restorePOSIX exe snapshot w
      | (None, w) \<Rightarrow>
          if validateCandidate ctx (run_path rn exe w) target \<noteq> None then restorePOSIX exe snapshot w
          else
     (case os_rename snapshot (PreviousPath exe) w of
        (Some e, w) \<Rightarrow> (Some \<lparr>ue_kind = KindIncomplete, ue_paths = [exe, snapshot, PreviousPath exe]\<rparr>, w)
      | (None, w) \<Rightarrow>
          (case sync_dir (fst exe) w of
             (Some e, w) \<Rightarrow> (Some \<lparr>ue_kind = KindIncomplete, ue_paths = [exe, PreviousPath exe]\<rparr>, w)
           | (None, w) \<Rightarrow> (None, w))))))"

definition replaceWith ::
    "runner \<Rightarrow> bool \<Rightarrow> path \<Rightarrow> path \<Rightarrow> version \<Rightarrow> uworld \<Rightarrow> update_error option \<times> uworld" where
  "replaceWith rn ctx exe candidate target w =
     (if fst exe \<noteq> fst candidate then (Some (failure KindReplacementFailed), w)
      else replacePOSIX rn ctx exe candidate target w)"

section \<open>Upgrade and rollback\<close>

text \<open>The rest of the program and the libraries, as the upgrade uses them.\<close>

record updater =
  up_source :: release_source
  up_fields :: "string \<Rightarrow> string list"
  up_unpack :: "archive_format \<Rightarrow> bytes \<Rightarrow> archive_view"
  up_goos :: string
  up_goarch :: string
  up_check :: runner
  up_installed :: runner
  up_ctx :: bool

record prepared =
  pr_from :: version
  pr_to :: version
  pr_candidate :: "path option"

definition ResolveExecutable :: "path \<Rightarrow> uworld \<Rightarrow> os_error option \<times> uworld" where
  "ResolveExecutable p w =
     (case os_stat p w of (Some e, w) \<Rightarrow> (Some e, w) | (None, w) \<Rightarrow> os_stat p w)"

definition remove_staged :: "path \<Rightarrow> uworld \<Rightarrow> uworld" where
  "remove_staged p w = snd (os_remove p w)"

text \<open>From the download to the bytes of the executable.\<close>

definition fetch_verified :: "updater \<Rightarrow> release_info \<Rightarrow> kind + bytes" where
  "fetch_verified u release =
     (case ArtifactFor (ri_version release) (up_goos u) (up_goarch u) of
        None \<Rightarrow> Inl KindUnsupported
      | Some target \<Rightarrow>
     (case download_assets (up_source u) release (RequiredAssets target) Map.empty of
        Inl k \<Rightarrow> Inl k
      | Inr assets \<Rightarrow>
          if \<not> Verify (up_fields u) (up_ctx u) assets target then Inl KindReleaseInvalid
          else
     (case assets (af_archive target) of
        None \<Rightarrow> Inl KindReleaseInvalid
      | Some archive \<Rightarrow>
          (case ArchiveExecutable (up_unpack u) archive target of
             None \<Rightarrow> Inl KindReleaseInvalid
           | Some binary \<Rightarrow> Inr binary))))"

definition Prepare ::
    "updater \<Rightarrow> path \<Rightarrow> string \<Rightarrow> version option \<Rightarrow> uworld \<Rightarrow> (update_error + prepared) \<times> uworld" where
  "Prepare u exe currentBuild requested w =
     (case ParseVersion currentBuild of
        None \<Rightarrow> (Inl (failure KindNotRelease), w)
      | Some current \<Rightarrow>
     if currentBuild \<noteq> version_string current then (Inl (failure KindNotRelease), w)
     else
     (case ResolveExecutable exe w of
        (Some e, w) \<Rightarrow> (Inl (failure KindStaging), w)
      | (None, w) \<Rightarrow>
     (case source_release (up_source u) requested of
        Inl k \<Rightarrow> (Inl (failure k), w)
      | Inr release \<Rightarrow>
     if Compare (ri_version release) current = 0
     then (Inr \<lparr>pr_from = current, pr_to = current, pr_candidate = None\<rparr>, w)
     else if Compare (ri_version release) current = -1 then (Inl (failure KindDowngrade), w)
     else
     (case fetch_verified u release of
        Inl k \<Rightarrow> (Inl (failure k), w)
      | Inr binary \<Rightarrow>
     (case StageCandidate exe binary w of
        (None, w) \<Rightarrow> (Inl (failure KindStaging), w)
      | (Some candidate, w) \<Rightarrow>
     (case validateCandidate (up_ctx u) (run_path (up_check u) candidate w) (ri_version release) of
        Some e \<Rightarrow> (Inl (failure (candidateFailure KindCandidateInvalid e)), remove_staged candidate w)
      | None \<Rightarrow>
          (Inr \<lparr>pr_from = current, pr_to = ri_version release, pr_candidate = Some candidate\<rparr>, w)))))))"

definition InstallPrepared :: "updater \<Rightarrow> path \<Rightarrow> prepared \<Rightarrow> uworld \<Rightarrow> update_error option \<times> uworld" where
  "InstallPrepared u exe p w =
     (case pr_candidate p of
        None \<Rightarrow> (Some (failure KindReplacementFailed), w)
      | Some candidate \<Rightarrow> replaceWith (up_installed u) (up_ctx u) exe candidate (pr_to p) w)"

definition errorPreservesPath :: "update_error option \<Rightarrow> path \<Rightarrow> bool" where
  "errorPreservesPath err p \<longleftrightarrow> (case err of None \<Rightarrow> False | Some e \<Rightarrow> p \<in> set (ue_paths e))"

definition DiscardAfterInstall :: "prepared \<Rightarrow> update_error option \<Rightarrow> uworld \<Rightarrow> uworld" where
  "DiscardAfterInstall p err w =
     (case pr_candidate p of
        None \<Rightarrow> w
      | Some candidate \<Rightarrow> if errorPreservesPath err candidate then w else remove_staged candidate w)"

text \<open>The part of \<^verbatim>\<open>upgradeRun\<close> under its locks: the error, and the version when one was installed.\<close>

definition upgrade ::
    "updater \<Rightarrow> path \<Rightarrow> string \<Rightarrow> version option \<Rightarrow> uworld \<Rightarrow> (update_error + version option) \<times> uworld" where
  "upgrade u exe build requested w =
     (case Prepare u exe build requested w of
        (Inl e, w) \<Rightarrow> (Inl e, w)
      | (Inr p, w) \<Rightarrow>
          if pr_candidate p = None then (Inr None, w)
          else (case InstallPrepared u exe p w of
                  (err, w) \<Rightarrow>
                    let w = DiscardAfterInstall p err w
                    in (case err of Some e \<Rightarrow> Inl e | None \<Rightarrow> Inr (Some (pr_to p)), w)))"

definition readPrevious :: "path \<Rightarrow> uworld \<Rightarrow> (kind + bytes) \<times> uworld" where
  "readPrevious p w =
     (case os_lookup p w of
        (Inl e, w) \<Rightarrow> (Inl (if e = ErrNotExist then KindNoPrevious else KindPreviousInvalid), w)
      | (Inr k, w) \<Rightarrow>
     (case in_data (w_nodes w k) of
        None \<Rightarrow> (Inl KindPreviousInvalid, w)
      | Some c \<Rightarrow>
     if c = [] \<or> MaxExecutableBytes < length c then (Inl KindPreviousInvalid, w)
     else
     (case os_lookup p w of
        (Inl e, w) \<Rightarrow> (Inl KindPreviousInvalid, w)
      | (Inr k, w) \<Rightarrow>
     (case tick w of
        (Some e, w) \<Rightarrow> (Inl KindPreviousInvalid, snd (os_close w))
      | (None, w) \<Rightarrow> (Inr c, snd (os_close w))))))"

definition Rollback ::
    "updater \<Rightarrow> path \<Rightarrow> string \<Rightarrow> uworld \<Rightarrow> (update_error + version) \<times> uworld" where
  "Rollback u exe currentBuild w =
     (case ParseVersion currentBuild of
        None \<Rightarrow> (Inl (failure KindNotRelease), w)
      | Some current \<Rightarrow>
     if currentBuild \<noteq> version_string current then (Inl (failure KindNotRelease), w)
     else
     (case ResolveExecutable exe w of
        (Some e, w) \<Rightarrow> (Inl (failure KindStaging), w)
      | (None, w) \<Rightarrow>
     (case readPrevious (PreviousPath exe) w of
        (Inl k, w) \<Rightarrow> (Inl (failure k), w)
      | (Inr binary, w) \<Rightarrow>
     (case StageCandidate exe binary w of
        (None, w) \<Rightarrow> (Inl (failure KindStaging), w)
      | (Some candidate, w) \<Rightarrow>
     (case candidateVersion (up_ctx u) (run_path (up_check u) candidate w) of
        Inl e \<Rightarrow> (Inl (failure (candidateFailure KindPreviousInvalid e)), remove_staged candidate w)
      | Inr target \<Rightarrow>
     if Compare target current = 0 then (Inl (failure KindPreviousInvalid), remove_staged candidate w)
     else
     (case replaceWith (up_installed u) (up_ctx u) exe candidate target w of
        (Some e, w) \<Rightarrow> (Inl e, if errorPreservesPath (Some e) candidate then w else remove_staged candidate w)
      | (None, w) \<Rightarrow> (Inr target, w)))))))"

end
