(* ===== verification/SelfUpdateSpec.thy ===== *)
theory SelfUpdateSpec
  imports SelfUpdate
begin

text \<open>
  What the replacement of the installed binary keeps at every crash point and under every
  combination of failures, and what a successful upgrade has installed.
\<close>

section \<open>Parked files\<close>

text \<open>A complete, durable file under a temporary name, which no other name refers to.\<close>

definition parked :: "path \<Rightarrow> nat \<Rightarrow> bytes \<Rightarrow> uworld \<Rightarrow> bool" where
  "parked p n c w \<longleftrightarrow> staged p n w \<and> ready n c w"

lemma parked_same_fs: "same_fs w w' \<Longrightarrow> parked p n c w' = parked p n c w"
  by (simp add: parked_def same_fs_staged) (simp add: ready_def same_fs_def)

lemma apply_txn_other:
  "q \<notin> fst ` set t \<Longrightarrow> map_of (apply_txn t d) q = map_of d q"
  by (induction t arbitrary: d) (auto simp: map_of_apply_entry)

lemma apply_txn_value:
  "map_of (apply_txn t d) q = Some k \<Longrightarrow> (q, Some k) \<in> set t \<or> map_of d q = Some k"
  by (induction t arbitrary: d) (fastforce simp: map_of_apply_entry split: if_splits)+

lemma parked_log:
  assumes p: "parked p n c w" and t: "\<And>q v. (q, v) \<in> set t \<Longrightarrow> q \<noteq> p \<and> (v = Some n \<longrightarrow> is_temp q)"
  shows "parked p n c (log_txn t w)"
proof -
  have s: "is_temp p" "map_of (live w) p = Some n" "private_node n w" "n < w_next w" and r: "ready n c w"
    using p by (simp_all add: parked_def staged_def)
  have "p \<notin> fst ` set t" using t by fastforce
  then have "map_of (live (log_txn t w)) p = Some n" using s(2) by (simp add: live_log apply_txn_other)
  moreover have "private_node n (log_txn t w)"
    unfolding private_node_def prefix_maps_log
  proof (intro ballI allI impI)
    fix m q
    assume m: "m \<in> insert (map_of (apply_txn t (live w))) (prefix_maps w)" and q: "m q = Some n"
    show "is_temp q"
    proof (cases "m \<in> prefix_maps w")
      case True
      then show ?thesis using s(3) q unfolding private_node_def by blast
    next
      case False
      then have "(q, Some n) \<in> set t \<or> map_of (live w) q = Some n" using m q apply_txn_value by blast
      then show ?thesis using t s(3) live_in_prefix_maps [of w] unfolding private_node_def by blast
    qed
  qed
  ultimately show ?thesis using s r by (simp add: parked_def staged_def ready_def)
qed

lemma parked_node: "parked p n c w \<Longrightarrow> m \<noteq> n \<Longrightarrow> parked p n c (set_node m i w)"
  by (simp add: parked_def set_node_staged) (simp add: ready_def set_node_def)

lemma parked_commit: "parked p n c w \<Longrightarrow> parked p n c (commit_dir d w)"
  using prefix_maps_commit [of d w] by (auto simp: parked_def staged_def ready_def live_commit private_node_def)

definition parks :: "uworld \<Rightarrow> uworld \<Rightarrow> nat set \<Rightarrow> bool" where
  "parks w w' ms \<longleftrightarrow> (\<forall>p n c. parked p n c w \<and> n \<notin> ms \<longrightarrow> parked p n c w')"

lemma parks_refl: "parks w w ms"
  by (simp add: parks_def)

lemma parks_trans: "parks u v ms \<Longrightarrow> parks v w ms \<Longrightarrow> parks u w ms"
  by (simp add: parks_def)

lemma parksD: "parks w w' ms \<Longrightarrow> parked p n c w \<Longrightarrow> n \<notin> ms \<Longrightarrow> parked p n c w'"
  unfolding parks_def by blast

lemma same_fs_parks: "same_fs w w' \<Longrightarrow> parks w w' ms"
  by (simp add: parks_def parked_same_fs)

lemma tick_parks: "tick w = (r, w') \<Longrightarrow> parks w w' ms"
  by (rule same_fs_parks [OF tick_same_fs])

lemma close_parks: "os_close w = (r, w') \<Longrightarrow> parks w w' ms"
  unfolding os_close_def by (rule tick_parks)

lemma node_op_parks:
  assumes "tick w = (r, w1)" and "w' = w1 \<or> (\<exists>i. w' = set_node m i w1)" and "m \<in> ms"
  shows "parks w w' ms"
proof -
  have "parks w1 w' ms" 
  proof -
    have "parked p n c w'" if "parked p n c w1" "n \<notin> ms" for p n c
      using assms(2) parked_node [OF that(1), of m] that assms(3) by auto
    then show ?thesis unfolding parks_def by blast
  qed
  then show ?thesis using tick_parks [OF assms(1)] parks_trans by blast
qed

lemma chmod_parks: "os_chmod m mode w = (r, w') \<Longrightarrow> m \<in> ms \<Longrightarrow> parks w w' ms"
  by (rule node_op_parks [OF surjective_pairing, where m = m]) (auto simp: os_chmod_def split: prod.splits option.splits)

lemma write_parks: "os_write m c w = (r, w') \<Longrightarrow> m \<in> ms \<Longrightarrow> parks w w' ms"
  by (rule node_op_parks [OF surjective_pairing, where m = m])
    (auto simp: os_write_def split: prod.splits option.splits if_splits)

lemma sync_file_parks: "os_sync_file m w = (r, w') \<Longrightarrow> m \<in> ms \<Longrightarrow> parks w w' ms"
  by (rule node_op_parks [OF surjective_pairing, where m = m]) (auto simp: os_sync_file_def split: prod.splits option.splits)

lemma os_sync_dir_parks: "os_sync_dir d w = (r, w') \<Longrightarrow> parks w w' ms"
  using tick_parks [of w] parked_commit
  by (auto simp: os_sync_dir_def parks_def split: prod.splits option.splits)

lemma sync_dir_contract:
  assumes "fs_ok w" and "sync_dir d w = (r, w')"
  shows "quiet w w' \<and> (r = None \<longrightarrow> settled d w') \<and> parks w w' ms"
proof -
  obtain e w1 where s: "syncDirectory d w = (e, w1)" by (cases "syncDirectory d w")
  have w': "w' = w1" using assms(2) s by (auto simp: sync_dir_def SyncDirectory_def split: option.splits)
  have u: "e \<noteq> Some ErrDirectorySyncUnsupported"
    using s tick_not_directory
    by (fastforce simp: syncDirectory_def os_open_def os_sync_dir_def os_close_def split: prod.splits option.splits if_splits)
  have "r = None \<Longrightarrow> e = None"
    using assms(2) s u by (auto simp: sync_dir_def SyncDirectory_def split: option.splits if_splits)
  moreover have "parks w w1 ms"
  proof -
    obtain e1 u1 where 1: "tick w = (e1, u1)" by (cases "tick w")
    obtain e2 u2 where 2: "os_sync_dir d u1 = (e2, u2)" by (cases "os_sync_dir d u1")
    obtain e3 u3 where 3: "os_close u2 = (e3, u3)" by (cases "os_close u2")
    have "w1 = u1 \<or> w1 = u3" using s 1 2 3 by (auto simp: syncDirectory_def os_open_def split: option.splits)
    then show ?thesis
      using tick_parks [OF 1, of ms] os_sync_dir_parks [OF 2, of ms] close_parks [OF 3, of ms] parks_trans by blast
  qed
  ultimately show ?thesis using syncDirectory_contract [OF assms(1) s] w' by blast
qed

lemma sync_dir_trace:
  assumes "sync_dir d w = (r, w')"
  shows "\<exists>u v. same_fs w u \<and> (v = u \<or> (\<exists>d. v = commit_dir d u)) \<and> same_fs v w'"
proof -
  obtain e1 u1 where 1: "tick w = (e1, u1)" by (cases "tick w")
  obtain e2 u2 where 2: "tick u1 = (e2, u2)" by (cases "tick u1")
  obtain e3 u3 where 3: "os_sync_dir d u1 = (e3, u3)" by (cases "os_sync_dir d u1")
  obtain e4 u4 where 4: "tick u3 = (e4, u4)" by (cases "tick u3")
  have "w' = u1 \<or> w' = u4"
    using assms 1 3 4 by (auto simp: sync_dir_def SyncDirectory_def syncDirectory_def os_open_def os_close_def split: option.splits prod.splits)
  moreover have "u3 = u2 \<or> u3 = commit_dir d u2" using 2 3 by (auto simp: os_sync_dir_def split: option.splits)
  moreover have "same_fs w u1" "same_fs w u2" "same_fs u3 u4"
    using tick_same_fs [OF 1] tick_same_fs [OF 2] tick_same_fs [OF 4] same_fs_trans by blast+
  ultimately show ?thesis by (metis same_fs_refl)
qed

lemma create_parks:
  assumes ok: "fs_ok w" and c: "os_create_temp_as pre post dir w = (r, w')"
  shows "parks w w' ms" and "r = Inr (q, m) \<Longrightarrow> parked p n c' w \<Longrightarrow> q \<noteq> p \<and> m \<noteq> n"
    and "r = Inr (q, m) \<Longrightarrow> fst q = dir"
proof -
  obtain e w1 where t: "tick w = (e, w1)" by (cases "tick w")
  have s: "same_fs w w1" by (rule tick_same_fs [OF t])
  have k: "q = (dir, pre @ dec_digits m @ post) \<and> m = w_next w1 \<and> map_of (live w1) q = None \<and>
      w' = log_txn [(q, Some m)] (set_node m \<lparr>in_data = None, in_synced = False, in_mode = 384\<rparr> (w1\<lparr>w_next := Suc m\<rparr>))"
    if "r = Inr (q, m)" for q m
    using c t that by (auto simp: os_create_temp_as_def Let_def split: option.splits if_splits)
  have u: "w' = w1" if "\<forall>q m. r \<noteq> Inr (q, m)"
    using c t that by (auto simp: os_create_temp_as_def Let_def split: option.splits if_splits)
  have d: "q \<noteq> p \<and> m \<noteq> n" if "r = Inr (q, m)" "parked p n c' w" for q m p n c'
  proof -
    have p1: "parked p n c' w1" using that(2) parked_same_fs [OF s] by simp
    then have "map_of (live w1) p = Some n" "n < w_next w1" by (simp_all add: parked_def staged_def)
    with k [OF that(1)] show ?thesis by auto
  qed
  show "r = Inr (q, m) \<Longrightarrow> parked p n c' w \<Longrightarrow> q \<noteq> p \<and> m \<noteq> n" by (rule d)
  show "r = Inr (q, m) \<Longrightarrow> fst q = dir" using k by auto
  show "parks w w' ms"
  proof (cases "\<exists>q m. r = Inr (q, m)")
    case False
    then show ?thesis using u same_fs_parks [OF s] by auto
  next
    case True
    then obtain q m where r: "r = Inr (q, m)" by blast
    have "parked p n c' w'" if "parked p n c' w" for p n c'
    proof -
      have qm: "q \<noteq> p" "m \<noteq> n" using d [OF r that] by simp_all
      have "parked p n c' w1" using that parked_same_fs [OF s] by simp
      then have "parked p n c' (w1\<lparr>w_next := Suc m\<rparr>)"
        using k [OF r] by (auto simp: parked_def staged_def ready_def live_def private_node_def prefix_maps_def)
      then have "parked p n c' (set_node m i (w1\<lparr>w_next := Suc m\<rparr>))" for i by (rule parked_node [OF _ qm(2)])
      then show ?thesis using k [OF r] qm by (auto intro!: parked_log)
    qed
    then show ?thesis by (simp add: parks_def)
  qed
qed

lemma remove_other:
  assumes "parked p n c w" and "q \<noteq> p"
  shows "parked p n c (snd (os_remove q w))"
proof -
  obtain e w1 where t: "tick w = (e, w1)" by (cases "tick w")
  have "parked p n c w1" using assms(1) parked_same_fs [OF tick_same_fs [OF t]] by simp
  moreover have "snd (os_remove q w) = w1 \<or> snd (os_remove q w) = log_txn [(q, None)] w1"
    using t by (auto simp: os_remove_def split: option.splits)
  moreover have "parked p n c (log_txn [(q, None)] w1)" by (rule parked_log [OF calculation(1)]) (use assms(2) in auto)
  ultimately show ?thesis by auto
qed

text \<open>Publishing one parked file leaves another one parked.\<close>

lemma rename_contract:
  assumes ok: "fs_ok w" and p: "parked q m d w" and t: "\<not> is_temp t" and r: "os_rename q t w = (e, w')"
  shows "e = None \<Longrightarrow> fs_ok w' \<and> live_view w' = (live_view w)(t := Whole d) \<and>
      crash_views w' \<subseteq> insert (live_view w') (crash_views w)"
    and "e \<noteq> None \<Longrightarrow> quiet w w'"
    and "parked p n c w \<Longrightarrow> n \<noteq> m \<Longrightarrow> parked p n c w'"
    and "e \<noteq> None \<Longrightarrow> parked q m d w'"
proof -
  have "staged q m w" "ready m d w" using p by (simp_all add: parked_def)
  note c = publish_contract [OF ok this t, of False e w', unfolded publish_def if_False, OF r]
  show "e = None \<Longrightarrow> fs_ok w' \<and> live_view w' = (live_view w)(t := Whole d) \<and>
      crash_views w' \<subseteq> insert (live_view w') (crash_views w)" using c by blast
  show "e \<noteq> None \<Longrightarrow> quiet w w'" using c by blast
  obtain e1 w1 where tk: "tick w = (e1, w1)" by (cases "tick w")
  have s: "same_fs w w1" by (rule tick_same_fs [OF tk])
  have q1: "parked q m d w1" using p parked_same_fs [OF s] by simp
  then have q: "map_of (live w1) q = Some m" "is_temp q" by (simp_all add: parked_def staged_def)
  have w': "w' = w1 \<or> e = None \<and> w' = log_txn [(q, None), (t, Some m)] w1"
    using r tk q t by (auto simp: os_rename_def split: option.splits if_splits)
  show "parked p n c w'" if "parked p n c w" "n \<noteq> m"
  proof -
    have "parked p n c w1" using that(1) parked_same_fs [OF s] by simp
    moreover have "q \<noteq> p" using calculation q(1) that(2) by (auto simp: parked_def staged_def)
    moreover have "t \<noteq> p" using calculation(1) t by (auto simp: parked_def staged_def)
    ultimately show ?thesis using w' that(2) by (auto intro!: parked_log)
  qed
  show "e \<noteq> None \<Longrightarrow> parked q m d w'" using w' q1 by auto
qed

section \<open>Staging\<close>

lemma fill_contract:
  assumes ok: "fs_ok w" and st: "staged tmp n w" and f: "fill_staged mode copying data n dir w = (r, w')"
  shows "quiet w w' \<and> staged tmp n w' \<and> parks w w' {n} \<and> (r \<longrightarrow> ready n data w')"
proof -
  define G where "G u \<longleftrightarrow> quiet w u \<and> staged tmp n u \<and> parks w u {n}" for u
  have G0: "G w" using ok st by (simp add: G_def quiet_def parks_refl)
  have G: "fs_ok u" "staged tmp n u" if "G u" for u using that by (simp_all add: G_def quiet_def)
  have GI: "G v" if "G u" "quiet u v" "staged tmp n v" "parks u v {n}" for u v
    using that quiet_trans parks_trans unfolding G_def by blast
  obtain e1 w1 where 1: "os_chmod n mode w = (e1, w1)" by (cases "os_chmod n mode w")
  have g1: "G w1" using GI [OF G0] chmod_contract [OF ok st 1] chmod_parks [OF 1, of "{n}"] by simp
  obtain e2 w2 where 2: "(if copying then tick w1 else (None, w1)) = (e2, w2)"
    by (cases "if copying then tick w1 else (None, w1)")
  have s2: "same_fs w1 w2" using 2 tick_same_fs [of w1 e2 w2] by (auto split: if_splits)
  have g2: "G w2"
    by (rule GI [OF g1 same_fs_quiet [OF G(1) [OF g1] s2] _ same_fs_parks [OF s2]])
      (use G(2) [OF g1] same_fs_staged [OF s2] in simp)
  obtain full e3 w3 where 3: "os_write n data w2 = ((full, e3), w3)" by (metis surj_pair)
  have c3: "quiet w2 w3 \<and> staged tmp n w3 \<and> (full \<and> e3 = None \<longrightarrow> in_data (w_nodes w3 n) = Some data)"
    by (rule write_contract [OF G [OF g2] 3])
  have g3: "G w3" using GI [OF g2] c3 write_parks [OF 3, of "{n}"] by simp
  obtain e4 w4 where 4: "os_sync_file n w3 = (e4, w4)" by (cases "os_sync_file n w3")
  have c4: "quiet w3 w4 \<and> staged tmp n w4 \<and> (e4 = None \<longrightarrow> ready n data w4)" if "full" "e3 = None"
    by (rule sync_file_contract [OF G [OF g3] _ 4]) (use c3 that in simp)
  have g4: "G w4" if "full" "e3 = None" using GI [OF g3] c4 [OF that] sync_file_parks [OF 4, of "{n}"] by simp
  obtain e5 w5 where 5: "os_close w4 = (e5, w5)" by (cases "os_close w4")
  have s5: "same_fs w4 w5" using 5 tick_same_fs [of w4 e5 w5] by (simp add: os_close_def)
  have g5: "G w5 \<and> (e4 = None \<longrightarrow> ready n data w5)" if "full" "e3 = None"
    using GI [OF g4 [OF that] same_fs_quiet [OF G(1) [OF g4 [OF that]] s5] _ same_fs_parks [OF s5]]
      G(2) [OF g4 [OF that]] same_fs_staged [OF s5] c4 [OF that] s5
    by (auto simp: ready_def same_fs_def)
  obtain e6 w6 where 6: "sync_dir dir w5 = (e6, w6)" by (cases "sync_dir dir w5")
  have g6: "G w6 \<and> (e4 = None \<longrightarrow> ready n data w6)" if "full" "e3 = None"
  proof -
    have c: "quiet w5 w6 \<and> parks w5 w6 {}" if "fs_ok w5" using sync_dir_contract [OF that 6] by blast
    have g: "G w5" "e4 = None \<longrightarrow> ready n data w5" using g5 [OF that] by simp_all
    have c': "quiet w5 w6" "parks w5 w6 {}" using c [OF G(1) [OF g(1)]] by simp_all
    have st6: "staged tmp n w6"
    proof -
      have "staged tmp n (commit_dir d u)" if "staged tmp n u" for d and u :: uworld
        using that prefix_maps_commit [of d u] by (auto simp: staged_def live_commit private_node_def)
      moreover have "\<exists>u v. same_fs w5 u \<and> (v = u \<or> (\<exists>d. v = commit_dir d u)) \<and> same_fs v w6"
        using sync_dir_trace [OF 6] .
      ultimately show ?thesis using G(2) [OF g(1)] same_fs_staged by metis
    qed
    have "parks w5 w6 {n}" using c'(2) by (auto simp: parks_def)
    then have "G w6" using GI [OF g(1) c'(1) st6] by simp
    moreover have "e4 = None \<longrightarrow> ready n data w6"
      using g(2) G(2) [OF g(1)] parksD [OF c'(2)] unfolding parked_def by blast
    ultimately show ?thesis by simp
  qed
  have "G w' \<and> (r \<longrightarrow> ready n data w')"
    using f 1 2 3 4 5 6 g1 g2 g3 g4 g5 g6
    by (auto simp: fill_staged_def split: option.splits if_splits)
  then show ?thesis by (simp add: G_def)
qed

subsection \<open>Names\<close>

lemma ext_of_json: "suffix ''.json'' s \<Longrightarrow> path_ext s = ''.json''"
  by (auto simp: suffix_def path_ext_def)

lemma ext_of_ext:
  assumes "path_ext x \<noteq> []"
  shows "path_ext (y @ path_ext x) = path_ext x"
proof -
  define t where "t = takeWhile (\<lambda>c. c \<noteq> CHR ''.'') (rev x)"
  have x: "path_ext x = CHR ''.'' # rev t" using assms by (simp add: path_ext_def t_def split: if_splits)
  have "CHR ''.'' \<notin> set t" by (auto simp: t_def dest: set_takeWhileD)
  then have "takeWhile (\<lambda>c. c \<noteq> CHR ''.'') (t @ CHR ''.'' # rev y) = t"
    by (subst takeWhile_append2) auto
  then show ?thesis unfolding x by (simp add: path_ext_def)
qed

lemma digits_no_json: "\<not> suffix ''.json'' (pre @ dec_digits k)"
proof
  assume "suffix ''.json'' (pre @ dec_digits k)"
  then obtain zs where "pre @ dec_digits k = zs @ ''.json''" by (auto simp: suffix_def)
  then have "last (pre @ dec_digits k) = last (zs @ ''.json'')" by (rule arg_cong)
  then have "last (dec_digits k) = CHR ''n''" by simp
  moreover have "is_digit (last (dec_digits k))" using dec_digits_digits [of k] by (simp add: list_all_iff)
  ultimately show False by (simp add: is_digit_def)
qed

lemma candidate_name:
  assumes "path_ext (snd exe) \<noteq> ''.json''"
  shows "is_temp (d, ''.dropin-miner.candidate-'' @ dec_digits k @ path_ext (snd exe))"
proof -
  let ?n = "''.dropin-miner.candidate-'' @ dec_digits k"
  have "\<not> suffix ''.json'' (?n @ path_ext (snd exe))"
  proof (cases "path_ext (snd exe) = []")
    case True
    then show ?thesis using digits_no_json [of "''.dropin-miner.candidate-''" k] by simp
  next
    case False
    then show ?thesis using ext_of_json [of "?n @ path_ext (snd exe)"] ext_of_ext [OF False, of ?n] assms by auto
  qed
  moreover have "prefix ''.dropin-miner.candidate-'' (?n @ path_ext (snd exe))" by simp
  ultimately show ?thesis by (simp add: is_temp_def staging_name_def)
qed

lemma snapshot_name: "is_temp (d, ''.dropin-miner.snapshot-'' @ dec_digits k @ [])"
  using digits_no_json [of "''.dropin-miner.snapshot-''" k] by (simp add: is_temp_def staging_name_def)

subsection \<open>A candidate and a snapshot\<close>

lemma lookup_same_fs: "os_lookup p w = (r, w') \<Longrightarrow> same_fs w w'"
  using tick_same_fs [of w] by (auto simp: os_lookup_def split: prod.splits option.splits)

lemma lookup_node: "os_lookup p w = (Inr k, w') \<Longrightarrow> map_of (live w) p = Some k"
  using tick_same_fs [of w] by (auto simp: os_lookup_def same_fs_views split: prod.splits option.splits)

lemma close_same_fs: "same_fs w (snd (os_close w))"
  unfolding os_close_def by (rule tick_same_fs [OF surjective_pairing])

lemma same_fs_quiet_parks: "fs_ok w \<Longrightarrow> same_fs w w' \<Longrightarrow> quiet w w' \<and> parks w w' ms"
  by (simp add: same_fs_quiet same_fs_parks)

lemma stage_contract:
  assumes ok: "fs_ok w" and x: "path_ext (snd exe) \<noteq> ''.json''" and s: "StageCandidate exe binary w = (r, w')"
  shows "quiet w w' \<and> (\<forall>tmp. r = Some tmp \<longrightarrow> fst tmp = fst exe \<and> (\<exists>n. parked tmp n binary w'))"
proof -
  obtain l w1 where 1: "os_lookup exe w = (l, w1)" by (cases "os_lookup exe w")
  have q1: "quiet w w1" by (rule same_fs_quiet [OF ok lookup_same_fs [OF 1]])
  then have ok1: "fs_ok w1" by (simp add: quiet_def)
  define pre where "pre = ''.dropin-miner.candidate-''"
  obtain c w2 where 2: "os_create_temp_as pre (path_ext (snd exe)) (fst exe) w1 = (c, w2)"
    by (cases "os_create_temp_as pre (path_ext (snd exe)) (fst exe) w1")
  show ?thesis
  proof (cases c)
    case (Inl e)
    then have "r = None \<and> w' = w2" using s 1 2 by (simp add: StageCandidate_def pre_def Let_def)
    then show ?thesis using create_fails [OF ok1] 2 Inl q1 quiet_trans by blast
  next
    case (Inr tn)
    obtain tmp n where tn: "tn = (tmp, n)" by (cases tn)
    have c2: "quiet w1 w2 \<and> staged tmp n w2"
    proof (rule create_contract_as [OF ok1])
      show "os_create_temp_as pre (path_ext (snd exe)) (fst exe) w1 = (Inr (tmp, n), w2)" using 2 Inr tn by simp
      show "is_temp (fst exe, pre @ dec_digits k @ path_ext (snd exe))" for k
        unfolding pre_def by (rule candidate_name [OF x])
    qed
    then have ok2: "fs_ok w2" and st2: "staged tmp n w2" by (simp_all add: quiet_def)
    have d: "fst tmp = fst exe" using create_parks(3) [OF ok1 2] Inr tn by simp
    obtain mode b w3 where 3: "fill_staged mode False binary n (fst exe) w2 = (b, w3)"
      and r: "(r, w') = (if b then (Some tmp, w3) else (None, snd (os_remove tmp (snd (os_close w3)))))"
      using s 1 2 Inr tn by (auto simp: StageCandidate_def pre_def Let_def split: prod.splits bool.splits)
    note f = fill_contract [OF ok2 st2 3]
    have q3: "quiet w w3" using q1 c2 f quiet_trans by blast
    show ?thesis
    proof (cases b)
      case True
      then show ?thesis using r f q3 d by (auto simp: parked_def)
    next
      case False
      have "quiet w3 (snd (os_close w3))"
        by (rule same_fs_quiet [OF _ close_same_fs]) (use f in \<open>simp add: quiet_def\<close>)
      moreover have "quiet (snd (os_close w3)) (snd (os_remove tmp (snd (os_close w3))))"
        by (rule os_remove_temp_quiet) (use calculation st2 in \<open>simp_all add: quiet_def staged_def\<close>)
      ultimately show ?thesis using False r q3 quiet_trans by (metis option.distinct(1) prod.inject)
    qed
  qed
qed

lemma snapshot_contract:
  assumes ok: "fs_ok w" and x: "\<not> is_temp source" and v: "live_view w source = Whole old"
    and s: "durableSnapshot source w = (r, w')"
  shows "quiet w w' \<and> (\<forall>p n c. parked p n c w \<longrightarrow> parked p n c w') \<and>
    (\<forall>snap. r = Some snap \<longrightarrow> (\<exists>m. parked snap m old w' \<and> (\<forall>p n c. parked p n c w \<longrightarrow> m \<noteq> n \<and> snap \<noteq> p)))"
proof -
  define Q where "Q u \<longleftrightarrow> quiet w u \<and> parks w u {}" for u
  have QI: "Q u2" if "Q u1" "same_fs u1 u2" for u1 u2
    using that same_fs_quiet_parks [OF _ that(2), of "{}"] quiet_trans parks_trans
    unfolding Q_def quiet_def by blast
  have Qp: "quiet w u \<and> (\<forall>p n c. parked p n c w \<longrightarrow> parked p n c u)" if "Q u" for u
    using that unfolding Q_def parks_def by blast
  have Q0: "Q w" using ok by (simp add: Q_def quiet_def parks_refl)
  obtain l w1 where 1: "os_lookup source w = (l, w1)" by (cases "os_lookup source w")
  have Q1: "Q w1" by (rule QI [OF Q0 lookup_same_fs [OF 1]])
  obtain e w2 where 2: "tick w1 = (e, w2)" by (cases "tick w1")
  have Q2: "Q w2" by (rule QI [OF Q1 tick_same_fs [OF 2]])
  have Qc: "Q (snd (os_close u))" if "Q u" for u by (rule QI [OF that close_same_fs])
  show ?thesis
  proof (cases "\<exists>k c tn w3. l = Inr k \<and> e = None \<and> in_data (w_nodes w2 k) = Some c \<and> c \<noteq> [] \<and>
      length c \<le> MaxExecutableBytes \<and>
      os_create_temp_as ''.dropin-miner.snapshot-'' [] (fst source) w2 = (Inr tn, w3)")
    case False
    have cr: "Q u" if "os_create_temp_as ''.dropin-miner.snapshot-'' [] (fst source) w2 = (Inl x', u)" for x' u
    proof -
      have "fs_ok w2" using Q2 by (simp add: Q_def quiet_def)
      then show ?thesis
        using create_fails [OF _ that] create_parks(1) [OF _ that, of "{}"] Q2 quiet_trans parks_trans
        unfolding Q_def by blast
    qed
    have "r = None \<and> Q w'"
      using s 1 2 False Q1 Qc [OF Q2] Qc [OF cr] by (auto simp: durableSnapshot_def not_less split: sum.splits option.splits if_splits prod.splits)
    then show ?thesis using Qp by blast
  next
    case True
    then obtain k c tmp n w3 where k: "l = Inr k" "e = None" "in_data (w_nodes w2 k) = Some c" "c \<noteq> []"
        "\<not> MaxExecutableBytes < length c"
        "os_create_temp_as ''.dropin-miner.snapshot-'' [] (fst source) w2 = (Inr (tmp, n), w3)" by fastforce
    have same: "same_fs w w2" using lookup_same_fs [OF 1] tick_same_fs [OF 2] same_fs_trans by blast
    have "map_of (live w) source = Some k" using lookup_node 1 k(1) by simp
    then have c: "c = old" using v k(3) x same
      by (auto simp: live_view_def view_of_def node_seen_def same_fs_def split: option.splits if_splits)
    have ok2: "fs_ok w2" using Q2 by (simp add: Q_def quiet_def)
    have c3: "quiet w2 w3 \<and> staged tmp n w3"
      by (rule create_contract_as [OF ok2 k(6)]) (use snapshot_name in simp)
    then have ok3: "fs_ok w3" and st3: "staged tmp n w3" by (simp_all add: quiet_def)
    have new: "m \<noteq> n \<and> tmp \<noteq> p" if "parked p m c' w" for p m c'
    proof -
      have "parked p m c' w2" using Q2 parksD [of w w2 "{}" p m c'] that by (simp add: Q_def)
      from create_parks(2) [OF ok2 k(6) refl this] show ?thesis by simp
    qed
    obtain b w4 where 4: "fill_staged (in_mode (w_nodes w3 k)) True c n (fst source) w3 = (b, w4)"
      by (cases "fill_staged (in_mode (w_nodes w3 k)) True c n (fst source) w3")
    note f = fill_contract [OF ok3 st3 4]
    define w5 where "w5 = snd (os_close w4)"
    define w6 where "w6 = (if b then w5 else snd (os_remove tmp w5))"
    have w': "r = (if b then Some tmp else None)" "w' = snd (os_close w6)"
      using s 1 2 k 4 by (auto simp: durableSnapshot_def Let_def w5_def w6_def)
    have s45: "same_fs w4 w5" unfolding w5_def by (rule close_same_fs)
    have s6: "same_fs w6 w'" unfolding w'(2) by (rule close_same_fs)
    have q5: "quiet w w5"
    proof -
      have "quiet w4 w5" by (rule same_fs_quiet [OF _ s45]) (use f in \<open>simp add: quiet_def\<close>)
      then show ?thesis using Q2 c3 f quiet_trans unfolding Q_def by blast
    qed
    have p5: "parked p m c' w5" if "parked p m c' w" for p m c'
    proof -
      have "parked p m c' w3" using that Q2 parksD [of w w2 "{}"] create_parks(1) [OF ok2 k(6), of "{}"] parksD [of w2 w3 "{}"]
        by (auto simp: Q_def)
      then have "parked p m c' w4" using f parksD [of w3 w4 "{n}"] new [OF that] by auto
      then show ?thesis using parked_same_fs [OF s45] by simp
    qed
    have q6: "quiet w w6" unfolding w6_def
      using q5 os_remove_temp_quiet [of w5 tmp] st3 quiet_trans by (auto simp: quiet_def staged_def)
    have p6: "parked p m c' w6" if "parked p m c' w" for p m c'
      using p5 [OF that] remove_other new [OF that] by (simp add: w6_def)
    have "quiet w6 w'" by (rule same_fs_quiet [OF _ s6]) (use q6 in \<open>simp add: quiet_def\<close>)
    then have q': "quiet w w'" using q6 quiet_trans by blast
    have p': "parked p m c' w'" if "parked p m c' w" for p m c'
      using p6 [OF that] parked_same_fs [OF s6] by simp
    have "parked tmp n old w'" if "b"
    proof -
      have "parked tmp n old w4" using f c that by (simp add: parked_def)
      then show ?thesis using that parked_same_fs [OF s45] parked_same_fs [OF s6] by (simp add: w6_def)
    qed
    then show ?thesis using q' p' new w'(1) by (auto split: if_splits) blast
  qed
qed

section \<open>The replacement\<close>

definition holds :: "path \<Rightarrow> bytes \<Rightarrow> uworld \<Rightarrow> bool" where
  "holds p c w \<longleftrightarrow> (\<exists>n. map_of (live w) p = Some n \<and> in_data (w_nodes w n) = Some c)"

lemma parked_holds: "parked p n c w \<Longrightarrow> holds p c w"
  by (auto simp: parked_def staged_def ready_def holds_def)

lemma seen_holds: "live_view w p = Whole c \<Longrightarrow> holds p c w"
  by (auto simp: live_view_def view_of_def node_seen_def holds_def split: if_splits option.splits)

text \<open>
  What a failure says of the old binary: replacement failed, it is in place and durable; the
  other two kinds name a file that holds it.
\<close>

definition put_back :: "path \<Rightarrow> bytes \<Rightarrow> update_error \<Rightarrow> uworld \<Rightarrow> bool" where
  "put_back exe old e w \<longleftrightarrow>
     ue_kind e \<in> {KindReplacementFailed, KindIncomplete, KindManualIntervention} \<and>
     (ue_kind e = KindReplacementFailed \<longrightarrow> live_view w exe = Whole old \<and> settled (fst exe) w) \<and>
     (ue_kind e \<noteq> KindReplacementFailed \<longrightarrow> (\<exists>q \<in> set (ue_paths e). holds q old w))"

lemma restore_contract:
  assumes ok: "fs_ok w" and p: "parked snap m old w" and x: "\<not> is_temp exe"
    and r: "restorePOSIX exe snap w = (err, w')"
  shows "fs_ok w' \<and> (live_view w' = live_view w \<or> live_view w' = (live_view w)(exe := Whole old)) \<and>
    crash_views w' \<subseteq> insert ((live_view w)(exe := Whole old)) (crash_views w) \<and>
    (\<exists>e. err = Some e \<and> put_back exe old e w')"
proof -
  obtain e1 w1 where 1: "os_rename snap exe w = (e1, w1)" by (cases "os_rename snap exe w")
  note c = rename_contract [OF ok p x 1]
  show ?thesis
  proof (cases e1)
    case (Some e)
    then have q: "quiet w w1" "parked snap m old w1" using c by simp_all
    have "err = Some \<lparr>ue_kind = KindManualIntervention, ue_paths = [exe, snap]\<rparr>" "w' = w1"
      using r 1 Some by (simp_all add: restorePOSIX_def)
    then show ?thesis using q parked_holds [OF q(2)] by (auto simp: quiet_def put_back_def)
  next
    case None
    then have l: "fs_ok w1" "live_view w1 = (live_view w)(exe := Whole old)"
        "crash_views w1 \<subseteq> insert (live_view w1) (crash_views w)"
      using c(1) by blast+
    obtain e2 w2 where 2: "sync_dir (fst exe) w1 = (e2, w2)" by (cases "sync_dir (fst exe) w1")
    have q: "quiet w1 w2" "e2 = None \<longrightarrow> settled (fst exe) w2" using sync_dir_contract [OF l(1) 2] by blast+
    have w': "w' = w2" "\<exists>e. err = Some e \<and> (if e2 = None then e = failure KindReplacementFailed
        else e = \<lparr>ue_kind = KindIncomplete, ue_paths = [exe]\<rparr>)"
      using r 1 None 2 by (auto simp: restorePOSIX_def split: option.splits)
    have lv: "live_view w2 = (live_view w)(exe := Whole old)" "fs_ok w2" using q l by (simp_all add: quiet_def)
    then have h: "holds exe old w2" by (auto intro: seen_holds)
    have "crash_views w2 \<subseteq> insert ((live_view w)(exe := Whole old)) (crash_views w)"
      using q(1) l(2,3) unfolding quiet_def by auto
    moreover have "put_back exe old e w2" if "err = Some e" for e
      using that w'(2) q(2) lv h by (auto simp: put_back_def failure_def split: if_splits)
    ultimately show ?thesis using w' lv by auto
  qed
qed

text \<open>The pairs of installed and previous binary that a replacement may show.\<close>

definition shows_pairs :: "path \<Rightarrow> (bytes seen \<times> bytes seen) set \<Rightarrow> uworld \<Rightarrow> bool" where
  "shows_pairs exe S w \<longleftrightarrow> (\<forall>v \<in> crash_views w. (v exe, v (PreviousPath exe)) \<in> S)"

lemma shows_quiet: "shows_pairs exe S w \<Longrightarrow> quiet w w' \<Longrightarrow> shows_pairs exe S w'"
  unfolding shows_pairs_def quiet_def by blast

lemma shows_live: "shows_pairs exe S w \<Longrightarrow> (live_view w exe, live_view w (PreviousPath exe)) \<in> S"
  unfolding shows_pairs_def using live_view_in_crash_views by blast

lemma shows_insert:
  assumes "shows_pairs exe S w" and "crash_views w' \<subseteq> insert f (crash_views w)" and "(f exe, f (PreviousPath exe)) \<in> S"
  shows "shows_pairs exe S w'"
  using assms unfolding shows_pairs_def by blast

lemma shows_settled:
  assumes "settled (fst exe) w"
  shows "shows_pairs exe {(live_view w exe, live_view w (PreviousPath exe))} w"
proof -
  have "v exe = live_view w exe \<and> v (PreviousPath exe) = live_view w (PreviousPath exe)" if "v \<in> crash_views w" for v
    using settledD [OF assms that] settledD [of "PreviousPath exe" w v] assms that by (simp add: PreviousPath_def)
  then show ?thesis by (simp add: shows_pairs_def)
qed

lemma previous_differs: "PreviousPath exe \<noteq> exe"
  by (cases exe) (simp add: PreviousPath_def)

text \<open>All a replacement promises, for a candidate that is parked beside the binary.\<close>

definition replaced ::
    "path \<Rightarrow> bytes \<Rightarrow> bytes \<Rightarrow> bytes seen \<Rightarrow> bool \<Rightarrow> update_error option \<Rightarrow> uworld \<Rightarrow> bool" where
  "replaced exe old new pv valid err w \<longleftrightarrow>
     fs_ok w \<and> shows_pairs exe {(Whole old, pv), (Whole new, pv), (Whole new, Whole old)} w \<and>
     (\<not> valid \<longrightarrow> shows_pairs exe {(Whole old, pv), (Whole new, pv)} w) \<and>
     (err = None \<longrightarrow> valid \<and> shows_pairs exe {(Whole new, Whole old)} w) \<and>
     (\<forall>e. err = Some e \<longrightarrow> put_back exe old e w \<and>
        (ue_kind e = KindReplacementFailed \<longrightarrow> shows_pairs exe {(Whole old, pv)} w))"

lemma restored:
  assumes ok: "fs_ok w" and p: "parked snap m old w" and x: "\<not> is_temp exe"
    and pr: "shows_pairs exe {(Whole old, pv), (Whole new, pv)} w"
    and r: "restorePOSIX exe snap w = (err, w')"
  shows "replaced exe old new pv valid err w'"
proof -
  note c = restore_contract [OF ok p x r]
  have pv: "live_view w (PreviousPath exe) = pv" using shows_live [OF pr] by auto
  let ?f = "(live_view w)(exe := Whole old)"
  have f: "(?f exe, ?f (PreviousPath exe)) = (Whole old, pv)" using pv previous_differs by simp
  have s: "shows_pairs exe {(Whole old, pv), (Whole new, pv)} w'"
    by (rule shows_insert [OF pr, of _ ?f]) (use c f in auto)
  obtain e where e: "err = Some e" "put_back exe old e w'" using c by blast
  have "shows_pairs exe {(Whole old, pv)} w'" if "ue_kind e = KindReplacementFailed"
  proof -
    have l: "live_view w' exe = Whole old" "settled (fst exe) w'" using e(2) that by (simp_all add: put_back_def)
    have "live_view w' (PreviousPath exe) = pv" using shows_live [OF s] by auto
    then show ?thesis using shows_settled [OF l(2)] l(1) by simp
  qed
  moreover have "shows_pairs exe {(Whole old, pv), (Whole new, pv), (Whole new, Whole old)} w'"
    using s by (auto simp: shows_pairs_def)
  ultimately show ?thesis using c e s by (auto simp: replaced_def)
qed

lemma unreplaced:
  assumes "quiet w w'" and "shows_pairs exe {(Whole old, pv)} w" and "settled (fst exe) w"
  shows "replaced exe old new pv valid (Some (failure KindReplacementFailed)) w'"
proof -
  have s: "shows_pairs exe {(Whole old, pv)} w'" by (rule shows_quiet [OF assms(2,1)])
  then have "live_view w' exe = Whole old" using shows_live by fastforce
  moreover have "settled (fst exe) w'" by (rule quiet_settled [OF assms(1,3)])
  moreover have "shows_pairs exe {(Whole old, pv), (Whole new, pv), (Whole new, Whole old)} w'"
    "shows_pairs exe {(Whole old, pv), (Whole new, pv)} w'" using s by (auto simp: shows_pairs_def)
  ultimately show ?thesis using assms(1) s by (simp add: replaced_def put_back_def failure_def quiet_def)
qed

lemma replace_contract:
  assumes ok: "fs_ok w" and cand: "parked cand n new w" and x: "\<not> is_temp exe" "\<not> is_temp (PreviousPath exe)"
    and st: "settled (fst exe) w" and v: "live_view w exe = Whole old"
    and r: "replacePOSIX rn ctx exe cand target w = (err, w')"
  shows "replaced exe old new (live_view w (PreviousPath exe)) (validateCandidate ctx (rn new) target = None) err w'"
proof -
  define pv where "pv = live_view w (PreviousPath exe)"
  define valid where "valid \<longleftrightarrow> validateCandidate ctx (rn new) target = None"
  have s0: "shows_pairs exe {(Whole old, pv)} w" using shows_settled [OF st] v by (simp add: pv_def)
  obtain sn w1 where 1: "durableSnapshot exe w = (sn, w1)" by (cases "durableSnapshot exe w")
  have c1: "quiet w w1" "parked cand n new w1"
      "\<And>snap. sn = Some snap \<Longrightarrow> \<exists>m. parked snap m old w1 \<and> m \<noteq> n"
    using snapshot_contract [OF ok x(1) v 1] cand by blast+
  have "replaced exe old new pv valid err w'"
  proof (cases sn)
    case None
    then have "err = Some (failure KindReplacementFailed)" "w' = w1" using r 1 by (simp_all add: replacePOSIX_def)
    then show ?thesis using unreplaced [OF c1(1) s0 st] by simp
  next
    case (Some snap)
    obtain m where m: "parked snap m old w1" "m \<noteq> n" using c1(3) Some by blast
    have ok1: "fs_ok w1" and s1: "shows_pairs exe {(Whole old, pv)} w1"
      using c1(1) shows_quiet [OF s0 c1(1)] by (simp_all add: quiet_def)
    obtain e2 w2 where 2: "os_rename cand exe w1 = (e2, w2)" by (cases "os_rename cand exe w1")
    note c2 = rename_contract [OF ok1 c1(2) x(1) 2]
    show ?thesis
    proof (cases e2)
      case (Some e)
      then have "quiet w1 w2" using c2 by simp
      moreover have "quiet w2 (snd (os_remove snap w2))"
        by (rule os_remove_temp_quiet) (use calculation m(1) in \<open>simp_all add: quiet_def parked_def staged_def\<close>)
      moreover have "err = Some (failure KindReplacementFailed)" "w' = snd (os_remove snap w2)"
        using r 1 \<open>sn = Some snap\<close> 2 Some by (simp_all add: replacePOSIX_def)
      ultimately show ?thesis using unreplaced [OF _ s0 st] c1(1) quiet_trans by metis
    next
      case None
      have l2: "fs_ok w2" "live_view w2 = (live_view w1)(exe := Whole new)"
          "crash_views w2 \<subseteq> insert (live_view w2) (crash_views w1)" and m2: "parked snap m old w2"
        using c2(1) [OF None] c2(3) [OF m] by blast+
      have pv2: "(live_view w2 exe, live_view w2 (PreviousPath exe)) = (Whole new, pv)"
        using shows_live [OF s1] l2(2) previous_differs [of exe] by simp
      have s2: "shows_pairs exe {(Whole old, pv), (Whole new, pv)} w2"
        by (rule shows_insert [OF _ l2(3)]) (use s1 pv2 in \<open>auto simp: shows_pairs_def\<close>)
      obtain e3 w3 where 3: "sync_dir (fst exe) w2 = (e3, w3)" by (cases "sync_dir (fst exe) w2")
      have c3: "quiet w2 w3" "e3 = None \<longrightarrow> settled (fst exe) w3" "parks w2 w3 {}"
        using sync_dir_contract [OF l2(1) 3] by blast+
      have ok3: "fs_ok w3" and m3: "parked snap m old w3" and lv3: "live_view w3 = live_view w2"
        using c3 parksD [OF c3(3) m2] by (simp_all add: quiet_def)
      have s3: "shows_pairs exe {(Whole old, pv), (Whole new, pv)} w3" by (rule shows_quiet [OF s2 c3(1)])
      have run: "run_path rn exe w3 = rn new"
      proof -
        have "live_view w3 exe = Whole new" using pv2 lv3 by simp
        then show ?thesis by (auto dest!: seen_holds simp: holds_def run_path_def)
      qed
      show ?thesis
      proof (cases "e3 = None \<and> valid")
        case False
        then have "restorePOSIX exe snap w3 = (err, w')"
          using r 1 \<open>sn = Some snap\<close> 2 None 3 run by (auto simp: replacePOSIX_def valid_def split: option.splits)
        then show ?thesis by (rule restored [OF ok3 m3 x(1) s3])
      next
        case True
        have s3': "shows_pairs exe {(Whole new, pv)} w3"
          using shows_settled [of exe w3] c3(2) True pv2 lv3 by simp
        obtain e4 w4 where 4: "os_rename snap (PreviousPath exe) w3 = (e4, w4)"
          by (cases "os_rename snap (PreviousPath exe) w3")
        note c4 = rename_contract [OF ok3 m3 x(2) 4]
        show ?thesis
        proof (cases e4)
          case (Some e)
          then have q: "quiet w3 w4" "parked snap m old w4" using c4 by simp_all
          have "err = Some \<lparr>ue_kind = KindIncomplete, ue_paths = [exe, snap, PreviousPath exe]\<rparr>" "w' = w4"
            using r 1 \<open>sn = Some snap\<close> 2 None 3 run True 4 Some by (simp_all add: replacePOSIX_def valid_def)
          moreover have "shows_pairs exe {(Whole new, pv)} w4" by (rule shows_quiet [OF s3' q(1)])
          ultimately show ?thesis using q parked_holds [OF q(2)] True
            by (auto simp: replaced_def put_back_def quiet_def shows_pairs_def)
        next
          case None
          then have l4: "fs_ok w4" "live_view w4 = (live_view w3)(PreviousPath exe := Whole old)"
              "crash_views w4 \<subseteq> insert (live_view w4) (crash_views w3)"
            using c4(1) by blast+
          have pv4: "(live_view w4 exe, live_view w4 (PreviousPath exe)) = (Whole new, Whole old)"
            using l4(2) lv3 pv2 previous_differs [of exe] by simp
          have s4: "shows_pairs exe {(Whole new, pv), (Whole new, Whole old)} w4"
            by (rule shows_insert [OF _ l4(3)]) (use s3' pv4 in \<open>auto simp: shows_pairs_def\<close>)
          obtain e5 w5 where 5: "sync_dir (fst exe) w4 = (e5, w5)" by (cases "sync_dir (fst exe) w4")
          have c5: "quiet w4 w5" "e5 = None \<longrightarrow> settled (fst exe) w5" using sync_dir_contract [OF l4(1) 5] by blast+
          have s5: "shows_pairs exe {(Whole new, pv), (Whole new, Whole old)} w5" by (rule shows_quiet [OF s4 c5(1)])
          have lv5: "(live_view w5 exe, live_view w5 (PreviousPath exe)) = (Whole new, Whole old)"
            using pv4 c5(1) by (simp add: quiet_def)
          have w': "w' = w5" "err = (if e5 = None then None
              else Some \<lparr>ue_kind = KindIncomplete, ue_paths = [exe, PreviousPath exe]\<rparr>)"
            using r 1 \<open>sn = Some snap\<close> 2 \<open>e2 = None\<close> 3 run True 4 None 5
            by (auto simp: replacePOSIX_def valid_def split: option.splits)
          have "holds (PreviousPath exe) old w5" using lv5 by (auto intro: seen_holds)
          moreover have "shows_pairs exe {(Whole new, Whole old)} w5" if "e5 = None"
            using shows_settled [of exe w5] c5(2) that lv5 by simp
          moreover have "fs_ok w5" using c5(1) by (simp add: quiet_def)
          moreover have "shows_pairs exe {(Whole old, pv), (Whole new, pv), (Whole new, Whole old)} w5"
            using s5 by (auto simp: shows_pairs_def)
          ultimately show ?thesis using w' True by (auto simp: replaced_def put_back_def)
        qed
      qed
    qed
  qed
  then show ?thesis by (simp add: pv_def valid_def)
qed

end
