(* ===== verification/UpdateSpec.thy ===== *)
theory UpdateSpec
  imports SelfUpdateSpec
begin

text \<open>
  The contracts of the steps of an upgrade: what the download proves of the bytes, what
  \<^verbatim>\<open>Prepare\<close> leaves beside the binary, and what \<^verbatim>\<open>Install\<close> and the removal of the candidate
  keep.
\<close>

section \<open>The download\<close>

lemma get_body: "get f limit = Inr d \<Longrightarrow> \<exists>n. f = Body d n \<and> n \<le> limit"
  by (auto simp: get_def split: fetch.splits if_splits)

definition is_executable :: "string \<Rightarrow> archive_entry \<Rightarrow> bool" where
  "is_executable expected e \<longleftrightarrow> ae_type e = RegEntry \<and> ae_name e = expected"

lemma scan_entries_found:
  "scan_entries expected es expanded (Some d) = Some x \<Longrightarrow> x = Some d \<and> filter (is_executable expected) es = []"
  by (induction es arbitrary: expanded)
    (auto simp: is_executable_def Let_def split: if_splits entry_type.splits option.splits)

lemma scan_entries_one:
  assumes "scan_entries expected es expanded None = Some (Some d)"
  shows "\<exists>e. filter (is_executable expected) es = [e] \<and> ae_data e = Some d \<and> d \<noteq> [] \<and> length d \<le> MaxExecutableBytes"
  using assms
proof (induction es arbitrary: expanded)
  case (Cons e es)
  show ?case
  proof (cases "is_executable expected e")
    case False
    then have "scan_entries expected es (expanded + nat (ae_size e)) None = Some (Some d)"
      using Cons.prems by (auto simp: is_executable_def Let_def split: if_splits entry_type.splits)
    with Cons.IH False show ?thesis by auto
  next
    case True
    obtain d' where d': "ae_data e = Some d'" "length d' \<le> MaxExecutableBytes" "int (length d') = ae_size e"
        "ae_size e \<noteq> 0" "scan_entries expected es (expanded + nat (ae_size e)) (Some d') = Some (Some d)"
      using Cons.prems True
      by (auto simp: is_executable_def readBounded_def Let_def not_less split: if_splits option.splits)
    then have "d = d' \<and> filter (is_executable expected) es = []" using scan_entries_found [OF d'(5)] by simp
    with d' True show ?thesis by auto
  qed
qed simp

text \<open>
  A binary of a release: it is the one regular file of the executable's name in the archive the
  release source serves for this platform, and the checksum file the source serves lists the
  archive's SHA-256.
\<close>

definition authentic :: "updater \<Rightarrow> version \<Rightarrow> bytes \<Rightarrow> bool" where
  "authentic u v binary \<longleftrightarrow>
     (\<exists>target archive sums n k es e.
        ArtifactFor v (up_goos u) (up_goarch u) = Some target \<and>
        rs_asset (up_source u) (Tag v) (af_archive target) = Body archive n \<and>
        rs_asset (up_source u) (Tag v) ChecksumAssetName = Body sums k \<and>
        checksumFor (up_fields u) sums (af_archive target) = Some (sha256 archive) \<and>
        up_unpack u (af_format target) archive = Entries es True \<and>
        filter (is_executable (af_executable target)) es = [e] \<and> ae_data e = Some binary \<and>
        binary \<noteq> [] \<and> length binary \<le> MaxExecutableBytes)"

lemma artifact_names: "ArtifactFor v goos goarch = Some t \<Longrightarrow> af_archive t \<noteq> ChecksumAssetName"
  by (auto simp: ArtifactFor_def ProjectName_def ChecksumAssetName_def Let_def split: if_splits)

lemma downloaded:
  assumes "download_assets src release (RequiredAssets t) Map.empty = Inr assets" and "af_archive t \<noteq> ChecksumAssetName"
  shows "\<exists>archive sums n k. assets (af_archive t) = Some archive \<and> assets ChecksumAssetName = Some sums \<and>
    rs_asset src (Tag (ri_version release)) (af_archive t) = Body archive n \<and>
    rs_asset src (Tag (ri_version release)) ChecksumAssetName = Body sums k"
  using assms
  by (auto simp: RequiredAssets_def split: if_splits option.splits sum.splits dest!: get_body)

lemma fetch_authentic:
  assumes "fetch_verified u release = Inr binary"
  shows "authentic u (ri_version release) binary"
proof -
  obtain t assets archive where t: "ArtifactFor (ri_version release) (up_goos u) (up_goarch u) = Some t"
      "download_assets (up_source u) release (RequiredAssets t) Map.empty = Inr assets"
      "Verify (up_fields u) (up_ctx u) assets t" "assets (af_archive t) = Some archive"
      "ArchiveExecutable (up_unpack u) archive t = Some binary"
    using assms by (auto simp: fetch_verified_def split: option.splits sum.splits if_splits)
  obtain sums n k where d: "assets ChecksumAssetName = Some sums"
      "rs_asset (up_source u) (Tag (ri_version release)) (af_archive t) = Body archive n"
      "rs_asset (up_source u) (Tag (ri_version release)) ChecksumAssetName = Body sums k"
    using downloaded [OF t(2) artifact_names [OF t(1)]] t(4) by auto
  have c: "checksumFor (up_fields u) sums (af_archive t) = Some (sha256 archive)"
    using t(3,4) d(1) by (auto simp: Verify_def split: if_splits option.splits)
  obtain es where e: "up_unpack u (af_format t) archive = Entries es True"
      "scan_entries (af_executable t) es 0 None = Some (Some binary)"
    using t(5) by (auto simp: ArchiveExecutable_def executableFrom_def split: if_splits archive_view.splits option.splits)
  show ?thesis unfolding authentic_def using t(1) d(2,3) c e(1) scan_entries_one [OF e(2)] by blast
qed

section \<open>Preparation\<close>

definition ready_to_install ::
    "updater \<Rightarrow> path \<Rightarrow> string \<Rightarrow> version option \<Rightarrow> prepared \<Rightarrow> path \<Rightarrow> bytes \<Rightarrow> uworld \<Rightarrow> bool" where
  "ready_to_install u exe build requested p cand binary w \<longleftrightarrow>
     fst cand = fst exe \<and> (\<exists>n. parked cand n binary w) \<and> requested \<in> {None, Some (pr_to p)} \<and>
     ParseVersion build = Some (pr_from p) \<and> pr_from p < pr_to p \<and> authentic u (pr_to p) binary \<and>
     validateCandidate (up_ctx u) (up_check u binary) (pr_to p) = None"

lemma resolve_same_fs:
  assumes "ResolveExecutable p w = (r, w')"
  shows "same_fs w w'"
proof -
  have s: "same_fs v v'" if "os_stat p v = (x, v')" for v v' :: uworld and x
    using that tick_same_fs [of v] by (auto simp: os_stat_def split: prod.splits option.splits)
  obtain e w1 where 1: "os_stat p w = (e, w1)" by (cases "os_stat p w")
  obtain e' w2 where 2: "os_stat p w1 = (e', w2)" by (cases "os_stat p w1")
  have "w' = w1 \<or> w' = w2" using assms 1 2 by (auto simp: ResolveExecutable_def split: option.splits)
  then show ?thesis using s [OF 1] same_fs_trans [OF s [OF 1] s [OF 2]] by blast
qed

lemma run_parked: "parked p n c w \<Longrightarrow> run_path rn p w = rn c"
  by (auto simp: parked_def staged_def ready_def run_path_def)

lemma remove_staged_quiet: "fs_ok w \<Longrightarrow> parked p n c w \<Longrightarrow> quiet w (remove_staged p w)"
  unfolding remove_staged_def by (rule os_remove_temp_quiet) (simp_all add: parked_def staged_def)

lemma release_requested: "source_release src requested = Inr r \<Longrightarrow> requested \<in> {None, Some (ri_version r)}"
  by (auto simp: source_release_def Let_def Compare_eq split: option.splits sum.splits if_splits)

lemma prepare_contract:
  assumes ok: "fs_ok w" and x: "path_ext (snd exe) \<noteq> ''.json''" and p: "Prepare u exe build requested w = (r, w')"
  shows "quiet w w' \<and>
    (\<forall>pr cand. r = Inr pr \<and> pr_candidate pr = Some cand \<longrightarrow>
       (\<exists>binary. ready_to_install u exe build requested pr cand binary w'))"
proof -
  obtain rs w1 where 1: "ResolveExecutable exe w = (rs, w1)" by (cases "ResolveExecutable exe w")
  have q0: "quiet w w" using ok by (simp add: quiet_def)
  have q1: "quiet w w1" by (rule same_fs_quiet [OF ok resolve_same_fs [OF 1]])
  then have ok1: "fs_ok w1" by (simp add: quiet_def)
  show ?thesis
  proof (cases "\<exists>current release binary. ParseVersion build = Some current \<and> rs = None \<and>
      source_release (up_source u) requested = Inr release \<and> Compare (ri_version release) current \<noteq> 0 \<and>
      Compare (ri_version release) current \<noteq> -1 \<and> fetch_verified u release = Inr binary \<and> build = version_string current")
    case False
    then have "(w' = w \<or> w' = w1) \<and> (\<forall>pr cand. r = Inr pr \<longrightarrow> pr_candidate pr = None)"
      using p 1 by (auto simp: Prepare_def simp del: Compare_eq Compare_less split: option.splits sum.splits if_splits)
    then show ?thesis using q0 q1 by auto
  next
    case True
    then obtain current release binary where t: "ParseVersion build = Some current" "rs = None"
        "source_release (up_source u) requested = Inr release" "Compare (ri_version release) current \<noteq> 0"
        "Compare (ri_version release) current \<noteq> -1" "fetch_verified u release = Inr binary" "build = version_string current"
      by blast
    have newer: "current < ri_version release" using t(4,5) by (auto simp: Compare_cases split: if_splits)
    obtain c w2 where 2: "StageCandidate exe binary w1 = (c, w2)" by (cases "StageCandidate exe binary w1")
    note sc = stage_contract [OF ok1 x 2]
    have q2: "quiet w w2" using sc q1 quiet_trans by blast
    show ?thesis
    proof (cases c)
      case None
      then have "r = Inl (failure KindStaging)" "w' = w2" using p 1 t 2 by (simp_all add: Prepare_def)
      then show ?thesis using q2 by simp
    next
      case (Some cand)
      then obtain n where n: "fst cand = fst exe" "parked cand n binary w2" using sc by blast
      show ?thesis
      proof (cases "validateCandidate (up_ctx u) (up_check u binary) (ri_version release)")
        case v: (Some e)
        then have "(Inl (failure (candidateFailure KindCandidateInvalid e)), remove_staged cand w2) = (r, w')"
          using p 1 t 2 Some run_parked [OF n(2)] by (simp add: Prepare_def)
        moreover have "quiet w2 (remove_staged cand w2)"
          by (rule remove_staged_quiet [OF _ n(2)]) (use q2 in \<open>simp add: quiet_def\<close>)
        ultimately show ?thesis using q2 quiet_trans by auto
      next
        case None
        then have "w' = w2"
            "r = Inr \<lparr>pr_from = current, pr_to = ri_version release, pr_candidate = Some cand\<rparr>"
          using p 1 t 2 Some run_parked [OF n(2)] by (simp_all add: Prepare_def)
        then show ?thesis
          using q2 n t(1) newer fetch_authentic [OF t(6)] None release_requested [OF t(3)]
          by (auto simp: ready_to_install_def)
      qed
    qed
  qed
qed

section \<open>Installation\<close>

lemma holds_remove:
  assumes "holds q c w" and "q \<noteq> p"
  shows "holds q c (snd (os_remove p w))"
proof -
  obtain e w1 where t: "tick w = (e, w1)" by (cases "tick w")
  have "holds q c w1" using assms(1) same_fs_views(1) [OF tick_same_fs [OF t]] tick_same_fs [OF t]
    by (simp add: holds_def same_fs_def)
  moreover have "snd (os_remove p w) = w1 \<or> snd (os_remove p w) = log_txn [(p, None)] w1"
    using t by (auto simp: os_remove_def split: option.splits)
  moreover have "holds q c (log_txn [(p, None)] w1)"
    using calculation(1) assms(2) by (auto simp: holds_def live_log apply_txn_other)
  ultimately show ?thesis by auto
qed

lemma put_back_after:
  assumes "put_back exe old e w" and "quiet w w'" and "\<And>q. q \<in> set (ue_paths e) \<Longrightarrow> holds q old w \<Longrightarrow> holds q old w'"
  shows "put_back exe old e w'"
proof -
  have "live_view w' = live_view w" "settled (fst exe) w \<Longrightarrow> settled (fst exe) w'"
    using assms(2) quiet_settled [OF assms(2)] by (simp_all add: quiet_def)
  then show ?thesis using assms(1,3) unfolding put_back_def by metis
qed

lemma replaced_after:
  assumes r: "replaced exe old new pv valid err w" and q: "quiet w w'"
    and h: "\<And>e q. err = Some e \<Longrightarrow> q \<in> set (ue_paths e) \<Longrightarrow> holds q old w \<Longrightarrow> holds q old w'"
  shows "replaced exe old new pv valid err w'"
proof -
  have "fs_ok w'" using q by (simp add: quiet_def)
  moreover have "put_back exe old e w'" if "err = Some e" for e
    by (rule put_back_after [OF _ q]) (use r that h in \<open>auto simp: replaced_def\<close>)
  ultimately show ?thesis using r shows_quiet [OF _ q] unfolding replaced_def by blast
qed

lemma discard_contract:
  assumes r: "replaced exe old new pv valid err w" and t: "is_temp cand" and c: "pr_candidate p = Some cand"
  shows "replaced exe old new pv valid err (DiscardAfterInstall p err w)"
proof (cases "errorPreservesPath err cand")
  case True
  then show ?thesis using r c by (simp add: DiscardAfterInstall_def)
next
  case False
  have "fs_ok w" using r by (simp add: replaced_def)
  then have "replaced exe old new pv valid err (snd (os_remove cand w))"
    by (intro replaced_after [OF r os_remove_temp_quiet [OF _ t]] holds_remove)
      (use False in \<open>auto simp: errorPreservesPath_def\<close>)
  then show ?thesis using c False by (simp add: DiscardAfterInstall_def remove_staged_def)
qed

lemma install_contract:
  assumes ok: "fs_ok w" and x: "\<not> is_temp exe" "\<not> is_temp (PreviousPath exe)"
    and st: "settled (fst exe) w" and v: "live_view w exe = Whole old"
    and rd: "ready_to_install u exe build requested p cand new w" and c: "pr_candidate p = Some cand"
    and i: "InstallPrepared u exe p w = (err, w1)"
  shows "replaced exe old new (live_view w (PreviousPath exe))
    (validateCandidate (up_ctx u) (up_installed u new) (pr_to p) = None) err (DiscardAfterInstall p err w1)"
proof -
  obtain n where n: "parked cand n new w" using rd by (auto simp: ready_to_install_def)
  have "replacePOSIX (up_installed u) (up_ctx u) exe cand (pr_to p) w = (err, w1)"
    using i c rd by (simp add: InstallPrepared_def replaceWith_def ready_to_install_def)
  note r = replace_contract [OF ok n x st v this]
  show ?thesis by (rule discard_contract [OF r _ c]) (use n in \<open>simp add: parked_def staged_def\<close>)
qed

section \<open>The upgrade\<close>

text \<open>
  A release this updater may install over the build: newer, the requested one if one was
  requested, verified against the checksum file, and its executable gave the version when the
  staged file was run.
\<close>

definition installable :: "updater \<Rightarrow> string \<Rightarrow> version option \<Rightarrow> version \<Rightarrow> bytes \<Rightarrow> bool" where
  "installable u build requested v new \<longleftrightarrow>
     (\<exists>current. ParseVersion build = Some current \<and> current < v) \<and> requested \<in> {None, Some v} \<and>
     authentic u v new \<and> validateCandidate (up_ctx u) (up_check u new) v = None"

lemma ready_installable:
  "ready_to_install u exe build requested p cand new w \<Longrightarrow> installable u build requested (pr_to p) new"
  by (auto simp: ready_to_install_def installable_def)

lemma upgrade_cases:
  assumes "upgrade u exe build requested w = (r, w')" and "Prepare u exe build requested w = (a, w1)"
  obtains "w' = w1" and "\<And>v. r \<noteq> Inr (Some v)" and "\<And>p. a = Inr p \<Longrightarrow> pr_candidate p = None"
  | p cand err w2 where "a = Inr p" and "pr_candidate p = Some cand" and "InstallPrepared u exe p w1 = (err, w2)"
    and "w' = DiscardAfterInstall p err w2" and "r = (case err of Some e \<Rightarrow> Inl e | None \<Rightarrow> Inr (Some (pr_to p)))"
proof (cases "\<exists>p cand. a = Inr p \<and> pr_candidate p = Some cand")
  case True
  then obtain p cand where p: "a = Inr p" "pr_candidate p = Some cand" by blast
  obtain err w2 where i: "InstallPrepared u exe p w1 = (err, w2)" by (cases "InstallPrepared u exe p w1")
  show thesis using that(2) [OF p i] assms p i by (simp add: upgrade_def)
next
  case False
  then show thesis using assms
    by (intro that(1)) (auto simp: upgrade_def split: sum.splits if_splits prod.splits)
qed

end
