(* ===== verification/UpdateSafety.thy ===== *)
theory UpdateSafety
  imports UpdateSpec
begin

text \<open>
  The two properties of the upgrade: what the replacement leaves on the disk at every crash
  point, and what an upgrade has verified before anything is installed.  A small release on a
  small disk serves their witnesses.
\<close>

section \<open>A release and a disk\<close>

definition demo_exe :: path where "demo_exe = (''d'', ''dropin-miner'')"

definition demo_candidate :: path where "demo_candidate = (''d'', ''.dropin-miner.candidate-1'')"

definition demo_start :: uworld where
  "demo_start =
     \<lparr>w_nodes = (\<lambda>_. \<lparr>in_data = Some ''a'', in_synced = True, in_mode = 493\<rparr>), w_next = 1, w_dirs = [''d''],
      w_disk = [(demo_exe, 0)], w_journal = [], w_plan = [], w_dead = False\<rparr>"

definition demo_world :: uworld where
  "demo_world = demo_start
     \<lparr>w_nodes := (w_nodes demo_start)(1 := \<lparr>in_data = Some ''b'', in_synced = True, in_mode = 493\<rparr>),
      w_next := 2, w_disk := [(demo_exe, 0), (demo_candidate, 1)]\<rparr>"

definition demo_runner :: runner where
  "demo_runner c =
     (let a = (if c = ''b'' then RunOutput (''dropin-miner 1.2.3'' @ [CHR 0x0A]) [] else RunFailed) in (a, a))"

lemma demo_names [simp]:
  "is_temp demo_candidate" "\<not> is_temp demo_exe" "\<not> is_temp (PreviousPath demo_exe)"
  "fst demo_candidate = ''d''" "fst demo_exe = ''d''" "demo_candidate \<noteq> demo_exe" "demo_exe \<noteq> demo_candidate"
  by (code_simp; simp)+

lemma demo_views: "prefix_maps demo_world = {map_of [(demo_exe, 0), (demo_candidate, 1)]}"
  by (simp add: prefix_maps_def demo_world_def demo_start_def)

lemma demo_parked: "parked demo_candidate 1 ''b'' demo_world"
  unfolding parked_def staged_def ready_def private_node_def demo_views
  by (auto simp: live_def demo_world_def demo_start_def split: if_splits)

lemma demo_ok: "fs_ok demo_world"
  by (auto simp: fs_ok_def demo_views good_map_def) (auto simp: demo_world_def demo_start_def split: if_splits)

lemma demo_settled: "settled d demo_world"
  unfolding settled_def crash_views_def demo_views live_view_def by (simp add: live_def demo_world_def demo_start_def)

lemma demo_old: "live_view demo_world demo_exe = Whole ''a''"
  by (simp add: live_view_def view_of_def live_def) (simp add: demo_world_def demo_start_def node_seen_def)

lemma demo_number: "dec_digits (Suc 0) = ''1''" "dec_digits 2 = ''2''" "dec_digits 3 = ''3''"
  by code_simp+

lemma demo_version: "version_string (Version 1 2 3) = ''1.2.3''"
  by (simp add: version_string_def demo_number format_uint_def)

lemma demo_answer: "candidateVersionOnce (RunOutput (''dropin-miner 1.2.3'' @ [CHR 0x0A]) []) = Inr (Version 1 2 3)"
proof -
  have "ParseVersion ''1.2.3'' = Some (Version 1 2 3)"
    using parse_version_string [OF disjI1, OF refl, of "Version 1 2 3"] by (simp add: demo_version)
  then show ?thesis by (simp add: candidateVersionOnce_def ProjectName_def demo_version Let_def suffix_def)
qed

lemma demo_valid: "validateCandidate False (demo_runner ''b'') (Version 1 2 3) = None"
  using demo_answer by (simp add: validateCandidate_def candidateVersion_def demo_runner_def Compare_eq Let_def)

lemmas os_defs = os_lookup_def os_create_temp_as_def os_chmod_def os_write_def os_sync_file_def os_close_def
  os_remove_def os_rename_def os_open_def os_sync_dir_def sync_dir_def SyncDirectory_def syncDirectory_def
  fill_staged_def run_path_def tick_def set_node_def log_txn_def live_def commit_dir_def touches_def

lemma demo_snapshot: "durableSnapshot demo_exe demo_world = (Some (''d'', ''.dropin-miner.snapshot-2''),
    demo_world\<lparr>w_nodes := (w_nodes demo_world)(2 := \<lparr>in_data = Some ''a'', in_synced = True, in_mode = 493\<rparr>),
      w_next := 3, w_disk := w_disk demo_world @ [((''d'', ''.dropin-miner.snapshot-2''), 2)]\<rparr>)"
  by (simp add: durableSnapshot_def os_defs demo_world_def demo_start_def demo_exe_def demo_candidate_def MaxExecutableBytes_def demo_number Let_def)

lemma demo_installs: "fst (replaceWith demo_runner False demo_exe demo_candidate (Version 1 2 3) demo_world) = None"
  using demo_valid
  by (simp add: replaceWith_def replacePOSIX_def demo_snapshot)
    (simp add: os_defs demo_world_def demo_start_def demo_exe_def demo_candidate_def PreviousPath_def)

definition demo_archive :: string where "demo_archive = ''dropin-miner_1.2.3_linux_amd64.tar.gz''"

definition demo_sums :: bytes where
  "demo_sums = hex_encode (sha256 []) @ ''  '' @ demo_archive @ [CHR 0x0A]"

definition demo_updater :: updater where
  "demo_updater =
     \<lparr>up_source =
        \<lparr>rs_meta = (\<lambda>_. Body (Some \<lparr>rp_tag = ''v1.2.3'', rp_draft = False, rp_prerelease = False,
           rp_assets = [(demo_archive, 1), (''checksums.txt'', 1)]\<rparr>) 1),
         rs_asset = (\<lambda>_ name. if name = ''checksums.txt'' then Body demo_sums 1 else Body [] 1)\<rparr>,
      up_fields = (\<lambda>_. []),
      up_unpack = (\<lambda>_ _. Entries [\<lparr>ae_name = ''dropin-miner'', ae_size = 1, ae_type = RegEntry, ae_data = Some ''b''\<rparr>] True),
      up_goos = ''linux'', up_goarch = ''amd64'', up_check = demo_runner, up_installed = demo_runner, up_ctx = False\<rparr>"

definition demo_release :: release_info where
  "demo_release = \<lparr>ri_version = Version 1 2 3, ri_assets = [''checksums.txt'' \<mapsto> 1, demo_archive \<mapsto> 1]\<rparr>"

lemma demo_stages: "StageCandidate demo_exe ''b'' demo_start = (Some demo_candidate, demo_world)"
  by (simp add: StageCandidate_def os_defs demo_start_def demo_world_def demo_exe_def demo_candidate_def
      demo_number Let_def path_ext_def bit_iff_odd)

text \<open>What a checksum file says of an artifact in the usual form of its lines.\<close>

lemma ascii_fields_free:
  "list_all (\<lambda>c. \<not> ascii_space c) s \<Longrightarrow> ascii_fields cur (s @ r) = ascii_fields (cur @ s) r"
  by (induction s arbitrary: cur) simp_all

lemma hex_char: "is_hex_lower c \<Longrightarrow> \<not> ascii_space c \<and> b2n c < 128 \<and> c \<noteq> CHR 0x0A"
  by (auto simp: is_hex_lower_def is_digit_def ascii_space_def)

lemma hex_line: "list_all (\<lambda>c. \<not> ascii_space c) (hex_encode d)" "is_ascii (hex_encode d)" "CHR 0x0A \<notin> set (hex_encode d)"
  using hex_encode_lower [of d] hex_char by (auto simp: is_ascii_def list_all_iff)

lemma checksum_line_reads:
  assumes "length d = 32" and "safeAssetName name" and "is_ascii name" and "list_all (\<lambda>c. \<not> ascii_space c) name"
  shows "checksum_line uf (hex_encode d @ ''  '' @ name) = Some (name, d)"
proof -
  have "is_ascii (hex_encode d @ ''  '' @ name)" using hex_line(2) [of d] assms(3) by (simp add: is_ascii_def)
  moreover have "hex_encode d \<noteq> []" using hex_encode_length [of d] assms(1) by force
  moreover have "name \<noteq> []" using assms(2) by (simp add: safeAssetName_def)
  ultimately have "Fields uf (hex_encode d @ ''  '' @ name) = [hex_encode d, name]"
    using ascii_fields_free [OF hex_line(1) [of d], of "[]" "''  '' @ name"] ascii_fields_free [OF assms(4), of "[]" "[]"]
    by (simp add: Fields_def ascii_space_def)
  then show ?thesis using assms(1,2) by (simp add: checksum_line_def hex_decode_encode)
qed

lemma demo_sum: "checksumFor (\<lambda>_. []) demo_sums demo_archive = Some (sha256 [])"
proof -
  let ?l = "hex_encode (sha256 []) @ ''  '' @ demo_archive"
  have n: "is_ascii demo_archive" "list_all (\<lambda>c. \<not> ascii_space c) demo_archive" "CHR 0x0A \<notin> set demo_archive"
    "safeAssetName demo_archive" "demo_archive \<noteq> []" "last demo_archive = CHR ''z''"
    by code_simp+
  have "CHR 0x0A \<notin> set ?l" using n(3) hex_line(3) by simp
  then have "split_on CHR 0x0A demo_sums = [?l, []]"
    using split_on_append [of "CHR 0x0A" ?l "[]"] by (simp add: demo_sums_def)
  moreover have "trim_cr ?l = ?l" using n(5,6) by (simp add: trim_cr_def)
  ultimately show ?thesis
    using checksum_line_reads [OF sha256_length n(4,1,2)] by (simp add: checksumFor_def trim_cr_def)
qed

lemma demo_safe: "safeAssetName demo_archive" "safeAssetName ''checksums.txt''" "demo_archive \<noteq> ''checksums.txt''"
    "safeArchivePath ''dropin-miner''"
  by code_simp+

lemma demo_meta: "source_release (up_source demo_updater) None = Inr demo_release"
proof -
  have "ParseReleaseTag ''v1.2.3'' = Some (Version 1 2 3)"
    using parse_version_string [OF disjI2, OF refl, of "Version 1 2 3"]
    by (simp add: ParseReleaseTag_def Tag_def demo_version)
  then show ?thesis using demo_safe
    by (simp add: source_release_def demo_updater_def get_def MaxReleaseJSONBytes_def demo_release_def fun_upd_twist)
qed

lemma demo_target: "ArtifactFor (Version 1 2 3) ''linux'' ''amd64'' =
    Some \<lparr>af_archive = demo_archive, af_executable = ''dropin-miner'', af_format = TarGz\<rparr>"
  by (simp add: ArtifactFor_def ProjectName_def demo_version demo_archive_def)

lemma demo_fields [simp]:
  "up_goos demo_updater = ''linux''" "up_goarch demo_updater = ''amd64''" "up_ctx demo_updater = False"
  "up_check demo_updater = demo_runner" "up_installed demo_updater = demo_runner"
  "up_fields demo_updater = (\<lambda>_. [])" "ri_version demo_release = Version 1 2 3"
  by (simp_all add: demo_updater_def demo_release_def)

lemma demo_fetch: "fetch_verified demo_updater demo_release = Inr ''b''"
proof -
  define t where "t = \<lparr>af_archive = demo_archive, af_executable = ''dropin-miner'', af_format = TarGz\<rparr>"
  have d: "download_assets (up_source demo_updater) demo_release (RequiredAssets t) Map.empty =
      Inr [demo_archive \<mapsto> [], ''checksums.txt'' \<mapsto> demo_sums]"
    using demo_safe
    by (simp add: RequiredAssets_def ChecksumAssetName_def t_def)
      (simp add: demo_updater_def demo_release_def get_def MaxArchiveBytes_def MaxChecksumBytes_def)
  have x: "ArchiveExecutable (up_unpack demo_updater) [] t = Some ''b''"
    using demo_safe(4)
    by (simp add: ArchiveExecutable_def demo_updater_def executableFrom_def readBounded_def Let_def
        MaxExecutableBytes_def MaxExpandedBytes_def t_def)
  have v: "Verify (\<lambda>_. []) False [demo_archive \<mapsto> [], ''checksums.txt'' \<mapsto> demo_sums] t"
    using demo_sum demo_safe(3) by (simp add: Verify_def ChecksumAssetName_def t_def)
  have "af_archive t = demo_archive" by (simp add: t_def)
  then show ?thesis
    using demo_target [folded t_def] d x v demo_safe(3) by (simp add: fetch_verified_def)
qed

lemma demo_start_facts: "fs_ok demo_start" "settled d demo_start" "live_view demo_start demo_exe = Whole ''a''"
proof -
  have p: "prefix_maps demo_start = {map_of [(demo_exe, 0)]}" by (simp add: prefix_maps_def demo_start_def)
  show "fs_ok demo_start" by (auto simp: fs_ok_def p good_map_def) (auto simp: demo_start_def split: if_splits)
  show "settled d demo_start"
    unfolding settled_def crash_views_def p live_view_def by (simp add: live_def demo_start_def)
  show "live_view demo_start demo_exe = Whole ''a''"
    by (simp add: live_view_def view_of_def live_def) (simp add: demo_start_def node_seen_def)
qed

lemma demo_prepare: "Prepare demo_updater demo_exe ''1.2.2'' None demo_start =
    (Inr \<lparr>pr_from = Version 1 2 2, pr_to = Version 1 2 3, pr_candidate = Some demo_candidate\<rparr>, demo_world)"
proof -
  have s: "version_string (Version 1 2 2) = ''1.2.2''" by (simp add: version_string_def demo_number format_uint_def)
  have v: "ParseVersion ''1.2.2'' = Some (Version 1 2 2)"
    using parse_version_string [OF disjI1, OF refl, of "Version 1 2 2"] by (simp add: s)
  have r: "ResolveExecutable demo_exe demo_start = (None, demo_start)"
    by (simp add: ResolveExecutable_def os_stat_def tick_def live_def demo_start_def)
  have c: "Compare (Version 1 2 3) (Version 1 2 2) = 1" by (simp add: Compare_def)
  show ?thesis
    using demo_valid run_parked [OF demo_parked, of demo_runner]
    by (simp add: Prepare_def v s r demo_meta c demo_fetch demo_stages)
qed

lemma demo_upgrades: "fst (upgrade demo_updater demo_exe ''1.2.2'' None demo_start) = Inr (Some (Version 1 2 3))"
  using demo_installs by (simp add: upgrade_def demo_prepare InstallPrepared_def Let_def)
    (cases "replaceWith demo_runner False demo_exe demo_candidate (Version 1 2 3) demo_world", simp)

section \<open>The properties\<close>

text \<open>
  C34.
  A replacement of the installed binary, for every sequence of failures and every crash point:
  a crash shows the old binary with the old backup, or the new binary with the old backup, or
  the new binary with the old one as its backup.  Success means that the new binary, run from
  its installed place, gave the target version and that it and its backup are durable.  A plain
  failure leaves the old binary in place, durably; the other two failures name a file that
  holds the old binary.
\<close>

theorem install_crash_safe:
  assumes "fs_ok w" and "parked cand n new w" and "\<not> is_temp exe" and "\<not> is_temp (PreviousPath exe)"
    and "settled (fst exe) w" and "live_view w exe = Whole old" and "fst cand = fst exe"
    and "replaceWith rn ctx exe cand target w = (err, w')"
  shows "(\<forall>v \<in> crash_views w'. (v exe, v (PreviousPath exe)) \<in>
       {(Whole old, live_view w (PreviousPath exe)), (Whole new, live_view w (PreviousPath exe)), (Whole new, Whole old)}) \<and>
    (err = None \<longrightarrow> validateCandidate ctx (rn new) target = None \<and>
       (\<forall>v \<in> crash_views w'. v exe = Whole new \<and> v (PreviousPath exe) = Whole old)) \<and>
    (\<forall>e. err = Some e \<longrightarrow>
       (ue_kind e = KindReplacementFailed \<and>
          (\<forall>v \<in> crash_views w'. v exe = Whole old \<and> v (PreviousPath exe) = live_view w (PreviousPath exe))) \<or>
       (ue_kind e \<in> {KindIncomplete, KindManualIntervention} \<and>
          (\<exists>q \<in> set (ue_paths e). \<exists>k. map_of (live w') q = Some k \<and> in_data (w_nodes w' k) = Some old)))"
proof -
  have "replacePOSIX rn ctx exe cand target w = (err, w')" using assms(7,8) by (simp add: replaceWith_def)
  from replace_contract [OF assms(1-6) this] show ?thesis
    unfolding replaced_def put_back_def holds_def shows_pairs_def by blast
qed

lemma install_crash_safe_witness:
  "crash_views (snd (replaceWith demo_runner False demo_exe demo_candidate (Version 1 2 3) demo_world))
     \<subseteq> {v. v demo_exe = Whole ''b'' \<and> v (PreviousPath demo_exe) = Whole ''a''}"
  using install_crash_safe [OF demo_ok demo_parked demo_names(2,3) demo_settled demo_old _ surjective_pairing,
      of demo_runner False "Version 1 2 3"] demo_installs
  by auto

text \<open>
  C35.
  An upgrade of the installed binary, for every release source, every sequence of failures and
  every crash point.  It answers with a version only if that version is newer than the build
  and the one requested, its archive has the SHA-256 that the release's checksum file lists and
  holds one executable, which gave the version both staged and installed; then the new binary
  and the old one as its backup are durable.  When it answers that nothing is to be done,
  nothing changed.  Whatever it answers, no crash shows anything but the old binary or an
  installable one in place.
\<close>

theorem upgrade_verified:
  assumes "fs_ok w" and "path_ext (snd exe) \<noteq> ''.json''" and "\<not> is_temp exe" and "\<not> is_temp (PreviousPath exe)"
    and "settled (fst exe) w" and "live_view w exe = Whole old"
    and "upgrade u exe build requested w = (r, w')"
  shows "(\<forall>v. r = Inr (Some v) \<longrightarrow>
       (\<exists>new. installable u build requested v new \<and>
          validateCandidate (up_ctx u) (up_installed u new) v = None \<and>
          (\<forall>view \<in> crash_views w'. view exe = Whole new \<and> view (PreviousPath exe) = Whole old))) \<and>
    (r = Inr None \<longrightarrow> live_view w' = live_view w \<and> crash_views w' \<subseteq> crash_views w) \<and>
    (\<forall>view \<in> crash_views w'. view exe = Whole old \<or>
       (\<exists>v new. installable u build requested v new \<and> view exe = Whole new))"
proof -
  obtain a w1 where p: "Prepare u exe build requested w = (a, w1)" by (cases "Prepare u exe build requested w")
  note c = prepare_contract [OF assms(1,2) p]
  have old: "view exe = Whole old" if "view \<in> crash_views w1" for view
    using that c settledD [OF assms(5), of view] assms(6) by (auto simp: quiet_def)
  show ?thesis using assms(7) p
  proof (rule upgrade_cases)
    assume "w' = w1" and "\<And>v. r \<noteq> Inr (Some v)"
    then show ?thesis using c old by (auto simp: quiet_def)
  next
    fix pr cand err w2
    assume h: "a = Inr pr" "pr_candidate pr = Some cand" "InstallPrepared u exe pr w1 = (err, w2)"
      "w' = DiscardAfterInstall pr err w2" "r = (case err of Some e \<Rightarrow> Inl e | None \<Rightarrow> Inr (Some (pr_to pr)))"
    then obtain new where n: "ready_to_install u exe build requested pr cand new w1" using c by blast
    have w1: "fs_ok w1" "settled (fst exe) w1" "live_view w1 exe = Whole old"
      using c assms(6) quiet_settled [OF _ assms(5)] by (auto simp: quiet_def)
    note i = install_contract [OF w1(1) assms(3,4) w1(2,3) n h(2,3)]
    have r: "r = Inr (Some v) \<Longrightarrow> v = pr_to pr \<and> err = None" "r \<noteq> Inr None" for v
      using h(5) by (simp_all split: option.splits)
    show ?thesis
      using i r ready_installable [OF n] unfolding h(4) replaced_def shows_pairs_def by blast
  qed
qed

lemma upgrade_verified_witness:
  "\<exists>new. installable demo_updater ''1.2.2'' None (Version 1 2 3) new \<and>
     crash_views (snd (upgrade demo_updater demo_exe ''1.2.2'' None demo_start))
       \<subseteq> {v. v demo_exe = Whole new \<and> v (PreviousPath demo_exe) = Whole ''a''}"
proof -
  have "path_ext (snd demo_exe) \<noteq> ''.json''" by (simp add: demo_exe_def path_ext_def)
  from upgrade_verified [OF demo_start_facts(1) this demo_names(2,3) demo_start_facts(2,3) surjective_pairing,
      of demo_updater "''1.2.2''" None] demo_upgrades
  obtain new where new: "installable demo_updater ''1.2.2'' None (Version 1 2 3) new"
      "\<forall>v \<in> crash_views (snd (upgrade demo_updater demo_exe ''1.2.2'' None demo_start)).
         v demo_exe = Whole new \<and> v (PreviousPath demo_exe) = Whole ''a''"
    by blast
  show ?thesis by (rule exI [of _ new], rule conjI [OF new(1)], rule subsetI) (use new(2) in simp)
qed

end
