(* ===== verification/Intake.thy ===== *)
theory Intake
  imports Promote Collector
begin

text \<open>
  The way of an observation from a served search to the spool: the intake directory
  (\<^verbatim>\<open>cmd/dropin-miner/miner.go\<close>) and its promotion (\<^verbatim>\<open>promoteIntake\<close> of \<^verbatim>\<open>flush.go\<close>).  The intake
  and the spool may lie on different file systems, so each is a world of its own, with its own
  failures and crashes.  The random bytes of a minted identity and the readings of the clock are
  arguments; \<open>None\<close> in place of random bytes is a failing source.
\<close>

section \<open>Intake records\<close>

record intake_record =
  ir_client_record_id :: string
  ir_v :: int
  ir_request_id :: string
  ir_host :: string
  ir_status_code :: int
  ir_started_at :: go_time
  ir_finished_at :: go_time
  ir_chosen_provider :: string

text \<open>A file of the intake: a record, or bytes that do not unmarshal into one.\<close>

datatype intake_content = Intake intake_record | NoIntake

type_synonym iworld = "intake_content world"

definition intakeVersion :: int where "intakeVersion = 1"

definition intake_observation :: "intake_record \<Rightarrow> observation" where
  "intake_observation r =
     (new_observation [] ProfileSearchRouter (ir_status_code r) (ir_started_at r) False)
       \<lparr>ob_generation_id := ir_request_id r, ob_resolved_model := ir_chosen_provider r,
        ob_finished_at := ir_finished_at r, ob_saw_done := True, ob_outcome := Complete TerminationDone\<rparr>"

text \<open>\<^verbatim>\<open>json.Marshal\<close> of an intake record: what the file will unmarshal to.\<close>

definition marshal_intake :: "intake_record \<Rightarrow> intake_content option" where
  "marshal_intake r =
     (if 10000 \<le> t_year (ir_started_at r) \<or> 10000 \<le> t_year (ir_finished_at r) then None
      else Some (Intake (r\<lparr>ir_client_record_id := json_text (ir_client_record_id r),
                           ir_request_id := json_text (ir_request_id r), ir_host := json_text (ir_host r),
                           ir_chosen_provider := json_text (ir_chosen_provider r)\<rparr>)))"

datatype intake_error =
    InNoRequestID
  | InMint
  | InEncode
  | InOS os_error
  | InStage stage_error
  | InBuild promote_error
  | InEnqueue writer_error

definition mint :: "(bytes \<times> nat) option \<Rightarrow> string option" where
  "mint m = map_option (\<lambda>(rnd, ms). NewClientRecordID rnd ms) m"

text \<open>\<^verbatim>\<open>%020d\<close> of a number of nanoseconds.\<close>

definition pad20 :: "int \<Rightarrow> string" where
  "pad20 n =
     (let d = dec_digits (nat \<bar>n\<bar>); sign = (if n < 0 then ''-'' else [])
      in sign @ replicate (20 - length sign - length d) CHR ''0'' @ d)"

definition writeIntake ::
    "string \<Rightarrow> intake_record \<Rightarrow> (bytes \<times> nat) option \<Rightarrow> int \<Rightarrow> string \<Rightarrow> iworld \<Rightarrow> (intake_error + path) \<times> iworld" where
  "writeIntake dir rec m nanos sfx w =
     (if ir_request_id rec = [] then (Inl InNoRequestID, w)
      else
     (case (if ir_client_record_id rec = [] then mint m else Some (ir_client_record_id rec)) of
        None \<Rightarrow> (Inl InMint, w)
      | Some i \<Rightarrow>
     (case os_mkdir_all dir w of
        (Some e, w) \<Rightarrow> (Inl (InOS e), w)
      | (None, w) \<Rightarrow>
     (case marshal_intake (rec\<lparr>ir_client_record_id := i, ir_v := intakeVersion\<rparr>) of
        None \<Rightarrow> (Inl InEncode, w)
      | Some data \<Rightarrow>
          let name = pad20 nanos @ ''-'' @ sfx @ ''.json'' in
          (case WriteFileAtomic dir name data 384 w of
             (Some e, w) \<Rightarrow> (Inl (InStage e), w)
           | (None, w) \<Rightarrow> (Inr (dir, name), w))))))"

fun read_intake_files :: "string \<Rightarrow> string list \<Rightarrow> iworld \<Rightarrow> ((path \<times> intake_record) list \<times> path list) \<times> iworld" where
  "read_intake_files dir [] w = (([], []), w)"
| "read_intake_files dir (n # ns) w =
     (case os_read_file (dir, n) w of (res, w) \<Rightarrow>
        (case read_intake_files dir ns w of ((recs, bad), w) \<Rightarrow>
           (case res of
              Inr (Some (Intake r)) \<Rightarrow>
                if ir_v r \<noteq> intakeVersion \<or> ir_request_id r = [] then ((recs, (dir, n) # bad), w)
                else ((((dir, n), r) # recs, bad), w)
            | _ \<Rightarrow> ((recs, (dir, n) # bad), w))))"

definition readIntake ::
    "string \<Rightarrow> iworld \<Rightarrow> ((path \<times> intake_record) list \<times> path list \<times> intake_error option) \<times> iworld" where
  "readIntake dir w =
     (case os_read_dir dir w of
        (Inl e, w) \<Rightarrow> (([], [], if e = ErrNotExist then None else Some (InOS e)), w)
      | (Inr entries, w) \<Rightarrow>
          (case read_intake_files dir (sort (filter (suffix ''.json'') entries)) w of
             ((recs, bad), w) \<Rightarrow> ((recs, bad, None), w)))"

section \<open>The wire record as JSON\<close>

text \<open>\<^verbatim>\<open>json.Marshal\<close> of a \<^verbatim>\<open>ProviderObservationV1\<close>, as the value it decodes to.\<close>

fun source_json :: "source_value \<Rightarrow> json option" where
  "source_json (SStr s) = Some (JStr (json_text s))"
| "source_json (SFloat t) = map_option JNum t"
| "source_json (SBool b) = Some (JBool b)"
| "source_json SNil = Some JNull"
| "source_json SOther = None"

fun members_json :: "(string \<times> source_value) list \<Rightarrow> (string \<times> json) list option" where
  "members_json [] = Some []"
| "members_json ((k, v) # kvs) =
     (case (source_json v, members_json kvs) of
        (Some j, Some r) \<Rightarrow> Some ((json_text k, j) # r)
      | _ \<Rightarrow> None)"

definition text_member :: "string \<Rightarrow> string \<Rightarrow> (string \<times> json) list" where
  "text_member k s = (if s = [] then [] else [(k, JStr (json_text s))])"

definition map_member :: "string \<Rightarrow> (string \<times> json) list \<Rightarrow> (string \<times> json) list" where
  "map_member k ms = (if ms = [] then [] else [(k, JObj ms)])"

definition int_text :: "int \<Rightarrow> string" where
  "int_text n = (if n < 0 then ''-'' else []) @ dec_digits (nat \<bar>n\<bar>)"

definition usage_json :: "usage_v1 \<Rightarrow> json" where
  "usage_json u =
     JObj (text_member ''cached_tokens'' (u_cached_tokens u) @ text_member ''completion_tokens'' (u_completion_tokens u) @
           text_member ''cost'' (u_cost u) @ text_member ''prompt_tokens'' (u_prompt_tokens u) @
           text_member ''reasoning_tokens'' (u_reasoning_tokens u) @ text_member ''total_tokens'' (u_total_tokens u))"

definition outcome_json :: "outcome_v1 \<Rightarrow> json" where
  "outcome_json oc =
     JObj (text_member ''reason'' (oc_reason oc) @ text_member ''termination'' (oc_termination oc) @
           [(''type'', JStr (json_text (oc_type oc)))])"

definition observation_json :: "provider_observation \<Rightarrow> json option" where
  "observation_json po =
     (case (members_json (sort_key fst (po_request_parameters po)),
            members_json (sort_key fst (case po_source_data po of None \<Rightarrow> [] | Some kvs \<Rightarrow> kvs))) of
        (Some params, Some source) \<Rightarrow>
          Some (JObj
            ([(''client_record_id'', JStr (json_text (po_client_record_id po)))] @
             text_member ''finish_reason'' (po_finish_reason po) @
             text_member ''finished_at'' (po_finished_at po) @
             [(''metadata_conflict'', JBool (po_metadata_conflict po)),
              (''outcome'', outcome_json (po_outcome po)),
              (''parse_degraded'', JBool (po_parse_degraded po))] @
             text_member ''provider_event_id'' (po_provider_event_id po) @
             map_member ''request_parameters'' params @
             text_member ''requested_model'' (po_requested_model po) @
             text_member ''resolved_model'' (po_resolved_model po) @
             [(''saw_done'', JBool (po_saw_done po)), (''saw_finish_reason'', JBool (po_saw_finish_reason po)),
              (''saw_usage'', JBool (po_saw_usage po))] @
             map_member ''source_data'' source @
             [(''source_profile'', JStr (json_text (po_source_profile po)))] @
             text_member ''started_at'' (po_started_at po) @
             (if po_status_code po = 0 then [] else [(''status_code'', JNum (int_text (po_status_code po)))]) @
             [(''streaming'', JBool (po_streaming po))] @
             (case po_usage po of None \<Rightarrow> [] | Some u \<Rightarrow> [(''usage'', usage_json u)]) @
             [(''version'', JStr (json_text (po_version po)))]))
      | _ \<Rightarrow> None)"

section \<open>Promotion\<close>

text \<open>
  The part of the loop body that gives the record its identity: the record with an identity, or
  the error.
\<close>

definition assign_id :: "(bytes \<times> nat) option \<Rightarrow> path \<Rightarrow> intake_record \<Rightarrow> iworld \<Rightarrow> (intake_error + intake_record) \<times> iworld" where
  "assign_id m p r w =
     (if ir_client_record_id r \<noteq> [] then (Inr r, w)
      else (case mint m of
              None \<Rightarrow> (Inl InMint, w)
            | Some i \<Rightarrow>
                let r = r\<lparr>ir_client_record_id := i\<rparr> in
                (case marshal_intake r of
                   None \<Rightarrow> (Inl InEncode, w)
                 | Some data \<Rightarrow>
                     (case WriteFileAtomic (fst p) (snd p) data 384 w of
                        (Some e, w) \<Rightarrow> (Inl (InStage e), w)
                      | (None, w) \<Rightarrow> (Inr r, w)))))"

text \<open>The loop body after it: the error, or whether the record counts as promoted.\<close>

definition promote_record ::
    "string \<Rightarrow> 64 word \<Rightarrow> 64 word \<Rightarrow> int \<Rightarrow> path \<Rightarrow> intake_record \<Rightarrow> iworld \<Rightarrow> cstate \<Rightarrow>
     intake_error option \<times> iworld \<times> cstate" where
  "promote_record dir slotID epoch now p r w s =
     (case SyncDirectory dir w of (syncErr, w) \<Rightarrow>
        if syncErr \<noteq> None \<and> syncErr \<noteq> Some ErrDirectorySyncUnsupported then (map_option InOS syncErr, w, s)
        else
     (case Build (Some (intake_observation r)) (ir_client_record_id r) of
        Inl e \<Rightarrow> (Some (InBuild e), w, s)
      | Inr rec \<Rightarrow>
     (case writer_enqueue slotID epoch (observation_json rec) now False s of
        (Inl e, s) \<Rightarrow> (Some (InEnqueue e), w, s)
      | (Inr i, s) \<Rightarrow> (case os_remove p w of (err, w) \<Rightarrow> (map_option InOS err, w, s)))))"

definition promote_file ::
    "string \<Rightarrow> 64 word \<Rightarrow> 64 word \<Rightarrow> (bytes \<times> nat) option \<times> int \<Rightarrow> path \<times> intake_record \<Rightarrow> iworld \<Rightarrow> cstate \<Rightarrow>
     (intake_error option \<times> bool) \<times> iworld \<times> cstate" where
  "promote_file dir slotID epoch inp f w s =
     (if \<not> Eligible (Some (intake_observation (snd f)))
      then (case os_remove (fst f) w of (err, w) \<Rightarrow> ((map_option InOS err, False), w, s))
      else (case assign_id (fst inp) (fst f) (snd f) w of
              (Inl e, w) \<Rightarrow> ((Some e, False), w, s)
            | (Inr r, w) \<Rightarrow>
                (case promote_record dir slotID epoch (snd inp) (fst f) r w s of
                   (err, w, s) \<Rightarrow> ((err, err = None), w, s))))"

text \<open>The random bytes and the clock of each turn; they do not run out while the code runs.\<close>

fun promote_files ::
    "string \<Rightarrow> 64 word \<Rightarrow> 64 word \<Rightarrow> ((bytes \<times> nat) option \<times> int) list \<Rightarrow> (path \<times> intake_record) list \<Rightarrow> iworld \<Rightarrow> cstate \<Rightarrow>
     (intake_error list \<times> nat) \<times> iworld \<times> cstate" where
  "promote_files dir slotID epoch inps [] w s = (([], 0), w, s)"
| "promote_files dir slotID epoch inps (f # fs) w s =
     (case promote_file dir slotID epoch (case inps of [] \<Rightarrow> (None, 0) | i # _ \<Rightarrow> i) f w s of
        ((err, counted), w, s) \<Rightarrow>
          (case promote_files dir slotID epoch (tl inps) fs w s of
             ((errs, n), w, s) \<Rightarrow>
               (((case err of None \<Rightarrow> errs | Some e \<Rightarrow> e # errs), (if counted then n + 1 else n)), w, s)))"

text \<open>The counts of promoted and unreadable files, and the errors that are joined.\<close>

definition promoteIntake ::
    "string \<Rightarrow> 64 word \<Rightarrow> 64 word \<Rightarrow> ((bytes \<times> nat) option \<times> int) list \<Rightarrow> iworld \<Rightarrow> cstate \<Rightarrow>
     (nat \<times> nat \<times> intake_error list) \<times> iworld \<times> cstate" where
  "promoteIntake dir slotID epoch inps w s =
     (case readIntake dir w of
        ((recs, bad, Some e), w) \<Rightarrow> ((0, length bad, [e]), w, s)
      | ((recs, bad, None), w) \<Rightarrow>
          (case promote_files dir slotID epoch inps recs w s of
             ((errs, n), w, s) \<Rightarrow> ((n, length bad, errs), w, s)))"

end
