(* ===== verification/Flush.thy ===== *)
theory Flush
  imports Intake
begin

text \<open>
  One pass of \<^verbatim>\<open>dropin-miner flush\<close> (\<^verbatim>\<open>cmd/dropin-miner/flush.go\<close>) after its target is known, and
  the set of conflicted epochs it consults (\<^verbatim>\<open>pkg/auth/store.go\<close>): epochs that another
  installation of the participant holds.  The state directory is a third world.
\<close>

section \<open>State files\<close>

datatype state_content = Conflicts "(64 word \<times> 64 word) list" | OtherState

type_synonym stworld = "state_content world"

datatype store_error = StOS os_error | StAccessible | StDecode | StStage stage_error

text \<open>\<^verbatim>\<open>readSecret\<close>: a regular file its owner alone may access.\<close>

definition readSecret :: "string \<Rightarrow> string \<Rightarrow> 'c world \<Rightarrow> (store_error + 'c option) \<times> 'c world" where
  "readSecret dir name w =
     (case tick w of
        (Some e, w) \<Rightarrow> (Inl (StOS e), w)
      | (None, w) \<Rightarrow>
     (case map_of (live w) (dir, name) of
        None \<Rightarrow> (Inl (StOS ErrNotExist), w)
      | Some n \<Rightarrow>
          if in_mode (w_nodes w n) mod 64 \<noteq> 0 then (Inl StAccessible, w)
          else (case os_read_file (dir, name) w of
                  (Inl e, w) \<Rightarrow> (Inl (StOS e), w)
                | (Inr raw, w) \<Rightarrow> (Inr raw, w))))"

definition saveStateFile :: "string \<Rightarrow> string \<Rightarrow> 'c \<Rightarrow> 'c world \<Rightarrow> stage_error option \<times> 'c world" where
  "saveStateFile dir name data w = WriteFileAtomic dir name data 384 w"

section \<open>Conflicted epochs\<close>

type_synonym conflict = "64 word \<times> 64 word"

definition maxEpochConflicts :: nat where "maxEpochConflicts = 64"

definition saveEpochConflicts :: "string \<Rightarrow> conflict list \<Rightarrow> stworld \<Rightarrow> store_error option \<times> stworld" where
  "saveEpochConflicts dir cs w =
     (case saveStateFile dir ''epoch_conflicts.json'' (Conflicts cs) w of (err, w) \<Rightarrow> (map_option StStage err, w))"

definition loadEpochConflicts :: "string \<Rightarrow> stworld \<Rightarrow> (store_error + conflict list) \<times> stworld" where
  "loadEpochConflicts dir w =
     (case readSecret dir ''epoch_conflicts.json'' w of
        (Inl e, w) \<Rightarrow> (if e = StOS ErrNotExist then Inr [] else Inl e, w)
      | (Inr (Some (Conflicts cs)), w) \<Rightarrow> (Inr cs, w)
      | (Inr _, w) \<Rightarrow> (Inl StDecode, w))"

definition SaveEpochConflict :: "string \<Rightarrow> 64 word \<Rightarrow> 64 word \<Rightarrow> stworld \<Rightarrow> store_error option \<times> stworld" where
  "SaveEpochConflict dir slotID targetEpoch w =
     (case loadEpochConflicts dir w of
        (Inl e, w) \<Rightarrow> (Some e, w)
      | (Inr cs, w) \<Rightarrow>
          if (slotID, targetEpoch) \<in> set cs then (None, w)
          else (let cs = cs @ [(slotID, targetEpoch)];
                    cs = (if maxEpochConflicts < length cs then drop (length cs - maxEpochConflicts) cs else cs)
                in saveEpochConflicts dir cs w))"

definition PruneEpochConflictsForOtherSlots :: "string \<Rightarrow> 64 word \<Rightarrow> stworld \<Rightarrow> store_error option \<times> stworld" where
  "PruneEpochConflictsForOtherSlots dir currentSlotID w =
     (case loadEpochConflicts dir w of
        (Inl e, w) \<Rightarrow> (Some e, w)
      | (Inr cs, w) \<Rightarrow>
          (let kept = filter (\<lambda>c. fst c = currentSlotID) cs
           in if length kept = length cs then (None, w) else saveEpochConflicts dir kept w))"

definition RemoveEpochConflicts :: "string \<Rightarrow> conflict list \<Rightarrow> stworld \<Rightarrow> store_error option \<times> stworld" where
  "RemoveEpochConflicts dir done' w =
     (if done' = [] then (None, w)
      else (case loadEpochConflicts dir w of
              (Inl e, w) \<Rightarrow> (Some e, w)
            | (Inr cs, w) \<Rightarrow> saveEpochConflicts dir (filter (\<lambda>c. c \<notin> set done') cs) w))"

section \<open>Dropping what can no longer be delivered\<close>

definition due_conflicts :: "64 word \<Rightarrow> 64 word \<Rightarrow> conflict list \<Rightarrow> conflict list" where
  "due_conflicts slotID currentTarget cs = filter (\<lambda>c. fst c = slotID \<and> snd c < currentTarget) cs"

fun drop_records :: "conflict list \<Rightarrow> srecord list \<Rightarrow> spool \<Rightarrow> sworld \<Rightarrow> nat \<times> spool \<times> sworld" where
  "drop_records due [] sp w = (0, sp, w)"
| "drop_records due (rec # recs) sp w =
     (if (sr_slot rec, sr_epoch rec) \<notin> set due then drop_records due recs sp w
      else (case Remove rec sp w of
              (err, sp, w) \<Rightarrow>
                (case drop_records due recs sp w of
                   (n, sp, w) \<Rightarrow> (if err = None then n + 1 else n, sp, w))))"

definition dropConflictedObservationsPastTarget ::
    "string \<Rightarrow> string \<Rightarrow> 64 word \<Rightarrow> 64 word \<Rightarrow> stworld \<Rightarrow> sworld \<Rightarrow> nat \<times> stworld \<times> sworld" where
  "dropConflictedObservationsPastTarget stateDir spoolDir slotID currentTarget st w =
     (case PruneEpochConflictsForOtherSlots stateDir slotID st of (_, st) \<Rightarrow>
     (case loadEpochConflicts stateDir st of
        (Inl e, st) \<Rightarrow> (0, st, w)
      | (Inr cs, st) \<Rightarrow>
          let due = due_conflicts slotID currentTarget cs in
          if due = [] then (0, st, w)
          else (case spool_open spoolDir w of
                  (Inl e, w) \<Rightarrow> (0, st, w)
                | (Inr sp, w) \<Rightarrow>
                    (case Pending sp w of
                       (Inl e, sp, w) \<Rightarrow> (0, st, w)
                     | (Inr pending, sp, w) \<Rightarrow>
                         (case drop_records due pending sp w of
                            (dropped, sp, w) \<Rightarrow>
                              (case RemoveEpochConflicts stateDir due st of (err, st) \<Rightarrow> (dropped, st, w)))))))"

section \<open>Promotion and delivery\<close>

definition productionMaxAttempts :: "int \<Rightarrow> int" where
  "productionMaxAttempts configured = (if configured = 0 then DefaultMaxAttempts else configured)"

definition flush_options :: "int \<Rightarrow> (string \<Rightarrow> string) \<Rightarrow> coptions" where
  "flush_options configured redact =
     \<lparr>op_interval = 3600000000000, op_base_backoff = 0, op_max_backoff = 0,
      op_max_attempts = productionMaxAttempts configured, op_redact = redact\<rparr>"

text \<open>The collector of a pass starts on the spool as promotion left it.\<close>

definition deliver_pass :: "coptions \<Rightarrow> cstate \<Rightarrow> cstate" where
  "deliver_pass opts s = drain (New (cs_spool s) (cs_world s) opts (cs_env s))"

definition flush_pass ::
    "string \<Rightarrow> 64 word \<Rightarrow> 64 word \<Rightarrow> coptions \<Rightarrow> ((bytes \<times> nat) option \<times> int) list \<Rightarrow> iworld \<Rightarrow> cstate \<Rightarrow>
     (nat \<times> nat \<times> intake_error list) \<times> iworld \<times> cstate" where
  "flush_pass intakeDir slotID epoch opts inps w s =
     (case promoteIntake intakeDir slotID epoch inps w s of
        (res, w, s) \<Rightarrow> (res, w, deliver_pass opts s))"

section \<open>Health\<close>

datatype health_reason = HealthSubmissionFailed | HealthSpoolBacklog | OtherReason string

datatype health_change = Mark health_reason | ClearRecord | Keep

text \<open>
  \<^verbatim>\<open>updateFlushDeliveryHealth\<close>: the record to write, from the health of the collector, the
  counts of the spool before and after, and the record of an earlier run; the texts are left out.
\<close>

definition updateFlushDeliveryHealth :: "health \<Rightarrow> int \<Rightarrow> int \<Rightarrow> int \<Rightarrow> health_reason option \<Rightarrow> health_change" where
  "updateFlushDeliveryHealth h before after delivered previous =
     (let unresolved = (previous = Some HealthSubmissionFailed \<or> previous = Some HealthSpoolBacklog) in
      if 0 < hl_terminal_failures h then Mark HealthSubmissionFailed
      else if 0 < hl_local_removal_failures h then Mark HealthSpoolBacklog
      else if hl_storage_error h \<noteq> None \<and> hl_submission_failures h = 0 then Mark HealthSpoolBacklog
      else if 0 < hl_consecutive_failures h \<or> 0 < hl_submission_failures h
      then Mark (if unresolved \<and> 0 < after then HealthSpoolBacklog else HealthSubmissionFailed)
      else if 0 < hl_retry_backlog h then Mark HealthSpoolBacklog
      else if 0 < hl_cleanup_recovered h then ClearRecord
      else if 0 < before \<and> after = before then (if unresolved then Mark HealthSpoolBacklog else Keep)
      else if 0 < delivered then ClearRecord
      else Keep)"

end
