(* ===== verification/IntakeSpec.thy ===== *)
theory IntakeSpec
  imports Intake CollectorSpec
begin

text \<open>
  The promotion of the intake, step by step: what each call changes on the two file systems, and
  that an observation is in the intake or in the custody of the spool at every crash point, under
  one identity.
\<close>

section \<open>Identities\<close>

lemma minted_id:
  assumes "mint (Some (rnd, ms)) = Some i" and "length rnd = 16"
  shows "utf8_valid i \<and> length i = 36"
proof -
  have h: "list_all (\<lambda>c. b2n c < 128) (hex_encode (uuid_bytes rnd ms))"
    using hex_encode_lower [of "uuid_bytes rnd ms"] by (auto simp: list_all_iff is_hex_lower_def is_digit_def)
  have l: "length (hex_encode (uuid_bytes rnd ms)) = 32"
    using assms(2) by (simp add: uuid_bytes_def Let_def)
  have i: "i = NewClientRecordID rnd ms" using assms(1) by (simp add: mint_def)
  have "list_all (\<lambda>c. b2n c < 128) i"
    using h by (auto simp: i NewClientRecordID_def Let_def list_all_iff dest: in_set_takeD in_set_dropD)
  moreover have "length i = 36" using l by (simp add: i NewClientRecordID_def Let_def)
  ultimately show ?thesis using utf8_valid_ascii by blast
qed

section \<open>Steps that touch one file\<close>

definition only :: "path \<Rightarrow> 'c world \<Rightarrow> 'c world \<Rightarrow> bool" where
  "only p w w' \<longleftrightarrow> fs_ok w' \<and> (\<forall>q. q \<noteq> p \<longrightarrow> live_view w' q = live_view w q) \<and>
     (\<forall>v \<in> crash_views w'. \<exists>u \<in> crash_views w. \<forall>q. q \<noteq> p \<longrightarrow> v q = u q)"

lemma onlyI:
  assumes "fs_ok w'" and "\<And>q. q \<noteq> p \<Longrightarrow> live_view w' q = live_view w q"
    and "crash_views w' \<subseteq> insert (live_view w') (crash_views w)"
  shows "only p w w'"
  unfolding only_def
proof (intro conjI ballI)
  fix v assume "v \<in> crash_views w'"
  then consider "v = live_view w'" | "v \<in> crash_views w" using assms(3) by blast
  then show "\<exists>u \<in> crash_views w. \<forall>q. q \<noteq> p \<longrightarrow> v q = u q"
    using live_view_in_crash_views [of w] assms(2) by cases blast+
qed (use assms in blast)+

lemma quiet_only: "quiet w w' \<Longrightarrow> only p w w'"
  by (rule onlyI) (auto simp: quiet_def)

lemma only_trans:
  assumes "only p u v" and "only p v w"
  shows "only p u w"
  unfolding only_def
proof (intro conjI ballI)
  show "fs_ok w" using assms by (simp add: only_def)
  show "\<forall>q. q \<noteq> p \<longrightarrow> live_view w q = live_view u q" using assms unfolding only_def by metis
  fix x assume "x \<in> crash_views w"
  then obtain y where y: "y \<in> crash_views v" "\<forall>q. q \<noteq> p \<longrightarrow> x q = y q" using assms(2) unfolding only_def by blast
  then obtain z where "z \<in> crash_views u" "\<forall>q. q \<noteq> p \<longrightarrow> y q = z q" using assms(1) unfolding only_def by blast
  then show "\<exists>z \<in> crash_views u. \<forall>q. q \<noteq> p \<longrightarrow> x q = z q" using y(2) by metis
qed

lemma only_live: "only p w w' \<Longrightarrow> q \<noteq> p \<Longrightarrow> live_view w' q = live_view w q"
  unfolding only_def by blast

lemma only_crash: "only p w w' \<Longrightarrow> q \<noteq> p \<Longrightarrow> v \<in> crash_views w' \<Longrightarrow> \<exists>u \<in> crash_views w. v q = u q"
  unfolding only_def by blast

lemma changes_replace:
  assumes "changes {d} (replaces p c) err w w'"
  shows "quiet w w' \<and> err \<noteq> None \<or>
    only p w w' \<and> live_view w' p = Whole c \<and> (\<forall>v \<in> crash_views w'. v p = Whole c \<or> v \<in> crash_views w)"
proof (cases "se_is_published err")
  case False
  then show ?thesis using assms by (auto simp: changes_def se_is_published_def split: option.splits)
next
  case True
  then have l: "fs_ok w'" "live_view w' = replaces p c (live_view w)" "crash_views w' \<subseteq> insert (live_view w') (crash_views w)"
    using assms unfolding changes_def if_P [OF True] by blast+
  have "only p w w'" by (rule onlyI [OF l(1) _ l(3)]) (simp add: l(2) replaces_def)
  moreover have "live_view w' p = Whole c" by (simp add: l(2) replaces_def)
  ultimately show ?thesis using l(3) by auto
qed

lemma remove_file_contract:
  assumes ok: "fs_ok w" and p: "\<not> is_temp p" and r: "os_remove p w = (err, w')"
  shows "only p w w' \<and> (\<forall>v \<in> crash_views w'. v p = Absent \<or> (\<exists>u \<in> crash_views w. v p = u p)) \<and>
    (live_view w' p = live_view w p \<or> live_view w' p = Absent) \<and> (err = None \<longrightarrow> live_view w' p = Absent)"
proof -
  obtain e w1 where t: "tick w = (e, w1)" by (cases "tick w")
  have q: "quiet w w1" by (rule tick_quiet [OF ok t])
  then have ok1: "fs_ok w1" by (simp add: quiet_def)
  have "w' = w1 \<and> err \<noteq> None \<or> w' = log_txn [(p, None)] w1 \<and> err = None"
    using r t by (auto simp: os_remove_def split: option.splits if_splits)
  then show ?thesis
  proof
    assume "w' = w1 \<and> err \<noteq> None"
    then show ?thesis using quiet_only [OF q, of p] q unfolding quiet_def by auto
  next
    assume w': "w' = log_txn [(p, None)] w1 \<and> err = None"
    have l: "fs_ok w'" "live_view w' = drops p (live_view w1)" "crash_views w' \<subseteq> insert (live_view w') (crash_views w1)"
      using log_drop [OF ok1 p] w' by auto
    have "only p w1 w'" by (rule onlyI [OF l(1) _ l(3)]) (simp add: l(2) drops_def)
    then have "only p w w'" by (rule only_trans [OF quiet_only [OF q]])
    moreover have "live_view w' p = Absent" by (simp add: l(2) drops_def)
    ultimately show ?thesis using l(3) q unfolding quiet_def by auto
  qed
qed

section \<open>The spool\<close>

definition clean_queue :: "spool \<Rightarrow> sworld \<Rightarrow> bool" where
  "clean_queue sp w \<longleftrightarrow> (\<forall>n. json_file n \<and> live_view w (sp_dir sp, n) \<noteq> Absent \<longrightarrow>
     (\<exists>j. readable (live_view w (sp_dir sp, n)) j))"

definition quarantine_durable :: "spool \<Rightarrow> sworld \<Rightarrow> bool" where
  "quarantine_durable sp w \<longleftrightarrow> (\<forall>i n. find_loc i sp = Some (Quar n) \<longrightarrow> (\<exists>e. custody sp w i e))"

definition queue_ok :: "cstate \<Rightarrow> bool" where
  "queue_ok s \<longleftrightarrow> spool_ok (cs_spool s) (cs_world s) \<and> clean_queue (cs_spool s) (cs_world s) \<and>
     quarantine_durable (cs_spool s) (cs_world s)"

lemma clean_no_junk: "clean_queue sp w \<Longrightarrow> no_junk_for i sp w"
  by (simp add: clean_queue_def no_junk_for_def)

text \<open>What \<^verbatim>\<open>Enqueue\<close> does to the index and to the files a program sees.\<close>

lemma enqueue_effect:
  assumes ok: "fs_ok w" "index_ok sp (live_view w)" and id: "utf8_valid (sr_id rec)" "sr_id rec \<noteq> []"
    and e: "Enqueue rec now sp w = (err, sp', w')"
  shows "(sp' = sp \<and> live_view w' = live_view w \<or>
     (\<exists>n r. sp' = set_loc (sr_id rec) (Active n) sp \<and> sr_id r = sr_id rec \<and>
        live_view w' = (live_view w)((sp_dir sp, n) := Whole (Rec r))))"
proof (cases "(sr_id rec = [] \<or> list_ex (\<lambda>c. c = CHR ''/'' \<or> c = CHR 0x5C) (sr_id rec)) \<or> sp_locs sp = None")
  case True
  then show ?thesis using e by (auto simp: Enqueue_def split: if_splits)
next
  case g: False
  show ?thesis
  proof (cases "find_loc (sr_id rec) sp")
    case (Some l)
    obtain res w1 where r: "sp_read sp l w = (res, w1)" by (metis surj_pair)
    have q1: "quiet w w1" using sp_read_contract [OF ok(1) soundD(1) [OF ok(2) Some] r] by blast
    obtain se w2 where s: "syncDir sp w1 = (se, w2)" by (metis surj_pair)
    have q2: "quiet w1 w2" using syncDir_quiet [OF _ s] q1 by (simp add: quiet_def)
    have "sp' = sp \<and> (w' = w1 \<or> w' = w2)"
      using e g Some r s by (auto simp: Enqueue_def split: sum.splits if_splits)
    then show ?thesis using q1 q2 by (auto simp: quiet_def)
  next
    case None
    define rec' where "rec' = (if sr_spooled_at rec = go_zero_time then rec\<lparr>sr_spooled_at := now\<rparr> else rec)"
    have f: "sr_id rec' = sr_id rec" "filename rec' = filename rec" by (simp_all add: rec'_def filename_def)
    have g': "\<not> (sr_id rec = [] \<or> list_ex (\<lambda>c. c = CHR ''/'' \<or> c = CHR 0x5C) (sr_id rec))" "\<not> sp_locs sp = None"
      using g by blast+
    have p: "persist rec' (Active (filename rec)) True sp w = (err, sp', w')"
      using e f(2) by (simp only: Enqueue_def g' None if_False option.case Let_def rec'_def)
    show ?thesis
    proof (cases "marshal_record rec'")
      case None
      then show ?thesis using p by (simp add: persist_def)
    next
      case (Some c)
      obtain r where r: "c = Rec r" "sr_id r = sr_id rec'" by (rule marshal_record_fields [OF Some]) (use id f in auto)
      obtain we w1 where wf: "writeFile (sp_dir sp) (filename rec) (Rec r) 384 True w = (we, w1)" by (metis surj_pair)
      have res: "w' = w1" "sp' = (if se_is_published we then set_loc (sr_id rec) (Active (filename rec)) sp else sp)"
        using p Some r wf f by (auto simp: persist_def WriteFileExclusive_def)
      have nt: "\<not> is_temp (sp_dir sp, filename rec)"
        using json_file_not_temp [of "Active (filename rec)" sp] filename_json by simp
      have ch: "changes {sp_dir sp} (replaces (sp_dir sp, filename rec) (Rec r)) we w w1"
        using writeFile_contract [OF ok(1) nt wf] by blast
      show ?thesis
      proof (cases "se_is_published we")
        case False
        then have "live_view w' = live_view w" "sp' = sp" using ch res by (simp_all add: changes_def quiet_def)
        then show ?thesis by simp
      next
        case True
        then have l: "live_view w' = (live_view w)((sp_dir sp, filename rec) := Whole (Rec r))"
          using ch res by (simp add: changes_def replaces_def)
        have sp': "sp' = set_loc (sr_id rec) (Active (filename rec)) sp" using True res by simp
        show ?thesis
          by (rule disjI2, rule exI [of _ "filename rec"], rule exI [of _ r]) (use l sp' r(2) f(1) in simp)
      qed
    qed
  qed
qed

lemma enqueue_queue_ok:
  assumes sp: "spool_ok sp w" and cl: "clean_queue sp w" and qd: "quarantine_durable sp w"
    and id: "utf8_valid (sr_id rec)" "length (sr_id rec) = 36" and rm: "\<not> sr_removal rec"
    and e: "Enqueue rec now sp w = (err, sp', w')"
  shows "keeps {} {} sp w sp' w' \<and> clean_queue sp' w' \<and> quarantine_durable sp' w'"
proof -
  have k: "keeps {} {} sp w sp' w'" by (rule Enqueue_keeps [OF sp id clean_no_junk [OF cl] rm e])
  have c: "\<And>i e. custody sp w i e \<Longrightarrow> custody sp' w' i e" using k by (simp add: keeps_def)
  have io: "fs_ok w" "index_ok sp (live_view w)" using sp by (simp_all add: spool_ok_def)
  have ne: "sr_id rec \<noteq> []" using id(2) by auto
  have some: "sp_locs sp \<noteq> None" using io(2) by (simp add: index_ok_def)
  from enqueue_effect [OF io id(1) ne e] show ?thesis
  proof
    assume "sp' = sp \<and> live_view w' = live_view w"
    then have "clean_queue sp' w'" "sp' = sp" using cl by (simp_all add: clean_queue_def)
    moreover from this have "quarantine_durable sp' w'" using qd c unfolding quarantine_durable_def by metis
    ultimately show ?thesis using k by simp
  next
    assume "\<exists>n r. sp' = set_loc (sr_id rec) (Active n) sp \<and> sr_id r = sr_id rec \<and>
        live_view w' = (live_view w)((sp_dir sp, n) := Whole (Rec r))"
    then obtain n r where n: "sp' = set_loc (sr_id rec) (Active n) sp" "sr_id r = sr_id rec"
        "live_view w' = (live_view w)((sp_dir sp, n) := Whole (Rec r))" by blast
    have "clean_queue sp' w'" using cl n ne unfolding clean_queue_def by (auto simp: readable_def)
    moreover have "quarantine_durable sp' w'"
      using qd c find_set_loc [OF some] by (fastforce simp: quarantine_durable_def n(1) split: if_splits)
    ultimately show ?thesis using k by simp
  qed
qed

section \<open>One file of the intake\<close>

text \<open>An intake record as the program reads it: its texts are valid, its identity one of ours.\<close>

definition intake_wf :: "intake_record \<Rightarrow> bool" where
  "intake_wf r \<longleftrightarrow> utf8_valid (ir_client_record_id r) \<and> utf8_valid (ir_request_id r) \<and> utf8_valid (ir_host r) \<and>
     utf8_valid (ir_chosen_provider r) \<and> (ir_client_record_id r = [] \<or> length (ir_client_record_id r) = 36)"

text \<open>The same observation, perhaps with an identity it did not have before.\<close>

definition identified :: "intake_record \<Rightarrow> intake_record \<Rightarrow> bool" where
  "identified r r' \<longleftrightarrow> r' = r \<or> ir_client_record_id r = [] \<and> r' = r\<lparr>ir_client_record_id := ir_client_record_id r'\<rparr>"

lemma identified_refl [simp]: "identified r r"
  by (simp add: identified_def)

text \<open>A program reads the record \<open>r\<close>, and a crash shows it or one of \<open>X\<close>.\<close>

definition kept :: "iworld \<Rightarrow> path \<Rightarrow> intake_content seen set \<Rightarrow> intake_record \<Rightarrow> bool" where
  "kept w p X r \<longleftrightarrow> live_view w p = Whole (Intake r) \<and> (\<forall>v \<in> crash_views w. v p \<in> insert (Whole (Intake r)) X)"

lemma kept_UNIV: "live_view w p = Whole (Intake r) \<Longrightarrow> kept w p UNIV r"
  by (simp add: kept_def)

lemma kept_mono: "kept w p X r \<Longrightarrow> X \<subseteq> Y \<Longrightarrow> kept w p Y r"
  by (auto simp: kept_def)

lemma kept_quiet: "kept w p X r \<Longrightarrow> quiet w w' \<Longrightarrow> kept w' p X r"
  by (auto simp: kept_def quiet_def)

lemma kept_only:
  assumes "kept w p X r" and "only q w w'" and "p \<noteq> q"
  shows "kept w' p X r"
  using assms only_live [OF assms(2,3)] only_crash [OF assms(2,3)] unfolding kept_def by metis

text \<open>A sync of the directory makes what the program reads durable.\<close>

lemma kept_settled: "kept w p X r \<Longrightarrow> settled (fst p) w \<Longrightarrow> kept w p {} r"
  using settledD by (fastforce simp: kept_def)

lemma marshal_intake_wf:
  assumes "intake_wf r" and "marshal_intake r = Some c"
  shows "c = Intake r"
  using assms by (cases r) (auto simp: marshal_intake_def intake_wf_def json_text_valid split: if_splits)

lemma sync_intake:
  assumes "fs_ok w" and "SyncDirectory d w = (e, w')" and "e = None \<or> e = Some ErrDirectorySyncUnsupported"
  shows "quiet w w' \<and> settled d w'"
proof -
  have s: "syncDirectory d w = (e, w')" using assms(2) by (simp add: SyncDirectory_def)
  have "e \<noteq> Some ErrDirectorySyncUnsupported"
    using s by (auto simp: syncDirectory_def os_open_def os_sync_dir_def os_close_def
        dest: tick_not_directory split: prod.splits option.splits if_splits)
  then show ?thesis using syncDirectory_contract [OF assms(1) s] assms(3) by auto
qed

definition good_input :: "(bytes \<times> nat) option \<times> int \<Rightarrow> bool" where
  "good_input inp \<longleftrightarrow> (case fst inp of None \<Rightarrow> True | Some (rnd, ms) \<Rightarrow> length rnd = 16)"

lemma assign_id_contract:
  assumes ok: "fs_ok w" and p: "\<not> is_temp p" and k: "kept w p X r" and wf: "intake_wf r" and g: "good_input inp"
    and a: "assign_id (fst inp) p r w = (res, w')"
  shows "only p w w' \<and> (\<exists>r'. identified r r' \<and> kept w' p (insert (Whole (Intake r)) X) r' \<and> intake_wf r' \<and>
    (\<forall>x. res = Inr x \<longrightarrow> x = r' \<and> ir_client_record_id x \<noteq> []))"
proof (cases "ir_client_record_id r = [] \<and> (\<exists>i c. mint (fst inp) = Some i \<and> marshal_intake (r\<lparr>ir_client_record_id := i\<rparr>) = Some c)")
  case False
  then have "w' = w" "\<And>x. res = Inr x \<Longrightarrow> x = r \<and> ir_client_record_id x \<noteq> []"
    using a by (auto simp: assign_id_def Let_def split: if_splits option.splits)
  moreover have "only p w w" by (rule quiet_only) (use ok in \<open>simp add: quiet_def\<close>)
  moreover have "kept w p (insert (Whole (Intake r)) X) r" by (rule kept_mono [OF k]) blast
  ultimately show ?thesis using wf identified_refl by blast
next
  case True
  then obtain i c where i: "ir_client_record_id r = []" "mint (fst inp) = Some i"
      "marshal_intake (r\<lparr>ir_client_record_id := i\<rparr>) = Some c" by blast
  define r1 where "r1 = r\<lparr>ir_client_record_id := i\<rparr>"
  have i36: "utf8_valid i \<and> length i = 36"
    using i(2) g minted_id by (auto simp: good_input_def mint_def split: option.splits prod.splits)
  have wf1: "intake_wf r1" using wf i36 by (simp add: intake_wf_def r1_def)
  have c: "c = Intake r1" using marshal_intake_wf [OF wf1] i(3) by (simp add: r1_def)
  have ne: "ir_client_record_id r1 \<noteq> []" using i36 by (auto simp: r1_def)
  obtain e w1 where f: "writeFile (fst p) (snd p) (Intake r1) 384 False w = (e, w1)" by (metis surj_pair)
  have res: "w' = w1" "res = (case e of None \<Rightarrow> Inr r1 | Some e \<Rightarrow> Inl (InStage e))"
    using a i f c by (auto simp: assign_id_def WriteFileAtomic_def r1_def split: option.splits)
  have "changes {fst p} (replaces p (Intake r1)) e w w1" using writeFile_contract [OF ok _ f] p by simp
  from changes_replace [OF this] show ?thesis
  proof
    assume "quiet w w1 \<and> e \<noteq> None"
    then have q: "quiet w w1" "\<exists>x. res = Inl x" using res(2) by auto
    have "kept w1 p (insert (Whole (Intake r)) X) r" by (rule kept_mono [OF kept_quiet [OF k q(1)]]) blast
    then show ?thesis using quiet_only [OF q(1)] q(2) wf res(1) identified_refl by blast
  next
    assume h: "only p w w1 \<and> live_view w1 p = Whole (Intake r1) \<and>
      (\<forall>v \<in> crash_views w1. v p = Whole (Intake r1) \<or> v \<in> crash_views w)"
    then have "\<forall>v \<in> crash_views w1. v p \<in> insert (Whole (Intake r1)) (insert (Whole (Intake r)) X)"
      using k unfolding kept_def by blast
    then have "kept w1 p (insert (Whole (Intake r)) X) r1" using h by (simp add: kept_def)
    moreover have "identified r r1" using i(1) by (simp add: identified_def r1_def)
    moreover have "x = r1" if "res = Inr x" for x using that res(2) by (simp split: option.splits)
    ultimately show ?thesis using h wf1 ne res(1) by blast
  qed
qed

section \<open>The promotion of one record\<close>

text \<open>The evidence of an intake record: the JSON value of the record it is promoted to.\<close>

definition evidence :: "intake_record \<Rightarrow> json option" where
  "evidence r =
     (case Build (Some (intake_observation r)) (ir_client_record_id r) of
        Inl e \<Rightarrow> None
      | Inr rec \<Rightarrow> observation_json rec)"

text \<open>Promoted: in the custody of the spool under the identity any remaining file has.\<close>

definition promoted :: "iworld \<Rightarrow> path \<Rightarrow> intake_record \<Rightarrow> cstate \<Rightarrow> bool" where
  "promoted w p r s \<longleftrightarrow>
     (\<exists>e. evidence r = Some e \<and> custody (cs_spool s) (cs_world s) (ir_client_record_id r) e) \<and>
     (\<forall>v \<in> crash_views w. v p \<in> {Absent, Whole (Intake r)})"

lemma build_id: "Build obs i = Inr rec \<Longrightarrow> po_client_record_id rec = i"
  by (auto simp: Build_def promoted_record_def Let_def split: if_splits option.splits)

lemma observation_json_id:
  "observation_json rec = Some j \<Longrightarrow> json_field ''client_record_id'' j = Some (JStr (json_text (po_client_record_id rec)))"
  by (auto simp: observation_json_def json_field_def split: option.splits prod.splits)

text \<open>Custody as the spool keeps it from one state of the collector to a later one.\<close>

definition spool_grows :: "cstate \<Rightarrow> cstate \<Rightarrow> bool" where
  "spool_grows s s' \<longleftrightarrow> queue_ok s' \<and>
     (\<forall>i e. custody (cs_spool s) (cs_world s) i e \<longrightarrow> custody (cs_spool s') (cs_world s') i e) \<and>
     (\<forall>A. marks_in A (cs_world s) \<longrightarrow> marks_in A (cs_world s')) \<and> ev_log (cs_env s') = ev_log (cs_env s)"

lemma spool_grows_refl: "queue_ok s \<Longrightarrow> spool_grows s s"
  by (simp add: spool_grows_def)

lemma spool_grows_trans: "spool_grows s t \<Longrightarrow> spool_grows t u \<Longrightarrow> spool_grows s u"
  by (simp add: spool_grows_def)

lemma quarantined_replay:
  assumes sp: "spool_ok sp w" and qd: "quarantine_durable sp w" and f: "find_loc (sr_id rec) sp = Some (Quar n)"
    and k: "keeps {} {} sp w sp' w'" and e: "Enqueue rec now sp w = (None, sp', w')"
  shows "\<exists>ev. sr_obs rec = Some ev \<and> custody sp' w' (sr_id rec) ev"
proof -
  have io: "fs_ok w" "index_ok sp (live_view w)" using sp by (simp_all add: spool_ok_def)
  note s = soundD [OF io(2) f]
  obtain res w1 where r: "sp_read sp (Quar n) w = (res, w1)" by (metis surj_pair)
  obtain x where x: "res = Inr x" "sameEvidence (sr_obs x) (sr_obs rec)"
    using e f r by (auto simp: Enqueue_def split: if_splits sum.splits)
  have lv: "live_view w (loc_path sp (Quar n)) = Whole (Rec x)" "sr_id x \<noteq> []"
    using sp_read_contract [OF io(1) s(1) r] x(1) by blast+
  then have idx: "sr_id x = sr_id rec" using s(4) by (auto simp: readable_def)
  obtain ev where ev: "sr_obs x = Some ev" "sr_obs rec = Some ev" using x(2) by (auto simp: sameEvidence_def)
  obtain e' where c: "custody sp w (sr_id rec) e'" using qd f unfolding quarantine_durable_def by blast
  have "held sp (live_view w) (sr_id rec) ev"
    by (rule heldI [of "Quar n" _ _ x]) (use s(1) lv idx ev in simp_all)
  moreover have "held sp (live_view w) (sr_id rec) e'"
    using c live_view_in_crash_views [of w] unfolding custody_def by blast
  ultimately have "e' = ev" using held_unique [OF io(2)] by blast
  then show ?thesis using c k ev(2) by (auto simp: keeps_def)
qed

lemma writer_contract:
  assumes ok: "queue_ok s" and id: "utf8_valid i" "length i = 36" and po: "po_client_record_id rec = i"
    and wr: "writer_enqueue slot epoch (observation_json rec) now False s = (res, s')"
  shows "spool_grows s s' \<and>
    (\<forall>j. res = Inr j \<longrightarrow> (\<exists>e. observation_json rec = Some e \<and> custody (cs_spool s') (cs_world s') i e))"
proof (cases "observation_json rec")
  case None
  then show ?thesis using wr spool_grows_refl [OF ok] by (auto simp: writer_enqueue_def)
next
  case (Some j)
  define r where "r = \<lparr>sr_id = i, sr_slot = slot, sr_epoch = epoch, sr_obs = Some j, sr_spooled_at = go_zero_time,
    sr_attempts = 0, sr_next = go_zero_time, sr_terminal = [], sr_removal = False\<rparr>"
  have f: "json_field ''client_record_id'' j = Some (JStr i)"
    using observation_json_id [OF Some] po json_text_valid [OF id(1)] by simp
  have ne: "i \<noteq> []" using id(2) by auto
  have rf: "sr_id r = i" "sr_obs r = Some j" "\<not> sr_removal r" by (simp_all add: r_def)
  obtain e sp' w' where en: "Enqueue r now (cs_spool s) (cs_world s) = (e, sp', w')" by (metis surj_pair)
  have s': "s' = s\<lparr>cs_spool := sp', cs_world := w'\<rparr>" and res: "\<And>x. res = Inr x \<Longrightarrow> e = None"
    using wr Some f ne en by (auto simp: writer_enqueue_def on_spool_def r_def split: option.splits)
  have q: "spool_ok (cs_spool s) (cs_world s)" "clean_queue (cs_spool s) (cs_world s)"
      "quarantine_durable (cs_spool s) (cs_world s)" using ok by (simp_all add: queue_ok_def)
  have idr: "utf8_valid (sr_id r)" "length (sr_id r) = 36" using id rf by simp_all
  have k: "keeps {} {} (cs_spool s) (cs_world s) sp' w'" "clean_queue sp' w'" "quarantine_durable sp' w'"
    using enqueue_queue_ok [OF q idr rf(3) en] by simp_all
  have "marks_in A (cs_world s) \<longrightarrow> marks_in A w'" for A
    using Enqueue_keeps [OF q(1) idr clean_no_junk [OF q(2)] rf(3) en, of A] by (simp add: keeps_def)
  then have g: "spool_grows s s'" using k by (auto simp: spool_grows_def queue_ok_def s' keeps_def)
  have "\<exists>ev. sr_obs r = Some ev \<and> custody sp' w' (sr_id r) ev" if "e = None"
  proof (cases "\<exists>n. find_loc (sr_id r) (cs_spool s) = Some (Quar n)")
    case True
    then show ?thesis using quarantined_replay [OF q(1,3) _ k(1)] en that by blast
  next
    case False
    then show ?thesis
      using enqueue_durable_contract [OF q(1) idr clean_no_junk [OF q(2)] rf(3)] en that by blast
  qed
  then show ?thesis using g res rf Some by (auto simp: s')
qed

lemma promote_record_contract:
  assumes ok: "fs_ok w" and p: "\<not> is_temp p" "fst p = dir" and k: "kept w p X r" and wf: "intake_wf r"
    and ne: "ir_client_record_id r \<noteq> []" and q: "queue_ok s"
    and pr: "promote_record dir slot epoch now p r w s = (err, w', s')"
  shows "only p w w' \<and> spool_grows s s' \<and> (kept w' p X r \<or> promoted w' p r s')"
proof -
  obtain e1 w1 where 1: "SyncDirectory dir w = (e1, w1)" by (metis surj_pair)
  have q1: "quiet w w1" using syncDirectory_contract [OF ok] 1 by (simp add: SyncDirectory_def)
  have k1: "kept w1 p X r" by (rule kept_quiet [OF k q1])
  have o1: "only p w w1" by (rule quiet_only [OF q1])
  note g0 = spool_grows_refl [OF q]
  show ?thesis
  proof (cases "e1 \<noteq> None \<and> e1 \<noteq> Some ErrDirectorySyncUnsupported")
    case True
    then have "w' = w1" "s' = s" using pr 1 by (simp_all add: promote_record_def)
    then show ?thesis using k1 o1 g0 by simp
  next
    case False
    have st: "settled dir w1" using sync_intake [OF ok 1] False by blast
    then have kr: "kept w1 p {} r" using kept_settled [OF k1] p(2) by simp
    show ?thesis
    proof (cases "Build (Some (intake_observation r)) (ir_client_record_id r)")
      case (Inl e)
      then have "w' = w1" "s' = s" using pr 1 False by (auto simp: promote_record_def)
      then show ?thesis using k1 o1 g0 by simp
    next
      case (Inr rec)
      obtain res s1 where 2: "writer_enqueue slot epoch (observation_json rec) now False s = (res, s1)" by (metis surj_pair)
      have i: "utf8_valid (ir_client_record_id r)" "length (ir_client_record_id r) = 36"
        using wf ne by (auto simp: intake_wf_def)
      note c = writer_contract [OF q i build_id [OF Inr] 2]
      show ?thesis
      proof (cases res)
        case (Inl e)
        then have "w' = w1" "s' = s1" using pr 1 False Inr 2 by (auto simp: promote_record_def)
        then show ?thesis using k1 o1 c by simp
      next
        case j: (Inr j)
        obtain e3 w3 where 3: "os_remove p w1 = (e3, w3)" by (metis surj_pair)
        have w': "w' = w3" "s' = s1" using pr 1 False Inr 2 j 3 by (auto simp: promote_record_def)
        have ok1: "fs_ok w1" using q1 by (simp add: quiet_def)
        note rm = remove_file_contract [OF ok1 p(1) 3]
        have "\<forall>v \<in> crash_views w3. v p \<in> {Absent, Whole (Intake r)}"
          using rm kr unfolding kept_def by (metis insertI1 insert_iff empty_iff)
        moreover have "\<exists>e. evidence r = Some e \<and> custody (cs_spool s1) (cs_world s1) (ir_client_record_id r) e"
          using c j Inr by (simp add: evidence_def)
        ultimately have "promoted w' p r s'" using w' by (simp add: promoted_def)
        then show ?thesis using only_trans [OF o1] rm c w' by blast
      qed
    qed
  qed
qed

lemma intake_eligible: "ir_request_id r \<noteq> [] \<Longrightarrow> Eligible (Some (intake_observation r))"
  by (simp add: Eligible_def intake_observation_def new_observation_def)

lemma promote_file_contract:
  assumes ok: "fs_ok w" and p: "\<not> is_temp p" "fst p = dir" and k: "kept w p X r" and wf: "intake_wf r"
    and rq: "ir_request_id r \<noteq> []" and g: "good_input inp" and q: "queue_ok s"
    and pr: "promote_file dir slot epoch inp (p, r) w s = (res, w', s')"
  shows "only p w w' \<and> spool_grows s s' \<and> (\<exists>r'. identified r r' \<and> (kept w' p (insert (Whole (Intake r)) X) r' \<or> promoted w' p r' s'))"
proof -
  obtain a w1 where 1: "assign_id (fst inp) p r w = (a, w1)" by (metis surj_pair)
  obtain r1 where r1: "only p w w1" "kept w1 p (insert (Whole (Intake r)) X) r1" "intake_wf r1" "identified r r1" "\<And>x. a = Inr x \<Longrightarrow> x = r1 \<and> ir_client_record_id x \<noteq> []"
    using assign_id_contract [OF ok p(1) k wf g 1] by blast
  show ?thesis
  proof (cases a)
    case (Inl e)
    then have "w' = w1" "s' = s" using pr 1 intake_eligible [OF rq] by (simp_all add: promote_file_def)
    then show ?thesis using r1 spool_grows_refl [OF q] by blast
  next
    case (Inr x)
    then have x: "x = r1" "ir_client_record_id r1 \<noteq> []" using r1(5) by auto
    obtain e w2 s2 where 2: "promote_record dir slot epoch (snd inp) p r1 w1 s = (e, w2, s2)" by (metis surj_pair)
    have w': "w' = w2" "s' = s2" using pr 1 Inr x(1) 2 intake_eligible [OF rq] by (simp_all add: promote_file_def)
    have ok1: "fs_ok w1" using r1(1) by (simp add: only_def)
    from promote_record_contract [OF ok1 p r1(2,3) x(2) q 2] show ?thesis
      using only_trans [OF r1(1)] w' r1(4) by blast
  qed
qed

section \<open>The whole intake\<close>

definition listed :: "string \<Rightarrow> iworld \<Rightarrow> path \<times> intake_record \<Rightarrow> bool" where
  "listed dir w f \<longleftrightarrow> fst (fst f) = dir \<and> \<not> is_temp (fst f) \<and> live_view w (fst f) = Whole (Intake (snd f)) \<and>
     intake_wf (snd f) \<and> ir_request_id (snd f) \<noteq> []"

lemma listed_only: "listed dir w f \<Longrightarrow> only q w w' \<Longrightarrow> fst f \<noteq> q \<Longrightarrow> listed dir w' f"
  using only_live [of q w w' "fst f"] by (simp add: listed_def)

text \<open>What becomes of the record \<open>r\<close> of the file \<open>p\<close>, which was read at most once.\<close>

definition conserved :: "iworld \<Rightarrow> path \<Rightarrow> intake_content seen set \<Rightarrow> intake_record \<Rightarrow> cstate \<Rightarrow> bool" where
  "conserved w p X r s \<longleftrightarrow>
     (\<exists>r'. identified r r' \<and> (kept w p (insert (Whole (Intake r)) X) r' \<or> promoted w p r' s))"

lemma conserved_kept: "kept w p X r \<Longrightarrow> conserved w p X r s"
  unfolding conserved_def using kept_mono [of w p X r] identified_refl by blast

lemma promoted_grows: "promoted w p r s \<Longrightarrow> spool_grows s s' \<Longrightarrow> promoted w p r s'"
  by (auto simp: promoted_def spool_grows_def)

lemma promoted_only:
  assumes "promoted w p r s" and "only q w w'" and "p \<noteq> q"
  shows "promoted w' p r s"
  using assms only_crash [OF assms(2,3)] unfolding promoted_def by metis

lemma conserved_step:
  assumes "conserved w p X r s" and "only q w w'" and "p \<noteq> q" and "spool_grows s s'"
  shows "conserved w' p X r s'"
  using assms(1) kept_only [OF _ assms(2,3)] promoted_only [OF _ assms(2,3)] promoted_grows [OF _ assms(4)]
  unfolding conserved_def by blast

lemma promote_files_contract:
  assumes "fs_ok w" and "distinct (map fst fs)" and "\<And>f. f \<in> set fs \<Longrightarrow> listed dir w f"
    and "\<And>i. i \<in> set inps \<Longrightarrow> good_input i" and "queue_ok s"
    and "promote_files dir slot epoch inps fs w s = (res, w', s')"
  shows "fs_ok w' \<and> spool_grows s s' \<and>
    (p \<notin> fst ` set fs \<and> conserved w p X r s \<or> kept w p X r \<longrightarrow> conserved w' p X r s')"
  using assms
proof (induction fs arbitrary: w s inps res w' s')
  case Nil
  then show ?case using spool_grows_refl conserved_kept by auto
next
  case (Cons f fs)
  obtain q rq where f: "f = (q, rq)" by (cases f)
  define inp where "inp = (case inps of [] \<Rightarrow> (None, 0) | i # _ \<Rightarrow> i)"
  obtain res1 w1 s1 where 1: "promote_file dir slot epoch inp f w s = (res1, w1, s1)" by (metis surj_pair)
  obtain res2 w2 s2 where 2: "promote_files dir slot epoch (tl inps) fs w1 s1 = (res2, w2, s2)" by (metis surj_pair)
  have w': "w' = w2" "s' = s2"
    using Cons.prems(6) 1 2 by (auto simp: inp_def split: prod.splits)
  have l: "listed dir w (q, rq)" using Cons.prems(3) f by simp
  have g: "good_input inp" using Cons.prems(4) by (auto simp: inp_def good_input_def split: list.splits)
  have c: "only q w w1 \<and> spool_grows s s1 \<and> (kept w q Y rq \<longrightarrow> conserved w1 q Y rq s1)" for Y
  proof -
    have "kept w q UNIV rq" using l by (simp add: listed_def kept_UNIV)
    from promote_file_contract [OF Cons.prems(1) _ _ this _ _ g Cons.prems(5)] 1 f l
    have "only q w w1 \<and> spool_grows s s1" by (auto simp: listed_def)
    moreover have "conserved w1 q Y rq s1" if "kept w q Y rq"
      using promote_file_contract [OF Cons.prems(1) _ _ that _ _ g Cons.prems(5)] 1 f l
      by (auto simp: listed_def conserved_def)
    ultimately show ?thesis by blast
  qed
  have ih: "fs_ok w2 \<and> spool_grows s1 s2 \<and>
      (p \<notin> fst ` set fs \<and> conserved w1 p X r s1 \<or> kept w1 p X r \<longrightarrow> conserved w2 p X r s2)"
  proof (rule Cons.IH [OF _ _ _ _ _ 2])
    show "fs_ok w1" using c by (simp add: only_def)
    show "distinct (map fst fs)" using Cons.prems(2) by simp
    show "listed dir w1 x" if "x \<in> set fs" for x
    proof -
      have "fst x \<noteq> q" using Cons.prems(2) that f by force
      moreover have "listed dir w x" using Cons.prems(3) that by simp
      moreover have "only q w w1" using c by blast
      ultimately show ?thesis using listed_only by blast
    qed
    show "good_input i" if "i \<in> set (tl inps)" for i using Cons.prems(4) that by (cases inps) auto
    show "queue_ok s1" using c by (simp add: spool_grows_def)
  qed
  have "conserved w2 p X r s2" if a: "p \<notin> fst ` set (f # fs) \<and> conserved w p X r s \<or> kept w p X r"
  proof (cases "p = q")
    case True
    then have k: "kept w q X r" using a f by auto
    then have "r = rq" using l by (simp add: kept_def listed_def)
    then have "conserved w1 q X r s1" using c k by blast
    moreover have "q \<notin> fst ` set fs" using Cons.prems(2) f by auto
    ultimately show ?thesis using ih True by blast
  next
    case False
    have "p \<notin> fst ` set fs \<and> conserved w1 p X r s1 \<or> kept w1 p X r"
      using a conserved_step [OF _ _ False, of w X r s w1 s1] kept_only [OF _ _ False, of w X r w1] c by auto
    then show ?thesis using ih by blast
  qed
  then show ?case using ih c spool_grows_trans w' by blast
qed

definition intake_dir_ok :: "string \<Rightarrow> iworld \<Rightarrow> bool" where
  "intake_dir_ok dir w \<longleftrightarrow>
     (\<forall>n. suffix ''.json'' n \<and> map_of (live w) (dir, n) \<noteq> None \<longrightarrow> \<not> prefix ''.tmp-'' n) \<and>
     (\<forall>n r. live_view w (dir, n) = Whole (Intake r) \<longrightarrow> intake_wf r)"

lemma read_intake_contract:
  assumes "fs_ok w" and "\<And>n. n \<in> set ns \<Longrightarrow> \<not> is_temp (dir, n)" and "distinct ns"
    and "read_intake_files dir ns w = ((recs, bad), w')"
  shows "quiet w w' \<and> distinct (map fst recs) \<and>
    (\<forall>f \<in> set recs. fst (fst f) = dir \<and> snd (fst f) \<in> set ns \<and> live_view w (fst f) = Whole (Intake (snd f)) \<and>
       ir_request_id (snd f) \<noteq> [])"
  using assms
proof (induction ns arbitrary: w recs bad w')
  case Nil
  then show ?case by (simp add: quiet_def)
next
  case (Cons n ns)
  obtain x w1 where x: "os_read_file (dir, n) w = (x, w1)" by (metis surj_pair)
  obtain rs b w2 where r: "read_intake_files dir ns w1 = ((rs, b), w2)" by (metis surj_pair)
  have c: "quiet w w1 \<and> (\<forall>c. x = Inr (Some c) \<longrightarrow> live_view w (dir, n) = Whole c)"
    by (rule os_read_contract [OF Cons.prems(1) _ x]) (use Cons.prems(2) in simp)
  have ih: "quiet w1 w2 \<and> distinct (map fst rs) \<and>
      (\<forall>f \<in> set rs. fst (fst f) = dir \<and> snd (fst f) \<in> set ns \<and> live_view w1 (fst f) = Whole (Intake (snd f)) \<and>
         ir_request_id (snd f) \<noteq> [])"
    by (rule Cons.IH [OF _ _ _ r]) (use c Cons.prems in \<open>auto simp: quiet_def\<close>)
  have w': "w' = w2" and recs: "recs = rs \<or> (\<exists>i. x = Inr (Some (Intake i)) \<and> ir_request_id i \<noteq> [] \<and> recs = ((dir, n), i) # rs)"
    using Cons.prems(4) x r by (auto split: sum.splits option.splits intake_content.splits if_splits)
  have lv: "live_view w1 = live_view w" using c by (simp add: quiet_def)
  have fresh: "(dir, n) \<notin> fst ` set rs" using ih Cons.prems(3) by force
  have q: "quiet w w2" using c ih quiet_trans by blast
  from recs show ?case
  proof
    assume "recs = rs"
    then show ?thesis using ih q w' lv by simp
  next
    assume "\<exists>i. x = Inr (Some (Intake i)) \<and> ir_request_id i \<noteq> [] \<and> recs = ((dir, n), i) # rs"
    then show ?thesis using ih q w' lv c fresh by auto
  qed
qed

lemma readIntake_contract:
  assumes ok: "fs_ok w" and d: "intake_dir_ok dir w" and r: "readIntake dir w = ((recs, bad, e), w')"
  shows "quiet w w' \<and> distinct (map fst recs) \<and> (\<forall>f \<in> set recs. listed dir w' f)"
proof -
  obtain x w1 where x: "os_read_dir dir w = (x, w1)" by (metis surj_pair)
  obtain t w0 where t: "tick w = (t, w0)" by (cases "tick w")
  have w1: "w1 = w0" and ent: "\<And>ns. x = Inr ns \<Longrightarrow> ns = names_in dir (live w0)"
    using x t by (auto simp: os_read_dir_def split: option.splits if_splits)
  have q: "quiet w w1" using tick_quiet [OF ok t] w1 by simp
  have l: "live w0 = live w" using same_fs_views(1) [OF tick_same_fs [OF t]] .
  show ?thesis
  proof (cases x)
    case (Inl a)
    then show ?thesis using r x q by (auto simp: readIntake_def)
  next
    case (Inr ns)
    define js where "js = sort (filter (suffix ''.json'') ns)"
    obtain rs b w2 where rd: "read_intake_files dir js w1 = ((rs, b), w2)" by (metis surj_pair)
    have res: "recs = rs" "w' = w2" using r x Inr rd by (simp_all add: readIntake_def js_def)
    have ns: "ns = names_in dir (live w)" using ent [OF Inr] l by simp
    have nt: "\<not> is_temp (dir, n)" if "n \<in> set js" for n
    proof -
      have "suffix ''.json'' n" "map_of (live w) (dir, n) \<noteq> None"
        using that names_in_props(2) by (auto simp: js_def ns)
      then show ?thesis using d by (simp add: intake_dir_ok_def is_temp_def staging_name_def)
    qed
    have "distinct js" by (simp add: js_def ns names_in_props)
    moreover have "fs_ok w1" using q by (simp add: quiet_def)
    ultimately have c: "quiet w1 w2 \<and> distinct (map fst rs) \<and>
        (\<forall>f \<in> set rs. fst (fst f) = dir \<and> snd (fst f) \<in> set js \<and> live_view w1 (fst f) = Whole (Intake (snd f)) \<and>
           ir_request_id (snd f) \<noteq> [])"
      using read_intake_contract [OF _ nt _ rd] by blast
    have lv: "live_view w1 = live_view w" "live_view w2 = live_view w" using q c by (simp_all add: quiet_def)
    have "listed dir w2 f" if "f \<in> set rs" for f
    proof -
      have h: "fst (fst f) = dir" "snd (fst f) \<in> set js" "live_view w1 (fst f) = Whole (Intake (snd f))"
          "ir_request_id (snd f) \<noteq> []" using c that by blast+
      have p: "fst f = (dir, snd (fst f))" using h(1) by (simp add: prod_eq_iff)
      have "live_view w (dir, snd (fst f)) = Whole (Intake (snd f))" using h(3) lv(1) p by metis
      then have "intake_wf (snd f)" using d unfolding intake_dir_ok_def by blast
      moreover have "\<not> is_temp (fst f)" using nt [OF h(2)] p by metis
      ultimately show ?thesis using h lv by (simp add: listed_def)
    qed
    then show ?thesis using c q quiet_trans res by blast
  qed
qed

lemma promoteIntake_contract:
  assumes ok: "fs_ok w" "intake_dir_ok dir w" and g: "\<And>i. i \<in> set inps \<Longrightarrow> good_input i" and q: "queue_ok s"
    and pr: "promoteIntake dir slot epoch inps w s = (res, w', s')"
  shows "fs_ok w' \<and> spool_grows s s' \<and> (kept w p X r \<longrightarrow> conserved w' p X r s')"
proof -
  obtain recs bad e w1 where 1: "readIntake dir w = ((recs, bad, e), w1)" by (metis surj_pair)
  note rd = readIntake_contract [OF ok 1]
  have ok1: "fs_ok w1" using rd by (simp add: quiet_def)
  have k: "kept w p X r \<Longrightarrow> kept w1 p X r" using rd kept_quiet by blast
  show ?thesis
  proof (cases e)
    case (Some x)
    then have "w' = w1" "s' = s" using pr 1 by (simp_all add: promoteIntake_def)
    then show ?thesis using ok1 spool_grows_refl [OF q] k conserved_kept by blast
  next
    case None
    obtain res2 w2 s2 where 2: "promote_files dir slot epoch inps recs w1 s = (res2, w2, s2)" by (metis surj_pair)
    have "w' = w2" "s' = s2" using pr 1 None 2 by (auto simp: promoteIntake_def split: prod.splits)
    moreover have "fs_ok w2 \<and> spool_grows s s2 \<and>
        (p \<notin> fst ` set recs \<and> conserved w1 p X r s \<or> kept w1 p X r \<longrightarrow> conserved w2 p X r s2)"
      by (rule promote_files_contract [OF ok1 _ _ g q 2]) (use rd in auto)
    ultimately show ?thesis using k by blast
  qed
qed

end
