(* ===== verification/FlushSafety.thy ===== *)
theory FlushSafety
  imports Flush IntakeSpec
begin

text \<open>
  The properties of a flush: no observation is lost on its way from the intake to the server, and
  what is dropped undelivered belonged to an epoch another installation holds.
\<close>

section \<open>Delivery\<close>

lemma queue_coll_ok:
  assumes "queue_ok s" and "marks_in (A \<union> acked s) (cs_world s)"
  shows "coll_ok A s"
  using assms by (simp add: coll_ok_def queue_ok_def)

lemma new_safe:
  assumes "coll_ok A s"
  shows "safe_step A s (New (cs_spool s) (cs_world s) opts (cs_env s))"
proof -
  let ?t = "\<lparr>cs_spool = cs_spool s, cs_world = cs_world s, cs_opts = withDefaults opts, cs_health = zero_health,
                   cs_pass_removal_failures = 0, cs_wake = False, cs_env = cs_env s\<rparr>"
  have "same_core s ?t" by (simp add: same_core_def)
  then have "safe_step A s ?t" by (rule same_core_safe [OF assms])
  then show ?thesis unfolding New_def using refreshState_safe safe_ok safe_trans by blast
qed

lemma deliver_pass_safe: "coll_ok A s \<Longrightarrow> safe_step A s (deliver_pass opts s)"
  unfolding deliver_pass_def using new_safe drain_safe safe_ok safe_trans by blast

lemma identified_trans:
  "identified r0 r \<Longrightarrow> identified r r' \<Longrightarrow> identified r0 r' \<and> (r' = r \<or> r = r0)"
  by (cases r0; cases r; cases r') (auto simp: identified_def)

lemma kept_identified:
  assumes "identified r0 r" and "identified r r'" and "kept w p (insert (Whole (Intake r)) {Whole (Intake r0)}) r'"
  shows "kept w p {Whole (Intake r0)} r'"
  using assms identified_trans [OF assms(1,2)] by (auto simp: kept_def)


text \<open>The witness promotes a record without an identity; the next flush finds the server silent.\<close>

definition demo_intake :: intake_record where
  "demo_intake =
     \<lparr>ir_client_record_id = [], ir_v = 1, ir_request_id = ''r1'', ir_host = ''h'', ir_status_code = 200,
      ir_started_at = zero_time, ir_finished_at = zero_time, ir_chosen_provider = []\<rparr>"

definition demo_dir :: iworld where
  "demo_dir =
     \<lparr>w_nodes = (\<lambda>_. \<lparr>in_data = Some (Intake demo_intake), in_synced = True, in_mode = 384\<rparr>), w_next = 1,
      w_dirs = [''i''], w_disk = [((''i'', ''x.json''), 0)], w_journal = [], w_plan = [], w_dead = False\<rparr>"

definition demo_inputs :: "((bytes \<times> nat) option \<times> int) list" where
  "demo_inputs = [(Some (replicate 16 CHR 0x11, 0), 7)]"

abbreviation "demo_flush \<equiv>
  flush_pass ''i'' 7 1043 sample_options demo_inputs demo_dir (sample_collector [] [sample_answer True False])"

lemma demo_dir_views:
  "live_view demo_dir = (\<lambda>_. Absent)((''i'', ''x.json'') := Whole (Intake demo_intake))"
  "crash_views demo_dir = {(\<lambda>_. Absent)((''i'', ''x.json'') := Whole (Intake demo_intake))}"
proof -
  have v: "view_of demo_dir (map_of [((''i'', ''x.json''), 0)]) =
      (\<lambda>_. Absent)((''i'', ''x.json'') := Whole (Intake demo_intake))"
    by (intro ext) (auto simp: view_of_def demo_dir_def node_seen_def is_temp_def staging_name_def)
  have p: "prefix_maps demo_dir = {map_of [((''i'', ''x.json''), 0)]}" by (simp add: prefix_maps_def demo_dir_def)
  have l: "live demo_dir = [((''i'', ''x.json''), 0)]" by (simp add: live_def demo_dir_def)
  show "live_view demo_dir = (\<lambda>_. Absent)((''i'', ''x.json'') := Whole (Intake demo_intake))"
    by (simp only: live_view_def l v)
  show "crash_views demo_dir = {(\<lambda>_. Absent)((''i'', ''x.json'') := Whole (Intake demo_intake))}"
    by (simp only: crash_views_def p image_insert image_empty v)
qed

lemma demo_dir_ok: "fs_ok demo_dir" "intake_dir_ok ''i'' demo_dir"
proof -
  show "fs_ok demo_dir" by (simp add: fs_ok_def good_map_def prefix_maps_def demo_dir_def)
  have w: "intake_wf demo_intake"
    by (simp add: intake_wf_def demo_intake_def utf8_valid_ascii)
  have l: "live demo_dir = [((''i'', ''x.json''), 0)]" by (simp add: live_def demo_dir_def)
  show "intake_dir_ok ''i'' demo_dir"
    unfolding intake_dir_ok_def demo_dir_views l using w by (auto split: if_splits)
qed

lemma sample_queue_ok: "queue_ok (sample_collector plan answers)"
proof -
  have r: "readable (Whole (Rec sample_record)) sample_id"
    by (simp add: readable_def sample_record_def sample_id_def)
  have "find_loc i sample_spool \<noteq> Some (Quar n)" for i n by (simp add: find_loc_def sample_spool_def)
  then show ?thesis
    using r sample_ok by (auto simp: queue_ok_def clean_queue_def quarantine_durable_def sample_collector_def sample_view)
qed


end
