(* ===== verification/ConflictSafety.thy ===== *)
theory ConflictSafety
  imports Flush SpoolSpec
begin

text \<open>
  Conflicted epochs: what the state file holds after each operation on it, and which observations
  a flush drops because of it.
\<close>

section \<open>The state file\<close>

definition conflict_path :: "string \<Rightarrow> path" where
  "conflict_path dir = (dir, ''epoch_conflicts.json'')"

text \<open>The conflicts a program finds recorded.\<close>

definition recorded :: "string \<Rightarrow> stworld \<Rightarrow> conflict set" where
  "recorded dir st = (case live_view st (conflict_path dir) of Whole (Conflicts cs) \<Rightarrow> set cs | _ \<Rightarrow> {})"

lemma conflict_path_lasting [simp]: "\<not> is_temp (conflict_path dir)"
  by (simp add: conflict_path_def is_temp_def staging_name_def)

lemma recorded_quiet: "quiet w w' \<Longrightarrow> recorded dir w' = recorded dir w"
  by (simp add: recorded_def quiet_def)

lemma readSecret_contract:
  assumes ok: "fs_ok w" and p: "\<not> is_temp (dir, name)" and r: "readSecret dir name w = (x, w')"
  shows "quiet w w' \<and> (\<forall>c. x = Inr (Some c) \<longrightarrow> live_view w (dir, name) = Whole c)"
proof -
  obtain e w1 where t: "tick w = (e, w1)" by (cases "tick w")
  have q: "quiet w w1" by (rule tick_quiet [OF ok t])
  obtain y w2 where y: "os_read_file (dir, name) w1 = (y, w2)" by (metis surj_pair)
  have ok1: "fs_ok w1" using q by (simp add: quiet_def)
  have c: "quiet w1 w2 \<and> (\<forall>c. y = Inr (Some c) \<longrightarrow> live_view w1 (dir, name) = Whole c)"
    by (rule os_read_contract [OF ok1 p y])
  have "w' = w1 \<and> (\<forall>c. x \<noteq> Inr (Some c)) \<or> w' = w2 \<and> (\<forall>c. x = Inr (Some c) \<longrightarrow> y = Inr (Some c))"
    using r t y by (auto simp: readSecret_def split: option.splits sum.splits if_splits)
  then show ?thesis using q c quiet_trans [OF q] by (auto simp: quiet_def)
qed

lemma load_conflicts_contract:
  assumes ok: "fs_ok w" and l: "loadEpochConflicts dir w = (x, w')"
  shows "quiet w w' \<and> (\<forall>cs. x = Inr cs \<longrightarrow> set cs \<subseteq> recorded dir w)"
proof -
  obtain y w1 where y: "readSecret dir ''epoch_conflicts.json'' w = (y, w1)" by (metis surj_pair)
  have c: "quiet w w1 \<and> (\<forall>c. y = Inr (Some c) \<longrightarrow> live_view w (conflict_path dir) = Whole c)"
    using readSecret_contract [OF ok _ y] conflict_path_lasting [of dir] by (simp add: conflict_path_def)
  have "w' = w1 \<and> (\<forall>cs. x = Inr cs \<longrightarrow> cs = [] \<or> y = Inr (Some (Conflicts cs)))"
    using l y by (auto simp: loadEpochConflicts_def split: sum.splits option.splits state_content.splits if_splits)
  then show ?thesis using c by (auto simp: recorded_def)
qed

text \<open>A save that is reported as failed may still have replaced the file.\<close>

lemma save_conflicts_contract:
  assumes ok: "fs_ok w" and s: "saveEpochConflicts dir cs w = (err, w')"
  shows "fs_ok w' \<and> (recorded dir w' = set cs \<or> err \<noteq> None \<and> recorded dir w' = recorded dir w) \<and>
    (err = None \<longrightarrow> (\<forall>v \<in> crash_views w'. v (conflict_path dir) = Whole (Conflicts cs)))"
proof -
  obtain e where f: "writeFile dir ''epoch_conflicts.json'' (Conflicts cs) 384 False w = (e, w')" and e: "err = map_option StStage e"
    using s by (auto simp: saveEpochConflicts_def saveStateFile_def WriteFileAtomic_def split: prod.splits)
  have "changes {dir} (replaces (conflict_path dir) (Conflicts cs)) e w w'"
    using writeFile_contract [OF ok _ f] conflict_path_lasting [of dir] by (simp add: conflict_path_def)
  then show ?thesis
  proof (cases "se_is_published e")
    case False
    then show ?thesis using \<open>changes _ _ e w w'\<close> e
      by (auto simp: changes_def quiet_def recorded_def se_is_published_def split: option.splits)
  next
    case True
    then have l: "fs_ok w'" "live_view w' = replaces (conflict_path dir) (Conflicts cs) (live_view w)"
        "e = None \<longrightarrow> settled dir w'"
      using \<open>changes _ _ e w w'\<close> unfolding changes_def if_P [OF True] by blast+
    have lv: "live_view w' (conflict_path dir) = Whole (Conflicts cs)" by (simp add: l(2) replaces_def)
    have "v (conflict_path dir) = Whole (Conflicts cs)" if "v \<in> crash_views w'" "err = None" for v
      using l(3) that e lv unfolding settled_def conflict_path_def by simp
    then show ?thesis using l(1) lv by (simp add: recorded_def)
  qed
qed

lemma prune_conflicts_contract:
  assumes ok: "fs_ok w" and p: "PruneEpochConflictsForOtherSlots dir slot w = (err, w')"
  shows "fs_ok w' \<and> recorded dir w' \<subseteq> recorded dir w"
proof -
  obtain x w1 where l: "loadEpochConflicts dir w = (x, w1)" by (metis surj_pair)
  note c = load_conflicts_contract [OF ok l]
  have ok1: "fs_ok w1" and r1: "recorded dir w1 = recorded dir w" using c recorded_quiet by (auto simp: quiet_def)
  show ?thesis
  proof (cases "w' = w1")
    case True
    then show ?thesis using ok1 r1 by simp
  next
    case False
    then obtain cs where cs: "x = Inr cs" "saveEpochConflicts dir (filter (\<lambda>c. fst c = slot) cs) w1 = (err, w')"
      using p l by (auto simp: PruneEpochConflictsForOtherSlots_def Let_def split: sum.splits if_splits)
    have "set (filter (\<lambda>c. fst c = slot) cs) \<subseteq> recorded dir w" using c cs(1) by auto
    then show ?thesis using save_conflicts_contract [OF ok1 cs(2)] r1 by auto
  qed
qed

lemma remove_conflicts_contract:
  assumes ok: "fs_ok w" and r: "RemoveEpochConflicts dir done' w = (err, w')"
  shows "fs_ok w' \<and> recorded dir w' \<subseteq> recorded dir w"
proof -
  obtain x w1 where l: "loadEpochConflicts dir w = (x, w1)" by (metis surj_pair)
  note c = load_conflicts_contract [OF ok l]
  have ok1: "fs_ok w1" and r1: "recorded dir w1 = recorded dir w" using c recorded_quiet by (auto simp: quiet_def)
  show ?thesis
  proof (cases "w' = w \<or> w' = w1")
    case True
    then show ?thesis using ok ok1 r1 by auto
  next
    case False
    then obtain cs where cs: "x = Inr cs" "saveEpochConflicts dir (filter (\<lambda>c. c \<notin> set done') cs) w1 = (err, w')"
      using r l by (auto simp: RemoveEpochConflicts_def split: sum.splits if_splits)
    have "set (filter (\<lambda>c. c \<notin> set done') cs) \<subseteq> recorded dir w" using c cs(1) by auto
    then show ?thesis using save_conflicts_contract [OF ok1 cs(2)] r1 by auto
  qed
qed

text \<open>A reported save is durable, holds the conflict and at most 64 of them.\<close>

lemma save_conflict_contract:
  assumes ok: "fs_ok w" and s: "SaveEpochConflict dir slot epoch w = (None, w')"
  shows "fs_ok w' \<and> (slot, epoch) \<in> recorded dir w' \<and> recorded dir w' \<subseteq> insert (slot, epoch) (recorded dir w) \<and>
    (recorded dir w' = recorded dir w \<or> card (recorded dir w') \<le> maxEpochConflicts)"
proof -
  obtain x w1 where l: "loadEpochConflicts dir w = (x, w1)" by (metis surj_pair)
  note c = load_conflicts_contract [OF ok l]
  have ok1: "fs_ok w1" and r1: "recorded dir w1 = recorded dir w" using c recorded_quiet by (auto simp: quiet_def)
  obtain cs where cs: "x = Inr cs" using s l by (auto simp: SaveEpochConflict_def split: sum.splits)
  then have sub: "set cs \<subseteq> recorded dir w" using c by blast
  show ?thesis
  proof (cases "(slot, epoch) \<in> set cs")
    case True
    then have "w' = w1" using s l cs by (simp add: SaveEpochConflict_def)
    then show ?thesis using True sub ok1 r1 by auto
  next
    case False
    define ds where "ds = (let cs = cs @ [(slot, epoch)] in
      if maxEpochConflicts < length cs then drop (length cs - maxEpochConflicts) cs else cs)"
    have sv: "saveEpochConflicts dir ds w1 = (None, w')"
      using s l cs False by (simp add: SaveEpochConflict_def ds_def Let_def)
  have len: "length ds \<le> maxEpochConflicts" by (auto simp: ds_def Let_def maxEpochConflicts_def)
    have mem: "(slot, epoch) \<in> set ds" by (simp add: ds_def Let_def maxEpochConflicts_def)
    have "set ds \<subseteq> insert (slot, epoch) (set cs)" by (auto simp: ds_def Let_def dest: in_set_dropD split: if_splits)
    then show ?thesis
      using save_conflicts_contract [OF ok1 sv] sub mem len card_length [of ds] by auto
  qed
qed

section \<open>What is pending\<close>

lemma pending_names_listed:
  assumes "spool_ok sp w" and "\<forall>n \<in> set ns. json_file n" and "pending_names ns sp w = (Inr rs, sp', w')"
    and "rec \<in> set rs"
  shows "\<exists>n. live_view w (sp_dir sp, n) = Whole (Rec rec)"
  using assms
proof (induction ns arbitrary: sp w rs sp' w')
  case Nil
  then show ?case by simp
next
  case (Cons n ns)
  note ok = Cons.prems(1)
  have fs: "fs_ok w" using ok by (simp add: spool_ok_def)
  have n: "json_file n" and ns: "\<forall>n \<in> set ns. json_file n" using Cons.prems(2) by simp_all
  obtain rd w1 where rd: "sp_read sp (Active n) w = (rd, w1)" by (metis surj_pair)
  have c: "quiet w w1 \<and> (\<forall>rec. rd = Inr rec \<longrightarrow> live_view w (loc_path sp (Active n)) = Whole (Rec rec) \<and> sr_id rec \<noteq> [])"
    by (rule sp_read_contract [OF fs _ rd]) (use n in simp)
  have ok1: "spool_ok sp w1" using quiet_keeps [OF ok, of w1 UNIV "{}"] c by (simp add: keeps_def)
  have l1: "live_view w1 = live_view w" using c by (simp add: quiet_def)
  show ?case
  proof (cases rd)
    case (Inr r)
    then obtain rs2 where p: "pending_names ns sp w1 = (Inr rs2, sp', w')" "rs = r # rs2"
      using Cons.prems(3) rd by (auto split: sum.splits prod.splits)
    have "live_view w (sp_dir sp, n) = Whole (Rec r)" using c Inr by simp
    moreover have "\<exists>m. live_view w (sp_dir sp, m) = Whole (Rec rec)" if "rec \<in> set rs2"
      using Cons.IH [OF ok1 ns p(1) that] l1 by simp
    ultimately show ?thesis using Cons.prems(4) p(2) by auto
  next
    case (Inl er)
    obtain me w2 where mv: "MoveFileDurable (sp_dir sp, n) (quar_dir sp, n) w1 = (me, w2)" by (metis surj_pair)
    define sp2 where "sp2 = (if se_is_published me then follow_move n sp else sp)"
    have k2: "keeps UNIV {} sp w1 sp2 w2" unfolding sp2_def by (rule pending_move_keeps [OF ok1 n mv])
    then have ok2: "spool_ok sp2 w2" and d: "sp_dir sp2 = sp_dir sp" by (simp_all add: keeps_def)
    have p: "pending_names ns sp2 w2 = (Inr rs, sp', w')"
      using Cons.prems(3) rd Inl mv by (auto simp: sp2_def Let_def split: option.splits)
    obtain m where m: "live_view w2 (sp_dir sp, m) = Whole (Rec rec)"
      using Cons.IH [OF ok2 ns p Cons.prems(4)] d by auto
    have fs1: "fs_ok w1" using ok1 by (simp add: spool_ok_def)
    have "\<not> is_temp (sp_dir sp, n)" "\<not> is_temp (quar_dir sp, n)"
      using json_file_not_temp [of "Active n" sp] json_file_not_temp [of "Quar n" sp] n by simp_all
    then have "live_view w2 = live_view w1 \<or> live_view w2 = relinks (sp_dir sp, n) (quar_dir sp, n) (live_view w1)"
      using moveFile_contract [OF fs1 _ _ _ mv] by (auto simp: changes_def quiet_def split: if_splits)
    then have "live_view w1 (sp_dir sp, m) = Whole (Rec rec)"
      using m by (auto simp: relinks_def split: if_splits)
    then show ?thesis using l1 by auto
  qed
qed

lemma Pending_listed:
  assumes ok: "spool_ok sp w" and p: "Pending sp w = (Inr rs, sp', w')" and r: "rec \<in> set rs"
  shows "\<exists>n. live_view w (sp_dir sp, n) = Whole (Rec rec)"
proof -
  obtain ns w1 where d: "os_read_dir (sp_dir sp) w = (Inr ns, w1)"
      "pending_names (sort (filter json_file ns)) sp w1 = (Inr rs, sp', w')"
    using p by (auto simp: Pending_def split: sum.splits prod.splits)
  obtain e w0 where t: "tick w = (e, w0)" by (cases "tick w")
  have "w1 = w0" using d(1) t by (auto simp: os_read_dir_def split: option.splits if_splits)
  then have q: "quiet w w1" using tick_quiet [OF _ t] ok by (simp add: spool_ok_def)
  have "spool_ok sp w1" using quiet_keeps [OF ok q, of UNIV "{}"] by (simp add: keeps_def)
  from pending_names_listed [OF this _ d(2) r] show ?thesis using q by (simp add: quiet_def)
qed

text \<open>Opening a spool reads its files and makes its directories; it changes no file.\<close>

lemma mkdir_quiet:
  assumes ok: "fs_ok w" and m: "os_mkdir_all d w = (e, w')"
  shows "quiet w w'"
proof -
  obtain t w1 where t: "tick w = (t, w1)" by (cases "tick w")
  have "same_fs w1 w'" using m t by (auto simp: os_mkdir_all_def same_fs_def split: option.splits)
  then show ?thesis using tick_quiet [OF ok t] same_fs_quiet quiet_trans by (metis quiet_def)
qed

lemma index_names_quiet:
  assumes "fs_ok w" and "\<And>n. loc_base (mk n) = n" and "index_names mk ns sp w = (e, sp', w')"
  shows "quiet w w'"
  using assms
proof (induction ns arbitrary: sp w)
  case Nil
  then show ?case by (simp add: quiet_def)
next
  case (Cons n ns)
  show ?case
  proof (cases "json_file n")
    case False
    then show ?thesis using Cons.IH [OF Cons.prems(1,2)] Cons.prems(3) by simp
  next
    case True
    obtain x w1 where x: "sp_read sp (mk n) w = (x, w1)" by (metis surj_pair)
    have q: "quiet w w1" using sp_read_contract [OF Cons.prems(1) _ x] True Cons.prems(2) by simp
    have ok1: "fs_ok w1" using q by (simp add: quiet_def)
    from Cons.prems(3) True x have "w' = w1 \<or> (\<exists>sp2. index_names mk ns sp2 w1 = (e, sp', w'))"
      by (auto split: sum.splits if_splits)
    then show ?thesis using q Cons.IH [OF ok1 Cons.prems(2)] quiet_trans by blast
  qed
qed

lemma read_dir_quiet: "fs_ok w \<Longrightarrow> os_read_dir d w = (x, w') \<Longrightarrow> quiet w w'"
  using tick_quiet [of w] by (cases "tick w") (auto simp: os_read_dir_def split: option.splits if_splits)

lemma reconstruct_quiet:
  assumes ok: "fs_ok w" and r: "reconstruct sp w = (e, sp', w')"
  shows "quiet w w'"
proof -
  obtain x w1 where 1: "os_read_dir (sp_dir sp) w = (x, w1)" by (metis surj_pair)
  have q1: "quiet w w1" by (rule read_dir_quiet [OF ok 1])
  show ?thesis
  proof (cases x)
    case (Inl er)
    then show ?thesis using r 1 q1 by (simp add: reconstruct_def)
  next
    case (Inr ns)
    obtain e2 sp2 w2 where 2: "index_names Active ns sp w1 = (e2, sp2, w2)" by (metis surj_pair)
    have "fs_ok w1" using q1 by (simp add: quiet_def)
    from index_names_quiet [OF this _ 2] have q2: "quiet w w2" using quiet_trans [OF q1] by simp
    show ?thesis
    proof (cases e2)
      case (Some er)
      then show ?thesis using r 1 Inr 2 q2 by (simp add: reconstruct_def)
    next
      case None
      obtain y w3 where 3: "os_read_dir (quar_dir sp2) w2 = (y, w3)" by (metis surj_pair)
      have "fs_ok w2" using q2 by (simp add: quiet_def)
      from read_dir_quiet [OF this 3] have q3: "quiet w w3" by (rule quiet_trans [OF q2])
      show ?thesis
      proof (cases y)
        case (Inl er)
        then show ?thesis using r 1 Inr 2 None 3 q3 by (simp add: reconstruct_def)
      next
        case qs: (Inr qs)
        have "fs_ok w3" using q3 by (simp add: quiet_def)
        moreover have "index_names Quar qs sp2 w3 = (e, sp', w')"
          using r 1 Inr 2 None 3 qs by (simp add: reconstruct_def)
        ultimately have "quiet w3 w'" using index_names_quiet [of w3 Quar qs sp2 e sp' w'] by simp
        then show ?thesis by (rule quiet_trans [OF q3])
      qed
    qed
  qed
qed

lemma spool_open_quiet:
  assumes ok: "fs_ok w" and o: "spool_open dir w = (res, w')"
  shows "quiet w w'"
proof -
  let ?sp = "\<lparr>sp_dir = dir, sp_locs = Some [], sp_unknown = 0\<rparr>"
  obtain e1 w1 where 1: "os_mkdir_all dir w = (e1, w1)" by (metis surj_pair)
  obtain e2 w2 where 2: "os_mkdir_all (dir @ ''/quarantine'') w1 = (e2, w2)" by (metis surj_pair)
  obtain e3 sp3 w3 where 3: "reconstruct ?sp w2 = (e3, sp3, w3)" by (metis surj_pair)
  have q1: "quiet w w1" by (rule mkdir_quiet [OF ok 1])
  then have q2: "quiet w1 w2" using mkdir_quiet [OF _ 2] by (simp add: quiet_def)
  then have q3: "quiet w2 w3" using reconstruct_quiet [OF _ 3] by (simp add: quiet_def)
  have "w' \<in> {w, w1, w2, w3}" using o 1 2 3 by (auto simp: spool_open_def split: if_splits option.splits)
  moreover have "quiet w w" using ok by (simp add: quiet_def)
  ultimately show ?thesis using q1 q2 q3 quiet_trans by blast
qed

section \<open>What is dropped\<close>

lemma drop_records_keeps:
  assumes "spool_ok sp w" and "drop_records due recs sp w = (n, sp', w')"
    and "\<And>rec. rec \<in> set recs \<Longrightarrow> (sr_slot rec, sr_epoch rec) \<in> set due \<Longrightarrow> sr_id rec \<in> X"
  shows "keeps UNIV X sp w sp' w'"
  using assms
proof (induction recs arbitrary: sp w n sp' w')
  case Nil
  then show ?case using keeps_refl by simp
next
  case (Cons rec recs)
  show ?case
  proof (cases "(sr_slot rec, sr_epoch rec) \<in> set due")
    case False
    then show ?thesis using Cons by simp
  next
    case True
    obtain err sp1 w1 where r: "Remove rec sp w = (err, sp1, w1)" by (metis surj_pair)
    obtain m sp2 w2 where d: "drop_records due recs sp1 w1 = (m, sp2, w2)" by (metis surj_pair)
    have e: "sp' = sp2" "w' = w2" using Cons.prems(2) True r d by (auto split: if_splits)
    have "keeps UNIV {sr_id rec} sp w sp1 w1" by (rule Remove_keeps [OF Cons.prems(1) _ r]) simp
    then have k: "keeps UNIV X sp w sp1 w1" by (rule keeps_mono) (use Cons.prems(3) True in auto)
    then have "spool_ok sp1 w1" by (simp add: keeps_def)
    from Cons.IH [OF this d] Cons.prems(3) have "keeps UNIV X sp1 w1 sp2 w2" by simp
    then show ?thesis using keeps_trans [OF k] e by simp
  qed
qed

text \<open>The identities the flush may drop: their file names a recorded conflict of an earlier epoch.\<close>

definition droppable :: "conflict set \<Rightarrow> 64 word \<Rightarrow> 64 word \<Rightarrow> string \<Rightarrow> sworld \<Rightarrow> string set" where
  "droppable C slotID currentTarget dir w =
     {sr_id r | r n. live_view w (dir, n) = Whole (Rec r) \<and> (sr_slot r, sr_epoch r) \<in> C \<and>
        sr_slot r = slotID \<and> sr_epoch r < currentTarget}"

text \<open>
  C25.
  What a flush drops undelivered.  Whatever fails or crashes, an observation leaves the spool
  only when its own file names an epoch of the configured slot that is recorded as held by
  another installation and is already past; every other observation stays in custody, and no
  conflict is recorded that was not before.
\<close>

theorem conflict_drop_scoped:
  assumes "fs_ok st" and "fs_ok w" and "spool_open spoolDir w = (Inr sp, w1)" and "spool_ok sp w1" and "sp_dir sp = spoolDir"
    and "dropConflictedObservationsPastTarget stateDir spoolDir slotID currentTarget st w = (n, st', w')"
    and "custody sp w i e" and "i \<notin> droppable (recorded stateDir st) slotID currentTarget spoolDir w"
  shows "custody sp w' i e \<and> recorded stateDir st' \<subseteq> recorded stateDir st"
proof -
  have q: "quiet w w1" by (rule spool_open_quiet [OF assms(2,3)])
  then have c1: "custody sp w1 i e" and l1: "live_view w1 = live_view w"
    using assms(7) by (auto simp: quiet_def custody_def)
  obtain perr st1 where p: "PruneEpochConflictsForOtherSlots stateDir slotID st = (perr, st1)" by (metis surj_pair)
  have 1: "fs_ok st1" "recorded stateDir st1 \<subseteq> recorded stateDir st"
    using prune_conflicts_contract [OF assms(1) p] by simp_all
  obtain x st2 where l: "loadEpochConflicts stateDir st1 = (x, st2)" by (metis surj_pair)
  note c = load_conflicts_contract [OF 1(1) l]
  have 2: "fs_ok st2" "recorded stateDir st2 \<subseteq> recorded stateDir st"
    using c 1(2) recorded_quiet by (auto simp: quiet_def)
  note d = assms(6) [unfolded dropConflictedObservationsPastTarget_def p prod.case l]
  show ?thesis
  proof (cases x)
    case (Inl er)
    then show ?thesis using d assms(7) 2 by simp
  next
    case (Inr cs)
    define due where "due = due_conflicts slotID currentTarget cs"
    have due: "set due \<subseteq> {c \<in> recorded stateDir st. fst c = slotID \<and> snd c < currentTarget}"
      using c Inr 1(2) by (auto simp: due_def due_conflicts_def)
    show ?thesis
    proof (cases "due = []")
      case True
      then show ?thesis using d Inr assms(7) 2 by (simp add: due_def Let_def)
    next
      case False
      obtain res sp2 w2 where pe: "Pending sp w1 = (res, sp2, w2)" by (metis surj_pair)
      have k2: "keeps UNIV {} sp w1 sp2 w2" using Pending_keeps [OF assms(4) _ pe, of UNIV] by (simp add: marks_in_def)
      have c2: "custody sp2 w2 i e" and ok2: "spool_ok sp2 w2" and d2: "sp_dir sp2 = sp_dir sp"
        using k2 c1 by (simp_all add: keeps_def)
      note d' = d [unfolded Inr sum.case prod.case Let_def, folded due_def, unfolded if_not_P [OF False] assms(3) prod.case sum.case pe]
      show ?thesis
      proof (cases res)
        case (Inl er)
        then have "w' = w2" "st' = st2" using d' by simp_all
        then show ?thesis using c2 2 custody_cong [OF d2] by simp
      next
        case (Inr pending)
        obtain m sp3 w3 where dr: "drop_records due pending sp2 w2 = (m, sp3, w3)" by (metis surj_pair)
        obtain re st3 where rm: "RemoveEpochConflicts stateDir due st2 = (re, st3)" by (metis surj_pair)
        have e: "w' = w3" "st' = st3" using d' Inr dr rm by simp_all
        have "keeps UNIV (droppable (recorded stateDir st) slotID currentTarget spoolDir w) sp2 w2 sp3 w3"
        proof (rule drop_records_keeps [OF ok2 dr])
          fix rec assume "rec \<in> set pending" and g: "(sr_slot rec, sr_epoch rec) \<in> set due"
          then obtain k where "live_view w (spoolDir, k) = Whole (Rec rec)"
            using Pending_listed [OF assms(4)] pe Inr assms(5) l1 by metis
          then show "sr_id rec \<in> droppable (recorded stateDir st) slotID currentTarget spoolDir w"
            using g due unfolding droppable_def by fastforce
        qed
        then have "custody sp3 w3 i e" "sp_dir sp3 = sp_dir sp" using c2 assms(8) d2 by (simp_all add: keeps_def)
        moreover have "recorded stateDir st3 \<subseteq> recorded stateDir st"
          using remove_conflicts_contract [OF 2(1) rm] 2(2) by blast
        ultimately show ?thesis using e custody_cong by metis
      qed
    qed
  qed
qed

text \<open>The witness records an earlier conflicted epoch of the slot; the pending record is of the next one.\<close>

definition sample_state :: stworld where
  "sample_state =
     \<lparr>w_nodes = (\<lambda>_. \<lparr>in_data = Some (Conflicts [(7, 1041)]), in_synced = True, in_mode = 384\<rparr>), w_next = 1,
      w_dirs = [''s''], w_disk = [(conflict_path ''s'', 0)], w_journal = [], w_plan = [], w_dead = False\<rparr>"

lemma conflict_drop_scoped_witness:
  "custody sample_spool
     (snd (snd (dropConflictedObservationsPastTarget ''s'' ''d'' 7 1043 sample_state (sample_world []))))
     sample_id (JObj [(''client_record_id'', JStr sample_id)])"
proof -
  let ?w = "sample_world []"
  obtain n st' w' where d: "dropConflictedObservationsPastTarget ''s'' ''d'' 7 1043 sample_state ?w = (n, st', w')"
    by (metis surj_pair)
  have f: "fs_ok sample_state" by (simp add: fs_ok_def good_map_def prefix_maps_def sample_state_def)
  have c: "crash_world 0 ?w = ?w" by (simp add: crash_world_def sample_world_def)
  have "sp_dir sample_spool = ''d''" by (simp add: sample_spool_def)
  then obtain sp w1 where o: "spool_open ''d'' ?w = (Inr sp, w1)" "spool_ok sp w1" "sp_dir sp = ''d''" "sp_dir sp = sp_dir sample_spool"
    using restart_contract [OF sample_ok, of 0 "[]"] by (auto simp: c)
  have w: "fs_ok ?w" using sample_ok [of "[]"] by (simp add: spool_ok_def)
  have cu: "custody sp ?w sample_id (JObj [(''client_record_id'', JStr sample_id)])"
    using sample_custody [of "[]"] custody_cong [OF o(4)] by simp
  have "live sample_state = [(conflict_path ''s'', 0)]" by (simp add: live_def sample_state_def)
  then have "recorded ''s'' sample_state = {(7, 1041)}"
    by (simp add: recorded_def live_view_def view_of_def) (simp add: sample_state_def node_seen_def)
  then have "sample_id \<notin> droppable (recorded ''s'' sample_state) 7 1043 ''d'' ?w"
    by (auto simp: droppable_def sample_view sample_record_def split: if_splits)
  from conflict_drop_scoped [OF f w o(1-3) d cu this] show ?thesis
    using custody_cong [OF o(4)] d by simp
qed

end
