(* ===== verification/Spec2Isabelle.thy ===== *)
theory Spec2Isabelle
  imports Prelude Wire SseSpec RingConc ObserverSpec Promote Draw CollectorSpec WalletSafety Bech32Spec UpdateSafety FlushSafety ConflictSafety
begin

text \<open>
  Verification development for the drop-in miner.
\<close>

end
